(* ===== verification/JsObject.thy ===== *)
theory JsObject
  imports Prelude
begin

text \<open>
  The JavaScript values that \<^verbatim>\<open>internal/server/ui/viz.js\<close> reads and writes: property
  values, objects as ordered lists of own properties, and a heap for the arrays that several
  objects can share.  The theory also holds the object helper of that file,
  \<^verbatim>\<open>_extends\<close>, which copies own properties from several sources into a target.
\<close>

section \<open>Values, objects, arrays\<close>

datatype jsval =
    Undefined
  | Null
  | JBool bool
  | JNum int
  | JStr string
  | JRef nat \<comment> \<open>a reference to an array of the heap\<close>

text \<open>The own properties of an object in creation order; the keys are distinct.\<close>

type_synonym jsobj = "(string \<times> jsval) list"

definition wf_obj :: "jsobj \<Rightarrow> bool" where
  "wf_obj ob \<longleftrightarrow> distinct (map fst ob)"

text \<open>Reading a property that is absent gives \<^verbatim>\<open>undefined\<close>.\<close>

definition get_prop :: "jsobj \<Rightarrow> string \<Rightarrow> jsval" where
  "get_prop ob k = (case map_of ob k of None \<Rightarrow> Undefined | Some v \<Rightarrow> v)"

datatype js_error =
    TypeError string
  | URIError
  | InvalidCharacterError
  | JsError string

record heap =
  next_ref :: nat
  arrays :: "nat \<rightharpoonup> jsobj list"

definition wf_heap :: "heap \<Rightarrow> bool" where
  "wf_heap h \<longleftrightarrow> (\<forall>a. arrays h a \<noteq> None \<longrightarrow> a < next_ref h)"

definition new_array :: "heap \<Rightarrow> jsval \<times> heap" where
  "new_array h = (JRef (next_ref h),
     h\<lparr>next_ref := Suc (next_ref h), arrays := (arrays h)(next_ref h \<mapsto> [])\<rparr>)"

definition set_array :: "heap \<Rightarrow> nat \<Rightarrow> jsobj list \<Rightarrow> heap" where
  "set_array h a xs = h\<lparr>arrays := (arrays h)(a \<mapsto> xs)\<rparr>"

lemma arrays_set_array [simp]: "arrays (set_array h a xs) = (arrays h)(a \<mapsto> xs)"
  and next_ref_set_array [simp]: "next_ref (set_array h a xs) = next_ref h"
  by (simp_all add: set_array_def)

lemma set_array_twice [simp]: "set_array (set_array h a xs) a ys = set_array h a ys"
  by (simp add: set_array_def)

lemma set_array_same: "arrays h a = Some xs \<Longrightarrow> set_array h a xs = h"
  by (simp add: set_array_def fun_upd_idem)

lemma wf_heap_set_array [wf_intros]: "wf_heap h \<Longrightarrow> a < next_ref h \<Longrightarrow> wf_heap (set_array h a xs)"
  by (auto simp: wf_heap_def)

lemma wf_heap_new_array [wf_intros]: "wf_heap h \<Longrightarrow> wf_heap (snd (new_array h))"
  by (auto simp: wf_heap_def new_array_def less_Suc_eq)

lemma get_prop_Nil [simp]: "get_prop [] k = Undefined"
  by (simp add: get_prop_def)

lemma wf_obj_update [wf_intros]: "wf_obj ob \<Longrightarrow> wf_obj (AList.update k v ob)"
  by (simp add: wf_obj_def distinct_update)

section \<open>Promises\<close>

datatype ('e, 'v) promise = Pending | Resolved 'v | Rejected 'e

text \<open>Only the first call of resolve or reject has an effect.\<close>

definition settle :: "('e, 'v) promise \<Rightarrow> ('e, 'v) promise \<Rightarrow> ('e, 'v) promise" where
  "settle new old = (case old of Pending \<Rightarrow> new | _ \<Rightarrow> old)"

definition promise_of :: "'e + 'v \<Rightarrow> ('e, 'v) promise" where
  "promise_of r = (case r of Inl e \<Rightarrow> Rejected e | Inr v \<Rightarrow> Resolved v)"

text \<open>\<^verbatim>\<open>p.then(f)\<close>, when f does not throw.\<close>

definition promise_then :: "('v \<Rightarrow> 'w) \<Rightarrow> ('e, 'v) promise \<Rightarrow> ('e, 'w) promise" where
  "promise_then f p = map_promise id f p"

section \<open>String conversion\<close>

text \<open>
  What string concatenation does to the values above.  An array of objects is converted by joining
  the conversions of its elements.
\<close>

definition to_js_string :: "heap \<Rightarrow> jsval \<Rightarrow> string" where
  "to_js_string h v = (case v of
      Undefined \<Rightarrow> ''undefined''
    | Null \<Rightarrow> ''null''
    | JBool b \<Rightarrow> (if b then ''true'' else ''false'')
    | JNum i \<Rightarrow> int_to_dec i
    | JStr s \<Rightarrow> s
    | JRef a \<Rightarrow> (case arrays h a of
          None \<Rightarrow> ''''
        | Some xs \<Rightarrow> join_with '','' (map (\<lambda>_. ''[object Object]'') xs)))"

section \<open>Copying own properties\<close>

text \<open>
  \<^verbatim>\<open>_extends(target, source, ...)\<close>: each own property of each source, in order, is assigned
  to the target; a source that is \<^verbatim>\<open>undefined\<close> or \<^verbatim>\<open>null\<close> has none.
\<close>

fun copy_props :: "jsobj \<Rightarrow> jsobj \<Rightarrow> jsobj" where
  "copy_props target [] = target"
| "copy_props target ((k, v) # props) = copy_props (AList.update k v target) props"

fun extends_obj :: "jsobj \<Rightarrow> jsobj option list \<Rightarrow> jsobj" where
  "extends_obj target [] = target"
| "extends_obj target (None # sources) = extends_obj target sources"
| "extends_obj target (Some source # sources) = extends_obj (copy_props target source) sources"

lemma map_of_copy_props:
  "wf_obj source \<Longrightarrow> map_of (copy_props target source) = map_of target ++ map_of source"
proof (induction target source rule: copy_props.induct)
  case (1 target)
  then show ?case by simp
next
  case (2 target k v props)
  then have k: "k \<notin> fst ` set props" and wf: "wf_obj props"
    by (auto simp: wf_obj_def)
  then have "map_of props k = None"
    by (simp add: map_of_eq_None_iff)
  with "2.IH" [OF wf] show ?case
    by (auto simp: update_conv' fun_eq_iff map_add_def split: option.splits)
qed

lemma wf_copy_props [wf_intros]: "wf_obj target \<Longrightarrow> wf_obj (copy_props target source)"
  by (induction target source rule: copy_props.induct) (auto intro: wf_intros)

lemma wf_extends_obj [wf_intros]: "wf_obj target \<Longrightarrow> wf_obj (extends_obj target sources)"
  by (induction target sources rule: extends_obj.induct) (auto intro: wf_intros)

lemma get_extends_last:
  assumes "wf_obj source"
  shows "get_prop (extends_obj target (sources @ [Some source])) k =
    (case map_of source k of
       Some v \<Rightarrow> v
     | None \<Rightarrow> get_prop (extends_obj target sources) k)"
  using assms
  by (induction target sources rule: extends_obj.induct)
     (auto simp: get_prop_def map_of_copy_props map_add_def split: option.splits)

text \<open>
  The form in which viz.js uses it: a fresh object, the options of the caller, and one property
  that must win.
\<close>

lemma get_extends_override:
  assumes "wf_obj options"
  shows "get_prop (extends_obj [] [Some options, Some [(k, v)]]) k' =
    (if k' = k then v else get_prop options k')"
proof -
  have "wf_obj [(k, v)]" by (simp add: wf_obj_def)
  from get_extends_last [OF this, of "[]" "[Some options]" k'] assms
  show ?thesis by (auto simp: get_prop_def map_of_copy_props)
qed

lemma get_extends_override_None:
  "get_prop (extends_obj [] [None, Some [(k, v)]]) k' = (if k' = k then v else Undefined)"
  by (simp add: get_prop_def)

end
