(* ===== verification/VizOptions.thy ===== *)
theory VizOptions
  imports JsObject
begin

text \<open>
  The public methods of the class Viz of \<^verbatim>\<open>internal/server/ui/viz.js\<close> up to the
  message they hand to their wrapper: renderString, renderSVGElement, renderImageElement and
  renderJSONObject.  Options are objects whose array-valued properties live in the heap, so that
  what happens to an array of the caller is visible.  renderString pushes one stub file for each
  image onto the files array it was given; the loop reads the length of the images array again in
  each round, and it is a partial function because the two arrays can be the same.
\<close>

section \<open>Arrays of the heap\<close>

definition array_length :: "heap \<Rightarrow> jsval \<Rightarrow> js_error + nat" where
  "array_length h v = (case v of
      Undefined \<Rightarrow> Inl (TypeError ''length of undefined'')
    | Null \<Rightarrow> Inl (TypeError ''length of null'')
    | JBool _ \<Rightarrow> Inr 0
    | JNum _ \<Rightarrow> Inr 0
    | JStr s \<Rightarrow> Inr (length s)
    | JRef a \<Rightarrow> Inr (case arrays h a of None \<Rightarrow> 0 | Some xs \<Rightarrow> length xs))"

definition array_get :: "heap \<Rightarrow> jsval \<Rightarrow> nat \<Rightarrow> jsobj" where
  "array_get h v i = (case v of
      JRef a \<Rightarrow> (case arrays h a of
          None \<Rightarrow> []
        | Some xs \<Rightarrow> if i < length xs then xs ! i else [])
    | _ \<Rightarrow> [])"

definition array_push :: "heap \<Rightarrow> jsval \<Rightarrow> jsobj \<Rightarrow> js_error + heap" where
  "array_push h v ob = (case v of
      JRef a \<Rightarrow> (case arrays h a of
          None \<Rightarrow> Inl (TypeError ''push is not a function'')
        | Some xs \<Rightarrow> Inr (set_array h a (xs @ [ob])))
    | _ \<Rightarrow> Inl (TypeError ''push is not a function''))"

section \<open>renderString\<close>

datatype js_arg = ArgUndefined | ArgNull | ArgObj jsobj

record render_request =
  rq_src :: string
  rq_format :: jsval
  rq_engine :: jsval
  rq_files :: jsval
  rq_images :: jsval
  rq_yInvert :: jsval
  rq_nop :: jsval

definition default_to :: "jsval \<Rightarrow> jsval \<Rightarrow> jsval" where
  "default_to d v = (if v = Undefined then d else v)"

definition array_or_new :: "heap \<Rightarrow> jsval \<Rightarrow> jsval \<times> heap" where
  "array_or_new h v = (if v = Undefined then new_array h else (v, h))"

definition svg_stub :: "string \<Rightarrow> string \<Rightarrow> string" where
  "svg_stub width height =
     ''<?xml version=\"1.0\" encoding=\"UTF-8\" standalone=\"no\"?>'' @ [CHR 0x0A] @
     ''<!DOCTYPE svg PUBLIC \"-//W3C//DTD SVG 1.1//EN\" \"http://www.w3.org/Graphics/SVG/1.1/DTD/svg11.dtd\">''
     @ [CHR 0x0A] @
     ''<svg width=\"'' @ width @ ''\" height=\"'' @ height @ ''\"></svg>''"

definition image_file :: "heap \<Rightarrow> jsobj \<Rightarrow> jsobj" where
  "image_file h img =
     [(''path'', get_prop img ''path''),
      (''data'', JStr (svg_stub (to_js_string h (get_prop img ''width''))
                                (to_js_string h (get_prop img ''height''))))]"

partial_function (option) push_images ::
  "jsval \<Rightarrow> jsval \<Rightarrow> nat \<Rightarrow> heap \<Rightarrow> (js_error + heap) option" where
  "push_images files images i h =
     (case array_length h images of
        Inl e \<Rightarrow> Some (Inl e)
      | Inr n \<Rightarrow>
          if i < n
          then (case array_push h files (image_file h (array_get h images i)) of
                  Inl e \<Rightarrow> Some (Inl e)
                | Inr h' \<Rightarrow> push_images files images (Suc i) h')
          else Some (Inr h))"

definition renderString ::
  "heap \<Rightarrow> string \<Rightarrow> js_arg \<Rightarrow> (js_error + heap \<times> render_request) option" where
  "renderString h src arg = (case arg of
      ArgNull \<Rightarrow> Some (Inl (TypeError ''property of null''))
    | _ \<Rightarrow>
       (let ob = (case arg of ArgObj ob \<Rightarrow> ob | _ \<Rightarrow> []);
            format = default_to (JStr ''svg'') (get_prop ob ''format'');
            engine = default_to (JStr ''dot'') (get_prop ob ''engine'');
            (files, h1) = array_or_new h (get_prop ob ''files'');
            (images, h2) = array_or_new h1 (get_prop ob ''images'');
            yInvert = default_to (JBool False) (get_prop ob ''yInvert'');
            nop = default_to (JNum 0) (get_prop ob ''nop'')
        in case push_images files images 0 h2 of
             None \<Rightarrow> None
           | Some (Inl e) \<Rightarrow> Some (Inl e)
           | Some (Inr h3) \<Rightarrow> Some (Inr (h3,
               \<lparr>rq_src = src, rq_format = format, rq_engine = engine, rq_files = files,
                rq_images = images, rq_yInvert = yInvert, rq_nop = nop\<rparr>))))"

section \<open>The other methods\<close>

text \<open>
  Each of them copies the options of its caller into a fresh object, forces the format, and calls
  renderString; what it does to the answer is applied to the resolved string (parse it as XML,
  draw it, or parse it as JSON).
\<close>

definition arg_sources :: "js_arg \<Rightarrow> jsobj option" where
  "arg_sources arg = (case arg of ArgUndefined \<Rightarrow> Some [] | ArgNull \<Rightarrow> None | ArgObj ob \<Rightarrow> Some ob)"

definition force_format :: "js_arg \<Rightarrow> string \<Rightarrow> jsobj" where
  "force_format arg format =
     extends_obj [] [arg_sources arg, Some [(''format'', JStr format)]]"

definition renderSVGElement ::
  "heap \<Rightarrow> string \<Rightarrow> js_arg \<Rightarrow> (js_error + heap \<times> render_request) option" where
  "renderSVGElement h src arg = renderString h src (ArgObj (force_format arg ''svg''))"

definition renderImageElement ::
  "heap \<Rightarrow> string \<Rightarrow> js_arg \<Rightarrow> (js_error + heap \<times> render_request) option" where
  "renderImageElement h src arg = (case arg of
      ArgNull \<Rightarrow> Some (Inl (TypeError ''property of null''))
    | _ \<Rightarrow> renderString h src (ArgObj (force_format arg ''svg'')))"

text \<open>The condition of renderJSONObject is kept as the code has it, a disjunction of inequalities.\<close>

definition json_format :: "jsval \<Rightarrow> jsval" where
  "json_format format =
     (if format \<noteq> JStr ''json'' \<or> format \<noteq> JStr ''json0'' then JStr ''json'' else format)"

definition renderJSONObject ::
  "heap \<Rightarrow> string \<Rightarrow> js_arg \<Rightarrow> (js_error + heap \<times> render_request) option" where
  "renderJSONObject h src arg = (case arg of
      ArgNull \<Rightarrow> Some (Inl (TypeError ''property of null''))
    | _ \<Rightarrow>
       (let ob = (case arg of ArgObj ob \<Rightarrow> ob | _ \<Rightarrow> [])
        in renderString h src (ArgObj (extends_obj [] [Some ob,
             Some [(''format'', json_format (get_prop ob ''format''))]]))))"

section \<open>The image loop\<close>

lemmas heap_op_defs = array_length_def array_get_def array_push_def

text \<open>The loop never returns exactly when it appends to the array whose length it reads.\<close>

definition aliased :: "heap \<Rightarrow> jsval \<Rightarrow> jsval \<Rightarrow> nat \<Rightarrow> bool" where
  "aliased h files images i \<longleftrightarrow>
     (case (files, images) of
        (JRef a, JRef b) \<Rightarrow> a = b \<and> (case arrays h a of None \<Rightarrow> False | Some xs \<Rightarrow> i < length xs)
      | _ \<Rightarrow> False)"

lemma aliased_iff:
  "aliased h files images i \<longleftrightarrow>
     (\<exists>a xs. files = JRef a \<and> images = JRef a \<and> arrays h a = Some xs \<and> i < length xs)"
  by (auto simp: aliased_def split: jsval.splits option.splits)

lemma aliased_step:
  assumes "aliased h files images i"
  obtains n h' where "array_length h images = Inr n" "i < n"
    and "array_push h files (image_file h (array_get h images i)) = Inr h'"
    and "aliased h' files images (Suc i)"
  using assms by (auto simp: heap_op_defs aliased_iff)

lemma push_images_alias_diverges: "aliased h files images i \<Longrightarrow> push_images files images i h = None"
proof -
  have "\<not> aliased h files images i" if "push_images files images i h = Some r" for r
  proof (rule push_images.raw_induct
      [where P = "\<lambda>files images i h r. \<not> aliased h files images i", OF _ that])
    fix f :: "jsval \<Rightarrow> jsval \<Rightarrow> nat \<Rightarrow> heap \<Rightarrow> (js_error + heap) option"
    fix files images i h r
    assume IH: "\<And>files images i h r. f files images i h = Some r \<Longrightarrow> \<not> aliased h files images i"
      and eq: "(case array_length h images of
          Inl e \<Rightarrow> Some (Inl e)
        | Inr n \<Rightarrow> if i < n
            then (case array_push h files (image_file h (array_get h images i)) of
                    Inl e \<Rightarrow> Some (Inl e) | Inr h' \<Rightarrow> f files images (Suc i) h')
            else Some (Inr h)) = Some r"
    show "\<not> aliased h files images i"
    proof
      assume "aliased h files images i"
      then obtain n h' where "array_length h images = Inr n" "i < n"
        "array_push h files (image_file h (array_get h images i)) = Inr h'"
        "aliased h' files images (Suc i)"
        by (rule aliased_step)
      with eq IH show False by auto
    qed
  qed
  then show "aliased h files images i \<Longrightarrow> push_images files images i h = None"
    by (cases "push_images files images i h") auto
qed

lemma array_push_length:
  assumes "array_push h files ob = Inr h'" and "files \<noteq> images"
  shows "array_length h' images = array_length h images"
  using assms by (auto simp: heap_op_defs split: jsval.splits option.splits if_splits)

lemma push_images_terminates:
  assumes "\<not> aliased h files images i"
  shows "push_images files images i h \<noteq> None"
proof (cases "array_length h images")
  case (Inl e)
  then show ?thesis by (simp add: push_images.simps)
next
  case (Inr n)
  show ?thesis
  proof (cases "files = images \<and> i < n")
    case True
    with assms Inr obtain e where "array_push h files (image_file h (array_get h images i)) = Inl e"
      by (auto simp: heap_op_defs aliased_def split: jsval.splits option.splits)
    with Inr True show ?thesis
      by (subst push_images.simps) simp
  next
    case False
    then have ni: "i < n \<Longrightarrow> files \<noteq> images" by simp
    show ?thesis using Inr ni
    proof (induction "n - i" arbitrary: i h)
      case 0
      then show ?case by (simp add: push_images.simps [of files images i h])
    next
      case (Suc d)
      then show ?case
        by (subst push_images.simps)
           (auto simp: array_push_length split: sum.split)
    qed
  qed
qed

theorem push_images_None_iff:
  "push_images files images i h = None \<longleftrightarrow> aliased h files images i"
  using push_images_alias_diverges push_images_terminates by blast

text \<open>What the loop does to the heap when it returns.\<close>

definition plain_image :: "jsobj \<Rightarrow> bool" where
  "plain_image img \<longleftrightarrow>
     (\<forall>k \<in> {''width'', ''height''}. case get_prop img k of JRef _ \<Rightarrow> False | _ \<Rightarrow> True)"

lemma image_file_heap_irrelevant: "plain_image img \<Longrightarrow> image_file h img = image_file h' img"
  by (auto simp: plain_image_def image_file_def to_js_string_def split: jsval.splits)

lemma push_images_from:
  assumes "arrays h a = Some fs" "arrays h b = Some imgs" "a \<noteq> b"
    and "\<forall>img \<in> set imgs. plain_image img"
  shows "push_images (JRef a) (JRef b) i h =
    Some (Inr (set_array h a (fs @ map (image_file h) (drop i imgs))))"
  using assms
proof (induction "length imgs - i" arbitrary: i fs h)
  case 0
  then have "push_images (JRef a) (JRef b) i h = Some (Inr h)"
    by (subst push_images.simps) (simp add: heap_op_defs)
  with 0 show ?case by (simp add: set_array_same)
next
  case (Suc d)
  then have i: "i < length imgs" by simp
  let ?h = "set_array h a (fs @ [image_file h (imgs ! i)])"
  have "push_images (JRef a) (JRef b) i h = push_images (JRef a) (JRef b) (Suc i) ?h"
    using i Suc.prems by (subst push_images.simps) (simp add: heap_op_defs)
  also have "\<dots> = Some (Inr (set_array ?h a
      ((fs @ [image_file h (imgs ! i)]) @ map (image_file ?h) (drop (Suc i) imgs))))"
    using Suc.hyps(2) Suc.prems by (intro Suc.hyps(1)) auto
  also have "map (image_file ?h) (drop (Suc i) imgs) = map (image_file h) (drop (Suc i) imgs)"
    using Suc.prems(4) by (auto intro!: image_file_heap_irrelevant dest: in_set_dropD)
  finally show ?case
    using i by (simp add: Cons_nth_drop_Suc [symmetric])
qed

section \<open>renderString as a whole\<close>

text \<open>The two arrays renderString works on, and the heap after the default ones are made.\<close>

definition call_arrays :: "heap \<Rightarrow> jsobj \<Rightarrow> jsval \<times> jsval \<times> heap" where
  "call_arrays h ob =
     (let (files, h1) = array_or_new h (get_prop ob ''files'');
          (images, h2) = array_or_new h1 (get_prop ob ''images'')
      in (files, images, h2))"

definition request_of :: "string \<Rightarrow> jsobj \<Rightarrow> jsval \<Rightarrow> jsval \<Rightarrow> render_request" where
  "request_of src ob files images =
     \<lparr>rq_src = src, rq_format = default_to (JStr ''svg'') (get_prop ob ''format''),
      rq_engine = default_to (JStr ''dot'') (get_prop ob ''engine''), rq_files = files,
      rq_images = images, rq_yInvert = default_to (JBool False) (get_prop ob ''yInvert''),
      rq_nop = default_to (JNum 0) (get_prop ob ''nop'')\<rparr>"

lemma renderString_ArgObj:
  "renderString h src (ArgObj ob) =
     (case call_arrays h ob of (files, images, h2) \<Rightarrow>
        map_option (map_sum id (\<lambda>h3. (h3, request_of src ob files images)))
          (push_images files images 0 h2))"
  by (auto simp: renderString_def call_arrays_def request_of_def Let_def
      split: prod.splits option.splits sum.splits)

lemma renderString_ArgUndefined [simp]:
  "renderString h src ArgUndefined = renderString h src (ArgObj [])"
  by (simp add: renderString_def)

lemma renderString_ArgNull [simp]:
  "renderString h src ArgNull = Some (Inl (TypeError ''property of null''))"
  by (simp add: renderString_def)

lemma call_arrays_aliased:
  assumes "call_arrays h ob = (files, images, h2)"
  shows "aliased h2 files images 0 \<longleftrightarrow>
    (\<exists>a xs. get_prop ob ''files'' = JRef a \<and> get_prop ob ''images'' = JRef a \<and>
       arrays h a = Some xs \<and> xs \<noteq> [])"
  using assms
  by (auto simp: call_arrays_def array_or_new_def aliased_iff new_array_def split: if_splits)

text \<open>
  C31: renderString returns (or throws) for every heap and every options value except one: when the
  caller passes the same non-empty array as files and as images, its loop never ends.
\<close>

theorem renderString_diverges_iff:
  "renderString h src arg = None \<longleftrightarrow>
    (\<exists>ob a xs. arg = ArgObj ob \<and> get_prop ob ''files'' = JRef a \<and>
       get_prop ob ''images'' = JRef a \<and> arrays h a = Some xs \<and> xs \<noteq> [])"
proof -
  have ob: "renderString h src (ArgObj ob) = None \<longleftrightarrow>
    (\<exists>a xs. get_prop ob ''files'' = JRef a \<and> get_prop ob ''images'' = JRef a \<and>
       arrays h a = Some xs \<and> xs \<noteq> [])" for ob
    using call_arrays_aliased [of h ob] push_images_None_iff
    by (auto simp: renderString_ArgObj split: prod.splits)
  from ob [of "[]"] show ?thesis
    by (cases arg) (simp_all add: ob)
qed

text \<open>
  when the caller passes two different arrays, every call of renderString appends one stub per
  image to the files array of the caller: after two calls with the same options the array holds
  its own files and then every stub twice.
\<close>

theorem renderString_grows_caller_files:
  assumes ob: "get_prop ob ''files'' = JRef a" "get_prop ob ''images'' = JRef b"
    and h: "arrays h a = Some fs" "arrays h b = Some imgs" "a \<noteq> b"
    and plain: "\<forall>img \<in> set imgs. plain_image img"
  shows "\<exists>h1 h2 rq.
    renderString h src (ArgObj ob) = Some (Inr (h1, rq)) \<and>
    arrays h1 a = Some (fs @ map (image_file h) imgs) \<and>
    renderString h1 src (ArgObj ob) = Some (Inr (h2, rq)) \<and>
    arrays h2 a = Some (fs @ map (image_file h) imgs @ map (image_file h) imgs)"
proof -
  let ?h1 = "set_array h a (fs @ map (image_file h) imgs)"
  have ca: "call_arrays k ob = (JRef a, JRef b, k)" for k
    by (simp add: call_arrays_def array_or_new_def ob)
  have one: "renderString h src (ArgObj ob) = Some (Inr (?h1, request_of src ob (JRef a) (JRef b)))"
    by (simp add: renderString_ArgObj ca push_images_from [OF h plain])
  have h1: "arrays ?h1 a = Some (fs @ map (image_file h) imgs)" "arrays ?h1 b = Some imgs"
    using h by simp_all
  have same: "map (image_file ?h1) imgs = map (image_file h) imgs"
    using plain by (auto intro!: image_file_heap_irrelevant)
  have "renderString ?h1 src (ArgObj ob) = Some (Inr
      (set_array ?h1 a ((fs @ map (image_file h) imgs) @ map (image_file h) imgs),
       request_of src ob (JRef a) (JRef b)))"
    using push_images_from [OF h1 h(3) plain, of 0]
    by (simp add: renderString_ArgObj ca same)
  with one h1 show ?thesis by auto
qed

definition demo_options :: jsobj where
  "demo_options = [(''files'', JRef 0), (''images'', JRef 1)]"

definition demo_heap :: heap where
  "demo_heap = \<lparr>next_ref = 2, arrays = [0 \<mapsto> [],
     1 \<mapsto> [[(''path'', JStr ''a.png''), (''width'', JNum 10), (''height'', JNum 20)]]]\<rparr>"

theorem renderString_grows_caller_files_witness:
  "\<exists>h1 h2 rq f.
    renderString demo_heap ''digraph {}'' (ArgObj demo_options) = Some (Inr (h1, rq)) \<and>
    arrays h1 0 = Some [f] \<and>
    renderString h1 ''digraph {}'' (ArgObj demo_options) = Some (Inr (h2, rq)) \<and>
    arrays h2 0 = Some [f, f]"
proof -
  have "get_prop demo_options ''files'' = JRef 0" "get_prop demo_options ''images'' = JRef 1"
    by (simp_all add: demo_options_def get_prop_def)
  moreover have "arrays demo_heap 0 = Some []"
    "arrays demo_heap 1 =
       Some [[(''path'', JStr ''a.png''), (''width'', JNum 10), (''height'', JNum 20)]]"
    by (simp_all add: demo_heap_def)
  ultimately show ?thesis
    using renderString_grows_caller_files [of demo_options 0 1 demo_heap "[]"
        "[[(''path'', JStr ''a.png''), (''width'', JNum 10), (''height'', JNum 20)]]" "''digraph {}''"]
    by (auto simp: plain_image_def get_prop_def)
qed

section \<open>The format the other methods ask for\<close>

lemma renderString_format:
  assumes "renderString h src (ArgObj ob) = Some (Inr (h', rq))"
  shows "rq_format rq = default_to (JStr ''svg'') (get_prop ob ''format'')"
proof -
  obtain files images h2 where ca: "call_arrays h ob = (files, images, h2)"
    by (cases "call_arrays h ob") auto
  with assms obtain x where "push_images files images 0 h2 = Some x"
    "map_sum id (\<lambda>h3. (h3, request_of src ob files images)) x = Inr (h', rq)"
    by (auto simp: renderString_ArgObj)
  then have "rq = request_of src ob files images" by (cases x) auto
  then show ?thesis by (simp add: request_of_def)
qed

lemma get_prop_force_format:
  assumes "\<And>ob. arg = ArgObj ob \<Longrightarrow> wf_obj ob"
  shows "get_prop (force_format arg format) ''format'' = JStr format"
  using assms
  by (cases arg)
     (auto simp: force_format_def arg_sources_def get_extends_override get_extends_override_None
        wf_obj_def simp del: extends_obj.simps)

text \<open>
  renderJSONObject always asks for the format json, whatever format its options name: its guard
  is a disjunction of two inequalities, which every value satisfies, so json0 cannot be requested.
\<close>

theorem renderJSONObject_format:
  assumes "renderJSONObject h src (ArgObj ob) = Some (Inr (h', rq))" and "wf_obj ob"
  shows "rq_format rq = JStr ''json''"
proof -
  have "json_format v = JStr ''json''" for v
    by (auto simp: json_format_def)
  with assms show ?thesis
    by (auto simp: renderJSONObject_def get_extends_override default_to_def
        simp del: extends_obj.simps dest!: renderString_format)
qed

theorem renderJSONObject_format_witness:
  "\<exists>h' rq. renderJSONObject demo_heap ''digraph {}''
       (ArgObj [(''format'', JStr ''json0'')]) = Some (Inr (h', rq)) \<and> rq_format rq = JStr ''json''"
proof -
  let ?ob = "[(''format'', JStr ''json0'')]"
  have "\<exists>h' rq. renderJSONObject demo_heap ''digraph {}'' (ArgObj ?ob) = Some (Inr (h', rq))"
    by (simp add: renderJSONObject_def renderString_ArgObj call_arrays_def get_prop_def
        array_or_new_def new_array_def push_images.simps heap_op_defs json_format_def)
  moreover have "wf_obj ?ob" by (simp add: wf_obj_def)
  ultimately show ?thesis using renderJSONObject_format by blast
qed

end
