(* ===== verification/VizBase64.thy ===== *)
theory VizBase64
  imports JsObject
begin

text \<open>
  \<^verbatim>\<open>b64EncodeUnicode\<close> of \<^verbatim>\<open>internal/server/ui/viz.js\<close>, which turns the SVG
  text into the payload of a data URI: percent-encode the string, replace each percent triple by
  the byte it names, and encode the resulting byte string in base64.  A JavaScript string is a list
  of 16-bit code units; \<^verbatim>\<open>encodeURIComponent\<close> and \<^verbatim>\<open>btoa\<close> follow the
  ECMAScript and HTML standards, lone surrogates and code units above 255 being their errors.
\<close>

type_synonym code_units = "16 word list"

section \<open>encodeURIComponent\<close>

text \<open>The code points of a string; a surrogate without its partner has none.\<close>

fun code_points :: "nat list \<Rightarrow> nat list option" where
  "code_points [] = Some []"
| "code_points (u # us) =
     (if u < 0xD800 \<or> 0xE000 \<le> u then map_option ((#) u) (code_points us)
      else if u < 0xDC00 then
        (case us of
           v # vs \<Rightarrow>
             if 0xDC00 \<le> v \<and> v < 0xE000
             then map_option ((#) (0x10000 + (u - 0xD800) * 0x400 + (v - 0xDC00))) (code_points vs)
             else None
         | [] \<Rightarrow> None)
      else None)"

definition utf8_octets :: "nat \<Rightarrow> nat list" where
  "utf8_octets cp =
     (if cp < 0x80 then [cp]
      else if cp < 0x800 then [0xC0 + cp div 64, 0x80 + cp mod 64]
      else if cp < 0x10000 then [0xE0 + cp div 4096, 0x80 + cp div 64 mod 64, 0x80 + cp mod 64]
      else [0xF0 + cp div 262144, 0x80 + cp div 4096 mod 64, 0x80 + cp div 64 mod 64, 0x80 + cp mod 64])"

definition uri_unreserved :: "nat \<Rightarrow> bool" where
  "uri_unreserved c \<longleftrightarrow>
     (65 \<le> c \<and> c \<le> 90) \<or> (97 \<le> c \<and> c \<le> 122) \<or> (48 \<le> c \<and> c \<le> 57) \<or>
     c \<in> {45, 95, 46, 33, 126, 42, 39, 40, 41}"

definition hex_digit :: "nat \<Rightarrow> nat" where
  "hex_digit d = (if d < 10 then 48 + d else 55 + d)"

definition percent_octet :: "nat \<Rightarrow> nat list" where
  "percent_octet b = [37, hex_digit (b div 16), hex_digit (b mod 16)]"

definition encode_point :: "nat \<Rightarrow> nat list" where
  "encode_point cp = (if uri_unreserved cp then [cp] else concat (map percent_octet (utf8_octets cp)))"

definition encodeURIComponent :: "nat list \<Rightarrow> js_error + nat list" where
  "encodeURIComponent us = (case code_points us of
      None \<Rightarrow> Inl URIError
    | Some cps \<Rightarrow> Inr (concat (map encode_point cps)))"

section \<open>The replacement of percent triples\<close>

definition is_hex_upper :: "nat \<Rightarrow> bool" where
  "is_hex_upper c \<longleftrightarrow> (48 \<le> c \<and> c \<le> 57) \<or> (65 \<le> c \<and> c \<le> 70)"

definition hex_value :: "nat \<Rightarrow> nat" where
  "hex_value c = (if c \<le> 57 then c - 48 else c - 55)"

text \<open>The global match of \<^verbatim>\<open>/%([0-9A-F]{2})/g\<close>, scanned from the left.\<close>

fun replace_percent :: "nat list \<Rightarrow> nat list" where
  "replace_percent (c # h # l # cs) =
     (if c = 37 \<and> is_hex_upper h \<and> is_hex_upper l
      then (hex_value h * 16 + hex_value l) # replace_percent cs
      else c # replace_percent (h # l # cs))"
| "replace_percent cs = cs"

section \<open>btoa\<close>

definition b64_char :: "nat \<Rightarrow> nat" where
  "b64_char v =
     (if v < 26 then 65 + v else if v < 52 then 71 + v else if v < 62 then v - 4
      else if v = 62 then 43 else 47)"

fun b64_chunks :: "nat list \<Rightarrow> nat list" where
  "b64_chunks [] = []"
| "b64_chunks [a] = [b64_char (a div 4), b64_char (a mod 4 * 16), 61, 61]"
| "b64_chunks [a, b] =
     [b64_char (a div 4), b64_char (a mod 4 * 16 + b div 16), b64_char (b mod 16 * 4), 61]"
| "b64_chunks (a # b # c # cs) =
     [b64_char (a div 4), b64_char (a mod 4 * 16 + b div 16), b64_char (b mod 16 * 4 + c div 64),
      b64_char (c mod 64)] @ b64_chunks cs"

definition btoa :: "nat list \<Rightarrow> js_error + nat list" where
  "btoa cs = (if \<forall>c \<in> set cs. c < 256 then Inr (b64_chunks cs) else Inl InvalidCharacterError)"

definition b64EncodeUnicode :: "code_units \<Rightarrow> js_error + nat list" where
  "b64EncodeUnicode str = (case encodeURIComponent (map unat str) of
      Inl e \<Rightarrow> Inl e
    | Inr enc \<Rightarrow> btoa (replace_percent enc))"

section \<open>The bytes are the UTF-8 form of the text\<close>

lemma utf8_octets_byte: "cp < 0x110000 \<Longrightarrow> b \<in> set (utf8_octets cp) \<Longrightarrow> b < 256"
  by (auto simp: utf8_octets_def split: if_splits; linarith)

lemma code_points_bound:
  "code_points us = Some cps \<Longrightarrow> \<forall>u \<in> set us. u < 65536 \<Longrightarrow> cp \<in> set cps \<Longrightarrow> cp < 0x110000"
proof (induction us arbitrary: cps cp rule: code_points.induct)
  case 1
  then show ?case by simp
next
  case (2 u us)
  show ?case
  proof (cases "u < 0xD800 \<or> 0xE000 \<le> u")
    case True
    with 2 show ?thesis by fastforce
  next
    case False
    with "2.prems" obtain v vs c' where *: "u < 0xDC00" "us = v # vs" "0xDC00 \<le> v" "v < 0xE000"
      "code_points vs = Some c'" "cps = (0x10000 + (u - 0xD800) * 0x400 + (v - 0xDC00)) # c'"
      by (auto split: if_splits list.splits)
    have rest: "\<And>c. c \<in> set c' \<Longrightarrow> c < 0x110000"
      using "2.IH"(2) [of v vs c'] False * "2.prems" by auto
    have "0x10000 + (u - 0xD800) * 0x400 + (v - 0xDC00) < 0x110000"
      using * by simp
    with rest * "2.prems"(3) show ?thesis by auto
  qed
qed

lemma hex_digit_roundtrip: "d < 16 \<Longrightarrow> is_hex_upper (hex_digit d) \<and> hex_value (hex_digit d) = d"
  by (auto simp: is_hex_upper_def hex_digit_def hex_value_def)

lemma replace_percent_octet: "b < 256 \<Longrightarrow> replace_percent (percent_octet b @ cs) = b # replace_percent cs"
proof -
  assume b: "b < 256"
  then have "b div 16 < 16" "b mod 16 < 16" by auto
  with hex_digit_roundtrip show ?thesis
    by (simp add: percent_octet_def)
qed

lemma replace_percent_octets:
  "\<forall>b \<in> set bs. b < 256 \<Longrightarrow>
    replace_percent (concat (map percent_octet bs) @ cs) = bs @ replace_percent cs"
  by (induction bs) (auto simp: replace_percent_octet)

lemma replace_percent_other: "c \<noteq> 37 \<Longrightarrow> replace_percent (c # cs) = c # replace_percent cs"
  by (cases cs rule: replace_percent.cases) auto

lemma replace_encode_point:
  assumes "cp < 0x110000"
  shows "replace_percent (encode_point cp @ cs) = utf8_octets cp @ replace_percent cs"
proof (cases "uri_unreserved cp")
  case True
  then have "cp \<noteq> 37" "cp < 0x80" by (auto simp: uri_unreserved_def)
  with True show ?thesis
    by (simp add: encode_point_def replace_percent_other utf8_octets_def)
next
  case False
  with assms show ?thesis
    by (simp add: encode_point_def replace_percent_octets utf8_octets_byte)
qed

lemma replace_encode:
  "\<forall>cp \<in> set cps. cp < 0x110000 \<Longrightarrow>
    replace_percent (concat (map encode_point cps)) = concat (map utf8_octets cps)"
  by (induction cps) (auto simp: replace_encode_point)

section \<open>Reading the payload back\<close>

text \<open>
  The reader of a data URI: base64 to bytes, bytes to code points, code points to code units.
\<close>

definition b64_value :: "nat \<Rightarrow> nat option" where
  "b64_value c =
     (if 65 \<le> c \<and> c \<le> 90 then Some (c - 65)
      else if 97 \<le> c \<and> c \<le> 122 then Some (c - 71)
      else if 48 \<le> c \<and> c \<le> 57 then Some (c + 4)
      else if c = 43 then Some 62
      else if c = 47 then Some 63
      else None)"

fun b64_decode :: "nat list \<Rightarrow> nat list option" where
  "b64_decode [] = Some []"
| "b64_decode (w # x # y # z # cs) =
     (case (b64_value w, b64_value x) of
        (Some p, Some q) \<Rightarrow>
          (if y = 61 \<and> z = 61 \<and> cs = [] then Some [p * 4 + q div 16]
           else case b64_value y of
                  None \<Rightarrow> None
                | Some r \<Rightarrow>
                    if z = 61 \<and> cs = [] then Some [p * 4 + q div 16, q mod 16 * 16 + r div 4]
                    else (case (b64_value z, b64_decode cs) of
                            (Some s, Some bs) \<Rightarrow>
                              Some ((p * 4 + q div 16) # (q mod 16 * 16 + r div 4)
                                    # (r mod 4 * 64 + s) # bs)
                          | _ \<Rightarrow> None))
      | _ \<Rightarrow> None)"
| "b64_decode _ = None"

definition cont :: "nat \<Rightarrow> bool" where
  "cont b \<longleftrightarrow> 0x80 \<le> b \<and> b < 0xC0"

fun utf8_decode :: "nat list \<Rightarrow> nat list option" where
  "utf8_decode [] = Some []"
| "utf8_decode (b # bs) =
     (if b < 0x80 then map_option ((#) b) (utf8_decode bs)
      else if b < 0xE0 then
        (case bs of
           c1 # r \<Rightarrow> if cont c1 then map_option ((#) ((b - 0xC0) * 64 + (c1 - 0x80))) (utf8_decode r)
                    else None
         | _ \<Rightarrow> None)
      else if b < 0xF0 then
        (case bs of
           c1 # c2 # r \<Rightarrow>
             if cont c1 \<and> cont c2
             then map_option ((#) ((b - 0xE0) * 4096 + (c1 - 0x80) * 64 + (c2 - 0x80))) (utf8_decode r)
             else None
         | _ \<Rightarrow> None)
      else
        (case bs of
           c1 # c2 # c3 # r \<Rightarrow>
             if cont c1 \<and> cont c2 \<and> cont c3
             then map_option ((#) ((b - 0xF0) * 262144 + (c1 - 0x80) * 4096
                                   + (c2 - 0x80) * 64 + (c3 - 0x80))) (utf8_decode r)
             else None
         | _ \<Rightarrow> None))"

definition units_of_point :: "nat \<Rightarrow> nat list" where
  "units_of_point cp =
     (if cp < 0x10000 then [cp]
      else [0xD800 + (cp - 0x10000) div 0x400, 0xDC00 + (cp - 0x10000) mod 0x400])"

definition read_payload :: "nat list \<Rightarrow> nat list option" where
  "read_payload cs = (case b64_decode cs of
      None \<Rightarrow> None
    | Some bs \<Rightarrow> map_option (\<lambda>cps. concat (map units_of_point cps)) (utf8_decode bs))"

lemma b64_value_char [simp]: "v < 64 \<Longrightarrow> b64_value (b64_char v) = Some v"
  by (auto simp: b64_value_def b64_char_def)

lemma b64_char_not_pad [simp]: "v < 64 \<Longrightarrow> b64_char v \<noteq> 61"
  by (auto simp: b64_char_def)

lemma pack_split:
  assumes "y < (k::nat)"
  shows "(x * k + y) div k = x" "(x * k + y) mod k = y"
  using assms by simp_all

lemma b64_bits2:
  assumes a: "a < 256" and b: "(b::nat) < 256"
  shows "a div 4 < 64" "a mod 4 * 16 + b div 16 < 64" "a mod 4 * 16 < 64" "b mod 16 * 4 < 64"
    and "a div 4 * 4 + (a mod 4 * 16 + b div 16) div 16 = a"
    and "a div 4 * 4 + a mod 4 * 16 div 16 = a"
    and "(a mod 4 * 16 + b div 16) mod 16 * 16 + b mod 16 * 4 div 4 = b"
proof -
  have m: "a mod 4 < 4" "b mod 16 < 16" "b div 16 < 16" using b by auto
  show "a div 4 < 64" using a by auto
  show "a mod 4 * 16 + b div 16 < 64" "a mod 4 * 16 < 64" "b mod 16 * 4 < 64"
    using m by linarith+
  show "a div 4 * 4 + (a mod 4 * 16 + b div 16) div 16 = a"
    using pack_split(1) [OF m(3), of "a mod 4"] by simp
  show "a div 4 * 4 + a mod 4 * 16 div 16 = a" by simp
  show "(a mod 4 * 16 + b div 16) mod 16 * 16 + b mod 16 * 4 div 4 = b"
    using pack_split(2) [OF m(3), of "a mod 4"] by simp
qed

lemma b64_bits3:
  assumes b: "b < 256" and c: "(c::nat) < 256"
  shows "b mod 16 * 4 + c div 64 < 64" "c mod 64 < 64"
    and "(a mod 4 * 16 + b div 16) mod 16 * 16 + (b mod 16 * 4 + c div 64) div 4 = b"
    and "(b mod 16 * 4 + c div 64) mod 4 * 64 + c mod 64 = c"
proof -
  have m: "b mod 16 < 16" "b div 16 < 16" "c div 64 < 4" using b c by auto
  show "b mod 16 * 4 + c div 64 < 64" using m by linarith
  show "c mod 64 < 64" by simp
  show "(a mod 4 * 16 + b div 16) mod 16 * 16 + (b mod 16 * 4 + c div 64) div 4 = b"
    using pack_split(2) [OF m(2), of "a mod 4"] pack_split(1) [OF m(3), of "b mod 16"] by simp
  show "(b mod 16 * 4 + c div 64) mod 4 * 64 + c mod 64 = c"
    using pack_split(2) [OF m(3), of "b mod 16"] by simp
qed

lemma b64_roundtrip: "\<forall>c \<in> set cs. c < 256 \<Longrightarrow> b64_decode (b64_chunks cs) = Some cs"
proof (induction cs rule: b64_chunks.induct)
  case (2 a)
  then show ?case using b64_bits2 [of a 0] by simp
next
  case (3 a b)
  then show ?case using b64_bits2 [of a b] by simp
next
  case (4 a b c cs)
  moreover from this have "b div 16 < 16" by auto
  ultimately show ?case using b64_bits2 [of a b] b64_bits3 [of b c] by simp
qed simp

lemma sextets:
  "(cp::nat) div 64 * 64 + cp mod 64 = cp"
  "cp div 4096 * 4096 + cp div 64 mod 64 * 64 + cp mod 64 = cp"
  "cp div 262144 * 262144 + cp div 4096 mod 64 * 4096 + cp div 64 mod 64 * 64 + cp mod 64 = cp"
proof -
  have q: "cp div 4096 = cp div 64 div 64" "cp div 262144 = cp div 64 div 64 div 64"
    by (simp_all flip: div_mult2_eq)
  show 1: "cp div 64 * 64 + cp mod 64 = cp" by simp
  have 2: "cp div 64 = cp div 64 div 64 * 64 + cp div 64 mod 64" by simp
  have 3: "cp div 64 div 64 = cp div 64 div 64 div 64 * 64 + cp div 64 div 64 mod 64" by simp
  show "cp div 4096 * 4096 + cp div 64 mod 64 * 64 + cp mod 64 = cp"
    using 1 2 unfolding q by linarith
  show "cp div 262144 * 262144 + cp div 4096 mod 64 * 4096 + cp div 64 mod 64 * 64 + cp mod 64 = cp"
    using 1 2 3 unfolding q by linarith
qed

lemma utf8_roundtrip_point:
  assumes "cp < 0x110000"
  shows "utf8_decode (utf8_octets cp @ bs) = map_option ((#) cp) (utf8_decode bs)"
proof -
  consider "cp < 0x80" | "0x80 \<le> cp" "cp < 0x800" | "0x800 \<le> cp" "cp < 0x10000" | "0x10000 \<le> cp"
    by linarith
  then show ?thesis
  proof cases
    case 1
    then show ?thesis by (simp add: utf8_octets_def)
  next
    case 2
    then have "cp div 64 < 32" by auto
    with 2 sextets(1) [of cp] show ?thesis by (simp add: utf8_octets_def cont_def)
  next
    case 3
    then have "cp div 4096 < 16" by auto
    with 3 sextets(2) [of cp] show ?thesis by (simp add: utf8_octets_def cont_def)
  next
    case 4
    with sextets(3) [of cp] show ?thesis by (simp add: utf8_octets_def cont_def)
  qed
qed

lemma utf8_roundtrip:
  "\<forall>cp \<in> set cps. cp < 0x110000 \<Longrightarrow> utf8_decode (concat (map utf8_octets cps)) = Some cps"
  by (induction cps) (simp_all add: utf8_roundtrip_point del: utf8_decode.simps(2))

lemma units_of_code_points:
  "code_points us = Some cps \<Longrightarrow> \<forall>u \<in> set us. u < 65536 \<Longrightarrow> concat (map units_of_point cps) = us"
proof (induction us arbitrary: cps rule: code_points.induct)
  case 1
  then show ?case by simp
next
  case (2 u us)
  show ?case
  proof (cases "u < 0xD800 \<or> 0xE000 \<le> u")
    case True
    with 2 show ?thesis by (auto simp: units_of_point_def)
  next
    case False
    with "2.prems" obtain v vs c' where *: "u < 0xDC00" "us = v # vs" "0xDC00 \<le> v" "v < 0xE000"
      "code_points vs = Some c'" "cps = (0x10000 + (u - 0xD800) * 0x400 + (v - 0xDC00)) # c'"
      by (auto split: if_splits list.splits)
    have "concat (map units_of_point c') = vs"
      using "2.IH"(2) [of v vs c'] False * "2.prems" by auto
    moreover have "units_of_point (0x10000 + (u - 0xD800) * 0x400 + (v - 0xDC00)) = [u, v]"
    proof -
      have "v - 0xDC00 < 0x400" using * by auto
      from pack_split [OF this, of "u - 0xD800"] have
        "((u - 0xD800) * 0x400 + (v - 0xDC00)) div 0x400 = u - 0xD800"
        "((u - 0xD800) * 0x400 + (v - 0xDC00)) mod 0x400 = v - 0xDC00" by simp_all
      moreover have "0x10000 + (u - 0xD800) * 0x400 + (v - 0xDC00) - 0x10000
          = (u - 0xD800) * 0x400 + (v - 0xDC00)" by simp
      ultimately show ?thesis using False *
        unfolding units_of_point_def by (simp only: ) simp
    qed
    ultimately show ?thesis using * by simp
  qed
qed

section \<open>Lone surrogates\<close>

definition high_surrogate :: "nat \<Rightarrow> bool" where
  "high_surrogate u \<longleftrightarrow> 0xD800 \<le> u \<and> u < 0xDC00"

definition low_surrogate :: "nat \<Rightarrow> bool" where
  "low_surrogate u \<longleftrightarrow> 0xDC00 \<le> u \<and> u < 0xE000"

definition well_paired :: "nat list \<Rightarrow> bool" where
  "well_paired us \<longleftrightarrow> (\<forall>i < length us.
     (high_surrogate (us ! i) \<longrightarrow> Suc i < length us \<and> low_surrogate (us ! Suc i)) \<and>
     (low_surrogate (us ! i) \<longrightarrow> 0 < i \<and> high_surrogate (us ! (i - 1))))"

lemmas surrogate_defs = high_surrogate_def low_surrogate_def

lemma well_paired_Nil: "well_paired []"
  by (simp add: well_paired_def)

lemma well_paired_basic:
  assumes "\<not> high_surrogate u" "\<not> low_surrogate u"
  shows "well_paired (u # us) \<longleftrightarrow> well_paired us"
proof -
  have "(low_surrogate (us ! j) \<longrightarrow> high_surrogate ((u # us) ! j)) \<longleftrightarrow>
        (low_surrogate (us ! j) \<longrightarrow> 0 < j \<and> high_surrogate (us ! (j - 1)))" for j
    using assms by (cases j) auto
  then show ?thesis
    using assms by (simp add: well_paired_def All_less_Suc2)
qed

lemma well_paired_pair:
  assumes "high_surrogate u" "low_surrogate v"
  shows "well_paired (u # v # vs) \<longleftrightarrow> well_paired vs"
proof -
  have "(low_surrogate (vs ! j) \<longrightarrow> high_surrogate ((v # vs) ! j)) \<longleftrightarrow>
        (low_surrogate (vs ! j) \<longrightarrow> 0 < j \<and> high_surrogate (vs ! (j - 1)))" for j
    using assms by (cases j) (auto simp: surrogate_defs)
  moreover have "\<not> low_surrogate u" "\<not> high_surrogate v"
    using assms by (auto simp: surrogate_defs)
  ultimately show ?thesis
    using assms by (simp add: well_paired_def All_less_Suc2)
qed

lemma well_paired_lone:
  "low_surrogate u \<Longrightarrow> \<not> well_paired (u # us)"
  "high_surrogate u \<Longrightarrow> \<not> well_paired [u]"
  "high_surrogate u \<Longrightarrow> \<not> low_surrogate v \<Longrightarrow> \<not> well_paired (u # v # vs)"
  by (auto simp: well_paired_def All_less_Suc2)

lemma code_points_iff: "code_points us = None \<longleftrightarrow> \<not> well_paired us"
proof (induction us rule: code_points.induct)
  case 1
  then show ?case by (simp add: well_paired_Nil)
next
  case (2 u us)
  consider "\<not> high_surrogate u" "\<not> low_surrogate u" | "low_surrogate u" | "high_surrogate u"
    by blast
  then show ?case
  proof cases
    case 1
    then have "u < 0xD800 \<or> 0xE000 \<le> u" by (auto simp: surrogate_defs)
    with 1 2 show ?thesis by (simp add: well_paired_basic)
  next
    case 2
    then show ?thesis by (auto simp: well_paired_lone surrogate_defs)
  next
    case 3
    then have u: "\<not> (u < 0xD800 \<or> 0xE000 \<le> u)" "u < 0xDC00" by (auto simp: surrogate_defs)
    show ?thesis
    proof (cases us)
      case Nil
      with u 3 show ?thesis by (simp add: well_paired_lone)
    next
      case (Cons v vs)
      with u 3 "2.IH"(2) [of v vs] show ?thesis
        by (cases "low_surrogate v")
           (auto simp: well_paired_lone(3) well_paired_pair surrogate_defs(2))
    qed
  qed
qed

lemma b64EncodeUnicode_inverts:
  "case b64EncodeUnicode str of
     Inr out \<Rightarrow> well_paired (map unat str) \<and> read_payload out = Some (map unat str)
   | Inl e \<Rightarrow> \<not> well_paired (map unat str) \<and> e = URIError"
proof (cases "code_points (map unat str)")
  case None
  then have "\<not> well_paired (map unat str)"
    by (rule code_points_iff [THEN iffD1])
  with None show ?thesis
    by (simp add: b64EncodeUnicode_def encodeURIComponent_def)
next
  case (Some cps)
  have units: "\<forall>u \<in> set (map unat str). u < 65536"
    using unsigned_less [where 'a = nat and 'b = 16] by auto
  have cps: "\<forall>cp \<in> set cps. cp < 0x110000"
    using code_points_bound [OF Some units] by blast
  let ?bs = "concat (map utf8_octets cps)"
  have bytes: "\<forall>b \<in> set ?bs. b < 256"
    using cps utf8_octets_byte by auto
  have "b64EncodeUnicode str = Inr (b64_chunks ?bs)"
    using bytes cps Some
    by (simp add: b64EncodeUnicode_def encodeURIComponent_def replace_encode btoa_def)
  moreover have "read_payload (b64_chunks ?bs) = Some (map unat str)"
    using cps bytes Some units
    by (simp add: read_payload_def b64_roundtrip utf8_roundtrip units_of_code_points)
  moreover have "well_paired (map unat str)"
    using Some code_points_iff [of "map unat str"] by auto
  ultimately show ?thesis by simp
qed

text \<open>
  C29: b64EncodeUnicode fails exactly on text with a lone surrogate, with URIError (btoa never sees
  a character it refuses), and otherwise yields a payload that reads back as the text.
\<close>

theorem b64EncodeUnicode_roundtrip:
  "case b64EncodeUnicode str of
     Inr out \<Rightarrow> well_paired (map unat str) \<and> read_payload out = Some (map unat str)
   | Inl e \<Rightarrow> \<not> well_paired (map unat str) \<and> e = URIError"
  by (rule b64EncodeUnicode_inverts)

end
