(* ===== verification/VizImage.thy ===== *)
theory VizImage
  imports VizBase64 VizOptions Complex_Main
begin

text \<open>
  Turning the SVG text into an image element: \<^verbatim>\<open>defaultScale\<close>,
  \<^verbatim>\<open>svgXmlToImageElement\<close> and \<^verbatim>\<open>svgXmlToImageElementFabric\<close> of
  \<^verbatim>\<open>internal/server/ui/viz.js\<close>, and the choice renderImageElement makes between them.
  The browser (image decoding, canvas, blobs) and the library Fabric are parameters.
  JavaScript numbers that scale a picture are rationals; the width and height of a canvas are
  converted to 32-bit unsigned integers when they are assigned.
\<close>

section \<open>The environment\<close>

record image_options =
  io_scale :: "rat option"
  io_mimeType :: "string option"
  io_quality :: "rat option"

record image_element =
  im_src :: string
  im_width :: nat
  im_height :: nat

text \<open>The error event of an image: with or without a property named error.\<close>

datatype load_event = Loaded nat nat | LoadFailed "js_error option"

record browser =
  br_devicePixelRatio :: "rat option"
  br_load_image :: "nat list \<Rightarrow> load_event" \<comment> \<open>of the base64 payload\<close>
  br_to_blob :: "nat \<Rightarrow> nat \<Rightarrow> string \<Rightarrow> rat \<Rightarrow> string option" \<comment> \<open>a URL of the blob\<close>

record fabric_lib =
  fb_load :: "code_units \<Rightarrow> nat \<times> nat \<times> nat" \<comment> \<open>objects found, width, height\<close>
  fb_data_url :: "string option \<Rightarrow> rat \<Rightarrow> rat \<Rightarrow> nat \<Rightarrow> nat \<Rightarrow> string"

definition to_uint32 :: "rat \<Rightarrow> nat" where
  "to_uint32 x = nat ((if 0 \<le> x then \<lfloor>x\<rfloor> else - \<lfloor>- x\<rfloor>) mod 2 ^ 32)"

section \<open>The functions\<close>

definition defaultScale :: "browser \<Rightarrow> rat" where
  "defaultScale br = (case br_devicePixelRatio br of
      Some r \<Rightarrow> if r > 1 then r else 1
    | None \<Rightarrow> 1)"

definition opt_default :: "'a \<Rightarrow> 'a option \<Rightarrow> 'a" where
  "opt_default d v = (case v of None \<Rightarrow> d | Some x \<Rightarrow> x)"

text \<open>
  An exception of the executor rejects the promise; one of the blob callback, which runs later,
  does not, so that a canvas without a blob leaves the promise pending.
\<close>

definition svgXmlToImageElement ::
  "browser \<Rightarrow> code_units \<Rightarrow> image_options \<Rightarrow> (js_error, image_element) promise" where
  "svgXmlToImageElement br svgXml opts =
     (let scale = opt_default (defaultScale br) (io_scale opts);
          mimeType = opt_default ''image/png'' (io_mimeType opts);
          quality = opt_default 1 (io_quality opts)
      in case b64EncodeUnicode svgXml of
           Inl e \<Rightarrow> settle (Rejected e) Pending
         | Inr payload \<Rightarrow>
             (case br_load_image br payload of
                LoadFailed ev \<Rightarrow>
                  settle (Rejected (case ev of Some e \<Rightarrow> e | None \<Rightarrow> JsError ''Error loading SVG'')) Pending
              | Loaded w h \<Rightarrow>
                  (let canvas_width = to_uint32 (of_nat w * scale);
                       canvas_height = to_uint32 (of_nat h * scale)
                   in case br_to_blob br canvas_width canvas_height mimeType quality of
                        None \<Rightarrow> Pending
                      | Some url \<Rightarrow>
                          settle (Resolved \<lparr>im_src = url, im_width = w, im_height = h\<rparr>) Pending)))"

definition fabric_format :: "string \<Rightarrow> string option" where
  "fabric_format mimeType =
     (if mimeType = ''image/jpeg'' then Some ''jpeg''
      else if mimeType = ''image/png'' then Some ''png'' else None)"

text \<open>
  The rejection for an empty list of objects does not leave the callback: the code below it runs
  and calls resolve on a promise that is settled already.
\<close>

definition svgXmlToImageElementFabric ::
  "browser \<Rightarrow> fabric_lib \<Rightarrow> code_units \<Rightarrow> image_options \<Rightarrow> (js_error, image_element) promise" where
  "svgXmlToImageElementFabric br fb svgXml opts =
     (let scale = opt_default (defaultScale br) (io_scale opts);
          mimeType = opt_default ''image/png'' (io_mimeType opts);
          quality = opt_default 1 (io_quality opts);
          multiplier = scale;
          format = fabric_format mimeType;
          (objects, w, h) = fb_load fb svgXml;
          p = (if objects = 0 then settle (Rejected (JsError ''Error loading SVG with Fabric'')) Pending
               else Pending)
      in settle (Resolved \<lparr>im_src = fb_data_url fb format multiplier quality w h,
                            im_width = w, im_height = h\<rparr>) p)"

text \<open>renderImageElement draws with Fabric when the page has it.\<close>

definition draw_image ::
  "browser \<Rightarrow> fabric_lib option \<Rightarrow> code_units \<Rightarrow> image_options \<Rightarrow> (js_error, image_element) promise" where
  "draw_image br fabric str opts = (case fabric of
      Some fb \<Rightarrow> svgXmlToImageElementFabric br fb str opts
    | None \<Rightarrow> svgXmlToImageElement br str opts)"

section \<open>Properties\<close>

lemmas image_defs = svgXmlToImageElement_def svgXmlToImageElementFabric_def draw_image_def Let_def settle_def

text \<open>
  without Fabric, the promise of an image is rejected with URIError for a text with a lone
  surrogate and with the error of the image when the browser cannot load it, stays pending for ever
  exactly when the scaled canvas has no blob, and otherwise resolves to an element with the size of
  the SVG, not that of the canvas.
\<close>

theorem svgXmlToImageElement_outcome:
  "case svgXmlToImageElement br svgXml opts of
     Rejected e \<Rightarrow>
       (if well_paired (map unat svgXml)
        then \<exists>payload ev. b64EncodeUnicode svgXml = Inr payload \<and> br_load_image br payload = LoadFailed ev \<and>
               e = (case ev of Some err \<Rightarrow> err | None \<Rightarrow> JsError ''Error loading SVG'')
        else e = URIError)
   | Pending \<Rightarrow> (\<exists>payload w h. b64EncodeUnicode svgXml = Inr payload \<and>
       br_load_image br payload = Loaded w h \<and>
       (let s = opt_default (defaultScale br) (io_scale opts)
        in br_to_blob br (to_uint32 (of_nat w * s)) (to_uint32 (of_nat h * s))
             (opt_default ''image/png'' (io_mimeType opts)) (opt_default 1 (io_quality opts)) = None))
   | Resolved im \<Rightarrow> (\<exists>payload. b64EncodeUnicode svgXml = Inr payload \<and>
       read_payload payload = Some (map unat svgXml) \<and>
       br_load_image br payload = Loaded (im_width im) (im_height im))"
proof (cases "b64EncodeUnicode svgXml")
  case (Inl e)
  then show ?thesis
    using b64EncodeUnicode_inverts [of svgXml] by (simp add: image_defs)
next
  case (Inr payload)
  then have "read_payload payload = Some (map unat svgXml)" "well_paired (map unat svgXml)"
    using b64EncodeUnicode_inverts [of svgXml] by simp_all
  with Inr show ?thesis
    by (cases "br_load_image br payload") (auto simp: image_defs split: option.splits)
qed

text \<open>
  the Fabric path rejects an SVG in which Fabric finds no object, although the code goes on to
  draw and to call resolve, and otherwise resolves to the exported picture at the size of the SVG;
  a MIME type that is neither JPEG nor PNG is exported with no format at all.
\<close>

theorem svgXmlToImageElementFabric_outcome:
  "svgXmlToImageElementFabric br fb svgXml opts =
    (case fb_load fb svgXml of (objects, w, h) \<Rightarrow>
       if objects = 0 then Rejected (JsError ''Error loading SVG with Fabric'')
       else Resolved \<lparr>im_src = fb_data_url fb
            (case io_mimeType opts of None \<Rightarrow> Some ''png''
             | Some t \<Rightarrow> if t = ''image/jpeg'' then Some ''jpeg''
                 else if t = ''image/png'' then Some ''png'' else None)
            (opt_default (defaultScale br) (io_scale opts)) (opt_default 1 (io_quality opts)) w h,
          im_width = w, im_height = h\<rparr>)"
  by (auto simp: image_defs fabric_format_def opt_default_def split: prod.splits option.splits)

end
