(* ===== verification/VizRender.thy ===== *)
theory VizRender
  imports VizOptions
begin

text \<open>
  The part of \<^verbatim>\<open>internal/server/ui/viz-render.js\<close> that is written by hand: the function
  render, which drives one Graphviz run through the compiled module, and the message handler of the
  web worker.  The compiled module itself is a parameter: a record of the entry points the code
  calls, each an action on the state of the module that may throw.
\<close>

section \<open>Actions that may throw\<close>

record worker_error =
  err_message :: string
  err_fileName :: "string option"
  err_lineNumber :: "int option"

text \<open>What a throw statement throws: an instance of Error, or another value, kept as its text.\<close>

datatype thrown = ErrorObj worker_error | OtherThrow string

definition new_error :: "string \<Rightarrow> worker_error" where
  "new_error msg = \<lparr>err_message = msg, err_fileName = None, err_lineNumber = None\<rparr>"

type_synonym ('m, 'a) act = "'m \<Rightarrow> (thrown + 'a) \<times> 'm"

definition act_return :: "'a \<Rightarrow> ('m, 'a) act" where
  "act_return x m = (Inr x, m)"

definition act_throw :: "thrown \<Rightarrow> ('m, 'a) act" where
  "act_throw e m = (Inl e, m)"

definition act_bind :: "('m, 'a) act \<Rightarrow> ('a \<Rightarrow> ('m, 'b) act) \<Rightarrow> ('m, 'b) act" where
  "act_bind f g m = (case f m of (Inl e, m') \<Rightarrow> (Inl e, m') | (Inr x, m') \<Rightarrow> g x m')"

section \<open>render\<close>

record 'm viz_module =
  vizCreateFile :: "jsval \<Rightarrow> jsval \<Rightarrow> ('m, unit) act"
  vizSetY_invert :: "int \<Rightarrow> ('m, unit) act"
  vizSetNop :: "jsval \<Rightarrow> ('m, unit) act"
  vizRenderFromString :: "string \<Rightarrow> jsval \<Rightarrow> jsval \<Rightarrow> ('m, nat) act"
  vizLastErrorMessage :: "('m, nat) act"
  Pointer_stringify :: "nat \<Rightarrow> ('m, string) act"
  free_pointer :: "nat \<Rightarrow> ('m, unit) act"

definition truthy :: "jsval \<Rightarrow> bool" where
  "truthy v = (case v of
      Undefined \<Rightarrow> False | Null \<Rightarrow> False | JBool b \<Rightarrow> b | JNum i \<Rightarrow> i \<noteq> 0 | JStr s \<Rightarrow> s \<noteq> [] | JRef _ \<Rightarrow> True)"

text \<open>
  The message a worker receives: the structured clone of the source and the options, with the
  files array read out of the heap of the sender.
\<close>

record wire_request =
  wq_src :: string
  wq_format :: jsval
  wq_engine :: jsval
  wq_files :: "js_error + jsobj list"
  wq_yInvert :: jsval
  wq_nop :: jsval

definition clone_files :: "heap \<Rightarrow> jsval \<Rightarrow> js_error + jsobj list" where
  "clone_files h v = map_sum id (\<lambda>n. map (array_get h v) [0..<n]) (array_length h v)"

definition clone_request :: "heap \<Rightarrow> render_request \<Rightarrow> wire_request" where
  "clone_request h rq = \<lparr>wq_src = rq_src rq, wq_format = rq_format rq, wq_engine = rq_engine rq,
     wq_files = clone_files h (rq_files rq), wq_yInvert = rq_yInvert rq, wq_nop = rq_nop rq\<rparr>"

fun create_files :: "'m viz_module \<Rightarrow> jsobj list \<Rightarrow> ('m, unit) act" where
  "create_files ops [] = act_return ()"
| "create_files ops (f # fs) =
     act_bind (vizCreateFile ops (get_prop f ''path'') (get_prop f ''data''))
       (\<lambda>_. create_files ops fs)"

definition run_graphviz :: "'m viz_module \<Rightarrow> wire_request \<Rightarrow> ('m, string \<times> string) act" where
  "run_graphviz ops rq =
     act_bind (vizSetY_invert ops (if truthy (wq_yInvert rq) then 1 else 0)) (\<lambda>_.
     act_bind (vizSetNop ops (if truthy (wq_nop rq) then wq_nop rq else JNum 0)) (\<lambda>_.
     act_bind (vizRenderFromString ops (wq_src rq) (wq_format rq) (wq_engine rq)) (\<lambda>resultPointer.
     act_bind (Pointer_stringify ops resultPointer) (\<lambda>resultString.
     act_bind (free_pointer ops resultPointer) (\<lambda>_.
     act_bind (vizLastErrorMessage ops) (\<lambda>errorMessagePointer.
     act_bind (Pointer_stringify ops errorMessagePointer) (\<lambda>errorMessageString.
     act_bind (free_pointer ops errorMessagePointer) (\<lambda>_.
     act_return (resultString, errorMessageString)))))))))"

definition render :: "'m viz_module \<Rightarrow> wire_request \<Rightarrow> ('m, string) act" where
  "render ops rq = (case wq_files rq of
      Inl e \<Rightarrow> act_throw (ErrorObj (new_error ''files''))
    | Inr files \<Rightarrow>
        act_bind (create_files ops files) (\<lambda>_.
        act_bind (run_graphviz ops rq) (\<lambda>(resultString, errorMessageString).
        if errorMessageString \<noteq> [] then act_throw (ErrorObj (new_error errorMessageString))
        else act_return resultString)))"

section \<open>The message handler of the worker\<close>

record reply =
  rid :: nat
  rerror :: "worker_error option"
  rresult :: "string option"

definition wire_error :: "thrown \<Rightarrow> worker_error" where
  "wire_error t = (case t of
      ErrorObj e \<Rightarrow> \<lparr>err_message = err_message e, err_fileName = err_fileName e,
                     err_lineNumber = err_lineNumber e\<rparr>
    | OtherThrow s \<Rightarrow> new_error s)"

definition onmessage :: "'m viz_module \<Rightarrow> nat \<Rightarrow> wire_request \<Rightarrow> 'm \<Rightarrow> reply \<times> 'm" where
  "onmessage ops i rq m = (case render ops rq m of
      (Inr r, m') \<Rightarrow> (\<lparr>rid = i, rerror = None, rresult = Some r\<rparr>, m')
    | (Inl t, m') \<Rightarrow> (\<lparr>rid = i, rerror = Some (wire_error t), rresult = None\<rparr>, m'))"

lemmas act_defs = act_return_def act_throw_def act_bind_def

text \<open>
  The outcome of one request on a module in state m, as the sender will see it.
\<close>

definition answer :: "'m viz_module \<Rightarrow> wire_request \<Rightarrow> 'm \<Rightarrow> (worker_error + string) \<times> 'm" where
  "answer ops rq m = (case render ops rq m of
      (Inr r, m') \<Rightarrow> (Inr r, m')
    | (Inl t, m') \<Rightarrow> (Inl (wire_error t), m'))"

lemma onmessage_answer:
  "onmessage ops i rq m = (case answer ops rq m of
     (Inr r, m') \<Rightarrow> (\<lparr>rid = i, rerror = None, rresult = Some r\<rparr>, m')
   | (Inl e, m') \<Rightarrow> (\<lparr>rid = i, rerror = Some e, rresult = None\<rparr>, m'))"
  by (auto simp: onmessage_def answer_def split: prod.splits sum.splits)

section \<open>Memory discipline of render\<close>

text \<open>
  What render relies on: setting a parameter or reading a string leaves the set of live buffers of
  the module as it is, the two calls that return a pointer make one new buffer, and free releases
  the buffer it is given.
\<close>

definition keeps_buffers :: "('m \<Rightarrow> nat set) \<Rightarrow> ('m, 'a) act \<Rightarrow> bool" where
  "keeps_buffers live f \<longleftrightarrow> (\<forall>m. live (snd (f m)) = live m)"

definition allocates :: "('m \<Rightarrow> nat set) \<Rightarrow> ('m, nat) act \<Rightarrow> bool" where
  "allocates live f \<longleftrightarrow> (\<forall>m. case f m of
      (Inr p, m') \<Rightarrow> p \<notin> live m \<and> live m' = insert p (live m)
    | (Inl _, m') \<Rightarrow> live m' = live m)"

definition buffer_contract :: "'m viz_module \<Rightarrow> ('m \<Rightarrow> nat set) \<Rightarrow> bool" where
  "buffer_contract ops live \<longleftrightarrow>
     (\<forall>p d. keeps_buffers live (vizCreateFile ops p d)) \<and>
     (\<forall>y. keeps_buffers live (vizSetY_invert ops y)) \<and>
     (\<forall>n. keeps_buffers live (vizSetNop ops n)) \<and>
     (\<forall>s f e. allocates live (vizRenderFromString ops s f e)) \<and>
     allocates live (vizLastErrorMessage ops) \<and>
     (\<forall>p m. \<exists>s m'. Pointer_stringify ops p m = (Inr s, m') \<and> live m' = live m) \<and>
     (\<forall>p m. \<exists>m'. free_pointer ops p m = (Inr (), m') \<and> live m' = live m - {p})"

lemma create_files_keeps:
  assumes "buffer_contract ops live"
  shows "live (snd (create_files ops fs m)) = live m"
proof (induction fs arbitrary: m)
  case Nil
  then show ?case by (simp add: act_defs)
next
  case (Cons f fs)
  have "live (snd (vizCreateFile ops (get_prop f ''path'') (get_prop f ''data'') m)) = live m"
    using assms by (simp add: buffer_contract_def keeps_buffers_def)
  with Cons.IH show ?case
    by (auto simp: act_defs split: prod.splits sum.splits)
qed

lemma keeps_bind:
  assumes "keeps_buffers live f" and "\<And>x. keeps_buffers live (g x)"
  shows "keeps_buffers live (act_bind f g)"
  unfolding keeps_buffers_def
proof
  fix m
  obtain r m' where fm: "f m = (r, m')" by (cases "f m")
  have "live (snd (f m)) = live m" using assms(1) by (simp add: keeps_buffers_def)
  with fm have m': "live m' = live m" by simp
  show "live (snd (act_bind f g m)) = live m"
  proof (cases r)
    case (Inl e)
    with fm m' show ?thesis by (simp add: act_bind_def)
  next
    case (Inr x)
    have "live (snd (g x m')) = live m'" using assms(2) by (simp add: keeps_buffers_def)
    with fm m' Inr show ?thesis by (simp add: act_bind_def)
  qed
qed

lemma keeps_return [wf_intros]: "keeps_buffers live (act_return x)"
  and keeps_throw [wf_intros]: "keeps_buffers live (act_throw e)"
  by (simp_all add: keeps_buffers_def act_defs)

text \<open>The bracket of the code: obtain a pointer, read the string behind it, free it, go on.\<close>

lemma buffer_contractE:
  assumes "buffer_contract ops live"
  obtains s m' where "Pointer_stringify ops p m = (Inr s, m')" "live m' = live m"
  using assms unfolding buffer_contract_def by meson

lemma buffer_contract_freeE:
  assumes "buffer_contract ops live"
  obtains m' where "free_pointer ops p m = (Inr (), m')" "live m' = live m - {p}"
  using assms unfolding buffer_contract_def by meson

lemma allocatesE:
  assumes "allocates live f" "f m = (r, m')"
  obtains e where "r = Inl e" "live m' = live m"
  | p where "r = Inr p" "p \<notin> live m" "live m' = insert p (live m)"
  using assms unfolding allocates_def
  by (cases r) (auto dest: spec [of _ m])

lemma keeps_bracket:
  assumes c: "buffer_contract ops live" and f: "allocates live f"
    and g: "\<And>s. keeps_buffers live (g s)"
  shows "keeps_buffers live
    (act_bind f (\<lambda>p. act_bind (Pointer_stringify ops p) (\<lambda>s. act_bind (free_pointer ops p) (\<lambda>_. g s))))"
  unfolding keeps_buffers_def
proof
  fix m
  obtain r m1 where fm: "f m = (r, m1)" by (cases "f m")
  from f fm show "live (snd (act_bind f (\<lambda>p. act_bind (Pointer_stringify ops p)
      (\<lambda>s. act_bind (free_pointer ops p) (\<lambda>_. g s))) m)) = live m"
  proof (cases rule: allocatesE)
    case (1 e)
    with fm show ?thesis by (simp add: act_bind_def)
  next
    case (2 p)
    obtain s m2 where s: "Pointer_stringify ops p m1 = (Inr s, m2)" "live m2 = live m1"
      by (rule buffer_contractE [OF c])
    obtain m3 where m3: "free_pointer ops p m2 = (Inr (), m3)" "live m3 = live m2 - {p}"
      by (rule buffer_contract_freeE [OF c])
    have "live (snd (g s m3)) = live m3" using g by (simp add: keeps_buffers_def)
    with fm 2 s m3 show ?thesis by (simp add: act_bind_def)
  qed
qed

lemma run_graphviz_keeps:
  assumes c: "buffer_contract ops live"
  shows "keeps_buffers live (run_graphviz ops rq)"
  unfolding run_graphviz_def using c
  by (intro keeps_bind keeps_bracket [OF c] wf_intros) (simp_all add: buffer_contract_def)


text \<open>A module that really allocates: the state is the next pointer and the live ones.\<close>

definition demo_module :: "string \<Rightarrow> (nat \<times> nat list) viz_module" where
  "demo_module err = \<lparr>vizCreateFile = (\<lambda>_ _. act_return ()),
     vizSetY_invert = (\<lambda>_. act_return ()), vizSetNop = (\<lambda>_. act_return ()),
     vizRenderFromString = (\<lambda>_ _ _ (n, ps). (Inr n, (Suc n, n # ps))),
     vizLastErrorMessage = (\<lambda>(n, ps). (Inr n, (Suc n, n # ps))),
     Pointer_stringify = (\<lambda>p. act_return (if even p then ''<svg/>'' else err)),
     free_pointer = (\<lambda>p (n, ps). (Inr (), (n, filter (\<lambda>q. q \<noteq> p) ps)))\<rparr>"

definition demo_live :: "nat \<times> nat list \<Rightarrow> nat set" where
  "demo_live m = {p \<in> set (snd m). p < fst m}"

lemma demo_module_contract: "buffer_contract (demo_module err) demo_live"
  by (auto simp: buffer_contract_def demo_module_def keeps_buffers_def allocates_def act_defs
      demo_live_def)

definition demo_wire_request :: wire_request where
  "demo_wire_request = \<lparr>wq_src = ''digraph {'', wq_format = JStr ''svg'', wq_engine = JStr ''dot'',
     wq_files = Inr [], wq_yInvert = JBool False, wq_nop = JNum 0\<rparr>"


end
