(* ===== verification/VizWrapper.thy ===== *)
theory VizWrapper
  imports VizRender
begin

text \<open>
  The two renderers that \<^verbatim>\<open>internal/server/ui/viz.js\<close> puts behind the class Viz:
  WorkerWrapper, which numbers its requests, keeps one listener for each and settles a promise when
  the worker answers, and ModuleWrapper, which runs the compiled module in the page.  The worker
  end is \<^verbatim>\<open>onmessage\<close> of \<^verbatim>\<open>viz-render.js\<close>; the two message channels
  are FIFO queues, and a step of the system is a call of the page, the worker taking a request, or
  the delivery of an answer, in any order.  The interface both offer to Viz is the locale
  render_service.
\<close>

section \<open>WorkerWrapper\<close>

record wrapper =
  nextId :: nat
  listeners :: "nat \<rightharpoonup> nat" \<comment> \<open>the promise a listener settles\<close>
  promises :: "(worker_error, string) promise list"

definition WorkerWrapper_new :: wrapper where
  "WorkerWrapper_new = \<lparr>nextId = 0, listeners = Map.empty, promises = []\<rparr>"

text \<open>
  render: take the next number, install the listener of a new promise, post the message.
\<close>

definition wrapper_render :: "wire_request \<Rightarrow> wrapper \<Rightarrow> (nat \<times> wire_request) \<times> wrapper" where
  "wrapper_render rq w =
     (let i = nextId w; p = length (promises w)
      in ((i, rq), w\<lparr>nextId := Suc i, listeners := (listeners w)(i \<mapsto> p),
                     promises := promises w @ [Pending]\<rparr>))"

text \<open>
  The message event: call the listener of the number (none is a TypeError), which rejects when the
  answer carries an error and resolves otherwise, then delete it.
\<close>

definition wrapper_on_message :: "reply \<Rightarrow> wrapper \<Rightarrow> js_error + wrapper" where
  "wrapper_on_message msg w = (case listeners w (rid msg) of
      None \<Rightarrow> Inl (TypeError ''listeners[id] is not a function'')
    | Some p \<Rightarrow>
        (let new = (case rerror msg of
             Some error \<Rightarrow> Rejected \<lparr>err_message = err_message error,
                             err_fileName = err_fileName error, err_lineNumber = err_lineNumber error\<rparr>
           | None \<Rightarrow> Resolved (case rresult msg of None \<Rightarrow> ''undefined'' | Some r \<Rightarrow> r))
         in Inr (w\<lparr>promises := (promises w)[p := settle new (promises w ! p)],
                  listeners := (listeners w)(rid msg := None)\<rparr>)))"

section \<open>The page, the worker and the two queues\<close>

record 'm worker_sys =
  wrap :: wrapper
  inst :: 'm
  inbox :: "(nat \<times> wire_request) list"
  outbox :: "reply list"
  calls :: "wire_request list" \<comment> \<open>ghost: every request the page made\<close>

definition worker_init :: "'m \<Rightarrow> 'm worker_sys" where
  "worker_init m0 = \<lparr>wrap = WorkerWrapper_new, inst = m0, inbox = [], outbox = [], calls = []\<rparr>"

datatype action = Call wire_request | Work | Deliver

fun worker_step :: "'m viz_module \<Rightarrow> action \<Rightarrow> 'm worker_sys \<Rightarrow> js_error + 'm worker_sys" where
  "worker_step ops (Call rq) s =
     (let (msg, w) = wrapper_render rq (wrap s)
      in Inr (s\<lparr>wrap := w, inbox := inbox s @ [msg], calls := calls s @ [rq]\<rparr>))"
| "worker_step ops Work s =
     (case inbox s of
        [] \<Rightarrow> Inr s
      | (i, rq) # rest \<Rightarrow>
          (let (msg, m') = onmessage ops i rq (inst s)
           in Inr (s\<lparr>inst := m', inbox := rest, outbox := outbox s @ [msg]\<rparr>)))"
| "worker_step ops Deliver s =
     (case outbox s of
        [] \<Rightarrow> Inr s
      | msg # rest \<Rightarrow>
          map_sum id (\<lambda>w. s\<lparr>wrap := w, outbox := rest\<rparr>) (wrapper_on_message msg (wrap s)))"

inductive worker_reachable :: "'m viz_module \<Rightarrow> 'm \<Rightarrow> 'm worker_sys \<Rightarrow> bool"
  for ops :: "'m viz_module" and m0 :: 'm where
  start: "worker_reachable ops m0 (worker_init m0)"
| step: "worker_reachable ops m0 s \<Longrightarrow> worker_step ops a s = Inr t \<Longrightarrow> worker_reachable ops m0 t"

section \<open>What the answers should be\<close>

text \<open>
  The specification: the requests, run one after the other on the module in the order in which
  they were made, each giving its outcome and passing the state of the module on.
\<close>

fun run_in_order ::
  "(wire_request \<Rightarrow> 'm \<Rightarrow> 'r \<times> 'm) \<Rightarrow> 'm \<Rightarrow> wire_request list \<Rightarrow> 'r list \<times> 'm" where
  "run_in_order ans m [] = ([], m)"
| "run_in_order ans m (rq # rqs) =
     (let (r, m') = ans rq m; (rs, m'') = run_in_order ans m' rqs in (r # rs, m''))"

definition expected ::
  "(wire_request \<Rightarrow> 'm \<Rightarrow> 'r \<times> 'm) \<Rightarrow> 'm \<Rightarrow> wire_request list \<Rightarrow> 'r list" where
  "expected ans m0 rqs = fst (run_in_order ans m0 rqs)"

lemma run_in_order_append:
  "run_in_order ans m (xs @ ys) =
     (let (rs, m') = run_in_order ans m xs; (rs', m'') = run_in_order ans m' ys in (rs @ rs', m''))"
  by (induction xs arbitrary: m) (simp_all add: Let_def case_prod_beta)

lemma length_expected [simp]: "length (expected ans m0 rqs) = length rqs"
  unfolding expected_def
  by (induction rqs arbitrary: m0) (simp_all add: Let_def case_prod_beta)

lemma expected_append_nth:
  "p < length xs \<Longrightarrow> expected ans m0 (xs @ ys) ! p = expected ans m0 xs ! p"
proof -
  assume "p < length xs"
  then have "p < length (fst (run_in_order ans m0 xs))"
    using length_expected [of ans m0 xs] by (simp add: expected_def)
  then show ?thesis
    by (simp add: expected_def run_in_order_append Let_def nth_append case_prod_beta)
qed

lemma run_in_order_take_Suc:
  assumes "k < length xs"
  shows "snd (run_in_order ans m (take (Suc k) xs)) =
      snd (ans (xs ! k) (snd (run_in_order ans m (take k xs))))"
    and "expected ans m xs ! k = fst (ans (xs ! k) (snd (run_in_order ans m (take k xs))))"
proof -
  have take: "take (Suc k) xs = take k xs @ [xs ! k]"
    using assms by (rule take_Suc_conv_app_nth)
  show "snd (run_in_order ans m (take (Suc k) xs)) =
      snd (ans (xs ! k) (snd (run_in_order ans m (take k xs))))"
    by (simp add: take run_in_order_append Let_def case_prod_beta)
  have "expected ans m xs ! k = expected ans m (take (Suc k) xs) ! k"
    using expected_append_nth [of k "take (Suc k) xs" ans m "drop (Suc k) xs"] assms by simp
  also have "\<dots> = fst (ans (xs ! k) (snd (run_in_order ans m (take k xs))))"
    using length_expected [of ans m "take k xs"] assms
    by (simp add: take expected_def run_in_order_append Let_def case_prod_beta nth_append)
  finally show "expected ans m xs ! k = fst (ans (xs ! k) (snd (run_in_order ans m (take k xs))))" .
qed

section \<open>The invariant\<close>

definition reply_of :: "nat \<Rightarrow> worker_error + string \<Rightarrow> reply" where
  "reply_of i r = (case r of
      Inl e \<Rightarrow> \<lparr>rid = i, rerror = Some e, rresult = None\<rparr>
    | Inr x \<Rightarrow> \<lparr>rid = i, rerror = None, rresult = Some x\<rparr>)"

text \<open>
  The calls splits at two points: the answers of the first d requests have been delivered, those of
  the next ones are in the outbox, and the rest of the calls waits in the inbox.
\<close>

definition worker_inv :: "'m viz_module \<Rightarrow> 'm \<Rightarrow> nat \<Rightarrow> nat \<Rightarrow> 'm worker_sys \<Rightarrow> bool" where
  "worker_inv ops m0 d k s \<longleftrightarrow>
     d \<le> k \<and> k \<le> length (calls s) \<and>
     nextId (wrap s) = length (calls s) \<and>
     length (promises (wrap s)) = length (calls s) \<and>
     listeners (wrap s) = (\<lambda>i. if d \<le> i \<and> i < length (calls s) then Some i else None) \<and>
     inst s = snd (run_in_order (answer ops) m0 (take k (calls s))) \<and>
     inbox s = zip [k..<length (calls s)] (drop k (calls s)) \<and>
     outbox s = map (\<lambda>i. reply_of i (expected (answer ops) m0 (calls s) ! i)) [d..<k] \<and>
     promises (wrap s) =
       map (\<lambda>i. if i < d then promise_of (expected (answer ops) m0 (calls s) ! i) else Pending)
         [0..<length (calls s)]"

lemma worker_inv_init: "worker_inv ops m0 0 0 (worker_init m0)"
  by (simp add: worker_inv_def worker_init_def WorkerWrapper_new_def)

lemma worker_inv_call:
  assumes "worker_inv ops m0 d k s" and "worker_step ops (Call rq) s = Inr t"
  shows "worker_inv ops m0 d k t"
proof -
  let ?n = "length (calls s)"
  have "k \<le> ?n" "d \<le> k" using assms(1) by (simp_all add: worker_inv_def)
  moreover from this have "zip [k..<Suc ?n] (drop k (calls s) @ [rq]) = zip [k..<?n] (drop k (calls s)) @ [(?n, rq)]"
    by (simp add: zip_append1)
  ultimately show ?thesis
    using assms
    by (auto simp: worker_inv_def wrapper_render_def Let_def expected_append_nth fun_eq_iff)
qed

lemma worker_inv_work:
  assumes inv: "worker_inv ops m0 d k s" and step: "worker_step ops Work s = Inr t"
  shows "worker_inv ops m0 d (if inbox s = [] then k else Suc k) t"
proof (cases "inbox s")
  case Nil
  with inv step show ?thesis by simp
next
  case (Cons msg rest)
  let ?n = "length (calls s)" and ?rq = "calls s ! k"
  let ?a = "answer ops ?rq (inst s)"
  from inv have inb: "inbox s = zip [k..<?n] (drop k (calls s))" and "k \<le> ?n" "d \<le> k"
    by (simp_all add: worker_inv_def)
  with Cons have k: "k < ?n" by (cases "k < ?n") auto
  then have "zip [k..<?n] (drop k (calls s)) = (k, ?rq) # zip [Suc k..<?n] (drop (Suc k) (calls s))"
    by (simp add: upt_conv_Cons Cons_nth_drop_Suc [symmetric])
  with Cons inb have msg: "msg = (k, ?rq)" "rest = zip [Suc k..<?n] (drop (Suc k) (calls s))"
    by simp_all
  have om: "onmessage ops k ?rq (inst s) = (reply_of k (fst ?a), snd ?a)"
    by (simp add: onmessage_answer reply_of_def split: prod.split sum.split)
  have t: "t = s\<lparr>inst := snd ?a, inbox := rest, outbox := outbox s @ [reply_of k (fst ?a)]\<rparr>"
    using step Cons msg(1) om by (simp add: Let_def)
  from inv have i: "inst s = snd (run_in_order (answer ops) m0 (take k (calls s)))"
    by (simp add: worker_inv_def)
  have "expected (answer ops) m0 (calls s) ! k = fst ?a"
    "snd (run_in_order (answer ops) m0 (take (Suc k) (calls s))) = snd ?a"
    using run_in_order_take_Suc [OF k, of "answer ops" m0] i by simp_all
  with inv t k msg(2) \<open>d \<le> k\<close> show ?thesis by (auto simp: worker_inv_def Cons)
qed

lemma promise_of_reply:
  "promise_of r = (case rerror (reply_of i r) of
     Some error \<Rightarrow> Rejected \<lparr>err_message = err_message error,
                     err_fileName = err_fileName error, err_lineNumber = err_lineNumber error\<rparr>
   | None \<Rightarrow> Resolved (case rresult (reply_of i r) of None \<Rightarrow> ''undefined'' | Some x \<Rightarrow> x))"
  by (cases r) (simp_all add: promise_of_def reply_of_def)

lemma rid_reply_of [simp]: "rid (reply_of i r) = i"
  by (cases r) (simp_all add: reply_of_def)

lemma worker_inv_deliver:
  assumes inv: "worker_inv ops m0 d k s"
  obtains t where "worker_step ops Deliver s = Inr t"
    and "worker_inv ops m0 (if outbox s = [] then d else Suc d) k t" and "calls t = calls s"
    and "inbox t = inbox s" and "outbox t = tl (outbox s)"
proof (cases "outbox s")
  case Nil
  with inv show ?thesis by (intro that [of s]) simp_all
next
  case (Cons msg rest)
  let ?n = "length (calls s)" and ?r = "expected (answer ops) m0 (calls s) ! d" and ?w = "wrap s"
  from inv have ob: "outbox s = map (\<lambda>i. reply_of i (expected (answer ops) m0 (calls s) ! i)) [d..<k]"
    and "d \<le> k" "k \<le> ?n" and ps: "promises ?w = map (\<lambda>i. if i < d
        then promise_of (expected (answer ops) m0 (calls s) ! i) else Pending) [0..<?n]"
    and ls: "listeners ?w = (\<lambda>i. if d \<le> i \<and> i < ?n then Some i else None)"
    by (simp_all add: worker_inv_def)
  with Cons have dk: "d < k" by (cases "d < k") auto
  with ob Cons have msg: "msg = reply_of d ?r"
    and rest: "rest = map (\<lambda>i. reply_of i (expected (answer ops) m0 (calls s) ! i)) [Suc d..<k]"
    by (simp_all add: upt_conv_Cons)
  have d: "d < ?n" using dk \<open>k \<le> ?n\<close> by simp
  let ?w' = "?w\<lparr>promises := (promises ?w)[d := promise_of ?r], listeners := (listeners ?w)(d := None)\<rparr>"
  have "wrapper_on_message msg ?w = Inr ?w'"
    using d unfolding wrapper_on_message_def msg promise_of_reply [of _ d]
    by (simp add: ls ps settle_def Let_def)
  then have st: "worker_step ops Deliver s = Inr (s\<lparr>wrap := ?w', outbox := rest\<rparr>)"
    using Cons by simp
  have "(promises ?w)[d := promise_of ?r] = map (\<lambda>i. if i < Suc d
        then promise_of (expected (answer ops) m0 (calls s) ! i) else Pending) [0..<?n]"
    unfolding ps by (rule nth_equalityI) (auto simp: nth_list_update less_Suc_eq)
  moreover have "(listeners ?w)(d := None) = (\<lambda>i. if Suc d \<le> i \<and> i < ?n then Some i else None)"
    by (auto simp: ls fun_eq_iff)
  ultimately have "worker_inv ops m0 (Suc d) k (s\<lparr>wrap := ?w', outbox := rest\<rparr>)"
    using inv dk rest by (simp add: worker_inv_def)
  with Cons show ?thesis by (intro that [OF st]) simp_all
qed

lemma worker_reachable_inv: "worker_reachable ops m0 s \<Longrightarrow> \<exists>d k. worker_inv ops m0 d k s"
proof (induction rule: worker_reachable.induct)
  case start
  show ?case by (intro exI) (rule worker_inv_init)
next
  case (step s a t)
  then obtain d k where inv: "worker_inv ops m0 d k s" by blast
  show ?case
  proof (cases a)
    case (Call rq)
    with step worker_inv_call [OF inv] have "worker_inv ops m0 d k t" by simp
    then show ?thesis by (intro exI)
  next
    case Work
    with step worker_inv_work [OF inv] show ?thesis by (intro exI) simp
  next
    case Deliver
    from inv obtain t' where "worker_step ops Deliver s = Inr t'"
      "worker_inv ops m0 (if outbox s = [] then d else Suc d) k t'"
      by (rule worker_inv_deliver)
    with step Deliver show ?thesis by auto
  qed
qed

text \<open>What the invariant says of the promises.\<close>

lemma worker_inv_promises:
  assumes "worker_inv ops m0 d k s" and "p < length (calls s)"
  shows "promises (wrap s) ! p =
    (if p < d then promise_of (expected (answer ops) m0 (calls s) ! p) else Pending)"
  using assms by (simp add: worker_inv_def)

lemma worker_inv_quiet:
  assumes "worker_inv ops m0 d k s" and "inbox s = []" and "outbox s = []"
  shows "promises (wrap s) = map promise_of (expected (answer ops) m0 (calls s))"
    and "listeners (wrap s) = Map.empty"
proof -
  from assms have "k = length (calls s)" "d = k" by (auto simp: worker_inv_def)
  with assms(1) have d: "d = length (calls s)"
    and ps: "promises (wrap s) = map (\<lambda>i. if i < d then promise_of (expected (answer ops) m0 (calls s) ! i)
      else Pending) [0..<length (calls s)]"
    and ls: "listeners (wrap s) = (\<lambda>i. if d \<le> i \<and> i < length (calls s) then Some i else None)"
    by (simp_all add: worker_inv_def)
  show "promises (wrap s) = map promise_of (expected (answer ops) m0 (calls s))"
    unfolding ps d by (rule nth_equalityI) auto
  show "listeners (wrap s) = Map.empty"
    unfolding ls d by auto
qed

section \<open>Letting the outstanding work finish\<close>

fun run_actions :: "'m viz_module \<Rightarrow> action list \<Rightarrow> 'm worker_sys \<Rightarrow> js_error + 'm worker_sys" where
  "run_actions ops [] s = Inr s"
| "run_actions ops (a # as) s =
     (case worker_step ops a s of Inl e \<Rightarrow> Inl e | Inr t \<Rightarrow> run_actions ops as t)"

definition drain_schedule :: "'m worker_sys \<Rightarrow> action list" where
  "drain_schedule s =
     replicate (length (inbox s)) Work @ replicate (length (inbox s) + length (outbox s)) Deliver"

lemma run_actions_append:
  "run_actions ops (as @ bs) s =
     (case run_actions ops as s of Inl e \<Rightarrow> Inl e | Inr t \<Rightarrow> run_actions ops bs t)"
  by (induction as arbitrary: s) (auto split: sum.splits)

lemma run_work:
  assumes "worker_inv ops m0 d k s" and "n \<le> length (inbox s)"
  obtains t where "run_actions ops (replicate n Work) s = Inr t" "worker_inv ops m0 d (k + n) t"
    "calls t = calls s" "length (inbox t) = length (inbox s) - n"
    "length (outbox t) = length (outbox s) + n"
  using assms
proof (induction n arbitrary: s k thesis)
  case 0
  then show ?case by simp
next
  case (Suc n)
  from Suc.prems obtain i rq rest where ib: "inbox s = (i, rq) # rest"
    by (cases "inbox s") auto
  obtain msg m' where om: "onmessage ops i rq (inst s) = (msg, m')" by fastforce
  let ?t = "s\<lparr>inst := m', inbox := rest, outbox := outbox s @ [msg]\<rparr>"
  have st: "worker_step ops Work s = Inr ?t" by (simp add: ib om)
  have "worker_inv ops m0 d (Suc k) ?t"
    using worker_inv_work [OF Suc.prems(2) st] ib by simp
  moreover have "n \<le> length (inbox ?t)" using Suc.prems(3) ib by simp
  ultimately obtain u where "run_actions ops (replicate n Work) ?t = Inr u"
    "worker_inv ops m0 d (Suc k + n) u" "calls u = calls ?t"
    "length (inbox u) = length (inbox ?t) - n" "length (outbox u) = length (outbox ?t) + n"
    using Suc.IH by blast
  then show ?case using st ib by (intro Suc.prems(1) [of u]) simp_all
qed

lemma run_deliver:
  assumes "worker_inv ops m0 d k s" and "n \<le> length (outbox s)"
  obtains t where "run_actions ops (replicate n Deliver) s = Inr t" "worker_inv ops m0 (d + n) k t"
    "calls t = calls s" "inbox t = inbox s" "length (outbox t) = length (outbox s) - n"
  using assms
proof (induction n arbitrary: s d thesis)
  case 0
  then show ?case by simp
next
  case (Suc n)
  from Suc.prems(2) obtain t where t: "worker_step ops Deliver s = Inr t"
    "worker_inv ops m0 (if outbox s = [] then d else Suc d) k t" "calls t = calls s"
    "inbox t = inbox s" "outbox t = tl (outbox s)"
    by (rule worker_inv_deliver)
  from Suc.prems(3) have "outbox s \<noteq> []" by auto
  with t have "worker_inv ops m0 (Suc d) k t" by simp
  moreover have "n \<le> length (outbox t)" using Suc.prems(3) t by simp
  ultimately obtain u where "run_actions ops (replicate n Deliver) t = Inr u"
    "worker_inv ops m0 (Suc d + n) k u" "calls u = calls t" "inbox u = inbox t"
    "length (outbox u) = length (outbox t) - n"
    using Suc.IH by blast
  then show ?case using t by (intro Suc.prems(1) [of u]) simp_all
qed

lemma drain:
  assumes "worker_inv ops m0 d k s"
  obtains t d' k' where "run_actions ops (drain_schedule s) s = Inr t" "worker_inv ops m0 d' k' t"
    "calls t = calls s" "inbox t = []" "outbox t = []"
proof -
  obtain u where u: "run_actions ops (replicate (length (inbox s)) Work) s = Inr u"
    "worker_inv ops m0 d (k + length (inbox s)) u" "calls u = calls s"
    "length (inbox u) = length (inbox s) - length (inbox s)"
    "length (outbox u) = length (outbox s) + length (inbox s)"
    using run_work [OF assms order_refl] by blast
  obtain t where "run_actions ops (replicate (length (outbox u)) Deliver) u = Inr t"
    "worker_inv ops m0 (d + length (outbox u)) (k + length (inbox s)) t" "calls t = calls u"
    "inbox t = inbox u" "length (outbox t) = length (outbox u) - length (outbox u)"
    using run_deliver [OF u(2) order_refl] by blast
  with u that show thesis
    by (auto simp: drain_schedule_def run_actions_append add.commute)
qed

section \<open>ModuleWrapper\<close>

text \<open>
  The module is made once, when the wrapper is; each call of render settles its promise before it
  returns, with the result or with the value that render threw.
\<close>

record 'm module_wrapper =
  instance_state :: 'm
  module_promises :: "(thrown, string) promise list"
  module_calls :: "wire_request list" \<comment> \<open>ghost\<close>

definition ModuleWrapper_new :: "'m \<Rightarrow> 'm module_wrapper" where
  "ModuleWrapper_new m0 = \<lparr>instance_state = m0, module_promises = [], module_calls = []\<rparr>"

definition module_render :: "'m viz_module \<Rightarrow> wire_request \<Rightarrow> 'm module_wrapper \<Rightarrow> 'm module_wrapper" where
  "module_render ops rq w = (case render ops rq (instance_state w) of
      (r, m') \<Rightarrow> w\<lparr>instance_state := m',
        module_promises := module_promises w @
          [settle (case r of Inr x \<Rightarrow> Resolved x | Inl t \<Rightarrow> Rejected t) Pending],
        module_calls := module_calls w @ [rq]\<rparr>)"

definition module_inv :: "'m viz_module \<Rightarrow> 'm \<Rightarrow> 'm module_wrapper \<Rightarrow> bool" where
  "module_inv ops m0 w \<longleftrightarrow>
     instance_state w = snd (run_in_order (render ops) m0 (module_calls w)) \<and>
     module_promises w = map promise_of (expected (render ops) m0 (module_calls w))"

lemma module_inv_render: "module_inv ops m0 w \<Longrightarrow> module_inv ops m0 (module_render ops rq w)"
  by (auto simp: module_inv_def module_render_def expected_def run_in_order_append Let_def
      case_prod_beta settle_def promise_of_def split: sum.split)

section \<open>The interface of the class Viz\<close>

text \<open>
  What the methods of Viz rely on when they call the render of their wrapper: requests are
  numbered in the order of the calls, a promise is pending or holds the answer to its own request,
  a later call does not change an earlier answer, and once the outstanding work is done every
  promise is settled.
\<close>

locale render_service =
  fixes invar :: "'w \<Rightarrow> bool"
    and submit :: "wire_request \<Rightarrow> 'w \<Rightarrow> 'w"
    and finish :: "'w \<Rightarrow> 'w"
    and requests :: "'w \<Rightarrow> wire_request list"
    and outcomes :: "'w \<Rightarrow> ('e, string) promise list"
    and answers :: "wire_request list \<Rightarrow> ('e + string) list"
  assumes invar_submit: "invar w \<Longrightarrow> invar (submit rq w)"
    and invar_finish: "invar w \<Longrightarrow> invar (finish w)"
    and requests_submit: "invar w \<Longrightarrow> requests (submit rq w) = requests w @ [rq]"
    and requests_finish: "invar w \<Longrightarrow> requests (finish w) = requests w"
    and length_answers: "length (answers rqs) = length rqs"
    and answers_stable: "p < length xs \<Longrightarrow> answers (xs @ ys) ! p = answers xs ! p"
    and outcomes_safe: "invar w \<Longrightarrow> p < length (requests w) \<Longrightarrow>
      outcomes w ! p = Pending \<or> outcomes w ! p = promise_of (answers (requests w) ! p)"
    and outcomes_live: "invar w \<Longrightarrow> outcomes (finish w) = map promise_of (answers (requests w))"
begin

fun submit_all :: "wire_request list \<Rightarrow> 'w \<Rightarrow> 'w" where
  "submit_all [] w = w"
| "submit_all (rq # rqs) w = submit_all rqs (submit rq w)"

lemma submit_all_requests: "invar w \<Longrightarrow> requests (submit_all rqs w) = requests w @ rqs"
  by (induction rqs arbitrary: w) (simp_all add: invar_submit requests_submit)

lemma submit_all_invar: "invar w \<Longrightarrow> invar (submit_all rqs w)"
  by (induction rqs arbitrary: w) (simp_all add: invar_submit)

text \<open>The answer to one request, whatever is asked after it.\<close>

lemma own_answer:
  assumes "invar w"
  shows "outcomes (finish (submit_all rqs (submit rq w))) ! length (requests w) =
    promise_of (answers (requests w @ [rq]) ! length (requests w))"
proof -
  let ?w = "submit_all rqs (submit rq w)"
  have i: "invar (submit rq w)" using assms by (rule invar_submit)
  have "requests ?w = (requests w @ [rq]) @ rqs"
    using assms i by (simp add: submit_all_requests requests_submit)
  moreover have "outcomes (finish ?w) = map promise_of (answers (requests ?w))"
    using i by (intro outcomes_live submit_all_invar)
  ultimately show ?thesis
    using answers_stable [of "length (requests w)" "requests w @ [rq]" rqs]
    by (simp add: length_answers)
qed

lemma settled_answer:
  assumes "invar w" "p < length (requests w)" "outcomes w ! p \<noteq> Pending"
  shows "outcomes w ! p = promise_of (answers (requests w) ! p)"
  using outcomes_safe [OF assms(1,2)] assms(3) by blast

end

text \<open>The worker offers the interface.\<close>

definition worker_submit :: "'m viz_module \<Rightarrow> wire_request \<Rightarrow> 'm worker_sys \<Rightarrow> 'm worker_sys" where
  "worker_submit ops rq s = (case worker_step ops (Call rq) s of Inr t \<Rightarrow> t | Inl _ \<Rightarrow> s)"

definition worker_finish :: "'m viz_module \<Rightarrow> 'm worker_sys \<Rightarrow> 'm worker_sys" where
  "worker_finish ops s = (case run_actions ops (drain_schedule s) s of Inr t \<Rightarrow> t | Inl _ \<Rightarrow> s)"

definition worker_outcomes :: "'m worker_sys \<Rightarrow> (worker_error, string) promise list" where
  "worker_outcomes s = promises (wrap s)"

lemma worker_submit_step: "worker_step ops (Call rq) s = Inr (worker_submit ops rq s)"
  by (simp add: worker_submit_def wrapper_render_def Let_def)

lemma calls_worker_submit [simp]: "calls (worker_submit ops rq s) = calls s @ [rq]"
  by (simp add: worker_submit_def wrapper_render_def Let_def)

interpretation worker: render_service
  "\<lambda>s. \<exists>d k. worker_inv ops m0 d k s" "worker_submit ops" "worker_finish ops" calls worker_outcomes
  "expected (answer ops) m0"
proof (unfold_locales, goal_cases)
  case (1 w rq)
  then obtain d k where "worker_inv ops m0 d k w" by blast
  from worker_inv_call [OF this worker_submit_step] show ?case by (intro exI)
next
  case (2 w)
  then obtain d k where "worker_inv ops m0 d k w" by blast
  then show ?case by (rule drain) (auto simp: worker_finish_def)
next
  case (4 w)
  then obtain d k where "worker_inv ops m0 d k w" by blast
  then show ?case by (rule drain) (simp add: worker_finish_def)
next
  case (7 w p)
  then show ?case using worker_inv_promises by (fastforce simp: worker_outcomes_def)
next
  case (8 w)
  then obtain d k where "worker_inv ops m0 d k w" by blast
  then show ?case
    by (rule drain) (auto simp: worker_finish_def worker_outcomes_def dest: worker_inv_quiet(1))
qed (simp_all add: expected_append_nth)

text \<open>So does the module in the page; there is never any outstanding work.\<close>

lemma calls_module_render [simp]: "module_calls (module_render ops rq w) = module_calls w @ [rq]"
  by (simp add: module_render_def case_prod_beta)

interpretation in_page: render_service
  "module_inv ops m0" "module_render ops" "\<lambda>w. w" module_calls module_promises
  "expected (render ops) m0"
proof (unfold_locales, goal_cases)
  case (1 w rq)
  then show ?case by (rule module_inv_render)
next
  case (7 w p)
  then show ?case by (simp add: module_inv_def)
next
  case (8 w)
  then show ?case by (simp add: module_inv_def)
qed (simp_all add: expected_append_nth)

section \<open>The constructor of Viz\<close>

text \<open>
  The options and the static properties that choose the wrapper; a field that is
  \<^verbatim>\<open>undefined\<close> is None.
\<close>

record ('w, 'k, 'r) viz_options =
  opt_workerURL :: "string option"
  opt_worker :: "'w option"
  opt_Module :: "'k option"
  opt_render :: "'r option"

datatype ('w, 'k, 'r) wrapper_choice =
    NewWorker string \<comment> \<open>new WorkerWrapper(new Worker(workerURL))\<close>
  | GivenWorker 'w
  | InPage 'k 'r

definition Viz_new ::
  "('w, 'k, 'r) viz_options \<Rightarrow> 'k option \<Rightarrow> 'r option \<Rightarrow> js_error + ('w, 'k, 'r) wrapper_choice" where
  "Viz_new opts Viz_Module Viz_render =
     (case opt_workerURL opts of Some url \<Rightarrow> Inr (NewWorker url)
      | None \<Rightarrow>
     (case opt_worker opts of Some w \<Rightarrow> Inr (GivenWorker w)
      | None \<Rightarrow>
     (case (opt_Module opts, opt_render opts) of (Some k, Some r) \<Rightarrow> Inr (InPage k r)
      | _ \<Rightarrow>
     (case (Viz_Module, Viz_render) of (Some k, Some r) \<Rightarrow> Inr (InPage k r)
      | _ \<Rightarrow> Inl (JsError ''Must specify workerURL or worker option'')))))"

text \<open>
  The last statement of viz-render.js: in a page that already defines Viz it registers render and
  Module, which is what the fourth case above looks for.
\<close>

definition register_module :: "bool \<Rightarrow> 'k \<Rightarrow> 'r \<Rightarrow> 'k option \<times> 'r option \<Rightarrow> 'k option \<times> 'r option" where
  "register_module viz_defined k r statics = (if viz_defined then (Some k, Some r) else statics)"

section \<open>Properties\<close>

text \<open>
  C26: in every reachable state of the page, the worker and the two queues, the promise of a request
  is pending or holds the answer to that very request, the one the requests would get when run one
  after the other; no answer ever reaches the promise of another request.
\<close>

theorem worker_promise_own_answer:
  assumes "worker_reachable ops m0 s" and "p < length (calls s)"
  shows "promises (wrap s) ! p \<in> {Pending, promise_of (expected (answer ops) m0 (calls s) ! p)}"
proof -
  obtain d k where "worker_inv ops m0 d k s"
    using worker_reachable_inv [OF assms(1)] by blast
  from worker_inv_promises [OF this assms(2)] show ?thesis by simp
qed

text \<open>
  no step of a reachable state throws: when an answer is delivered, the listener of its number
  is still installed, so the handler never calls an undefined listener.
\<close>

theorem worker_step_never_throws:
  assumes "worker_reachable ops m0 s"
  shows "\<exists>t. worker_step ops a s = Inr t"
proof -
  obtain d k where inv: "worker_inv ops m0 d k s"
    using worker_reachable_inv [OF assms] by blast
  show ?thesis
  proof (cases a)
    case (Call rq)
    then show ?thesis using worker_submit_step by blast
  next
    case Work
    then show ?thesis by (simp add: Let_def case_prod_beta split: list.split)
  next
    case Deliver
    obtain t where "worker_step ops Deliver s = Inr t"
      by (rule worker_inv_deliver [OF inv])
    with Deliver show ?thesis by blast
  qed
qed

text \<open>
  C27: from every reachable state, letting the worker take what is in its inbox and delivering what
  it answered settles every promise with the answer to its request and leaves no listener behind.
\<close>

theorem worker_drain_settles:
  assumes "worker_reachable ops m0 s"
  shows "\<exists>t. run_actions ops (drain_schedule s) s = Inr t \<and> calls t = calls s \<and>
    promises (wrap t) = map promise_of (expected (answer ops) m0 (calls s)) \<and>
    listeners (wrap t) = Map.empty"
proof -
  obtain d k where "worker_inv ops m0 d k s"
    using worker_reachable_inv [OF assms] by blast
  then obtain t d' k' where t: "run_actions ops (drain_schedule s) s = Inr t"
    "worker_inv ops m0 d' k' t" "calls t = calls s" "inbox t = []" "outbox t = []"
    by (rule drain)
  from worker_inv_quiet [OF t(2,4,5)] t show ?thesis by simp
qed

lemma run_in_order_map:
  "run_in_order (answer ops) m rqs =
    map_prod (map (map_sum wire_error id)) id (run_in_order (render ops) m rqs)"
proof (induction rqs arbitrary: m)
  case Nil
  then show ?case by simp
next
  case (Cons rq rqs)
  have "answer ops rq m = map_prod (map_sum wire_error id) id (render ops rq m)"
    by (simp add: answer_def split: prod.split sum.split)
  with Cons.IH show ?case by (simp add: Let_def case_prod_beta id_def)
qed

fun module_render_all :: "'m viz_module \<Rightarrow> wire_request list \<Rightarrow> 'm module_wrapper \<Rightarrow> 'm module_wrapper" where
  "module_render_all ops [] w = w"
| "module_render_all ops (rq # rqs) w = module_render_all ops rqs (module_render ops rq w)"

lemma module_render_all_inv:
  "module_inv ops m0 w \<Longrightarrow> module_inv ops m0 (module_render_all ops rqs w) \<and>
    module_calls (module_render_all ops rqs w) = module_calls w @ rqs"
  by (induction rqs arbitrary: w) (simp_all add: module_inv_render)

text \<open>
  C28: a worker with nothing in its queues and the module in the page give the same outcomes for the
  same requests, except that an error passes through the message of the worker and arrives as a
  new Error with the same message, file and line.
\<close>

theorem worker_agrees_with_module:
  assumes "worker_reachable ops m0 s" and "inbox s = []" and "outbox s = []"
  shows "promises (wrap s) = map (map_promise wire_error id)
    (module_promises (module_render_all ops (calls s) (ModuleWrapper_new m0)))"
proof -
  obtain d k where inv: "worker_inv ops m0 d k s"
    using worker_reachable_inv [OF assms(1)] by blast
  have "module_inv ops m0 (ModuleWrapper_new m0)"
    by (simp add: module_inv_def ModuleWrapper_new_def expected_def)
  from module_render_all_inv [OF this, of "calls s"]
  have "module_promises (module_render_all ops (calls s) (ModuleWrapper_new m0)) =
      map promise_of (expected (render ops) m0 (calls s))"
    by (simp add: module_inv_def ModuleWrapper_new_def)
  moreover have "promise_of (map_sum wire_error id r) = map_promise wire_error id (promise_of r)"
    for r :: "thrown + string"
    by (cases r) (simp_all add: promise_of_def)
  ultimately show ?thesis
    using worker_inv_quiet(1) [OF inv assms(2,3)]
    by (simp add: expected_def run_in_order_map)
qed

text \<open>A run of the system: two calls, the second of which makes Graphviz complain.\<close>

definition echo_module :: "nat viz_module" where
  "echo_module = \<lparr>vizCreateFile = (\<lambda>_ _. act_return ()),
     vizSetY_invert = (\<lambda>_. act_return ()), vizSetNop = (\<lambda>_. act_return ()),
     vizRenderFromString = (\<lambda>src _ _ m. (Inr 0, length src)),
     vizLastErrorMessage = (\<lambda>m. (Inr 1, m)),
     Pointer_stringify = (\<lambda>p m. (Inr (if p = 0 then ''<svg/>'' else if m < 2 then ''bad'' else []), m)),
     free_pointer = (\<lambda>_. act_return ())\<rparr>"

definition demo_source :: "string \<Rightarrow> wire_request" where
  "demo_source src = demo_wire_request\<lparr>wq_src := src\<rparr>"

definition demo_actions :: "action list" where
  "demo_actions = [Call (demo_source ''ab''), Call (demo_source ''c''), Work, Deliver, Work]"

definition demo_state :: "nat worker_sys" where
  "demo_state = (case run_actions echo_module demo_actions (worker_init 0) of
     Inr t \<Rightarrow> t | Inl _ \<Rightarrow> worker_init 0)"

lemma run_actions_reachable:
  "worker_reachable ops m0 s \<Longrightarrow> run_actions ops as s = Inr t \<Longrightarrow> worker_reachable ops m0 t"
  by (induction as arbitrary: s) (auto split: sum.splits intro: worker_reachable.step)

lemmas demo_run_defs = demo_actions_def worker_init_def WorkerWrapper_new_def
  wrapper_render_def onmessage_def render_def run_graphviz_def act_defs echo_module_def
  demo_source_def demo_wire_request_def wrapper_on_message_def settle_def truthy_def wire_error_def
  new_error_def Let_def

lemma demo_run: "run_actions echo_module demo_actions (worker_init 0) = Inr demo_state"
  by (simp add: demo_state_def demo_run_defs)

lemma demo_reachable: "worker_reachable echo_module 0 demo_state"
  using worker_reachable.start demo_run by (rule run_actions_reachable)

lemma demo_state_promises: "promises (wrap demo_state) = [Resolved ''<svg/>'', Pending]"
  "length (calls demo_state) = 2" "inbox demo_state = []" "length (outbox demo_state) = 1"
  by (simp_all add: demo_state_def demo_run_defs)

theorem worker_promise_own_answer_witness:
  "promises (wrap demo_state) ! 0 = Resolved ''<svg/>'' \<and>
   promises (wrap demo_state) ! 0
     \<in> {Pending, promise_of (expected (answer echo_module) 0 (calls demo_state) ! 0)}"
  using worker_promise_own_answer [OF demo_reachable, of 0] by (simp add: demo_state_promises)

theorem worker_step_never_throws_witness: "\<exists>t. worker_step echo_module Deliver demo_state = Inr t"
  by (rule worker_step_never_throws [OF demo_reachable])

theorem worker_drain_settles_witness:
  "length (outbox demo_state) = 1 \<and>
   (\<exists>t. run_actions echo_module (drain_schedule demo_state) demo_state = Inr t \<and>
      calls t = calls demo_state \<and>
      promises (wrap t) = map promise_of (expected (answer echo_module) 0 (calls demo_state)) \<and>
      listeners (wrap t) = Map.empty)"
  using worker_drain_settles [OF demo_reachable] by (simp add: demo_state_promises)

definition demo_quiet :: "nat worker_sys" where
  "demo_quiet = (case worker_step echo_module Deliver demo_state of
     Inr t \<Rightarrow> t | Inl _ \<Rightarrow> demo_state)"

lemma demo_quiet_props: "worker_step echo_module Deliver demo_state = Inr demo_quiet"
  "inbox demo_quiet = []" "outbox demo_quiet = []"
  by (simp_all add: demo_quiet_def demo_state_def demo_run_defs)

theorem worker_agrees_with_module_witness:
  "promises (wrap demo_quiet) = [Resolved ''<svg/>'', Rejected (new_error ''bad'')] \<and>
   promises (wrap demo_quiet) = map (map_promise wire_error id)
     (module_promises (module_render_all echo_module (calls demo_quiet) (ModuleWrapper_new 0)))"
proof
  show "promises (wrap demo_quiet) = [Resolved ''<svg/>'', Rejected (new_error ''bad'')]"
    by (simp add: demo_quiet_def demo_state_def demo_run_defs)
  show "promises (wrap demo_quiet) = map (map_promise wire_error id)
     (module_promises (module_render_all echo_module (calls demo_quiet) (ModuleWrapper_new 0)))"
    by (rule worker_agrees_with_module [OF worker_reachable.step [OF demo_reachable demo_quiet_props(1)]
        demo_quiet_props(2,3)])
qed

end
