(* ===== verification/GoStrings.thy ===== *)
theory GoStrings
  imports Prelude "HOL-Library.List_Lexorder" "HOL-Library.Char_ord"
begin

text \<open>
  The parts of the Go standard library the engine under \<^verbatim>\<open>internal/attractor\<close> reads its
  configuration with: strings.SplitN and strings.Split for separators longer than one byte,
  strings.EqualFold, and the parsers built on fmt.Sscanf and strings.ToLower, parseInt and
  parseBool (\<^verbatim>\<open>engine/engine.go\<close>, \<^verbatim>\<open>engine/backoff.go\<close>).

  A Go int has 64 bits; it is modelled by an HOL integer, and \<^verbatim>\<open>wrap64\<close> is written where the
  code computes with it.  Strings compare byte by byte, which is the lexicographic order on lists of
  characters.
\<close>

section \<open>Cutting at a separator\<close>

text \<open>\<^verbatim>\<open>strings.SplitN(s, sep, 2)\<close> at the first occurrence, if there is one.\<close>

fun cut_at :: "'a list \<Rightarrow> 'a list \<Rightarrow> ('a list \<times> 'a list) option" where
  "cut_at sep [] = None"
| "cut_at sep (x # xs) =
     (if has_prefix sep (x # xs) then Some ([], drop (length sep) (x # xs))
      else (case cut_at sep xs of None \<Rightarrow> None | Some (a, b) \<Rightarrow> Some (x # a, b)))"

lemma cut_at_SomeD: "cut_at sep s = Some (a, b) \<Longrightarrow> s = a @ sep @ b"
  by (induction s arbitrary: a)
     (auto simp: has_prefix_append_iff split: if_splits option.splits)

lemma cut_at_length: "cut_at sep s = Some (a, b) \<Longrightarrow> sep \<noteq> [] \<Longrightarrow> length b < length s"
  by (drule cut_at_SomeD) auto

lemma cut_at_None_iff: "sep \<noteq> [] \<Longrightarrow> cut_at sep s = None \<longleftrightarrow> \<not> contains_sub sep s"
  by (induction s) (auto split: option.splits)

text \<open>The part before the first occurrence cannot contain the separator.\<close>

lemma butlast_append_last: "sep \<noteq> [] \<Longrightarrow> butlast sep @ last sep # b = sep @ b"
  by (metis append_Cons append_Nil append_assoc append_butlast_last_id)

lemma not_contains_short: "length s < length sep \<Longrightarrow> \<not> contains_sub sep s"
  by (auto simp: contains_sub_iff)

lemma has_prefix_longer: "has_prefix sep a \<Longrightarrow> has_prefix sep (a @ b)"
  by (auto simp: has_prefix_append_iff)

lemma cut_at_first:
  assumes "cut_at sep s = Some (a, b)" and "sep \<noteq> []"
  shows "\<not> contains_sub sep (a @ butlast sep)"
  using assms
proof (induction s arbitrary: a)
  case Nil
  then show ?case by simp
next
  case (Cons x xs)
  show ?case
  proof (cases "has_prefix sep (x # xs)")
    case True
    with Cons.prems have "a = []" by simp
    with Cons.prems(2) show ?thesis
      by (simp add: not_contains_short)
  next
    case False
    with Cons.prems obtain a' where a: "a = x # a'" "cut_at sep xs = Some (a', b)"
      by (auto split: option.splits)
    from a have "x # xs = (x # a' @ butlast sep) @ last sep # b"
      using cut_at_SomeD [of sep xs a' b] butlast_append_last [OF Cons.prems(2), of b] by simp
    with False have "\<not> has_prefix sep (x # a' @ butlast sep)"
      by (metis has_prefix_longer)
    with Cons.IH [OF a(2) Cons.prems(2)] a show ?thesis
      by simp
  qed
qed

lemma cut_at_append:
  assumes "\<not> contains_sub sep (a @ butlast sep)" and "sep \<noteq> []"
  shows "cut_at sep (a @ sep @ b) = Some (a, b)"
  using assms
proof (induction a)
  case Nil
  obtain x xs where x: "sep @ b = x # xs" using Nil by (cases sep) auto
  have "has_prefix sep (sep @ b)" by (auto simp: has_prefix_append_iff)
  moreover have "drop (length sep) (sep @ b) = b" by simp
  ultimately show ?case by (simp add: x)
next
  case (Cons x a)
  have "\<not> has_prefix sep (x # a @ sep @ b)"
  proof
    assume "has_prefix sep (x # a @ sep @ b)"
    then have "sep = take (length sep) (x # a @ sep @ b)"
      by (auto simp: has_prefix_append_iff dest: arg_cong [where f = "take (length sep)"])
    also have "\<dots> = take (length sep) (x # a @ butlast sep)"
    proof -
      have "x # a @ sep @ b = (x # a @ butlast sep) @ [last sep] @ b"
        using Cons.prems(2) by simp
      moreover have "length sep \<le> length (x # a @ butlast sep)" using Cons.prems(2) by simp
      ultimately show ?thesis by (simp only: take_append) simp
    qed
    finally have "has_prefix sep (x # a @ butlast sep)"
      by (metis append_take_drop_id has_prefix_append_iff)
    with Cons.prems(1) show False by simp
  qed
  with Cons show ?case by simp
qed

text \<open>\<^verbatim>\<open>strings.Split(s, sep)\<close> for a separator that is not empty.\<close>

function split_on :: "'a list \<Rightarrow> 'a list \<Rightarrow> 'a list list" where
  "split_on sep s =
     (if sep = [] then [s]
      else (case cut_at sep s of None \<Rightarrow> [s] | Some (a, b) \<Rightarrow> a # split_on sep b))"
  by pat_completeness auto
termination
  by (relation "measure (\<lambda>(sep, s). length s)") (auto dest: cut_at_length)

declare split_on.simps [simp del]

lemma split_on_none: "sep \<noteq> [] \<Longrightarrow> \<not> contains_sub sep s \<Longrightarrow> split_on sep s = [s]"
  by (simp add: split_on.simps cut_at_None_iff [symmetric])

lemma split_on_append:
  "\<not> contains_sub sep (a @ butlast sep) \<Longrightarrow> sep \<noteq> [] \<Longrightarrow>
   split_on sep (a @ sep @ b) = a # split_on sep b"
  by (simp add: split_on.simps [of sep "a @ sep @ b"] cut_at_append)

text \<open>Splitting undoes joining when no piece can complete a separator.\<close>

lemma split_on_join:
  assumes "sep \<noteq> []" "ws \<noteq> []" "\<forall>w \<in> set ws. \<not> contains_sub sep (w @ butlast sep)"
  shows "split_on sep (join_with sep ws) = ws"
  using assms(2,3)
proof (induction ws)
  case Nil
  then show ?case by simp
next
  case (Cons w ws)
  have w: "\<not> contains_sub sep w"
    using Cons.prems(2) by (metis append_assoc contains_sub_iff list.set_intros(1))
  show ?case
  proof (cases "ws = []")
    case True
    with w assms(1) show ?thesis by (simp add: split_on_none)
  next
    case False
    with Cons assms(1) show ?thesis
      by (simp add: join_with_Cons split_on_append)
  qed
qed

lemma join_split_on: "join_with sep (split_on sep s) = s"
proof (induction sep s rule: split_on.induct)
  case (1 sep s)
  show ?case
  proof (cases "sep = [] \<or> cut_at sep s = None")
    case True
    then show ?thesis by (auto simp: split_on.simps [of sep s])
  next
    case False
    then obtain a b where ab: "cut_at sep s = Some (a, b)" "sep \<noteq> []" by auto
    with 1 have "join_with sep (split_on sep b) = b" by simp
    moreover have "split_on sep b \<noteq> []"
      by (simp add: split_on.simps [of sep b] split: option.splits)
    moreover have "split_on sep s = a # split_on sep b"
      using ab by (simp add: split_on.simps [of sep s])
    ultimately show ?thesis
      using cut_at_SomeD [OF ab(1)] by (simp add: join_with_Cons)
  qed
qed

lemma split_on_no_sep:
  "sep \<noteq> [] \<Longrightarrow> w \<in> set (split_on sep s) \<Longrightarrow> \<not> contains_sub sep w"
proof (induction sep s rule: split_on.induct)
  case (1 sep s)
  show ?case
  proof (cases "cut_at sep s")
    case None
    with 1 show ?thesis by (simp add: split_on.simps [of sep s] cut_at_None_iff)
  next
    case (Some p)
    obtain a b where p: "p = (a, b)" by (cases p)
    with Some have "\<not> contains_sub sep a"
      using cut_at_first [of sep s a b] 1 by (metis append_assoc contains_sub_iff)
    with 1 Some p show ?thesis by (auto simp: split_on.simps [of sep s])
  qed
qed

section \<open>Folding case, trimming lists of names\<close>

definition equal_fold :: "string \<Rightarrow> string \<Rightarrow> bool" where
  "equal_fold s t \<longleftrightarrow> to_lower s = to_lower t"

lemma equal_fold_refl [simp]: "equal_fold s s"
  by (simp add: equal_fold_def)

text \<open>
  The loop over a comma-separated attribute that keeps its entries trimmed and drops empty ones.
\<close>

definition comma_names :: "string \<Rightarrow> string list" where
  "comma_names raw = filter (\<lambda>s. s \<noteq> '''') (map trim_space (split_char (CHR '','') raw))"

lemma comma_names_trimmed: "k \<in> set (comma_names raw) \<Longrightarrow> k \<noteq> '''' \<and> trim_space k = k"
  by (auto simp: comma_names_def)

section \<open>Stable sorting\<close>

text \<open>\<^verbatim>\<open>sort.SliceStable\<close> with a comparison function.\<close>

fun insert_stable :: "('a \<Rightarrow> 'a \<Rightarrow> bool) \<Rightarrow> 'a \<Rightarrow> 'a list \<Rightarrow> 'a list" where
  "insert_stable lt x [] = [x]"
| "insert_stable lt x (y # ys) = (if lt y x then y # insert_stable lt x ys else x # y # ys)"

definition slice_stable :: "('a \<Rightarrow> 'a \<Rightarrow> bool) \<Rightarrow> 'a list \<Rightarrow> 'a list" where
  "slice_stable lt xs = foldr (insert_stable lt) xs []"

text \<open>A comparison that is the order of a key sorts by that key.\<close>

lemma slice_stable_sort_key:
  fixes key :: "'a \<Rightarrow> 'k::linorder"
  assumes "\<And>x y. lt x y \<longleftrightarrow> key x < key y"
  shows "slice_stable lt xs = sort_key key xs"
proof -
  have "insert_stable lt x ys = insort_key key x ys" for x ys
    by (induction ys) (auto simp: assms)
  then show ?thesis by (simp add: slice_stable_def sort_key_def fun_eq_iff cong: foldr_cong)
qed

section \<open>Integers\<close>

definition int64_min :: int where "int64_min = - (2 ^ 63)"
definition int64_max :: int where "int64_max = 2 ^ 63 - 1"

definition wrap64 :: "int \<Rightarrow> int" where
  "wrap64 i = (i + 2 ^ 63) mod 2 ^ 64 - 2 ^ 63"

lemma wrap64_id: "int64_min \<le> i \<Longrightarrow> i \<le> int64_max \<Longrightarrow> wrap64 i = i"
  by (simp add: wrap64_def int64_min_def int64_max_def)

lemma wrap64_range: "int64_min \<le> wrap64 i \<and> wrap64 i \<le> int64_max"
proof -
  have "0 \<le> (i + 2 ^ 63) mod 2 ^ 64" "(i + 2 ^ 63) mod 2 ^ 64 < 2 ^ 64"
    by (auto intro: pos_mod_bound)
  then show ?thesis
    by (auto simp: wrap64_def int64_min_def int64_max_def)
qed

definition is_digit :: "char \<Rightarrow> bool" where
  "is_digit c \<longleftrightarrow> 48 \<le> (of_char c :: nat) \<and> (of_char c :: nat) \<le> 57"

fun digits_value :: "int \<Rightarrow> string \<Rightarrow> int" where
  "digits_value acc [] = acc"
| "digits_value acc (c # cs) = digits_value (10 * acc + int (of_char c - 48)) cs"

text \<open>
  \<^verbatim>\<open>fmt.Sscanf(s, "%d", &n)\<close>: an optional sign and the longest run of digits; what follows them
  is not looked at.  No digits, or a value that does not fit, is an error.
\<close>

definition scan_int :: "string \<Rightarrow> int option" where
  "scan_int s =
     (let (neg, rest) = (case s of
            c # cs \<Rightarrow> if c = CHR ''-'' then (True, cs) else if c = CHR ''+'' then (False, cs) else (False, s)
          | [] \<Rightarrow> (False, []));
          ds = takeWhile is_digit rest;
          v = (if neg then - digits_value 0 ds else digits_value 0 ds)
      in if ds = [] \<or> v < int64_min \<or> v > int64_max then None else Some v)"

definition parseInt :: "string \<Rightarrow> int \<Rightarrow> int" where
  "parseInt str def =
     (let s = trim_space str
      in if s = '''' then def
         else (case scan_int s of None \<Rightarrow> def | Some n \<Rightarrow> n))"

definition parseBool :: "string \<Rightarrow> bool \<Rightarrow> bool" where
  "parseBool str def =
     (let s = to_lower (trim_space str)
      in if s \<in> {''true'', ''1'', ''yes'', ''y''} then True
         else if s \<in> {''false'', ''0'', ''no'', ''n''} then False
         else def)"

lemma parseInt_empty [simp]: "parseInt '''' d = d"
  by (simp add: parseInt_def)

lemma scan_int_range: "scan_int s = Some n \<Longrightarrow> int64_min \<le> n \<and> n \<le> int64_max"
  by (auto simp: scan_int_def Let_def split: if_splits prod.splits)

lemma parseInt_range:
  "int64_min \<le> d \<Longrightarrow> d \<le> int64_max \<Longrightarrow> int64_min \<le> parseInt s d \<and> parseInt s d \<le> int64_max"
  by (auto simp: parseInt_def Let_def dest: scan_int_range split: option.splits)

text \<open>Decimal digits are read back.\<close>

lemma digits_value_append: "digits_value acc (xs @ ys) = digits_value (digits_value acc xs) ys"
  by (induction acc xs rule: digits_value.induct) simp_all

lemma dec_digit_value: "d < 10 \<Longrightarrow> int (of_char (dec_digit d) - 48) = int d \<and> is_digit (dec_digit d)"
  by (simp add: dec_digit_def is_digit_def)

lemma nat_to_dec_value: "digits_value 0 (nat_to_dec n) = int n \<and> list_all is_digit (nat_to_dec n) \<and> nat_to_dec n \<noteq> ''''"
proof (induction n rule: nat_to_dec.induct)
  case (1 n)
  show ?case
  proof (cases "n < 10")
    case True
    then show ?thesis using dec_digit_value [of n] by (simp add: nat_to_dec.simps [of n])
  next
    case False
    have "n = 10 * (n div 10) + n mod 10" by simp
    then have "int n = 10 * int (n div 10) + int (n mod 10)" by presburger
    with False 1 dec_digit_value [of "n mod 10"] show ?thesis
      by (simp add: nat_to_dec.simps [of n] digits_value_append)
  qed
qed

lemma nat_to_dec_inj: "nat_to_dec m = nat_to_dec n \<longleftrightarrow> m = n"
  using nat_to_dec_value by (metis of_nat_eq_iff)

end
