(* ===== verification/StageStatus.thy ===== *)
theory StageStatus
  imports GoStrings
begin

text \<open>
  Values and outcomes of the engine: the dynamic values of a run's context, with what fmt.Sprint
  prints for them, and the status and outcome types of
  \<^verbatim>\<open>internal/attractor/runtime/status.go\<close>.
\<close>

section \<open>Dynamic values\<close>

text \<open>
  A value of type \<^verbatim>\<open>any\<close> that can stand in a context.  A float64 is represented by its shortest
  decimal text, which identifies it and is what fmt.Sprint prints; the entries of a map are listed
  in the order of their keys, which is the order fmt.Sprint prints them in.
\<close>

datatype goval =
    VNil
  | VBool bool
  | VInt int
  | VFloat string
  | VStr string
  | VList "goval list"
  | VMap "(string \<times> goval) list"

fun sprint :: "goval \<Rightarrow> string" where
  "sprint VNil = ''<nil>''"
| "sprint (VBool b) = (if b then ''true'' else ''false'')"
| "sprint (VInt i) = int_to_dec i"
| "sprint (VFloat t) = t"
| "sprint (VStr s) = s"
| "sprint (VList vs) = ''['' @ join_with '' '' (map sprint vs) @ '']''"
| "sprint (VMap kvs) =
     ''map['' @ join_with '' '' (map (\<lambda>kv. fst kv @ '':'' @ sprint (snd kv)) kvs) @ '']''"

section \<open>Stage status\<close>

type_synonym stage_status = string

definition StatusSuccess :: stage_status where "StatusSuccess = ''success''"
definition StatusDegradedSuccess :: stage_status where "StatusDegradedSuccess = ''degraded_success''"
definition StatusPartialSuccess :: stage_status where "StatusPartialSuccess = ''partial_success''"
definition StatusRetry :: stage_status where "StatusRetry = ''retry''"
definition StatusFail :: stage_status where "StatusFail = ''fail''"
definition StatusSkipped :: stage_status where "StatusSkipped = ''skipped''"

lemmas status_defs = StatusSuccess_def StatusDegradedSuccess_def StatusPartialSuccess_def
  StatusRetry_def StatusFail_def StatusSkipped_def

datatype outcome_error = EmptyStatus | MissingFailureReason stage_status

definition ParseStageStatus :: "string \<Rightarrow> outcome_error + stage_status" where
  "ParseStageStatus str =
     (let s = to_lower (trim_space str) in
      if s \<in> {''success'', ''ok''} then Inr StatusSuccess
      else if s \<in> {''degraded_success'', ''degradedsuccess'', ''degraded-success''} then Inr StatusDegradedSuccess
      else if s \<in> {''partial_success'', ''partialsuccess'', ''partial-success''} then Inr StatusPartialSuccess
      else if s = ''retry'' then Inr StatusRetry
      else if s \<in> {''fail'', ''failure'', ''error''} then Inr StatusFail
      else if s \<in> {''skipped'', ''skip''} then Inr StatusSkipped
      else if s = '''' then Inl EmptyStatus
      else Inr s)"

definition Valid :: "stage_status \<Rightarrow> bool" where
  "Valid s = (case ParseStageStatus s of Inl _ \<Rightarrow> False | Inr _ \<Rightarrow> True)"

definition IsCanonical :: "stage_status \<Rightarrow> bool" where
  "IsCanonical s \<longleftrightarrow> s \<in> {StatusSuccess, StatusDegradedSuccess, StatusPartialSuccess,
     StatusRetry, StatusFail, StatusSkipped}"

section \<open>Outcomes\<close>

text \<open>A slice or map field is \<^verbatim>\<open>None\<close> when it is nil.\<close>

record outcome =
  Status :: stage_status
  PreferredLabel :: string
  SuggestedNextIDs :: "string list option"
  ContextUpdates :: "(string \<rightharpoonup> goval) option"
  Notes :: string
  FailureReason :: string
  Details :: goval
  Meta :: "(string \<rightharpoonup> goval) option"

definition zero_outcome :: outcome where
  "zero_outcome = \<lparr>Status = '''', PreferredLabel = '''', SuggestedNextIDs = None,
     ContextUpdates = None, Notes = '''', FailureReason = '''', Details = VNil, Meta = None\<rparr>"

text \<open>Reading a nil map or ranging over a nil slice is reading an empty one.\<close>

definition map_of_nil :: "('k \<rightharpoonup> 'v) option \<Rightarrow> 'k \<rightharpoonup> 'v" where
  "map_of_nil m = (case m of None \<Rightarrow> Map.empty | Some f \<Rightarrow> f)"

definition slice_of_nil :: "'a list option \<Rightarrow> 'a list" where
  "slice_of_nil xs = (case xs of None \<Rightarrow> [] | Some ys \<Rightarrow> ys)"

definition Canonicalize :: "outcome \<Rightarrow> outcome_error + outcome" where
  "Canonicalize out = (case ParseStageStatus (Status out) of
      Inl e \<Rightarrow> Inl e
    | Inr st \<Rightarrow> Inr (out\<lparr>Status := st,
        ContextUpdates := Some (map_of_nil (ContextUpdates out)),
        SuggestedNextIDs := Some (slice_of_nil (SuggestedNextIDs out)),
        Meta := Some (map_of_nil (Meta out))\<rparr>))"

definition Validate :: "outcome \<Rightarrow> outcome_error option" where
  "Validate out = (case Canonicalize out of
      Inl e \<Rightarrow> Some e
    | Inr co \<Rightarrow>
        if (Status co = StatusFail \<or> Status co = StatusRetry) \<and> trim_space (FailureReason co) = ''''
        then Some (MissingFailureReason (Status co)) else None)"

section \<open>Lemmas\<close>

lemma to_lower_char_space: "is_space (to_lower_char c) \<longleftrightarrow> is_space c"
proof -
  have "(of_char c :: nat) < 256" by simp
  have "is_space c \<longleftrightarrow> (of_char c :: nat) \<in> {32, 9, 10, 11, 12, 13}" for c
    by (auto simp: is_space_def of_char_eq_iff [symmetric, where 'a = nat, of c])
  then show ?thesis
    using \<open>(of_char c :: nat) < 256\<close> by (auto simp: to_lower_char_def Let_def)
qed

lemma trim_by_map: "(\<And>c. P (f c) = P c) \<Longrightarrow> trim_by P (map f s) = map f (trim_by P s)"
  by (simp add: trim_by_def dropWhile_map rev_map comp_def)

lemma trim_to_lower: "trim_space (to_lower s) = to_lower (trim_space s)"
  by (simp add: trim_space_def to_lower_def trim_by_map to_lower_char_space)

lemma trim_lower_idem [simp]:
  "to_lower (trim_space (to_lower (trim_space s))) = to_lower (trim_space s)"
  by (simp add: trim_to_lower)

lemma ParseStageStatus_custom:
  "ParseStageStatus s = Inr st \<Longrightarrow> IsCanonical st \<or> st = to_lower (trim_space s) \<and> st \<noteq> ''''"
  by (auto simp: ParseStageStatus_def IsCanonical_def Let_def split: if_splits)

lemma ParseStageStatus_canonical [simp]: "IsCanonical st \<Longrightarrow> ParseStageStatus st = Inr st"
  by (auto simp: IsCanonical_def)  (code_simp+)

lemma ParseStageStatus_idem:
  assumes "ParseStageStatus s = Inr st"
  shows "ParseStageStatus st = Inr st"
proof -
  consider "IsCanonical st" | "st = to_lower (trim_space s)"
    using ParseStageStatus_custom [OF assms] by blast
  then show ?thesis
  proof cases
    case 1
    then show ?thesis by simp
  next
    case 2
    then have "ParseStageStatus st = ParseStageStatus s"
      by (simp add: ParseStageStatus_def)
    with assms show ?thesis by simp
  qed
qed

lemma Valid_iff: "Valid s \<longleftrightarrow> trim_space s \<noteq> ''''"
  by (auto simp: Valid_def ParseStageStatus_def Let_def)

lemma Canonicalize_idem: "Canonicalize out = Inr co \<Longrightarrow> Canonicalize co = Inr co"
  by (auto simp: Canonicalize_def map_of_nil_def slice_of_nil_def dest: ParseStageStatus_idem
      split: sum.splits)

lemma Status_Canonicalize:
  "Canonicalize out = Inr co \<Longrightarrow> ParseStageStatus (Status out) = Inr (Status co)"
  by (auto simp: Canonicalize_def split: sum.splits)

end
