(* ===== verification/RunContext.thy ===== *)
theory RunContext
  imports StageStatus
begin

text \<open>
  The key-value store of a run, \<^verbatim>\<open>internal/attractor/runtime/context.go\<close>.  The operations
  take the lock of the context for their whole duration, so each is one step; the copy that Clone
  makes is the value itself, since values are immutable here.
\<close>

record run_context =
  ctx_values :: "string \<rightharpoonup> goval"
  ctx_logs :: "string list"

definition NewContext :: run_context where
  "NewContext = \<lparr>ctx_values = Map.empty, ctx_logs = []\<rparr>"

definition ctx_Set :: "run_context \<Rightarrow> string \<Rightarrow> goval \<Rightarrow> run_context" where
  "ctx_Set c key v = c\<lparr>ctx_values := (ctx_values c)(key \<mapsto> v)\<rparr>"

definition ctx_Get :: "run_context \<Rightarrow> string \<Rightarrow> goval option" where
  "ctx_Get c key = ctx_values c key"

definition ctx_GetString :: "run_context \<Rightarrow> string \<Rightarrow> string \<Rightarrow> string" where
  "ctx_GetString c key def = (case ctx_Get c key of
      None \<Rightarrow> def
    | Some v \<Rightarrow> if v = VNil then def else sprint v)"

definition ctx_AppendLog :: "run_context \<Rightarrow> string \<Rightarrow> run_context" where
  "ctx_AppendLog c entry = c\<lparr>ctx_logs := ctx_logs c @ [entry]\<rparr>"

definition ctx_ApplyUpdates :: "run_context \<Rightarrow> (string \<rightharpoonup> goval) option \<Rightarrow> run_context" where
  "ctx_ApplyUpdates c updates = c\<lparr>ctx_values := ctx_values c ++ map_of_nil updates\<rparr>"

definition ctx_ReplaceSnapshot :: "run_context \<Rightarrow> (string \<rightharpoonup> goval) \<Rightarrow> string list \<Rightarrow> run_context" where
  "ctx_ReplaceSnapshot c vals lgs = c\<lparr>ctx_values := vals, ctx_logs := lgs\<rparr>"

definition ctx_SnapshotValues :: "run_context \<Rightarrow> (string \<rightharpoonup> goval)" where
  "ctx_SnapshotValues c = ctx_values c"

definition ctx_SnapshotLogs :: "run_context \<Rightarrow> string list" where
  "ctx_SnapshotLogs c = ctx_logs c"

lemma ctx_Get_Set [simp]:
  "ctx_Get (ctx_Set c k v) k' = (if k' = k then Some v else ctx_Get c k')"
  by (simp add: ctx_Get_def ctx_Set_def)

lemma ctx_Get_ApplyUpdates [simp]:
  "ctx_Get (ctx_ApplyUpdates c u) k =
    (case map_of_nil u k of None \<Rightarrow> ctx_Get c k | Some v \<Rightarrow> Some v)"
  by (simp add: ctx_Get_def [abs_def] ctx_ApplyUpdates_def map_add_def split: option.splits)

lemma ctx_Get_New [simp]: "ctx_Get NewContext k = None"
  by (simp add: ctx_Get_def NewContext_def)

lemma ctx_replace_snapshot_self [simp]:
  "ctx_ReplaceSnapshot c' (ctx_SnapshotValues c) (ctx_SnapshotLogs c) =
    c'\<lparr>ctx_values := ctx_values c, ctx_logs := ctx_logs c\<rparr>"
  by (simp add: ctx_ReplaceSnapshot_def ctx_SnapshotValues_def ctx_SnapshotLogs_def)

end
