(* ===== verification/Cond.thy ===== *)
theory Cond
  imports RunContext
begin

text \<open>
  The condition language of edges, \<^verbatim>\<open>internal/attractor/cond/cond.go\<close>: the evaluator over
  strings as the code has it, the abstract syntax its grammar describes, and the proof that the
  evaluator decides the meaning of that syntax.
\<close>

section \<open>The evaluator\<close>

definition resolveKey :: "string \<Rightarrow> outcome \<Rightarrow> run_context option \<Rightarrow> string" where
  "resolveKey key out ctx =
     (if key = ''outcome'' then
        (case Canonicalize out of Inl _ \<Rightarrow> Status out | Inr co \<Rightarrow> Status co)
      else if key = ''preferred_label'' then PreferredLabel out
      else
        (let lookup = (\<lambda>k. case ctx of None \<Rightarrow> None | Some c \<Rightarrow>
               (case ctx_Get c k of None \<Rightarrow> None | Some v \<Rightarrow> if v = VNil then None else Some (sprint v)))
         in if has_prefix ''context.'' key then
              (case lookup key of
                 Some s \<Rightarrow> s
               | None \<Rightarrow> (case lookup (drop (length ''context.'') key) of Some s \<Rightarrow> s | None \<Rightarrow> ''''))
            else (case lookup key of Some s \<Rightarrow> s | None \<Rightarrow> '''')))"

definition canonicalizeCompareValue :: "string \<Rightarrow> string \<Rightarrow> string" where
  "canonicalizeCompareValue key val =
     (if key \<noteq> ''outcome'' then val
      else (case ParseStageStatus val of Inr canonical \<Rightarrow> canonical | Inl _ \<Rightarrow> val))"

datatype cond_error = InvalidClause string

definition evalClause :: "string \<Rightarrow> outcome \<Rightarrow> run_context option \<Rightarrow> cond_error + bool" where
  "evalClause clause out ctx =
     (if contains_sub ''!='' clause then
        (case cut_at ''!='' clause of
           None \<Rightarrow> Inl (InvalidClause clause)
         | Some (k0, v0) \<Rightarrow>
             (let k = trim_space k0; want = trim_space v0; got = resolveKey k out ctx
              in Inr (got \<noteq> canonicalizeCompareValue k want)))
      else if contains_sub ''='' clause then
        (case cut_at ''='' clause of
           None \<Rightarrow> Inl (InvalidClause clause)
         | Some (k0, v0) \<Rightarrow>
             (let k = trim_space k0; want = trim_space v0; got = resolveKey k out ctx
              in Inr (got = canonicalizeCompareValue k want)))
      else
        (let got = resolveKey (trim_space clause) out ctx
         in Inr (got \<noteq> '''' \<and> to_lower got \<notin> {''false'', ''0'', ''no''})))"

fun evalClauses :: "string list \<Rightarrow> outcome \<Rightarrow> run_context option \<Rightarrow> cond_error + bool" where
  "evalClauses [] out ctx = Inr True"
| "evalClauses (c # cs) out ctx =
     (let clause = trim_space c in
      if clause = '''' then evalClauses cs out ctx
      else (case evalClause clause out ctx of
              Inl e \<Rightarrow> Inl e
            | Inr ok \<Rightarrow> if \<not> ok then Inr False else evalClauses cs out ctx))"

definition Evaluate :: "string \<Rightarrow> outcome \<Rightarrow> run_context option \<Rightarrow> cond_error + bool" where
  "Evaluate cnd out ctx =
     (let condition = trim_space cnd in
      if condition = '''' then Inr True
      else evalClauses (split_on ''&&'' condition) out ctx)"

section \<open>Abstract syntax and meaning\<close>

datatype clause = Equals string string | Differs string string | Truthy string

fun holds :: "outcome \<Rightarrow> run_context option \<Rightarrow> clause \<Rightarrow> bool" where
  "holds out ctx (Equals k v) \<longleftrightarrow> resolveKey k out ctx = canonicalizeCompareValue k v"
| "holds out ctx (Differs k v) \<longleftrightarrow> resolveKey k out ctx \<noteq> canonicalizeCompareValue k v"
| "holds out ctx (Truthy k) \<longleftrightarrow>
     resolveKey k out ctx \<noteq> '''' \<and> to_lower (resolveKey k out ctx) \<notin> {''false'', ''0'', ''no''}"

fun print_clause :: "clause \<Rightarrow> string" where
  "print_clause (Equals k v) = k @ ''='' @ v"
| "print_clause (Differs k v) = k @ ''!='' @ v"
| "print_clause (Truthy k) = k"

text \<open>
  A word has no blanks at its ends.  The printed form of a clause can be read back when its key has
  none of the characters of an operator and its literal cannot complete one.
\<close>

definition trimmed :: "string \<Rightarrow> bool" where
  "trimmed s \<longleftrightarrow> s = '''' \<or> \<not> is_space (hd s) \<and> \<not> is_space (last s)"

definition good_key :: "string \<Rightarrow> bool" where
  "good_key k \<longleftrightarrow> k \<noteq> '''' \<and> trimmed k \<and> set k \<inter> {CHR ''='', CHR ''!'', CHR ''&''} = {}"

definition good_literal :: "string \<Rightarrow> bool" where
  "good_literal v \<longleftrightarrow> trimmed v \<and> CHR ''&'' \<notin> set v \<and> \<not> contains_sub ''!='' v"

fun good_clause :: "clause \<Rightarrow> bool" where
  "good_clause (Equals k v) \<longleftrightarrow> good_key k \<and> good_literal v"
| "good_clause (Differs k v) \<longleftrightarrow> good_key k \<and> trimmed v \<and> CHR ''&'' \<notin> set v"
| "good_clause (Truthy k) \<longleftrightarrow> good_key k"

definition print_condition :: "clause list \<Rightarrow> string" where
  "print_condition cs = join_with '' && '' (map print_clause cs)"

section \<open>Trimming\<close>

lemma trim_space_trimmed: "trimmed s \<Longrightarrow> trim_space s = s"
proof -
  assume "trimmed s"
  then have "dropWhile is_space s = s" "dropWhile is_space (rev s) = rev s"
    by (auto simp: trimmed_def hd_rev dropWhile_eq_self_iff)
  then show ?thesis by (simp add: trim_space_def trim_by_def)
qed

lemma trim_space_pad:
  assumes "\<forall>c \<in> set pre. is_space c" "\<forall>c \<in> set post. is_space c"
  shows "trim_space (pre @ s @ post) = trim_space s"
proof -
  have pre: "dropWhile is_space (pre @ t) = dropWhile is_space t" for t
    using assms(1) by (simp add: dropWhile_append2)
  show ?thesis
  proof (cases "\<forall>c \<in> set s. is_space c")
    case True
    with assms have "\<forall>c \<in> set (pre @ s @ post). is_space c" by auto
    then have "dropWhile is_space (pre @ s @ post) = []" "dropWhile is_space s = []"
      using True by (simp_all only: dropWhile_eq_Nil_conv)
    then show ?thesis by (simp only: trim_space_def trim_by_def)
  next
    case False
    then have "dropWhile is_space (s @ post) = dropWhile is_space s @ post"
      by (auto intro: dropWhile_append1)
    moreover have "dropWhile is_space (rev post @ t) = dropWhile is_space t" for t
      using assms(2) by (intro dropWhile_append2) auto
    ultimately show ?thesis
      by (simp add: trim_space_def trim_by_def pre)
  qed
qed

section \<open>The evaluator decides the meaning\<close>

lemma contains_sub_skip:
  "p \<noteq> [] \<Longrightarrow> hd p \<notin> set k \<Longrightarrow> contains_sub p (k @ s) \<longleftrightarrow> contains_sub p s"
  by (induction k) (auto simp: has_prefix_append_iff Cons_eq_append_conv)

lemma good_key_parts:
  assumes "good_key k"
  shows "trim_space k = k" "k \<noteq> ''''" "CHR ''='' \<notin> set k" "CHR ''!'' \<notin> set k" "CHR ''&'' \<notin> set k"
    "\<not> is_space (hd k)" "\<not> is_space (last k)"
  using assms by (auto simp: good_key_def trimmed_def intro: trim_space_trimmed)

lemma evalClause_print:
  assumes "good_clause c"
  shows "evalClause (print_clause c) out ctx = Inr (holds out ctx c)"
proof (cases c)
  case (Equals k v)
  with assms have k: "good_key k" and v: "good_literal v" by auto
  have "\<not> contains_sub ''!='' (k @ ''='' @ v)"
    using good_key_parts [OF k] v by (simp add: contains_sub_skip good_literal_def)
  moreover have "cut_at ''='' (k @ ''='' @ v) = Some (k, v)"
    using good_key_parts [OF k] contains_sub_skip [of "''=''" k "''''"] by (intro cut_at_append) auto
  moreover have "contains_sub ''='' (k @ ''='' @ v)"
    by (metis contains_sub_iff)
  ultimately show ?thesis
    using v good_key_parts [OF k] Equals
    by (auto simp: evalClause_def Let_def good_literal_def trim_space_trimmed)
next
  case (Differs k v)
  with assms have k: "good_key k" and v: "trimmed v" by auto
  have "cut_at ''!='' (k @ ''!='' @ v) = Some (k, v)"
    using good_key_parts [OF k] contains_sub_skip [of "''!=''" k "''!''"] by (intro cut_at_append) auto
  moreover have "contains_sub ''!='' (k @ ''!='' @ v)"
    by (metis contains_sub_iff)
  ultimately show ?thesis
    using v good_key_parts [OF k] Differs
    by (auto simp: evalClause_def Let_def trim_space_trimmed)
next
  case (Truthy k)
  with assms have k: "good_key k" by auto
  then have "\<not> contains_sub ''='' k" "\<not> contains_sub ''!='' k"
    using good_key_parts [OF k] contains_sub_skip [of "''=''" k "''''"] contains_sub_skip [of "''!=''" k "''''"]
    by auto
  then show ?thesis
    using good_key_parts [OF k] Truthy by (simp add: evalClause_def Let_def)
qed

lemma good_clause_shape:
  assumes "good_clause c"
  shows "print_clause c \<noteq> ''''" "trimmed (print_clause c)" "CHR ''&'' \<notin> set (print_clause c)"
  using assms
  by (cases c; auto simp: good_key_def good_literal_def trimmed_def is_space_def)+

lemma evalClauses_pad:
  assumes "ws \<noteq> []" "\<forall>w \<in> set ws. CHR ''&'' \<notin> set w" "set pre \<subseteq> {CHR '' ''}"
  shows "evalClauses (split_on ''&&'' (pre @ join_with '' && '' ws)) out ctx = evalClauses ws out ctx"
  using assms
proof (induction ws arbitrary: pre)
  case Nil
  then show ?case by simp
next
  case (Cons w ws)
  have pad: "trim_space (pre @ w) = trim_space w" "trim_space (pre @ w @ '' '') = trim_space w"
    using trim_space_pad [of pre "[]" w] trim_space_pad [of pre "'' ''" w] Cons.prems(3)
    by (auto simp: is_space_def)
  have amp: "CHR ''&'' \<notin> set (pre @ w @ '' '')" using Cons.prems by auto
  show ?case
  proof (cases "ws = []")
    case True
    have "\<not> contains_sub ''&&'' (pre @ w)"
      using amp contains_sub_skip [of "''&&''" "pre @ w" "''''"] by simp
    with True show ?thesis by (simp add: split_on_none pad)
  next
    case False
    have "\<not> contains_sub ''&&'' ((pre @ w @ '' '') @ ''&'')"
      using amp contains_sub_skip [of "''&&''" "pre @ w @ '' ''" "''&''"] by simp
    then have "split_on ''&&'' ((pre @ w @ '' '') @ ''&&'' @ ('' '' @ join_with '' && '' ws)) =
        (pre @ w @ '' '') # split_on ''&&'' ('' '' @ join_with '' && '' ws)"
      by (intro split_on_append) auto
    moreover have "evalClauses (split_on ''&&'' ('' '' @ join_with '' && '' ws)) out ctx = evalClauses ws out ctx"
      using Cons.prems False by (intro Cons.IH) auto
    ultimately show ?thesis
      using False by (simp add: join_with_Cons pad Let_def split: sum.splits)
  qed
qed

lemma evalClauses_print:
  "\<forall>c \<in> set cs. good_clause c \<Longrightarrow>
   evalClauses (map print_clause cs) out ctx = Inr (\<forall>c \<in> set cs. holds out ctx c)"
  by (induction cs) (auto simp: evalClause_print good_clause_shape trim_space_trimmed)

lemma trimmed_print_condition:
  assumes "\<forall>c \<in> set cs. good_clause c"
  shows "trimmed (print_condition cs)"
proof (cases "cs = []")
  case True
  then show ?thesis by (simp add: print_condition_def trimmed_def)
next
  case False
  from False assms have "trimmed (print_clause (hd cs))" "trimmed (print_clause (last cs))"
    by (simp_all add: good_clause_shape)
  moreover have "\<forall>w \<in> set (map print_clause cs). w \<noteq> []"
    using assms by (simp add: good_clause_shape)
  ultimately show ?thesis
    using join_ends [of "map print_clause cs" "'' && ''"] False assms
    by (auto simp: print_condition_def trimmed_def hd_map last_map good_clause_shape)
qed

lemma Evaluate_print:
  assumes "\<forall>c \<in> set cs. good_clause c"
  shows "Evaluate (print_condition cs) out ctx = Inr (\<forall>c \<in> set cs. holds out ctx c)"
proof (cases "cs = []")
  case True
  then show ?thesis by (simp add: print_condition_def Evaluate_def)
next
  case False
  have "print_condition cs \<noteq> ''''"
    using join_ends [of "map print_clause cs" "'' && ''"] assms False
    by (simp add: print_condition_def good_clause_shape)
  moreover have "evalClauses (split_on ''&&'' (print_condition cs)) out ctx =
      evalClauses (map print_clause cs) out ctx"
    using evalClauses_pad [of "map print_clause cs" "''''" out ctx] assms False
    by (simp add: print_condition_def good_clause_shape)
  ultimately show ?thesis
    using trim_space_trimmed [OF trimmed_print_condition [OF assms]] assms
    by (simp add: Evaluate_def evalClauses_print)
qed

lemma evalClause_total: "\<exists>b. evalClause c out ctx = Inr b"
  using cut_at_None_iff [of "''!=''" c] cut_at_None_iff [of "''=''" c]
  by (auto simp: evalClause_def Let_def split: option.splits)

lemma evalClauses_total: "\<exists>b. evalClauses cs out ctx = Inr b"
proof (induction cs)
  case Nil
  show ?case by (intro exI [of _ True]) simp
next
  case (Cons c cs)
  with evalClause_total [of "trim_space c" out ctx] show ?case
    by (auto simp: Let_def)
qed

lemma Evaluate_total: "\<exists>b. Evaluate cnd out ctx = Inr b"
proof (cases "trim_space cnd = ''''")
  case True
  then show ?thesis by (intro exI [of _ True]) (simp add: Evaluate_def)
next
  case False
  then show ?thesis by (simp add: Evaluate_def evalClauses_total)
qed

section \<open>Properties\<close>

text \<open>
  C9: printing a list of clauses of the grammar and evaluating the text gives the conjunction of
  their meanings, and no error: the string evaluator implements the grammar of its documentation.
\<close>

theorem Evaluate_decides_grammar:
  assumes "\<forall>c \<in> set cs. good_clause c"
  shows "Evaluate (print_condition cs) out ctx = Inr (\<forall>c \<in> set cs. holds out ctx c)"
  using assms by (rule Evaluate_print)

theorem Evaluate_decides_grammar_witness:
  "Evaluate (print_condition [Equals ''outcome'' ''FAILURE'', Differs ''context.tries'' ''3'', Truthy ''ready''])
     (zero_outcome\<lparr>Status := ''fail''\<rparr>)
     (Some (ctx_Set (ctx_Set NewContext ''tries'' (VInt 2)) ''ready'' (VStr ''Yes''))) = Inr True"
proof -
  have good: "\<forall>c \<in> set [Equals ''outcome'' ''FAILURE'', Differs ''context.tries'' ''3'', Truthy ''ready'']. good_clause c"
    by (simp add: good_key_def good_literal_def trimmed_def is_space_def)
  have "(\<forall>c \<in> set [Equals ''outcome'' ''FAILURE'', Differs ''context.tries'' ''3'', Truthy ''ready''].
      holds (zero_outcome\<lparr>Status := ''fail''\<rparr>)
        (Some (ctx_Set (ctx_Set NewContext ''tries'' (VInt 2)) ''ready'' (VStr ''Yes''))) c) = True"
    by code_simp
  then show ?thesis
    by (simp only: Evaluate_decides_grammar [OF good])
qed

text \<open>
  a clause on the outcome compares statuses up to case, blanks and aliases: it holds exactly
  when the literal and the status of the outcome name the same stage status.
\<close>

theorem outcome_clause_up_to_aliases:
  assumes "good_literal v" and "Valid v" and "Valid (Status out)"
  shows "Evaluate (''outcome='' @ v) out ctx =
    Inr (ParseStageStatus (Status out) = ParseStageStatus v)"
proof -
  have "good_clause (Equals ''outcome'' v)"
    using assms(1) by (simp add: good_key_def trimmed_def is_space_def)
  then have "Evaluate (''outcome='' @ v) out ctx = Inr (holds out ctx (Equals ''outcome'' v))"
    using Evaluate_print [of "[Equals ''outcome'' v]"] by (simp add: print_condition_def)
  with assms(2,3) show ?thesis
    by (auto simp: resolveKey_def Canonicalize_def canonicalizeCompareValue_def Valid_def split: sum.splits)
qed

theorem outcome_clause_up_to_aliases_witness:
  "Evaluate (''outcome='' @ ''Skip'') (zero_outcome\<lparr>Status := ''skipped''\<rparr>) None =
     Inr (ParseStageStatus ''skipped'' = ParseStageStatus ''Skip'')"
  using outcome_clause_up_to_aliases [of "''Skip''" "zero_outcome\<lparr>Status := ''skipped''\<rparr>" None]
  by (simp add: good_literal_def trimmed_def is_space_def Valid_iff trim_space_def trim_by_def zero_outcome_def)

text \<open>
  a condition never fails to evaluate, whatever its text: the error results of the evaluator
  and of every caller that checks for one are unreachable.
\<close>

theorem Evaluate_never_errs: "\<exists>b. Evaluate cnd out ctx = Inr b"
  by (rule Evaluate_total)

end
