(* ===== verification/GraphModel.thy ===== *)
theory GraphModel
  imports GoStrings
begin

text \<open>
  The flattened graph of a pipeline, \<^verbatim>\<open>internal/attractor/model/model.go\<close>: nodes and edges
  with raw attributes, the two constructors that fill a graph, and the index of outgoing and
  incoming edges they maintain.
\<close>

section \<open>Data\<close>

record node =
  node_id :: string
  node_attrs :: "string \<rightharpoonup> string"
  node_classes :: "string list"
  node_order :: int

record edge =
  edge_from :: string
  edge_to :: string
  edge_attrs :: "string \<rightharpoonup> string"
  edge_order :: int

record graph =
  g_name :: string
  g_attrs :: "string \<rightharpoonup> string"
  g_nodes :: "string \<rightharpoonup> node"
  g_edges :: "edge list"
  g_outgoing :: "string \<Rightarrow> edge list"
  g_incoming :: "string \<Rightarrow> edge list"

datatype graph_error = NilNode | EmptyNodeId | NilEdge | EmptyEndpoint

definition NewGraph :: "string \<Rightarrow> graph" where
  "NewGraph nm = \<lparr>g_name = nm, g_attrs = Map.empty, g_nodes = Map.empty, g_edges = [],
     g_outgoing = (\<lambda>_. []), g_incoming = (\<lambda>_. [])\<rparr>"

definition NewNode :: "string \<Rightarrow> node" where
  "NewNode i = \<lparr>node_id = i, node_attrs = Map.empty, node_classes = [], node_order = 0\<rparr>"

definition NewEdge :: "string \<Rightarrow> string \<Rightarrow> edge" where
  "NewEdge a b = \<lparr>edge_from = a, edge_to = b, edge_attrs = Map.empty, edge_order = - 1\<rparr>"

fun dedupe_from :: "string set \<Rightarrow> string list \<Rightarrow> string list" where
  "dedupe_from seen [] = []"
| "dedupe_from seen (s # ss) =
     (if s \<in> seen then dedupe_from seen ss else s # dedupe_from (insert s seen) ss)"

definition dedupeStable :: "string list \<Rightarrow> string list" where
  "dedupeStable xs = dedupe_from {} xs"

definition mergeClasses :: "string list \<Rightarrow> string list \<Rightarrow> string list" where
  "mergeClasses a b = dedupeStable (a @ b)"

definition AddNode :: "graph \<Rightarrow> node option \<Rightarrow> graph_error + graph" where
  "AddNode g nd = (case nd of
      None \<Rightarrow> Inl NilNode
    | Some n \<Rightarrow>
        if node_id n = '''' then Inl EmptyNodeId
        else (case g_nodes g (node_id n) of
            Some existing \<Rightarrow>
              Inr (g\<lparr>g_nodes := (g_nodes g)(node_id n \<mapsto>
                existing\<lparr>node_attrs := node_attrs existing ++ node_attrs n,
                         node_classes := mergeClasses (node_classes existing) (node_classes n)\<rparr>)\<rparr>)
          | None \<Rightarrow> Inr (g\<lparr>g_nodes := (g_nodes g)(node_id n \<mapsto> n)\<rparr>)))"

definition AddEdge :: "graph \<Rightarrow> edge option \<Rightarrow> graph_error + graph" where
  "AddEdge g ed = (case ed of
      None \<Rightarrow> Inl NilEdge
    | Some e0 \<Rightarrow>
        if edge_from e0 = '''' \<or> edge_to e0 = '''' then Inl EmptyEndpoint
        else (let e = e0\<lparr>edge_order := int (length (g_edges g))\<rparr> in
              Inr (g\<lparr>g_edges := g_edges g @ [e],
                     g_outgoing := (g_outgoing g)(edge_from e := g_outgoing g (edge_from e) @ [e]),
                     g_incoming := (g_incoming g)(edge_to e := g_incoming g (edge_to e) @ [e])\<rparr>)))"

definition Outgoing :: "graph \<Rightarrow> string \<Rightarrow> edge list" where
  "Outgoing g i = g_outgoing g i"

definition Incoming :: "graph \<Rightarrow> string \<Rightarrow> edge list" where
  "Incoming g i = g_incoming g i"

section \<open>Reading attributes\<close>

text \<open>\<^verbatim>\<open>g.Attrs[key]\<close> reads the empty string when the key is absent.\<close>

definition graph_attr :: "graph \<Rightarrow> string \<Rightarrow> string" where
  "graph_attr g key = (case g_attrs g key of None \<Rightarrow> '''' | Some v \<Rightarrow> v)"

definition node_Attr :: "node option \<Rightarrow> string \<Rightarrow> string \<Rightarrow> string" where
  "node_Attr nd key def = (case nd of
      None \<Rightarrow> def
    | Some n \<Rightarrow> (case node_attrs n key of Some v \<Rightarrow> v | None \<Rightarrow> def))"

definition node_Shape :: "node \<Rightarrow> string" where
  "node_Shape n = (let shape = node_Attr (Some n) ''shape'' '''' in if shape = '''' then ''box'' else shape)"

definition node_TypeOverride :: "node \<Rightarrow> string" where
  "node_TypeOverride n = node_Attr (Some n) ''type'' ''''"

definition node_Label :: "node \<Rightarrow> string" where
  "node_Label n = (let lbl = node_Attr (Some n) ''label'' '''' in if lbl = '''' then node_id n else lbl)"

definition node_Prompt :: "node \<Rightarrow> string" where
  "node_Prompt n = (let p = node_Attr (Some n) ''prompt'' '''' in
     if p \<noteq> '''' then p else node_Attr (Some n) ''llm_prompt'' '''')"

definition node_ClassList :: "node \<Rightarrow> string list" where
  "node_ClassList n =
     (let raw = node_Attr (Some n) ''class'' '''' in
      dedupeStable (node_classes n @ (if raw \<noteq> '''' then comma_names raw else [])))"

definition edge_Attr :: "edge option \<Rightarrow> string \<Rightarrow> string \<Rightarrow> string" where
  "edge_Attr ed key def = (case ed of
      None \<Rightarrow> def
    | Some e \<Rightarrow> (case edge_attrs e key of Some v \<Rightarrow> v | None \<Rightarrow> def))"

definition edge_Label :: "edge \<Rightarrow> string" where
  "edge_Label e = edge_Attr (Some e) ''label'' ''''"

definition edge_Condition :: "edge \<Rightarrow> string" where
  "edge_Condition e = edge_Attr (Some e) ''condition'' ''''"

section \<open>Duplicates\<close>

lemma set_dedupe_from: "set (dedupe_from seen xs) = set xs - seen"
  by (induction seen xs rule: dedupe_from.induct) auto

lemma distinct_dedupe_from: "distinct (dedupe_from seen xs)"
  by (induction seen xs rule: dedupe_from.induct) (auto simp: set_dedupe_from)

lemma dedupe_from_distinct:
  "distinct xs \<Longrightarrow> set xs \<inter> seen = {} \<Longrightarrow> dedupe_from seen xs = xs"
  by (induction seen xs rule: dedupe_from.induct) auto

lemma set_dedupeStable [simp]: "set (dedupeStable xs) = set xs"
  by (simp add: dedupeStable_def set_dedupe_from)

lemma distinct_dedupeStable [simp]: "distinct (dedupeStable xs)"
  by (simp add: dedupeStable_def distinct_dedupe_from)

lemma dedupeStable_distinct: "distinct xs \<Longrightarrow> dedupeStable xs = xs"
  by (simp add: dedupeStable_def dedupe_from_distinct)

section \<open>The invariant of a graph\<close>

text \<open>
  The number of an edge is its place in the declaration order, both indexes list exactly the edges
  of their end in that order, and every node stands under its own identifier.
\<close>

definition wf_graph :: "graph \<Rightarrow> bool" where
  "wf_graph g \<longleftrightarrow>
     map edge_order (g_edges g) = map int [0..<length (g_edges g)] \<and>
     (\<forall>i. g_outgoing g i = filter (\<lambda>e. edge_from e = i) (g_edges g)) \<and>
     (\<forall>i. g_incoming g i = filter (\<lambda>e. edge_to e = i) (g_edges g)) \<and>
     (\<forall>e \<in> set (g_edges g). edge_from e \<noteq> '''' \<and> edge_to e \<noteq> '''') \<and>
     (\<forall>i n. g_nodes g i = Some n \<longrightarrow> node_id n = i) \<and> g_nodes g '''' = None \<and>
     finite (dom (g_nodes g))"

lemma wf_NewGraph [wf_intros]: "wf_graph (NewGraph nm)"
  by (simp add: wf_graph_def NewGraph_def)

lemma wf_AddNode [wf_intros]: "wf_graph g \<Longrightarrow> AddNode g nd = Inr g' \<Longrightarrow> wf_graph g'"
  by (auto simp: wf_graph_def AddNode_def split: option.splits if_splits)

lemma wf_AddEdge [wf_intros]: "wf_graph g \<Longrightarrow> AddEdge g ed = Inr g' \<Longrightarrow> wf_graph g'"
  by (auto simp: wf_graph_def AddEdge_def Let_def split: option.splits if_splits)

lemma wf_graph_attrs [wf_intros]: "wf_graph g \<Longrightarrow> wf_graph (g\<lparr>g_attrs := a\<rparr>)"
  by (simp add: wf_graph_def)

inductive built_graph :: "graph \<Rightarrow> bool" where
  new: "built_graph (NewGraph nm)"
| attrs: "built_graph g \<Longrightarrow> built_graph (g\<lparr>g_attrs := a\<rparr>)"
| node: "built_graph g \<Longrightarrow> AddNode g nd = Inr g' \<Longrightarrow> built_graph g'"
| edge: "built_graph g \<Longrightarrow> AddEdge g ed = Inr g' \<Longrightarrow> built_graph g'"

lemma built_wf: "built_graph g \<Longrightarrow> wf_graph g"
  by (induction rule: built_graph.induct) (auto intro: wf_intros)

lemma Outgoing_filter: "wf_graph g \<Longrightarrow> Outgoing g i = filter (\<lambda>e. edge_from e = i) (g_edges g)"
  by (simp add: wf_graph_def Outgoing_def)

lemma Incoming_filter: "wf_graph g \<Longrightarrow> Incoming g i = filter (\<lambda>e. edge_to e = i) (g_edges g)"
  by (simp add: wf_graph_def Incoming_def)

lemma sorted_orders: "wf_graph g \<Longrightarrow> sorted_wrt (<) (map edge_order (g_edges g))"
  by (simp add: wf_graph_def sorted_wrt_map)

lemma sorted_wrt_filter_map:
  "sorted_wrt R (map f xs) \<Longrightarrow> sorted_wrt R (map f (filter P xs))"
  by (induction xs) auto

lemma sorted_Outgoing: "wf_graph g \<Longrightarrow> sorted_wrt (<) (map edge_order (Outgoing g i))"
  by (simp add: Outgoing_filter sorted_wrt_filter_map sorted_orders)

lemma distinct_Outgoing_orders: "wf_graph g \<Longrightarrow> distinct (map edge_order (Outgoing g i))"
  using sorted_Outgoing strict_sorted_iff by blast

lemma Outgoing_from: "wf_graph g \<Longrightarrow> e \<in> set (Outgoing g i) \<Longrightarrow> edge_from e = i"
  by (simp add: Outgoing_filter)

text \<open>Adding several nodes or edges, as the parser does; a refused one leaves the graph as it is.\<close>

definition add_nodes :: "node list \<Rightarrow> graph \<Rightarrow> graph" where
  "add_nodes ns g = fold (\<lambda>n g. case AddNode g (Some n) of Inl _ \<Rightarrow> g | Inr g' \<Rightarrow> g') ns g"

definition add_edges :: "edge list \<Rightarrow> graph \<Rightarrow> graph" where
  "add_edges es g = fold (\<lambda>e g. case AddEdge g (Some e) of Inl _ \<Rightarrow> g | Inr g' \<Rightarrow> g') es g"

lemma built_add_nodes: "built_graph g \<Longrightarrow> built_graph (add_nodes ns g)"
  by (induction ns arbitrary: g) (auto simp: add_nodes_def split: sum.splits intro: built_graph.node)

lemma built_add_edges: "built_graph g \<Longrightarrow> built_graph (add_edges es g)"
  by (induction es arbitrary: g) (auto simp: add_edges_def split: sum.splits intro: built_graph.edge)

lemma nodes_add_edges [simp]: "g_nodes (add_edges es g) = g_nodes g"
  by (induction es arbitrary: g) (auto simp: add_edges_def AddEdge_def Let_def split: sum.split)

lemma dom_add_nodes: "dom (g_nodes (add_nodes ns g)) = dom (g_nodes g) \<union> (node_id ` set ns - {''''})"
proof (induction ns arbitrary: g)
  case (Cons n ns)
  show ?case
  proof (cases "AddNode g (Some n)")
    case (Inl err)
    then have "node_id n = ''''" by (auto simp: AddNode_def split: if_splits option.splits)
    with Inl Cons [of g] show ?thesis by (simp add: add_nodes_def)
  next
    case (Inr h)
    then have "dom (g_nodes h) = insert (node_id n) (dom (g_nodes g))" "node_id n \<noteq> ''''"
      by (auto simp: AddNode_def split: if_splits option.splits)
    with Inr Cons [of h] show ?thesis by (auto simp: add_nodes_def)
  qed
qed (simp add: add_nodes_def)

section \<open>Properties\<close>

text \<open>
  in every graph that AddNode and AddEdge can build, an edge is listed as outgoing exactly at
  its source and as incoming exactly at its target, in declaration order, and its number is its
  place among all edges.
\<close>

theorem built_graph_edge_index:
  assumes "built_graph g"
  shows "Outgoing g i = filter (\<lambda>e. edge_from e = i) (g_edges g) \<and>
    Incoming g i = filter (\<lambda>e. edge_to e = i) (g_edges g) \<and>
    map edge_order (g_edges g) = map int [0..<length (g_edges g)]"
  using built_wf [OF assms] by (simp add: Outgoing_filter Incoming_filter) (simp add: wf_graph_def)

theorem built_graph_edge_index_witness:
  "Outgoing (add_edges [NewEdge ''a'' ''b'', NewEdge ''b'' ''c'', NewEdge ''a'' ''c''] (NewGraph ''g'')) ''a'' =
   filter (\<lambda>e. edge_from e = ''a'')
     (g_edges (add_edges [NewEdge ''a'' ''b'', NewEdge ''b'' ''c'', NewEdge ''a'' ''c''] (NewGraph ''g'')))"
  using built_graph_edge_index [OF built_add_edges [OF built_graph.new]] by blast

end
