(* ===== verification/FailurePolicy.thy ===== *)
theory FailurePolicy
  imports StageStatus GraphModel
begin

text \<open>
  How the engine classifies a failed stage and decides whether another attempt is worth making:
  \<^verbatim>\<open>internal/attractor/engine/loop_restart_policy.go\<close> and
  \<^verbatim>\<open>failure_policy.go\<close>.  The regular expressions of normalizeFailureReason are written
  out over maximal runs of word characters: a match between two word boundaries is a whole run.
\<close>

section \<open>Failure classes\<close>

type_synonym failure_class = string

definition failureClassTransientInfra :: failure_class where "failureClassTransientInfra = ''transient_infra''"
definition failureClassDeterministic :: failure_class where "failureClassDeterministic = ''deterministic''"
definition failureClassCanceled :: failure_class where "failureClassCanceled = ''canceled''"
definition failureClassBudgetExhausted :: failure_class where "failureClassBudgetExhausted = ''budget_exhausted''"
definition failureClassCompilationLoop :: failure_class where "failureClassCompilationLoop = ''compilation_loop''"
definition failureClassStructural :: failure_class where "failureClassStructural = ''structural''"

lemmas failure_class_defs = failureClassTransientInfra_def failureClassDeterministic_def
  failureClassCanceled_def failureClassBudgetExhausted_def failureClassCompilationLoop_def
  failureClassStructural_def

definition defaultLoopRestartSignatureLimit :: int where "defaultLoopRestartSignatureLimit = 3"
definition defaultMaxNodeVisits :: int where "defaultMaxNodeVisits = 0"

definition transientInfraReasonHints :: "string list" where
  "transientInfraReasonHints = [
    ''timeout'', ''timed out'', ''context deadline exceeded'', ''connection refused'',
    ''connection reset'', ''could not resolve host'', ''could not resolve hostname'',
    ''temporary failure in name resolution'', ''network is unreachable'',
    ''net::err_internet_disconnected'', ''broken pipe'', ''tls handshake timeout'', ''i/o timeout'',
    ''no route to host'', ''temporary failure'', ''temporarily unavailable'', ''try again'',
    ''rate limit'', ''too many requests'', ''service unavailable'', ''gateway timeout'',
    ''econnrefused'', ''econnreset'', ''dial tcp'', ''transport is closing'',
    ''stream disconnected'', ''stream closed before'', ''index.crates.io'',
    ''download of config.json failed'', ''toolchain_or_dependency_registry_unavailable'',
    ''toolchain dependency resolution blocked by network'', ''toolchain_workspace_io'',
    ''cross-device link'', ''invalid cross-device link'', ''os error 18'', ''502'', ''503'', ''504'']"

definition budgetExhaustedReasonHints :: "string list" where
  "budgetExhaustedReasonHints = [
    ''turn limit'', ''max_turns'', ''max turns'', ''token limit reached'', ''token limit exceeded'',
    ''max tokens'', ''max_tokens'', ''context length exceeded'', ''context window exceeded'',
    ''budget exhausted'']"

definition structuralReasonHints :: "string list" where
  "structuralReasonHints = [''write_scope_violation'', ''write scope violation'', ''scope violation'']"

definition normalizedFailureClass :: "string \<Rightarrow> failure_class" where
  "normalizedFailureClass raw =
     (let s = to_lower (trim_space raw) in
      if s \<in> {'''', ''<nil>''} then ''''
      else if s \<in> {''transient'', ''transient_infra'', ''transient-infra'', ''infra_transient'',
           ''transient infra'', ''infrastructure_transient'', ''retryable'', ''toolchain_workspace_io'',
           ''toolchain-workspace-io'', ''toolchain_or_dependency_registry_unavailable'',
           ''toolchain-dependency-registry-unavailable''} then failureClassTransientInfra
      else if s \<in> {''canceled'', ''cancelled''} then failureClassCanceled
      else if s \<in> {''deterministic'', ''non_transient'', ''non-transient'', ''permanent'', ''logic'',
           ''product''} then failureClassDeterministic
      else if s \<in> {''budget_exhausted'', ''budget-exhausted'', ''budget exhausted'', ''budget''}
           then failureClassBudgetExhausted
      else if s \<in> {''compilation_loop'', ''compilation-loop'', ''compilation loop'', ''compile_loop'',
           ''compile-loop''} then failureClassCompilationLoop
      else if s \<in> {''structural'', ''structure'', ''scope_violation'', ''write_scope_violation''}
           then failureClassStructural
      else failureClassDeterministic)"

definition normalizedFailureClassOrDefault :: "string \<Rightarrow> failure_class" where
  "normalizedFailureClassOrDefault raw =
     (let cls = normalizedFailureClass raw in if cls \<noteq> '''' then cls else failureClassDeterministic)"

definition isFailureLoopRestartOutcome :: "outcome \<Rightarrow> bool" where
  "isFailureLoopRestartOutcome out \<longleftrightarrow> Status out = StatusFail \<or> Status out = StatusRetry"

text \<open>The two hint readers look up their key in the meta data, then in the context updates.\<close>

definition hint_of :: "string \<Rightarrow> (string \<rightharpoonup> goval) option \<Rightarrow> string option" where
  "hint_of key m = (case map_of_nil m key of
      None \<Rightarrow> None
    | Some raw \<Rightarrow> (let s = trim_space (sprint raw) in
        if s \<noteq> '''' \<and> s \<noteq> ''<nil>'' then Some s else None))"

definition read_hint :: "string \<Rightarrow> outcome \<Rightarrow> string" where
  "read_hint key out = (case hint_of key (Meta out) of
      Some s \<Rightarrow> s
    | None \<Rightarrow> (case hint_of key (ContextUpdates out) of Some s \<Rightarrow> s | None \<Rightarrow> ''''))"

definition readFailureClassHint :: "outcome \<Rightarrow> string" where
  "readFailureClassHint out = read_hint ''failure_class'' out"

definition readFailureSignatureHint :: "outcome \<Rightarrow> string" where
  "readFailureSignatureHint out = read_hint ''failure_signature'' out"

definition classifyFailureClass :: "outcome \<Rightarrow> failure_class" where
  "classifyFailureClass out =
     (if \<not> isFailureLoopRestartOutcome out then ''''
      else (let hinted = normalizedFailureClass (readFailureClassHint out);
                reason = to_lower (trim_space (FailureReason out))
            in if hinted \<noteq> '''' then hinted
               else if reason = '''' then failureClassDeterministic
               else if contains_sub ''canceled'' reason \<or> contains_sub ''cancelled'' reason
                 then failureClassCanceled
               else if \<exists>hint \<in> set transientInfraReasonHints. contains_sub hint reason
                 then failureClassTransientInfra
               else if \<exists>hint \<in> set budgetExhaustedReasonHints. contains_sub hint reason
                 then failureClassBudgetExhausted
               else if \<exists>hint \<in> set structuralReasonHints. contains_sub hint reason
                 then failureClassStructural
               else failureClassDeterministic))"

definition retryableFailureClasses :: "failure_class list" where
  "retryableFailureClasses =
     [failureClassTransientInfra, failureClassBudgetExhausted, failureClassCompilationLoop]"

definition shouldRetryOutcome :: "outcome \<Rightarrow> failure_class \<Rightarrow> bool" where
  "shouldRetryOutcome out failureClass \<longleftrightarrow>
     (Status out = StatusFail \<or> Status out = StatusRetry) \<and>
     normalizedFailureClassOrDefault failureClass \<in> set retryableFailureClasses"

definition isEscalatableFailureClass :: "failure_class \<Rightarrow> bool" where
  "isEscalatableFailureClass failureClass \<longleftrightarrow>
     (let cls = normalizedFailureClassOrDefault failureClass
      in cls = failureClassBudgetExhausted \<or> cls = failureClassCompilationLoop)"

definition isSignatureTrackedFailureClass :: "failure_class \<Rightarrow> bool" where
  "isSignatureTrackedFailureClass failureClass \<longleftrightarrow>
     (let cls = normalizedFailureClassOrDefault failureClass
      in cls = failureClassDeterministic \<or> cls = failureClassStructural)"

section \<open>Limits of the graph\<close>

definition loopRestartSignatureLimit :: "graph option \<Rightarrow> int" where
  "loopRestartSignatureLimit gr = (case gr of
      None \<Rightarrow> defaultLoopRestartSignatureLimit
    | Some g \<Rightarrow>
        (let limit = parseInt (graph_attr g ''loop_restart_signature_limit'') defaultLoopRestartSignatureLimit
         in if limit < 1 then defaultLoopRestartSignatureLimit else limit))"

definition maxNodeVisits :: "graph option \<Rightarrow> int" where
  "maxNodeVisits gr = (case gr of
      None \<Rightarrow> defaultMaxNodeVisits
    | Some g \<Rightarrow>
        (let limit = parseInt (graph_attr g ''max_node_visits'') defaultMaxNodeVisits
         in if limit < 1 then defaultMaxNodeVisits else limit))"

definition loopRestartPersistKeyNames :: "graph option \<Rightarrow> string list" where
  "loopRestartPersistKeyNames gr = (case gr of
      None \<Rightarrow> []
    | Some g \<Rightarrow>
        (let raw = trim_space (graph_attr g ''loop_restart_persist_keys'')
         in if raw = '''' then [] else comma_names raw))"

section \<open>Failure signatures\<close>

definition is_word :: "char \<Rightarrow> bool" where
  "is_word c \<longleftrightarrow> (let n = of_char c :: nat in
     48 \<le> n \<and> n \<le> 57 \<or> 65 \<le> n \<and> n \<le> 90 \<or> 97 \<le> n \<and> n \<le> 122 \<or> n = 95)"

definition is_hex :: "char \<Rightarrow> bool" where
  "is_hex c \<longleftrightarrow> (let n = of_char c :: nat in 48 \<le> n \<and> n \<le> 57 \<or> 97 \<le> n \<and> n \<le> 102)"

text \<open>The class \<^verbatim>\<open>\s\<close> of Go's regular expressions does not have the vertical tab.\<close>

definition is_re_space :: "char \<Rightarrow> bool" where
  "is_re_space c \<longleftrightarrow> c \<in> {CHR '' '', CHR 0x09, CHR 0x0A, CHR 0x0C, CHR 0x0D}"

function map_words :: "(string \<Rightarrow> string) \<Rightarrow> string \<Rightarrow> string" where
  "map_words f [] = []"
| "map_words f (c # cs) =
     (if is_word c then f (takeWhile is_word (c # cs)) @ map_words f (dropWhile is_word (c # cs))
      else c # map_words f cs)"
  by pat_completeness auto
termination
  by (relation "measure (\<lambda>(f, s). length s)") (auto simp: less_Suc_eq_le length_dropWhile_le)

function squeeze_after_comma :: "string \<Rightarrow> string" where
  "squeeze_after_comma [] = []"
| "squeeze_after_comma (c # cs) =
     (if c = CHR '','' then c # squeeze_after_comma (dropWhile is_re_space cs)
      else c # squeeze_after_comma cs)"
  by pat_completeness auto
termination
  by (relation "measure length") (auto simp: less_Suc_eq_le length_dropWhile_le)

function squeeze_spaces :: "string \<Rightarrow> string" where
  "squeeze_spaces [] = []"
| "squeeze_spaces (c # cs) =
     (if is_re_space c then CHR '' '' # squeeze_spaces (dropWhile is_re_space cs)
      else c # squeeze_spaces cs)"
  by pat_completeness auto
termination
  by (relation "measure length") (auto simp: less_Suc_eq_le length_dropWhile_le)

definition mask_hex :: "string \<Rightarrow> string" where
  "mask_hex w = (if list_all is_hex w \<and> 7 \<le> length w \<and> length w \<le> 64 then ''<hex>'' else w)"

definition mask_digits :: "string \<Rightarrow> string" where
  "mask_digits w = (if list_all is_digit w then ''<n>'' else w)"

definition normalizeFailureReason :: "string \<Rightarrow> string" where
  "normalizeFailureReason reason0 =
     (let reason = to_lower (trim_space reason0) in
      if reason = '''' then ''''
      else take 240 (trim_space (squeeze_spaces (squeeze_after_comma
             (map_words mask_digits (map_words mask_hex reason))))))"

definition restartFailureSignature :: "string \<Rightarrow> outcome \<Rightarrow> failure_class \<Rightarrow> string" where
  "restartFailureSignature nodeID out failureClass =
     (if \<not> isFailureLoopRestartOutcome out then ''''
      else (let r1 = normalizeFailureReason (readFailureSignatureHint out);
                r2 = (if r1 = '''' then normalizeFailureReason (FailureReason out) else r1);
                reason = (if r2 = '''' then ''status='' @ to_lower (trim_space (Status out)) else r2)
            in trim_space nodeID @ ''|'' @ normalizedFailureClassOrDefault failureClass @ ''|'' @ reason))"

section \<open>Lemmas\<close>

definition failure_classes :: "failure_class list" where
  "failure_classes = [failureClassTransientInfra, failureClassDeterministic, failureClassCanceled,
     failureClassBudgetExhausted, failureClassCompilationLoop, failureClassStructural]"

lemma normalizedFailureClass_range:
  "normalizedFailureClass raw = '''' \<or> normalizedFailureClass raw \<in> set failure_classes"
  by (simp add: normalizedFailureClass_def failure_classes_def Let_def)

lemma normalizedFailureClass_fixed [simp]:
  "cls \<in> set failure_classes \<Longrightarrow> normalizedFailureClass cls = cls"
proof -
  have "list_all (\<lambda>cls. normalizedFailureClass cls = cls) failure_classes" by code_simp
  then show "cls \<in> set failure_classes \<Longrightarrow> normalizedFailureClass cls = cls"
    by (simp add: list_all_iff)
qed

lemma failure_classes_nonempty: "cls \<in> set failure_classes \<Longrightarrow> cls \<noteq> ''''"
  by (auto simp: failure_classes_def failure_class_defs)

lemma orDefault_range: "normalizedFailureClassOrDefault raw \<in> set failure_classes"
  using normalizedFailureClass_range [of raw]
  by (auto simp: normalizedFailureClassOrDefault_def Let_def failure_classes_def)

lemma orDefault_fixed [simp]:
  "cls \<in> set failure_classes \<Longrightarrow> normalizedFailureClassOrDefault cls = cls"
  using failure_classes_nonempty by (auto simp: normalizedFailureClassOrDefault_def)

lemma orDefault_empty [simp]: "normalizedFailureClassOrDefault '''' = failureClassDeterministic"
  by (simp add: normalizedFailureClassOrDefault_def normalizedFailureClass_def)

lemma classify_range:
  "classifyFailureClass out = (if isFailureLoopRestartOutcome out then classifyFailureClass out else '''') \<and>
   (isFailureLoopRestartOutcome out \<longrightarrow> classifyFailureClass out \<in> set failure_classes)"
  using normalizedFailureClass_range [of "readFailureClassHint out"]
  by (auto simp: classifyFailureClass_def Let_def failure_classes_def)

lemma classify_in: "isFailureLoopRestartOutcome out \<Longrightarrow> classifyFailureClass out \<in> set failure_classes"
  using classify_range by blast

lemma failure_classes_no_bar: "cls \<in> set failure_classes \<Longrightarrow> CHR ''|'' \<notin> set cls"
  by (auto simp: failure_classes_def failure_class_defs)

lemma limit_ge_1: "1 \<le> loopRestartSignatureLimit gr"
  by (auto simp: loopRestartSignatureLimit_def defaultLoopRestartSignatureLimit_def Let_def split: option.splits)

lemma maxNodeVisits_nonneg: "0 \<le> maxNodeVisits gr"
  by (auto simp: maxNodeVisits_def defaultMaxNodeVisits_def Let_def split: option.splits)

lemma append_bar_inject:
  "c \<notin> set a \<Longrightarrow> c \<notin> set a' \<Longrightarrow> a @ c # b = a' @ c # b' \<longleftrightarrow> a = a' \<and> b = b'"
proof (induction a arbitrary: a')
  case Nil
  then show ?case by (cases a') auto
next
  case (Cons x a)
  then show ?case by (cases a') auto
qed

text \<open>What the reason contributes to the signature.\<close>

definition signature_reason :: "outcome \<Rightarrow> string" where
  "signature_reason out =
     (let r1 = normalizeFailureReason (readFailureSignatureHint out);
          r2 = (if r1 = '''' then normalizeFailureReason (FailureReason out) else r1)
      in if r2 = '''' then ''status='' @ to_lower (trim_space (Status out)) else r2)"

lemma restartFailureSignature_eq:
  "isFailureLoopRestartOutcome out \<Longrightarrow> restartFailureSignature i out cls =
     trim_space i @ CHR ''|'' # normalizedFailureClassOrDefault cls @ CHR ''|'' # signature_reason out"
  by (simp add: restartFailureSignature_def signature_reason_def Let_def)

lemma restartFailureSignature_nonempty:
  "restartFailureSignature i out cls = '''' \<longleftrightarrow> \<not> isFailureLoopRestartOutcome out"
  by (cases "isFailureLoopRestartOutcome out")
     (simp_all add: restartFailureSignature_eq, simp add: restartFailureSignature_def)

section \<open>Properties\<close>

text \<open>
  every failed stage has exactly one of the six failure classes, an outcome that is not a
  failure has none, and a failure is retried exactly when that class is transient_infra,
  budget_exhausted or compilation_loop.
\<close>

theorem classify_and_retry:
  "if isFailureLoopRestartOutcome out
   then classifyFailureClass out \<in> set failure_classes \<and>
     shouldRetryOutcome out (classifyFailureClass out) =
       (classifyFailureClass out \<in> {failureClassTransientInfra, failureClassBudgetExhausted,
          failureClassCompilationLoop})
   else classifyFailureClass out = '''' \<and> shouldRetryOutcome out (classifyFailureClass out) = False"
proof (cases "isFailureLoopRestartOutcome out")
  case True
  with classify_in show ?thesis
    by (simp add: shouldRetryOutcome_def retryableFailureClasses_def) (simp add: isFailureLoopRestartOutcome_def)
next
  case False
  then show ?thesis
    by (simp add: classifyFailureClass_def shouldRetryOutcome_def) (simp add: isFailureLoopRestartOutcome_def)
qed

text \<open>
  the hint 502 is looked for anywhere in the reason, so a failure that mentions any number with
  these digits, and says neither canceled nor carries a class of its own, counts as transient
  infrastructure trouble and is retried.
\<close>

theorem digits_502_are_retried:
  assumes "isFailureLoopRestartOutcome out" and "readFailureClassHint out = ''''"
    and "to_lower (trim_space (FailureReason out)) = a @ ''502'' @ b"
    and "\<not> contains_sub ''cancel'' (a @ ''502'' @ b)"
  shows "classifyFailureClass out = failureClassTransientInfra \<and>
    shouldRetryOutcome out (classifyFailureClass out)"
proof -
  let ?r = "a @ ''502'' @ b"
  have "contains_sub ''502'' ?r" by (metis contains_sub_iff)
  then have "\<exists>hint \<in> set transientInfraReasonHints. contains_sub hint ?r"
    unfolding transientInfraReasonHints_def by auto
  moreover have "\<not> contains_sub ''canceled'' ?r" "\<not> contains_sub ''cancelled'' ?r"
    using assms(4) contains_sub_iff [of "''cancel'' @ ''ed''" ?r] contains_sub_iff [of "''cancel'' @ ''led''" ?r]
      contains_sub_iff [of "''cancel''" ?r] by (auto simp del: append_assoc simp: append_eq_append_conv2)
  ultimately have "classifyFailureClass out = failureClassTransientInfra"
    using assms(1,2,3) by (simp add: classifyFailureClass_def Let_def normalizedFailureClass_def)
  moreover have "failureClassTransientInfra \<in> set failure_classes"
    by (simp add: failure_classes_def)
  ultimately show ?thesis
    using assms(1)
    by (simp add: shouldRetryOutcome_def retryableFailureClasses_def isFailureLoopRestartOutcome_def)
qed

theorem digits_502_are_retried_witness:
  "classifyFailureClass (zero_outcome\<lparr>Status := ''fail'', FailureReason := ''expected 15021 rows''\<rparr>) =
     failureClassTransientInfra"
proof -
  let ?out = "zero_outcome\<lparr>Status := ''fail'', FailureReason := ''expected 15021 rows''\<rparr>"
  have "isFailureLoopRestartOutcome ?out" "readFailureClassHint ?out = ''''"
    "to_lower (trim_space (FailureReason ?out)) = ''expected 1'' @ ''502'' @ ''1 rows''"
    "\<not> contains_sub ''cancel'' (''expected 1'' @ ''502'' @ ''1 rows'')"
    by code_simp+
  from digits_502_are_retried [OF this] show ?thesis ..
qed

text \<open>
  two failures have the same signature exactly when they come from the same node with the same
  failure class and the same normalised reason, provided the identifiers have no bar: the cycle
  breaker never adds up failures of different nodes or classes.
\<close>

theorem signature_identifies_failure:
  assumes "isFailureLoopRestartOutcome out" and "isFailureLoopRestartOutcome out'"
    and "CHR ''|'' \<notin> set i" and "CHR ''|'' \<notin> set i'"
  shows "restartFailureSignature i out cls = restartFailureSignature i' out' cls' \<longleftrightarrow>
    trim_space i = trim_space i' \<and>
    normalizedFailureClassOrDefault cls = normalizedFailureClassOrDefault cls' \<and>
    signature_reason out = signature_reason out'"
proof -
  have trim: "CHR ''|'' \<notin> set (trim_space s)" if "CHR ''|'' \<notin> set s" for s
    using that by (auto simp: trim_space_def trim_by_def dest!: set_dropWhileD)
  have bar: "CHR ''|'' \<notin> set (normalizedFailureClassOrDefault c)" for c
    using failure_classes_no_bar [OF orDefault_range] .
  show ?thesis
    by (simp only: restartFailureSignature_eq [OF assms(1)] restartFailureSignature_eq [OF assms(2)]
        append_bar_inject [OF trim [OF assms(3)] trim [OF assms(4)]] append_bar_inject [OF bar bar])
qed

theorem signature_identifies_failure_witness:
  "restartFailureSignature ''build'' (zero_outcome\<lparr>Status := ''fail'', FailureReason := ''exit 1 at 0badc0de''\<rparr>) '''' =
   restartFailureSignature '' build'' (zero_outcome\<lparr>Status := ''fail'', FailureReason := ''Exit  23 at 1234567''\<rparr>)
     ''logic''"
proof -
  let ?o1 = "zero_outcome\<lparr>Status := ''fail'', FailureReason := ''exit 1 at 0badc0de''\<rparr>"
  let ?o2 = "zero_outcome\<lparr>Status := ''fail'', FailureReason := ''Exit  23 at 1234567''\<rparr>"
  have fails: "isFailureLoopRestartOutcome ?o1" "isFailureLoopRestartOutcome ?o2"
    by code_simp+
  have bars: "CHR ''|'' \<notin> set ''build''" "CHR ''|'' \<notin> set '' build''"
    by simp_all
  have "trim_space ''build'' = trim_space '' build''" "signature_reason ?o1 = signature_reason ?o2"
    "normalizedFailureClassOrDefault '''' = normalizedFailureClassOrDefault ''logic''"
    by code_simp+
  then show ?thesis
    using signature_identifies_failure [OF fails bars, of "''''" "''logic''"] by simp
qed

end
