(* ===== verification/EdgeSelection.thy ===== *)
theory EdgeSelection
  imports Cond FailurePolicy "HOL-Library.Product_Lexorder"
begin

text \<open>
  The choice of the next edge: selectNextEdge and its helpers of
  \<^verbatim>\<open>internal/attractor/engine/engine.go\<close> and resolveNextHop of
  \<^verbatim>\<open>engine/next_hop.go\<close>, and the specification of the choice as the least edge of one
  ranking.  The progress events the functions emit are not modelled.
\<close>

section \<open>Labels\<close>

definition normalizeLabel :: "string \<Rightarrow> string" where
  "normalizeLabel str =
     (let s = to_lower (trim_space str) in
      if length s \<ge> 4 \<and> s ! 0 = CHR ''['' \<and> s ! 2 = CHR '']'' \<and> s ! 3 = CHR '' '' then trim_space (drop 4 s)
      else if length s \<ge> 3 \<and> s ! 1 = CHR '')'' \<and> s ! 2 = CHR '' '' then trim_space (drop 3 s)
      else if length s \<ge> 4 \<and> s ! 1 = CHR '' '' \<and> s ! 2 = CHR ''-'' \<and> s ! 3 = CHR '' '' then trim_space (drop 4 s)
      else s)"

section \<open>The best edge\<close>

definition edge_weight :: "edge \<Rightarrow> int" where
  "edge_weight e = parseInt (edge_Attr (Some e) ''weight'' ''0'') 0"

definition edge_less :: "edge \<Rightarrow> edge \<Rightarrow> bool" where
  "edge_less i j =
     (let wi = edge_weight i; wj = edge_weight j in
      if wi \<noteq> wj then wi > wj
      else if edge_to i \<noteq> edge_to j then edge_to i < edge_to j
      else edge_order i < edge_order j)"

definition sort_best :: "edge list \<Rightarrow> edge list" where
  "sort_best edges = slice_stable edge_less edges"

definition sort_declared :: "edge list \<Rightarrow> edge list" where
  "sort_declared edges = slice_stable (\<lambda>i j. edge_order i < edge_order j) edges"

definition bestEdge :: "edge list \<Rightarrow> edge" where
  "bestEdge edges = hd (sort_best edges)"

section \<open>Eligible edges\<close>

datatype selection_method =
    NoMethod
  | ConditionMatch
  | PreferredLabelMatch
  | SuggestedNextIdsMatch
  | OnlyEdge
  | WeightMethod
  | LexicalTiebreak
  | Fallback

record edge_selection_meta =
  Method :: selection_method
  CandidatesEvaluated :: nat
  ConditionsMatched :: nat

definition no_meta :: edge_selection_meta where
  "no_meta = \<lparr>Method = NoMethod, CandidatesEvaluated = 0, ConditionsMatched = 0\<rparr>"

definition conditional_edge :: "edge \<Rightarrow> bool" where
  "conditional_edge e \<longleftrightarrow> trim_space (edge_Condition e) \<noteq> ''''"

fun matchedEdges :: "edge list \<Rightarrow> outcome \<Rightarrow> run_context option \<Rightarrow> cond_error + edge list" where
  "matchedEdges [] out ctx = Inr []"
| "matchedEdges (e # es) out ctx =
     (if \<not> conditional_edge e then matchedEdges es out ctx
      else (case Evaluate (trim_space (edge_Condition e)) out ctx of
              Inl err \<Rightarrow> Inl err
            | Inr ok \<Rightarrow>
                (case matchedEdges es out ctx of
                   Inl err \<Rightarrow> Inl err
                 | Inr ms \<Rightarrow> Inr (if ok then e # ms else ms))))"

fun first_suggested :: "string list \<Rightarrow> edge list \<Rightarrow> edge option" where
  "first_suggested [] sorted_edges = None"
| "first_suggested (suggested # ids) sorted_edges =
     (case find (\<lambda>e. edge_to e = suggested) sorted_edges of
        Some e \<Rightarrow> Some e
      | None \<Rightarrow> first_suggested ids sorted_edges)"

definition preferred_edge :: "outcome \<Rightarrow> edge list \<Rightarrow> edge option" where
  "preferred_edge out edges =
     (if trim_space (PreferredLabel out) = '''' then None
      else find (\<lambda>e. normalizeLabel (edge_Label e) = normalizeLabel (PreferredLabel out))
             (sort_declared edges))"

definition suggested_edge :: "outcome \<Rightarrow> edge list \<Rightarrow> edge option" where
  "suggested_edge out edges = first_suggested (slice_of_nil (SuggestedNextIDs out)) (sort_declared edges)"

definition selectAllEligibleEdgesWithMeta ::
  "graph \<Rightarrow> string \<Rightarrow> outcome \<Rightarrow> run_context option \<Rightarrow> cond_error + edge list \<times> edge_selection_meta" where
  "selectAllEligibleEdgesWithMeta g from out ctx =
     (let edges = Outgoing g from;
          meta = no_meta\<lparr>CandidatesEvaluated := length edges\<rparr>
      in if edges = [] then Inr ([], no_meta)
         else (case matchedEdges edges out ctx of
             Inl err \<Rightarrow> Inl err
           | Inr condMatched \<Rightarrow>
               if condMatched \<noteq> [] then
                 Inr (condMatched, meta\<lparr>Method := ConditionMatch, ConditionsMatched := length condMatched\<rparr>)
               else (case preferred_edge out edges of
                   Some e \<Rightarrow> Inr ([e], meta\<lparr>Method := PreferredLabelMatch\<rparr>)
                 | None \<Rightarrow> (case suggested_edge out edges of
                       Some e \<Rightarrow> Inr ([e], meta\<lparr>Method := SuggestedNextIdsMatch\<rparr>)
                     | None \<Rightarrow>
                         (let uncond = filter (\<lambda>e. \<not> conditional_edge e) edges in
                          if uncond \<noteq> [] then
                            Inr (uncond, meta\<lparr>Method := if length uncond = 1 then OnlyEdge else WeightMethod\<rparr>)
                          else Inr (edges, meta\<lparr>Method := Fallback\<rparr>))))))"

definition selectNextEdgeWithMeta ::
  "graph \<Rightarrow> string \<Rightarrow> outcome \<Rightarrow> run_context option \<Rightarrow> cond_error + edge option \<times> edge_selection_meta" where
  "selectNextEdgeWithMeta g from out ctx =
     (case selectAllEligibleEdgesWithMeta g from out ctx of
        Inl err \<Rightarrow> Inl err
      | Inr (edges, meta) \<Rightarrow>
          if edges = [] then Inr (None, meta)
          else if Method meta = WeightMethod \<and> length edges > 1 then
            (let sorted_edges = sort_best edges; best = bestEdge edges;
                 wi = edge_weight (sorted_edges ! 0); wj = edge_weight (sorted_edges ! 1)
             in Inr (Some best, if wi = wj then meta\<lparr>Method := LexicalTiebreak\<rparr> else meta))
          else Inr (Some (bestEdge edges), meta))"

text \<open>
  The check of executeWithRetry for custom outcomes: the conditions are read in a copy of the
  context to which the updates of the outcome have been applied; an error counts as no match.
\<close>

definition hasMatchingOutgoingCondition :: "graph \<Rightarrow> string \<Rightarrow> outcome \<Rightarrow> run_context \<Rightarrow> bool" where
  "hasMatchingOutgoingCondition g i out ctx =
     (let evalCtx = ctx_Set (ctx_ApplyUpdates ctx (ContextUpdates out)) ''outcome'' (VStr (Status out))
      in list_ex (\<lambda>e. conditional_edge e \<and>
           (case Evaluate (trim_space (edge_Condition e)) out (Some evalCtx) of Inl _ \<Rightarrow> False | Inr ok \<Rightarrow> ok))
           (Outgoing g i))"

section \<open>The next hop\<close>

definition shapeToType :: "string \<Rightarrow> string" where
  "shapeToType shape =
     (if shape \<in> {''Mdiamond'', ''circle''} then ''start''
      else if shape \<in> {''Msquare'', ''doublecircle''} then ''exit''
      else if shape = ''box'' then ''agent''
      else if shape = ''hexagon'' then ''wait.human''
      else if shape = ''diamond'' then ''conditional''
      else if shape = ''component'' then ''parallel''
      else if shape = ''tripleoctagon'' then ''parallel.fan_in''
      else if shape = ''parallelogram'' then ''tool''
      else if shape = ''house'' then ''stack.manager_loop''
      else if shape = ''trapezium'' then ''loop.begin''
      else if shape = ''invtrapezium'' then ''loop.end''
      else if shape = ''pentagon'' then ''concurrent.split''
      else if shape = ''cylinder'' then ''concurrent.join''
      else ''agent'')"

datatype hop_source = HopEdgeSelection | HopConditional | HopRetryTarget

record next_hop =
  hop_edge :: edge
  hop_source :: hop_source
  hop_retry_source :: string
  hop_meta :: edge_selection_meta

definition isFanInFailureLike :: "graph \<Rightarrow> string \<Rightarrow> stage_status \<Rightarrow> bool" where
  "isFanInFailureLike g from status =
     (if status \<noteq> StatusFail \<and> status \<noteq> StatusRetry then False
      else (case g_nodes g from of
          None \<Rightarrow> False
        | Some n \<Rightarrow>
            (let t0 = trim_space (node_TypeOverride n);
                 t = (if t0 = '''' then shapeToType (node_Shape n) else t0)
             in t = ''parallel.fan_in'')))"

definition resolveRetryTargetWithSource :: "graph option \<Rightarrow> string \<Rightarrow> string \<times> string" where
  "resolveRetryTargetWithSource gr i = (case gr of
      None \<Rightarrow> ('''', '''')
    | Some g \<Rightarrow> (case g_nodes g (trim_space i) of
          None \<Rightarrow> ('''', '''')
        | Some n \<Rightarrow>
            (let t1 = trim_space (node_Attr (Some n) ''retry_target'' '''');
                 t2 = trim_space (node_Attr (Some n) ''fallback_retry_target'' '''');
                 t3 = trim_space (graph_attr g ''retry_target'');
                 t4 = trim_space (graph_attr g ''fallback_retry_target'')
             in if t1 \<noteq> '''' then (t1, ''node.retry_target'')
                else if t2 \<noteq> '''' then (t2, ''node.fallback_retry_target'')
                else if t3 \<noteq> '''' then (t3, ''graph.retry_target'')
                else if t4 \<noteq> '''' then (t4, ''graph.fallback_retry_target'')
                else ('''', ''''))))"

definition resolveRetryTarget :: "graph option \<Rightarrow> string \<Rightarrow> string" where
  "resolveRetryTarget gr i = fst (resolveRetryTargetWithSource gr i)"

definition selectMatchingConditionalEdge ::
  "graph \<Rightarrow> string \<Rightarrow> outcome \<Rightarrow> run_context option \<Rightarrow> cond_error + edge option \<times> edge_selection_meta" where
  "selectMatchingConditionalEdge g from out ctx =
     (let edges = Outgoing g from in
      if edges = [] then Inr (None, no_meta)
      else (let meta = no_meta\<lparr>CandidatesEvaluated := length edges\<rparr> in
            case matchedEdges edges out ctx of
              Inl err \<Rightarrow> Inl err
            | Inr condMatched \<Rightarrow>
                if condMatched = [] then Inr (None, meta)
                else Inr (Some (bestEdge condMatched),
                  meta\<lparr>Method := ConditionMatch, ConditionsMatched := length condMatched\<rparr>)))"

definition synthetic_retry_edge :: "string \<Rightarrow> string \<Rightarrow> string \<Rightarrow> edge" where
  "synthetic_retry_edge from target source = (NewEdge from target)\<lparr>edge_attrs :=
     [''kilroy.synthetic_edge'' \<mapsto> ''retry_target'', ''kilroy.retry_target_source'' \<mapsto> source,
      ''kilroy.retry_target_applies'' \<mapsto> ''fan_in_failure'']\<rparr>"

definition resolveNextHop ::
  "graph option \<Rightarrow> string \<Rightarrow> outcome \<Rightarrow> run_context option \<Rightarrow> failure_class \<Rightarrow> cond_error + next_hop option" where
  "resolveNextHop gr from0 out ctx failureClass = (case gr of
      None \<Rightarrow> Inr None
    | Some g \<Rightarrow>
      (let from = trim_space from0 in
       if from = '''' then Inr None
       else if isFanInFailureLike g from (Status out) then
         (case selectMatchingConditionalEdge g from out ctx of
            Inl err \<Rightarrow> Inl err
          | Inr (Some e, condMeta) \<Rightarrow>
              Inr (Some \<lparr>hop_edge = e, hop_source = HopConditional, hop_retry_source = '''', hop_meta = condMeta\<rparr>)
          | Inr (None, condMeta) \<Rightarrow>
              if normalizedFailureClassOrDefault failureClass = failureClassDeterministic then Inr None
              else (case resolveRetryTargetWithSource (Some g) from of (target, source) \<Rightarrow>
                if target \<noteq> '''' then
                  Inr (Some \<lparr>hop_edge = synthetic_retry_edge from target source, hop_source = HopRetryTarget,
                    hop_retry_source = source, hop_meta = no_meta\<rparr>)
                else Inr None))
       else (case selectNextEdgeWithMeta g from out ctx of
            Inl err \<Rightarrow> Inl err
          | Inr (None, meta) \<Rightarrow> Inr None
          | Inr (Some next, meta) \<Rightarrow>
              Inr (Some \<lparr>hop_edge = next, hop_source = HopEdgeSelection, hop_retry_source = '''', hop_meta = meta\<rparr>))))"

section \<open>Labels up to accelerators\<close>

lemma trim_space_last: "trim_space s \<noteq> '''' \<Longrightarrow> \<not> is_space (last (trim_space s))"
  unfolding trim_space_def trim_by_def
  using dropWhile_hd [of is_space "rev (dropWhile is_space s)"] by (auto simp: last_rev)

lemma trim_drop_nonempty:
  assumes "trim_space s = s" "n < length s"
  shows "trim_space (drop n s) \<noteq> ''''"
proof -
  have "last s \<in> set (drop n s)" using assms(2) by (metis drop_eq_Nil last_drop last_in_set not_le)
  moreover have "\<not> is_space (last s)" using trim_space_last [of s] assms by (cases "s = ''''") auto
  ultimately show ?thesis by (auto simp: trim_space_eq_Nil)
qed

lemma normalizeLabel_nonempty: "normalizeLabel s = '''' \<longleftrightarrow> trim_space s = ''''"
proof -
  let ?t = "to_lower (trim_space s)"
  have fixed: "trim_space ?t = ?t" by (simp add: trim_to_lower)
  have "trim_space (drop 3 ?t) \<noteq> ''''" if "3 \<le> length ?t" "?t ! 2 = CHR '' ''"
  proof (rule trim_drop_nonempty [OF fixed])
    show "3 < length ?t"
    proof (rule ccontr)
      assume "\<not> 3 < length ?t"
      with that(1) have len: "length ?t = 3" by simp
      then have "last ?t = ?t ! 2" by (metis One_nat_def Suc_1 diff_Suc_1 last_conv_nth
            list.size(3) numeral_3_eq_3 zero_neq_numeral)
      with that(2) have "is_space (last ?t)" by (simp add: is_space_def)
      with trim_space_last [of ?t] fixed len show False by (cases "?t = ''''") auto
    qed
  qed
  moreover have "trim_space (drop 4 ?t) \<noteq> ''''" if "4 \<le> length ?t" "?t ! 3 = CHR '' ''"
  proof (rule trim_drop_nonempty [OF fixed])
    show "4 < length ?t"
    proof (rule ccontr)
      assume "\<not> 4 < length ?t"
      with that(1) have len: "length ?t = 4" by simp
      then have "?t \<noteq> ''''" by (metis list.size(3) zero_neq_numeral)
      then have "last ?t = ?t ! (length ?t - 1)" by (rule last_conv_nth)
      with len have "last ?t = ?t ! 3" by simp
      with that(2) have "is_space (last ?t)" by (simp add: is_space_def)
      with trim_space_last [of ?t] fixed len show False by (cases "?t = ''''") auto
    qed
  qed
  ultimately show ?thesis
    by (auto simp: normalizeLabel_def Let_def)
qed

section \<open>Sorted candidates\<close>

text \<open>Weight descending, target ascending, declaration order ascending.\<close>

definition best_key :: "edge \<Rightarrow> int \<times> string \<times> int" where
  "best_key e = (- edge_weight e, edge_to e, edge_order e)"

lemma sort_best_key: "sort_best es = sort_key best_key es"
  unfolding sort_best_def
  by (rule slice_stable_sort_key) (auto simp: edge_less_def best_key_def Let_def)

lemma sort_declared_key [simp]: "sort_declared es = sort_key edge_order es"
  unfolding sort_declared_def by (rule slice_stable_sort_key) simp

lemma bestEdge_least:
  assumes "es \<noteq> []"
  shows "bestEdge es \<in> set es" "\<forall>e \<in> set es. best_key (bestEdge es) \<le> best_key e"
proof -
  have ne: "sort_best es \<noteq> []" and set_eq: "set (sort_best es) = set es"
    using assms by (auto simp: sort_best_key simp flip: set_empty)
  then show "bestEdge es \<in> set es"
    by (metis bestEdge_def list.set_sel(1))
  have "sorted (map best_key (sort_best es))"
    by (simp add: sort_best_key)
  with ne have "\<forall>e \<in> set (sort_best es). best_key (hd (sort_best es)) \<le> best_key e"
    by (cases "sort_best es") auto
  with set_eq show "\<forall>e \<in> set es. best_key (bestEdge es) \<le> best_key e"
    by (simp add: bestEdge_def)
qed

lemma find_least:
  assumes "find P (sort_key edge_order es) = Some e"
  shows "e \<in> set es \<and> P e \<and> (\<forall>e' \<in> set es. P e' \<longrightarrow> edge_order e \<le> edge_order e')"
proof -
  let ?s = "sort_key edge_order es"
  from assms obtain i where i: "i < length ?s" "e = ?s ! i" "P e" "\<forall>j<i. \<not> P (?s ! j)"
    by (auto simp: find_Some_iff)
  have "edge_order e \<le> edge_order (?s ! j)" if "j < length ?s" "P (?s ! j)" for j
  proof -
    from that i(4) have "i \<le> j" by (meson not_le)
    with that(1) show ?thesis
      using sorted_nth_mono [of "map edge_order ?s" i j] i(2) by simp
  qed
  then have "\<forall>e' \<in> set ?s. P e' \<longrightarrow> edge_order e \<le> edge_order e'"
    by (metis in_set_conv_nth)
  moreover have "e \<in> set ?s" using i(1,2) nth_mem by metis
  ultimately show ?thesis using i(3) by simp
qed

lemma find_sort_None: "find P (sort_key edge_order es) = None \<longleftrightarrow> (\<forall>e \<in> set es. \<not> P e)"
  by (auto simp: find_None_iff)

text \<open>The place of a suggestion in the list of suggestions.\<close>

definition place_of :: "'a list \<Rightarrow> 'a \<Rightarrow> nat" where
  "place_of xs x = length (takeWhile (\<lambda>y. y \<noteq> x) xs)"

lemma place_of_Cons: "place_of (y # ys) x = (if y = x then 0 else Suc (place_of ys x))"
  by (simp add: place_of_def)

lemma first_suggested_least:
  assumes "first_suggested ids (sort_key edge_order es) = Some e"
  shows "e \<in> set es \<and> edge_to e \<in> set ids \<and>
    (\<forall>e' \<in> set es. edge_to e' \<in> set ids \<longrightarrow>
       (place_of ids (edge_to e), edge_order e) \<le> (place_of ids (edge_to e'), edge_order e'))"
  using assms
proof (induction ids)
  case Nil
  then show ?case by simp
next
  case (Cons i ids)
  show ?case
  proof (cases "find (\<lambda>e. edge_to e = i) (sort_key edge_order es)")
    case None
    then have "\<forall>e' \<in> set es. edge_to e' \<noteq> i"
      by (auto simp: find_sort_None)
    with None Cons show ?thesis
      by (auto simp: place_of_Cons)
  next
    case (Some e0)
    with Cons.prems have [simp]: "e0 = e" by simp
    from find_least [OF Some] show ?thesis
      by (auto simp: place_of_Cons)
  qed
qed

lemma first_suggested_None:
  "first_suggested ids (sort_key edge_order es) = None \<longleftrightarrow> (\<forall>e \<in> set es. edge_to e \<notin> set ids)"
  by (induction ids) (auto simp: find_sort_None split: option.splits dest: find_least)

section \<open>The choice as the least edge of a ranking\<close>

definition cond_holds :: "outcome \<Rightarrow> run_context option \<Rightarrow> edge \<Rightarrow> bool" where
  "cond_holds out ctx e \<longleftrightarrow> conditional_edge e \<and>
     (case Evaluate (trim_space (edge_Condition e)) out ctx of Inl _ \<Rightarrow> False | Inr b \<Rightarrow> b)"

definition label_preferred :: "outcome \<Rightarrow> edge \<Rightarrow> bool" where
  "label_preferred out e \<longleftrightarrow> trim_space (PreferredLabel out) \<noteq> '''' \<and>
     normalizeLabel (edge_Label e) = normalizeLabel (PreferredLabel out)"

definition suggested :: "outcome \<Rightarrow> edge \<Rightarrow> bool" where
  "suggested out e \<longleftrightarrow> edge_to e \<in> set (slice_of_nil (SuggestedNextIDs out))"

text \<open>
  A condition that holds comes first, then the preferred label, then the suggested targets in the
  order of the suggestions, then edges without a condition, then edges whose condition fails.
  Within the first and the last two groups weight, target and declaration order decide, in the
  others the declaration order alone.
\<close>

definition edge_rank :: "outcome \<Rightarrow> run_context option \<Rightarrow> edge \<Rightarrow> nat \<times> int \<times> string \<times> int" where
  "edge_rank out ctx e =
     (if cond_holds out ctx e then (0, best_key e)
      else if label_preferred out e then (1, 0, '''', edge_order e)
      else if suggested out e then
        (2, int (place_of (slice_of_nil (SuggestedNextIDs out)) (edge_to e)), '''', edge_order e)
      else if \<not> conditional_edge e then (3, best_key e)
      else (4, best_key e))"

lemma matchedEdges_filter: "matchedEdges es out ctx = Inr (filter (cond_holds out ctx) es)"
proof (induction es)
  case Nil
  then show ?case by simp
next
  case (Cons e es)
  obtain b where "Evaluate (trim_space (edge_Condition e)) out ctx = Inr b"
    using Evaluate_total by blast
  with Cons show ?case by (simp add: cond_holds_def)
qed

lemma edge_rank_order:
  "edge_rank out ctx e = edge_rank out ctx e' \<Longrightarrow> edge_order e = edge_order e'"
  by (simp add: edge_rank_def best_key_def split: if_splits)

lemma preferred_edge_find:
  "preferred_edge out es = find (label_preferred out) (sort_key edge_order es)"
proof (cases "trim_space (PreferredLabel out) = ''''")
  case True
  then have "label_preferred out = (\<lambda>_. False)" by (simp add: label_preferred_def fun_eq_iff)
  moreover have "find (\<lambda>_. False) xs = None" for xs :: "edge list" by (simp add: find_None_iff)
  ultimately show ?thesis using True by (simp add: preferred_edge_def)
next
  case False
  then show ?thesis by (simp add: preferred_edge_def label_preferred_def [abs_def])
qed

text \<open>The candidates of the code contain the least edge and rank by the tie-break alone.\<close>

lemma selected_least:
  assumes "selectNextEdgeWithMeta g from out ctx = Inr (Some e, meta)"
  shows "e \<in> set (Outgoing g from) \<and>
    (\<forall>e' \<in> set (Outgoing g from). edge_rank out ctx e \<le> edge_rank out ctx e')"
proof -
  let ?es = "Outgoing g from" and ?ids = "slice_of_nil (SuggestedNextIDs out)"
  obtain es m where sel: "selectAllEligibleEdgesWithMeta g from out ctx = Inr (es, m)" "es \<noteq> []"
      and e: "e = bestEdge es"
    using assms by (auto simp: selectNextEdgeWithMeta_def Let_def split: sum.splits if_splits)
  have ne: "?es \<noteq> []"
    using sel by (auto simp: selectAllEligibleEdgesWithMeta_def)
  have best: "e \<in> set es" "\<forall>e' \<in> set es. best_key e \<le> best_key e'"
    using bestEdge_least [OF sel(2)] e by auto
  consider (cond) "\<exists>e' \<in> set ?es. cond_holds out ctx e'"
    | (label) "\<forall>e' \<in> set ?es. \<not> cond_holds out ctx e'" "\<exists>e' \<in> set ?es. label_preferred out e'"
    | (sugg) "\<forall>e' \<in> set ?es. \<not> cond_holds out ctx e' \<and> \<not> label_preferred out e'"
        "\<exists>e' \<in> set ?es. suggested out e'"
    | (rest) "\<forall>e' \<in> set ?es. \<not> cond_holds out ctx e' \<and> \<not> label_preferred out e' \<and> \<not> suggested out e'"
    by blast
  then show ?thesis
  proof cases
    case cond
    then have "filter (cond_holds out ctx) ?es \<noteq> []" by (auto simp: filter_empty_conv)
    with sel ne have "es = filter (cond_holds out ctx) ?es"
      by (simp add: selectAllEligibleEdgesWithMeta_def matchedEdges_filter Let_def)
    with best show ?thesis by (auto simp: edge_rank_def)
  next
    case label
    then have none: "filter (cond_holds out ctx) ?es = []" by (simp add: filter_empty_conv)
    obtain e0 where e0: "preferred_edge out ?es = Some e0"
      using label(2) by (cases "preferred_edge out ?es") (auto simp: preferred_edge_find find_sort_None)
    with sel ne none have "es = [e0]"
      by (simp add: selectAllEligibleEdgesWithMeta_def matchedEdges_filter Let_def)
    with best find_least [of "label_preferred out" ?es e0] e0 label(1) show ?thesis
      by (auto simp: edge_rank_def preferred_edge_find)
  next
    case sugg
    then have none: "filter (cond_holds out ctx) ?es = []" "preferred_edge out ?es = None"
      by (simp_all add: filter_empty_conv preferred_edge_find find_sort_None)
    obtain e0 where e0: "suggested_edge out ?es = Some e0"
      using sugg(2) by (cases "suggested_edge out ?es")
        (auto simp: suggested_edge_def suggested_def first_suggested_None)
    with sel ne none have "es = [e0]"
      by (simp add: selectAllEligibleEdgesWithMeta_def matchedEdges_filter Let_def)
    with best first_suggested_least [of ?ids ?es e0] e0 sugg(1) show ?thesis
      by (auto simp: edge_rank_def suggested_edge_def suggested_def)
  next
    case rest
    then have none: "filter (cond_holds out ctx) ?es = []" "preferred_edge out ?es = None"
        "suggested_edge out ?es = None"
      by (simp_all add: filter_empty_conv preferred_edge_find find_sort_None suggested_edge_def
          suggested_def first_suggested_None)
    let ?un = "filter (\<lambda>e. \<not> conditional_edge e) ?es"
    have "es = (if ?un \<noteq> [] then ?un else ?es)"
      using sel ne none by (auto simp: selectAllEligibleEdgesWithMeta_def matchedEdges_filter Let_def split: if_splits)
    with best rest show ?thesis
      by (auto simp: edge_rank_def filter_empty_conv split: if_splits)
  qed
qed

lemma select_all_total:
  "\<exists>es m. selectAllEligibleEdgesWithMeta g from out ctx = Inr (es, m) \<and> (es = [] \<longleftrightarrow> Outgoing g from = [])"
proof -
  let ?es = "Outgoing g from"
  show ?thesis
    by (cases "?es = []"; cases "filter (cond_holds out ctx) ?es = []"; cases "preferred_edge out ?es";
        cases "suggested_edge out ?es"; cases "filter (\<lambda>e. \<not> conditional_edge e) ?es = []")
       (simp_all add: selectAllEligibleEdgesWithMeta_def matchedEdges_filter Let_def)
qed

lemma select_total:
  "\<exists>e meta. selectNextEdgeWithMeta g from out ctx = Inr (e, meta) \<and> (e = None \<longleftrightarrow> Outgoing g from = [])"
proof -
  obtain es m where "selectAllEligibleEdgesWithMeta g from out ctx = Inr (es, m)"
      "es = [] \<longleftrightarrow> Outgoing g from = []"
    using select_all_total by blast
  then show ?thesis
    by (cases "es = []") (simp_all add: selectNextEdgeWithMeta_def Let_def)
qed

section \<open>Choices by rank\<close>

text \<open>
  What the callers of the selection functions rely on: a choice among candidates returns a candidate
  of least rank, and fails only without candidates.
\<close>

locale ranked_choice =
  fixes cands :: "'s \<Rightarrow> 'e list"
    and rank :: "'s \<Rightarrow> 'e \<Rightarrow> 'r::linorder"
    and pick :: "'s \<Rightarrow> 'e option"
  assumes pick_None: "pick s = None \<longleftrightarrow> cands s = []"
    and pick_least: "pick s = Some e \<Longrightarrow> e \<in> set (cands s) \<and> (\<forall>e' \<in> set (cands s). rank s e \<le> rank s e')"
begin

lemma pick_Some: "cands s \<noteq> [] \<Longrightarrow> \<exists>e. pick s = Some e"
  using pick_None [of s] by blast

lemma pick_strict:
  assumes "pick s = Some e" "inj_on (rank s) (set (cands s))"
  shows "\<forall>e' \<in> set (cands s). e' = e \<or> rank s e < rank s e'"
  using pick_least [OF assms(1)] assms(2) by (metis inj_onD order_le_less)

lemma pick_unique:
  assumes "e \<in> set (cands s)" "\<forall>e' \<in> set (cands s). rank s e \<le> rank s e'" "inj_on (rank s) (set (cands s))"
  shows "pick s = Some e"
proof -
  obtain e0 where e0: "pick s = Some e0"
    using pick_Some [of s] assms(1) by fastforce
  with pick_least [OF e0] assms show ?thesis
    by (metis inj_onD order_antisym)
qed

text \<open>The order in which the candidates are listed does not matter.\<close>

lemma pick_set:
  assumes "set (cands s) = set (cands t)" "rank s = rank t" "inj_on (rank s) (set (cands s))"
  shows "pick s = pick t"
proof (cases "pick t")
  case None
  then have "cands t = []" by (simp add: pick_None)
  with assms(1) have "cands s = []" by simp
  then have "pick s = None" by (simp add: pick_None)
  with None show ?thesis by simp
next
  case (Some e)
  from pick_least [OF Some] assms have "pick s = Some e"
    by (intro pick_unique) auto
  with Some show ?thesis by simp
qed

end

definition best_of :: "edge list \<Rightarrow> edge option" where
  "best_of es = (if es = [] then None else Some (bestEdge es))"

definition selected_edge :: "graph \<times> string \<times> outcome \<times> run_context option \<Rightarrow> edge option" where
  "selected_edge s = (case s of (g, from, out, ctx) \<Rightarrow>
     (case selectNextEdgeWithMeta g from out ctx of Inl _ \<Rightarrow> None | Inr (e, _) \<Rightarrow> e))"

interpretation best: ranked_choice "\<lambda>es. es" "\<lambda>_. best_key" best_of
  by unfold_locales (auto simp: best_of_def bestEdge_least split: if_splits)

interpretation route: ranked_choice
  "\<lambda>(g, from, out, ctx). Outgoing g from" "\<lambda>(g, from, out, ctx). edge_rank out ctx" selected_edge
proof unfold_locales
  fix s :: "graph \<times> string \<times> outcome \<times> run_context option" and e
  obtain g i out ctx where s: "s = (g, i, out, ctx)" by (cases s)
  obtain r meta where r: "selectNextEdgeWithMeta g i out ctx = Inr (r, meta)"
      "r = None \<longleftrightarrow> Outgoing g i = []"
    using select_total by blast
  then show "selected_edge s = None \<longleftrightarrow> (case s of (g, from, out, ctx) \<Rightarrow> Outgoing g from) = []"
    by (simp add: s selected_edge_def)
  show "e \<in> set (case s of (g, from, out, ctx) \<Rightarrow> Outgoing g from) \<and>
      (\<forall>e'\<in>set (case s of (g, from, out, ctx) \<Rightarrow> Outgoing g from).
         (case s of (g, from, out, ctx) \<Rightarrow> edge_rank out ctx) e \<le>
         (case s of (g, from, out, ctx) \<Rightarrow> edge_rank out ctx) e')" if "selected_edge s = Some e"
    using that r selected_least [of g i out ctx e meta] by (simp add: s selected_edge_def)
qed

lemma inj_edge_rank: "wf_graph g \<Longrightarrow> inj_on (edge_rank out ctx) (set (Outgoing g from))"
  using distinct_Outgoing_orders [of g "from"] by (auto simp: inj_on_def distinct_map dest!: edge_rank_order)

lemma select_eq_selected_edge:
  "\<exists>meta. selectNextEdgeWithMeta g from out ctx = Inr (selected_edge (g, from, out, ctx), meta)"
  using select_total [of g "from" out ctx] by (auto simp: selected_edge_def)

section \<open>Properties\<close>

text \<open>
  C7: the edge a stage continues on is the unique least outgoing edge in the ranking of the routing
  rules (condition, preferred label, suggestions, weight, then fallback); the selection fails with
  no error, and finds no edge only at a node without outgoing edges.
\<close>

theorem selectNextEdge_least_rank:
  assumes "built_graph g"
  shows "\<exists>r meta. selectNextEdgeWithMeta g from out ctx = Inr (r, meta) \<and>
    (case r of None \<Rightarrow> Outgoing g from = []
     | Some e \<Rightarrow> e \<in> set (Outgoing g from) \<and>
         (\<forall>e' \<in> set (Outgoing g from). e' = e \<or> edge_rank out ctx e < edge_rank out ctx e'))"
proof -
  let ?s = "(g, from, out, ctx)"
  have inj: "inj_on (edge_rank out ctx) (set (Outgoing g from))"
    using built_wf [OF assms] by (rule inj_edge_rank)
  show ?thesis
  proof (cases "selected_edge ?s")
    case None
    with select_eq_selected_edge [of g "from" out ctx] route.pick_None [of ?s] show ?thesis by auto
  next
    case (Some e)
    with select_eq_selected_edge [of g "from" out ctx] route.pick_least [OF Some] route.pick_strict [OF Some] inj
    show ?thesis by auto
  qed
qed

definition review_graph :: graph where
  "review_graph = add_edges
     [(NewEdge ''review'' ''ship'')\<lparr>edge_attrs := [''condition'' \<mapsto> ''outcome=success'']\<rparr>,
      (NewEdge ''review'' ''fix'')\<lparr>edge_attrs := [''label'' \<mapsto> ''[F] Fix'', ''weight'' \<mapsto> ''5'']\<rparr>,
      NewEdge ''review'' ''abort'']
     (add_nodes [(NewNode ''review'')\<lparr>node_attrs := [''shape'' \<mapsto> ''tripleoctagon'', ''retry_target'' \<mapsto> ''fix'']\<rparr>]
       (NewGraph ''g''))"

lemma built_review_graph: "built_graph review_graph"
  by (simp add: review_graph_def built_add_edges built_add_nodes built_graph.new)

theorem selectNextEdge_least_rank_witness:
  "\<exists>r meta. selectNextEdgeWithMeta review_graph ''review''
       (zero_outcome\<lparr>Status := ''needs_work'', PreferredLabel := ''fix''\<rparr>) None = Inr (r, meta) \<and>
     (case r of None \<Rightarrow> Outgoing review_graph ''review'' = []
      | Some e \<Rightarrow> e \<in> set (Outgoing review_graph ''review'') \<and>
         (\<forall>e' \<in> set (Outgoing review_graph ''review''). e' = e \<or>
            edge_rank (zero_outcome\<lparr>Status := ''needs_work'', PreferredLabel := ''fix''\<rparr>) None e <
            edge_rank (zero_outcome\<lparr>Status := ''needs_work'', PreferredLabel := ''fix''\<rparr>) None e'))"
  by (rule selectNextEdge_least_rank [OF built_review_graph])

text \<open>
  the tie-break among candidate edges is deterministic: it does not depend on the order in which
  they are listed, as long as they have different places in the declaration order.
\<close>

theorem bestEdge_order_independent:
  assumes "set es = set es'" and "inj_on edge_order (set es)" and "es \<noteq> []"
  shows "bestEdge es = bestEdge es'"
proof -
  have "inj_on best_key (set es)"
    using assms(2) by (auto simp: inj_on_def best_key_def)
  with assms(1) have "best_of es = best_of es'"
    by (intro best.pick_set) auto
  with assms show ?thesis by (auto simp: best_of_def split: if_splits)
qed

theorem bestEdge_order_independent_witness:
  "bestEdge (Outgoing review_graph ''review'') = bestEdge (rev (Outgoing review_graph ''review''))"
proof (rule bestEdge_order_independent)
  show "inj_on edge_order (set (Outgoing review_graph ''review''))"
    using distinct_Outgoing_orders [OF built_wf [OF built_review_graph], of "''review''"]
    by (simp add: distinct_map)
  show "Outgoing review_graph ''review'' \<noteq> []"
    by (simp add: review_graph_def add_edges_def add_nodes_def AddEdge_def AddNode_def NewEdge_def NewNode_def
        NewGraph_def Outgoing_def Let_def)
qed simp

text \<open>
  a failed fan-in node never follows an unconditional edge: it continues on an edge whose
  condition holds, or, when the failure is not deterministic and no condition holds, on a synthetic
  edge to its retry target; otherwise it has no next hop.
\<close>

theorem failed_fan_in_next_hop:
  assumes "isFanInFailureLike g (trim_space from) (Status out)" and "trim_space from \<noteq> ''''"
  shows "let es = Outgoing g (trim_space from); target = resolveRetryTarget (Some g) (trim_space from);
             det = (normalizedFailureClassOrDefault cls = failureClassDeterministic) in
    case resolveNextHop (Some g) from out ctx cls of
      Inl _ \<Rightarrow> False
    | Inr None \<Rightarrow> filter (cond_holds out ctx) es = [] \<and> (det \<or> target = '''')
    | Inr (Some hop) \<Rightarrow>
        (if hop_source hop = HopConditional then hop_edge hop \<in> set (filter (cond_holds out ctx) es)
         else hop_source hop = HopRetryTarget \<and> filter (cond_holds out ctx) es = [] \<and> \<not> det \<and>
           edge_to (hop_edge hop) = target \<and> target \<noteq> '''')"
proof -
  let ?m = "filter (cond_holds out ctx) (Outgoing g (trim_space from))"
  have sel: "selectMatchingConditionalEdge g (trim_space from) out ctx =
      (if ?m = [] then Inr (None, if Outgoing g (trim_space from) = [] then no_meta
          else no_meta\<lparr>CandidatesEvaluated := length (Outgoing g (trim_space from))\<rparr>)
       else Inr (Some (bestEdge ?m), no_meta\<lparr>CandidatesEvaluated := length (Outgoing g (trim_space from)),
          Method := ConditionMatch, ConditionsMatched := length ?m\<rparr>))"
    by (auto simp: selectMatchingConditionalEdge_def matchedEdges_filter Let_def)
  show ?thesis
  proof (cases "?m = []")
    case True
    with assms sel show ?thesis
      by (auto simp: resolveNextHop_def resolveRetryTarget_def Let_def synthetic_retry_edge_def NewEdge_def
          split: prod.splits)
  next
    case False
    with assms sel bestEdge_least(1) [OF False] show ?thesis
      by (simp add: resolveNextHop_def Let_def)
  qed
qed

theorem failed_fan_in_next_hop_witness:
  "case resolveNextHop (Some review_graph) ''review'' (zero_outcome\<lparr>Status := ''fail''\<rparr>) None
      failureClassTransientInfra of
    Inr (Some hop) \<Rightarrow> hop_source hop = HopRetryTarget \<and> edge_to (hop_edge hop) = ''fix''
  | _ \<Rightarrow> False"
proof -
  let ?out = "zero_outcome\<lparr>Status := ''fail''\<rparr>"
  have "isFanInFailureLike review_graph (trim_space ''review'') (Status ?out)" "trim_space ''review'' \<noteq> ''''"
    and none: "filter (cond_holds ?out None) (Outgoing review_graph (trim_space ''review'')) = []"
    and tgt: "resolveRetryTarget (Some review_graph) (trim_space ''review'') = ''fix''"
    and cls: "normalizedFailureClassOrDefault failureClassTransientInfra \<noteq> failureClassDeterministic"
    by code_simp+
  from failed_fan_in_next_hop [OF this(1,2), of failureClassTransientInfra None] none tgt cls show ?thesis
    by (auto simp: Let_def split: sum.splits option.splits if_splits)
qed

end
