(* ===== verification/StageExec.thy ===== *)
theory StageExec
  imports EdgeSelection
begin

text \<open>
  One execution of a stage: executeNode, enforceOutputContract and canceledOutcomeForRetry of
  \<^verbatim>\<open>internal/attractor/engine\<close>, with the escalation chain of
  \<^verbatim>\<open>escalation.go\<close>.  What a stage handler, the file system and the cancellation of the
  run do during the execution is the record \<^verbatim>\<open>node_run\<close>, an input of the model; the
  content of status.json is kept as the outcome it decodes to.
\<close>

section \<open>The escalation chain\<close>

record provider_model =
  pm_provider :: string
  pm_model :: string

definition provider_keys :: "string list" where
  "provider_keys = [''openai'', ''codex-app-server'', ''anthropic'', ''google'', ''kimi'', ''zai'',
     ''cerebras'', ''minimax'', ''inception'']"

definition provider_aliases :: "(string \<times> string) list" where
  "provider_aliases =
     map (\<lambda>k. (k, k)) provider_keys @
     [(''codex_app_server'', ''codex-app-server''), (''gemini'', ''google''), (''google_ai_studio'', ''google''),
      (''moonshot'', ''kimi''), (''moonshotai'', ''kimi''), (''z-ai'', ''zai''), (''z.ai'', ''zai''),
      (''cerebras-ai'', ''cerebras''), (''minimax-ai'', ''minimax''),
      (''inceptionlabs'', ''inception''), (''inception-labs'', ''inception'')]"

definition CanonicalProviderKey :: "string \<Rightarrow> string" where
  "CanonicalProviderKey in_key =
     (let key = to_lower (trim_space in_key) in
      if key = '''' then ''''
      else (case map_of provider_aliases key of Some canonical \<Rightarrow> canonical | None \<Rightarrow> key))"

definition parse_escalation_entry :: "string \<Rightarrow> provider_model option" where
  "parse_escalation_entry part0 =
     (let part = trim_space part0 in
      if part = '''' then None
      else (case cut_at '':'' part of
          None \<Rightarrow> None
        | Some (a, b) \<Rightarrow>
            (let prov = trim_space a; md = trim_space b in
             if prov = '''' \<or> md = '''' then None
             else Some \<lparr>pm_provider = CanonicalProviderKey prov, pm_model = md\<rparr>)))"

definition parseEscalationModels :: "string \<Rightarrow> provider_model list" where
  "parseEscalationModels raw0 =
     (let raw = trim_space raw0 in
      if raw = '''' then [] else List.map_filter parse_escalation_entry (split_char (CHR '','') raw))"

definition defaultRetriesBeforeEscalation :: int where "defaultRetriesBeforeEscalation = 2"

definition retriesBeforeEscalation :: "graph option \<Rightarrow> int" where
  "retriesBeforeEscalation gr = (case gr of
      None \<Rightarrow> defaultRetriesBeforeEscalation
    | Some g \<Rightarrow>
        (let v = parseInt (graph_attr g ''retries_before_escalation'') defaultRetriesBeforeEscalation
         in if v < 0 then 0 else v))"

lemma retriesBeforeEscalation_nonneg: "0 \<le> retriesBeforeEscalation gr"
  by (auto simp: retriesBeforeEscalation_def defaultRetriesBeforeEscalation_def Let_def split: option.splits)

section \<open>One execution\<close>

text \<open>The handler returns an outcome, perhaps with an error, or panics.\<close>

datatype handler_result = Returned outcome "string option" | Panicked string

text \<open>
  The context of the node during the execution: alive, cancelled, or past its deadline; the cause
  is given when it is neither context.Canceled nor context.DeadlineExceeded.
\<close>

datatype ctx_state = Live | Cancelled "string option" | DeadlineHit "string option"

fun ctx_cause :: "ctx_state \<Rightarrow> string option" where
  "ctx_cause Live = None"
| "ctx_cause (Cancelled c) = c"
| "ctx_cause (DeadlineHit c) = c"

record node_run =
  nr_mkdir_error :: "string option"
  nr_input_failure :: "outcome option"
  nr_handler :: handler_result
  nr_status_json :: "outcome option"
  nr_ctx :: ctx_state
  nr_timeout_seconds :: "int option"
  nr_partial :: "goval option"
  nr_lineage_error :: "string option"

fun outcome_error_text :: "outcome_error \<Rightarrow> string" where
  "outcome_error_text EmptyStatus = ''invalid stage status: empty string''"
| "outcome_error_text (MissingFailureReason st) =
     ''failure_reason must be non-empty when status=\"'' @ st @ ''\"''"

definition fail_outcome :: "string \<Rightarrow> outcome" where
  "fail_outcome reason = zero_outcome\<lparr>Status := StatusFail, FailureReason := reason\<rparr>"

definition is_failing :: "stage_status \<Rightarrow> bool" where
  "is_failing st \<longleftrightarrow> st = StatusFail \<or> st = StatusRetry"

text \<open>The outcome of the handler, with errors and panics turned into failures.\<close>

definition handler_outcome :: "node_run \<Rightarrow> outcome" where
  "handler_outcome nr = (case nr_handler nr of
      Panicked r \<Rightarrow> zero_outcome\<lparr>Status := StatusFail, FailureReason := ''panic: '' @ r,
        Notes := ''handler panic recovered''\<rparr>
    | Returned out None \<Rightarrow> out
    | Returned out (Some err) \<Rightarrow>
        (let err' = (case ctx_cause (nr_ctx nr) of Some cause \<Rightarrow> cause | None \<Rightarrow> err)
         in out\<lparr>Status := StatusFail, FailureReason := err'\<rparr>))"

definition timeout_meta :: "node_run \<Rightarrow> (string \<rightharpoonup> goval) \<Rightarrow> (string \<rightharpoonup> goval)" where
  "timeout_meta nr m0 =
     (let m1 = m0(''timeout'' \<mapsto> VBool True);
          m2 = (case nr_timeout_seconds nr of None \<Rightarrow> m1 | Some s \<Rightarrow> m1(''timeout_seconds'' \<mapsto> VInt s))
      in (case nr_partial nr of None \<Rightarrow> m2 | Some p \<Rightarrow> m2(''partial_status'' \<mapsto> p)))"

text \<open>The corrections executeNode makes to a canonical outcome before it writes status.json.\<close>

definition finish_outcome :: "node_run \<Rightarrow> outcome \<Rightarrow> outcome" where
  "finish_outcome nr out0 =
     (let out1 = (case ctx_cause (nr_ctx nr) of
            Some cause \<Rightarrow> if is_failing (Status out0) then out0\<lparr>FailureReason := cause\<rparr> else out0
          | None \<Rightarrow> out0);
          out2 = (case nr_ctx nr of
            DeadlineHit _ \<Rightarrow> if is_failing (Status out1)
              then out1\<lparr>Meta := Some (timeout_meta nr (map_of_nil (Meta out1)))\<rparr> else out1
          | _ \<Rightarrow> out1);
          out3 = out2\<lparr>ContextUpdates := Some (map_of_nil (ContextUpdates out2)),
                      SuggestedNextIDs := Some (slice_of_nil (SuggestedNextIDs out2))\<rparr>
      in (case Validate out3 of
            None \<Rightarrow> out3
          | Some err \<Rightarrow>
              if is_failing (Status out3) \<and> trim_space (FailureReason out3) = ''''
              then out3\<lparr>FailureReason := outcome_error_text err\<rparr> else out3))"

text \<open>
  The result is the outcome, whether an error accompanies it, and the content of status.json
  afterwards (\<^verbatim>\<open>None\<close>: the file is absent or does not decode).
\<close>

definition executeNode :: "node_run \<Rightarrow> outcome option \<Rightarrow> outcome \<times> bool \<times> outcome option" where
  "executeNode nr prior_json = (case nr_mkdir_error nr of
      Some err \<Rightarrow> (fail_outcome err, True, prior_json)
    | None \<Rightarrow> (case nr_input_failure nr of
        Some out \<Rightarrow> (out, False, Some out)
      | None \<Rightarrow>
          (let out0 = (case nr_status_json nr of Some parsed \<Rightarrow> parsed | None \<Rightarrow> handler_outcome nr) in
           case Canonicalize out0 of
             Inl cerr \<Rightarrow> (fail_outcome (outcome_error_text cerr), True, nr_status_json nr)
           | Inr out1 \<Rightarrow>
               (let out2 = finish_outcome nr out1;
                    out3 = (case nr_lineage_error nr of
                        None \<Rightarrow> out2
                      | Some err \<Rightarrow> (fail_outcome err)\<lparr>
                          ContextUpdates := Some [''failure_reason'' \<mapsto> VStr err],
                          SuggestedNextIDs := Some []\<rparr>)
                in (out3, False, Some out3)))))"

section \<open>Output contract and cancellation\<close>

definition parseOutputContract :: "node option \<Rightarrow> string list" where
  "parseOutputContract nd = (case nd of
      None \<Rightarrow> []
    | Some n \<Rightarrow> (let raw = trim_space (node_Attr (Some n) ''outputs'' '''')
                 in if raw = '''' then [] else comma_names raw))"

text \<open>The files that exist in the workspace are given by a predicate.\<close>

definition checkOutputContract :: "(string \<Rightarrow> bool) \<Rightarrow> string list \<Rightarrow> string list" where
  "checkOutputContract file_exists outputs = filter (\<lambda>f. \<not> file_exists f) outputs"

definition enforceOutputContract :: "(string \<Rightarrow> bool) \<Rightarrow> node \<Rightarrow> outcome \<Rightarrow> outcome \<times> bool" where
  "enforceOutputContract file_exists n out =
     (let outputs = parseOutputContract (Some n) in
      if outputs = [] then (out, False)
      else (let missing = checkOutputContract file_exists outputs in
            if missing = [] then (out, False)
            else (out\<lparr>Status := StatusFail,
                      FailureReason := ''output contract: missing '' @ join_with '', '' missing\<rparr>, True)))"

record cancellation =
  cancel_cause :: string
  cancel_err :: string

definition canceledOutcomeForRetry :: "cancellation \<Rightarrow> outcome \<Rightarrow> outcome" where
  "canceledOutcomeForRetry c out =
     (let r1 = (if trim_space (cancel_cause c) \<noteq> '''' then trim_space (cancel_cause c)
                else if trim_space (FailureReason out) \<noteq> '''' then trim_space (FailureReason out)
                else FailureReason out);
          r2 = (if trim_space r1 = '''' then trim_space (cancel_err c) else r1);
          r3 = (if trim_space r2 = '''' then ''run canceled'' else r2)
      in out\<lparr>Status := StatusFail, FailureReason := r3,
             ContextUpdates := Some ((map_of_nil (ContextUpdates out))(''failure_class'' \<mapsto> VStr failureClassCanceled)),
             SuggestedNextIDs := Some (slice_of_nil (SuggestedNextIDs out))\<rparr>)"

section \<open>Lemmas\<close>

definition canonical_status :: "stage_status \<Rightarrow> bool" where
  "canonical_status st \<longleftrightarrow> ParseStageStatus st = Inr st"

lemma canonical_consts [simp]:
  "canonical_status StatusSuccess" "canonical_status StatusDegradedSuccess"
  "canonical_status StatusPartialSuccess" "canonical_status StatusRetry"
  "canonical_status StatusFail" "canonical_status StatusSkipped"
  by (simp_all add: canonical_status_def IsCanonical_def)

lemma is_failing_consts [simp]:
  "is_failing StatusFail" "is_failing StatusRetry" "\<not> is_failing StatusSuccess"
  "\<not> is_failing StatusDegradedSuccess" "\<not> is_failing StatusPartialSuccess" "\<not> is_failing StatusSkipped"
  by (simp_all add: is_failing_def status_defs)

lemma failing_iff: "isFailureLoopRestartOutcome out \<longleftrightarrow> is_failing (Status out)"
  by (simp add: isFailureLoopRestartOutcome_def is_failing_def)

text \<open>An outcome the engine may act on: a canonical status, and a reason for every failure.\<close>

definition sound_outcome :: "outcome \<Rightarrow> bool" where
  "sound_outcome out \<longleftrightarrow> canonical_status (Status out) \<and>
     (is_failing (Status out) \<longrightarrow> trim_space (FailureReason out) \<noteq> '''')"

lemma sound_failI [wf_intros]:
  "Status out = StatusFail \<Longrightarrow> trim_space (FailureReason out) \<noteq> '''' \<Longrightarrow> sound_outcome out"
  by (simp add: sound_outcome_def)

lemma Canonicalize_status: "Canonicalize out = Inr co \<Longrightarrow> canonical_status (Status co)"
  using Status_Canonicalize [of out co] by (auto simp: canonical_status_def intro: ParseStageStatus_idem)

lemma Canonicalize_canonical:
  "canonical_status (Status out) \<Longrightarrow>
   Canonicalize out = Inr (out\<lparr>ContextUpdates := Some (map_of_nil (ContextUpdates out)),
     SuggestedNextIDs := Some (slice_of_nil (SuggestedNextIDs out)), Meta := Some (map_of_nil (Meta out))\<rparr>)"
  by (simp add: Canonicalize_def canonical_status_def)

lemma Validate_canonical:
  "canonical_status (Status out) \<Longrightarrow> Validate out =
    (if is_failing (Status out) \<and> trim_space (FailureReason out) = ''''
     then Some (MissingFailureReason (Status out)) else None)"
  by (simp add: Validate_def Canonicalize_canonical is_failing_def)

lemma error_text_nonblank: "trim_space (outcome_error_text err) \<noteq> ''''"
  by (cases err) (simp_all add: trim_space_eq_Nil is_space_def)

declare outcome_error_text.simps [simp del]

lemma finish_outcome_status [simp]: "Status (finish_outcome nr out) = Status out"
  by (simp add: finish_outcome_def Let_def split: ctx_state.splits option.splits)

lemma finish_outcome_sound:
  assumes "canonical_status (Status out)"
  shows "sound_outcome (finish_outcome nr out)"
proof -
  have fix_reason: "sound_outcome (case Validate o3 of None \<Rightarrow> o3
      | Some err \<Rightarrow> if is_failing (Status o3) \<and> trim_space (FailureReason o3) = ''''
          then o3\<lparr>FailureReason := outcome_error_text err\<rparr> else o3)" if "canonical_status (Status o3)" for o3
    using that error_text_nonblank by (simp add: Validate_canonical sound_outcome_def)
  show ?thesis
    unfolding finish_outcome_def Let_def
    by (rule fix_reason) (use assms in \<open>simp split: ctx_state.splits option.splits\<close>)
qed

text \<open>What the environment of an execution has to give: error texts that are not blank.\<close>

definition plain_run :: "node_run \<Rightarrow> bool" where
  "plain_run nr \<longleftrightarrow>
     (case nr_mkdir_error nr of None \<Rightarrow> True | Some e \<Rightarrow> trim_space e \<noteq> '''') \<and>
     (case nr_input_failure nr of None \<Rightarrow> True | Some out \<Rightarrow> sound_outcome out \<and> is_failing (Status out)) \<and>
     (case nr_lineage_error nr of None \<Rightarrow> True | Some e \<Rightarrow> trim_space e \<noteq> '''')"

lemma executeNode_sound:
  assumes "plain_run nr"
  shows "sound_outcome (fst (executeNode nr pj))"
proof (cases "nr_mkdir_error nr")
  case (Some e)
  with assms show ?thesis
    by (simp add: executeNode_def plain_run_def fail_outcome_def sound_outcome_def)
next
  case None
  then show ?thesis
    using assms error_text_nonblank Canonicalize_status finish_outcome_sound
    by (auto simp: executeNode_def plain_run_def fail_outcome_def sound_outcome_def Let_def
        split: option.splits sum.splits)
qed

text \<open>Without an error, status.json holds the outcome.\<close>

lemma executeNode_json:
  "executeNode nr pj = (out, False, js) \<Longrightarrow> js = Some out"
  by (auto simp: executeNode_def Let_def split: option.splits sum.splits)

lemma executeNode_error_fails:
  "executeNode nr pj = (out, True, js) \<Longrightarrow> Status out = StatusFail"
  by (auto simp: executeNode_def Let_def fail_outcome_def split: option.splits sum.splits)

lemma enforceOutputContract_sound:
  "sound_outcome out \<Longrightarrow> sound_outcome (fst (enforceOutputContract ex n out))"
  by (auto simp: enforceOutputContract_def Let_def sound_outcome_def trim_space_eq_Nil is_space_def)

lemma canceled_sound: "sound_outcome (canceledOutcomeForRetry c out)"
proof -
  have "trim_space ''run canceled'' \<noteq> ''''" by (simp add: trim_space_eq_Nil is_space_def)
  then show ?thesis
    by (auto simp: canceledOutcomeForRetry_def Let_def sound_outcome_def)
qed

section \<open>Properties\<close>

text \<open>
  C10: whatever a handler does, return, fail, panic, run out of time or leave a status file of its
  own, the outcome of an execution has a canonical status, a failure has a reason that is not
  blank, and status.json holds exactly this outcome unless an error comes with it.
\<close>

theorem executeNode_outcome_sound:
  assumes "plain_run nr"
  shows "case executeNode nr pj of (out, err, js) \<Rightarrow>
    sound_outcome out \<and> (if err then Status out = StatusFail else js = Some out)"
  using executeNode_sound [OF assms, of pj] executeNode_json executeNode_error_fails
  by (auto split: prod.splits)

definition panicking_run :: node_run where
  "panicking_run = \<lparr>nr_mkdir_error = None, nr_input_failure = None, nr_handler = Panicked ''nil map'',
     nr_status_json = None, nr_ctx = Live, nr_timeout_seconds = None, nr_partial = None,
     nr_lineage_error = None\<rparr>"

theorem executeNode_outcome_sound_witness:
  "case executeNode panicking_run None of (out, err, js) \<Rightarrow>
    sound_outcome out \<and> (if err then Status out = StatusFail else js = Some out)"
  by (rule executeNode_outcome_sound) (simp add: plain_run_def panicking_run_def)

end
