(* ===== verification/StageRetry.thy ===== *)
theory StageRetry
  imports StageExec
begin

text \<open>
  executeWithRetry of \<^verbatim>\<open>internal/attractor/engine/engine.go\<close>: the attempts of a stage,
  with the retry policy, the output contract, the escalation to other models, cancellation and the
  acceptance of partial results.  The environment says for each attempt what the handler does (a
  function of the node, whose model attributes change between attempts, and of the context), which
  files exist afterwards, and whether the run is cancelled after the attempt or during the pause
  that follows it.  Progress events, archived directories and FEEDBACK.md are not modelled; the
  calls of the handler are recorded with the model they were made with.
\<close>

section \<open>State\<close>

record attempt_env =
  ae_handler :: "node \<Rightarrow> run_context \<Rightarrow> node_run \<times> run_context"
  ae_cancel :: "cancellation option"
  ae_files :: "string \<Rightarrow> bool"
  ae_sleep :: "cancellation option"

record retry_cfg =
  rc_graph :: graph
  rc_max_attempts :: int
  rc_chain :: "provider_model list"
  rc_rbe :: int
  rc_allow_partial :: bool

record retry_state =
  rs_node :: node
  rs_retries :: "string \<Rightarrow> int"
  rs_context :: run_context
  rs_esc_fail :: int
  rs_esc_idx :: int
  rs_status_json :: "outcome option"
  rs_calls :: "provider_model list"

definition set_attr :: "node \<Rightarrow> string \<Rightarrow> string \<Rightarrow> node" where
  "set_attr n k v = n\<lparr>node_attrs := (node_attrs n)(k \<mapsto> v)\<rparr>"

definition raw_attr :: "node \<Rightarrow> string \<Rightarrow> string" where
  "raw_attr n k = (case node_attrs n k of None \<Rightarrow> '''' | Some v \<Rightarrow> v)"

definition node_model :: "node \<Rightarrow> provider_model" where
  "node_model n = \<lparr>pm_provider = raw_attr n ''llm_provider'', pm_model = raw_attr n ''llm_model''\<rparr>"

definition set_model :: "node \<Rightarrow> provider_model \<Rightarrow> node" where
  "set_model n pm = set_attr (set_attr n ''llm_model'' (pm_model pm)) ''llm_provider'' (pm_provider pm)"

section \<open>The registry\<close>

text \<open>The type name a node's handler is registered under; \<^verbatim>\<open>None\<close> is the default handler.\<close>

definition Resolve :: "string list \<Rightarrow> node option \<Rightarrow> string option" where
  "Resolve registered nd = (case nd of
      None \<Rightarrow> None
    | Some n \<Rightarrow>
        (let t = trim_space (node_TypeOverride n); handlerType = shapeToType (node_Shape n) in
         if t \<noteq> '''' \<and> t \<in> set registered then Some t
         else if handlerType \<in> set registered then Some handlerType
         else None))"

definition core_types :: "string list" where
  "core_types = [''start'', ''exit'', ''conditional'', ''parallel'', ''parallel.fan_in'', ''tool'',
     ''loop.begin'', ''loop.end'', ''concurrent.split'', ''concurrent.join'']"

definition SkipRetry :: "string option \<Rightarrow> bool" where
  "SkipRetry handler \<longleftrightarrow> handler \<in> {Some ''conditional'', Some ''loop.begin'', Some ''loop.end'',
     Some ''concurrent.split'', Some ''concurrent.join''}"

section \<open>Attempts\<close>

definition max_retries_for :: "graph \<Rightarrow> node \<Rightarrow> int" where
  "max_retries_for g n =
     (let m1 = parseInt (node_Attr (Some n) ''max_retries'' '''') (- 1);
          m2 = (if m1 < 0 then parseInt (graph_attr g ''default_max_retry'') (- 1) else m1)
      in if m2 < 0 then 3 else m2)"

definition retry_cfg_for :: "graph \<Rightarrow> node \<Rightarrow> retry_cfg" where
  "retry_cfg_for g n = \<lparr>rc_graph = g, rc_max_attempts = wrap64 (max_retries_for g n + 1),
     rc_chain = parseEscalationModels (node_Attr (Some n) ''escalation_models'' ''''),
     rc_rbe = retriesBeforeEscalation (Some g),
     rc_allow_partial = equal_fold (node_Attr (Some n) ''allow_partial'' ''false'') ''true''\<rparr>"

definition canonical_or_zero :: "outcome \<Rightarrow> outcome" where
  "canonical_or_zero out = (case Canonicalize out of Inr co \<Rightarrow> co | Inl _ \<Rightarrow> zero_outcome)"

definition run_attempt :: "attempt_env \<Rightarrow> retry_state \<Rightarrow> outcome \<times> retry_state" where
  "run_attempt ev st =
     (let (nr, ctx') = ae_handler ev (rs_node st) (rs_context st);
          (out, _, js) = executeNode nr (rs_status_json st)
      in (out, st\<lparr>rs_context := ctx', rs_status_json := js,
                   rs_calls := rs_calls st @ [node_model (rs_node st)]\<rparr>))"

text \<open>Returning an outcome after writing it to status.json.\<close>

definition write_and_return :: "outcome \<Rightarrow> retry_state \<Rightarrow> outcome \<times> retry_state" where
  "write_and_return out st = (out, st\<lparr>rs_status_json := Some out\<rparr>)"

definition success_like :: "stage_status \<Rightarrow> bool" where
  "success_like st \<longleftrightarrow> st \<in> {StatusSuccess, StatusDegradedSuccess, StatusPartialSuccess, StatusSkipped}"

text \<open>The switch to the next model of the chain after enough failures on the current one.\<close>

definition escalate :: "retry_cfg \<Rightarrow> failure_class \<Rightarrow> retry_state \<Rightarrow> retry_state" where
  "escalate cfg failureClass st =
     (if isEscalatableFailureClass failureClass \<and> rc_chain cfg \<noteq> [] then
        (let fails = rs_esc_fail st + 1 in
         if fails > rc_rbe cfg \<and> rs_esc_idx st < int (length (rc_chain cfg)) - 1 then
           (let idx = rs_esc_idx st + 1 in
            st\<lparr>rs_esc_idx := idx, rs_esc_fail := 0,
               rs_node := set_model (rs_node st) (rc_chain cfg ! nat idx)\<rparr>)
         else st\<lparr>rs_esc_fail := fails\<rparr>)
      else st)"

definition is_tool_node :: "node \<Rightarrow> bool" where
  "is_tool_node n \<longleftrightarrow> trim_space (node_Attr (Some n) ''tool_command'' '''') \<noteq> ''''"

definition retry_decision ::
  "retry_cfg \<Rightarrow> int \<Rightarrow> outcome \<Rightarrow> failure_class \<Rightarrow> retry_state \<Rightarrow> bool \<times> retry_state" where
  "retry_decision cfg attempt out failureClass st =
     (if attempt < rc_max_attempts cfg then
        (if is_tool_node (rs_node st) then (is_failing (Status out), st)
         else if shouldRetryOutcome out failureClass then (True, escalate cfg failureClass st)
         else (False, st))
      else (False, st))"

definition count_retry :: "retry_state \<Rightarrow> retry_state" where
  "count_retry st =
     (let i = node_id (rs_node st); k = rs_retries st i + 1 in
      st\<lparr>rs_retries := (rs_retries st)(i := k),
         rs_context := ctx_Set (rs_context st) (''internal.retry_count.'' @ i) (VInt k)\<rparr>)"

definition reset_retries :: "retry_state \<Rightarrow> retry_state" where
  "reset_retries st = st\<lparr>rs_retries := (rs_retries st)(node_id (rs_node st) := 0)\<rparr>"

definition give_up :: "retry_cfg \<Rightarrow> outcome \<Rightarrow> retry_state \<Rightarrow> outcome \<times> retry_state" where
  "give_up cfg out st =
     (if rc_allow_partial cfg then
        write_and_return (canonical_or_zero (zero_outcome\<lparr>Status := StatusPartialSuccess,
          Notes := ''retries exhausted, partial accepted'', FailureReason := FailureReason out\<rparr>)) st
      else
        write_and_return (canonical_or_zero (out\<lparr>Status := StatusFail,
          FailureReason := if FailureReason out = '''' then ''max retries exceeded'' else FailureReason out\<rparr>)) st)"

text \<open>What one attempt leads to: an outcome to return, or another attempt.\<close>

datatype attempt_result = Done "outcome \<times> retry_state" | Again retry_state

definition attempt_step :: "retry_cfg \<Rightarrow> attempt_env \<Rightarrow> int \<Rightarrow> retry_state \<Rightarrow> attempt_result" where
  "attempt_step cfg ev attempt st =
     (let (out, st1) = run_attempt ev st in
      case ae_cancel ev of
        Some c \<Rightarrow> Done (write_and_return (canonical_or_zero (canceledOutcomeForRetry c out)) st1)
      | None \<Rightarrow>
          (let (out2, go_on) =
                 (if success_like (Status out) then enforceOutputContract (ae_files ev) (rs_node st1) out
                  else (out, True)) in
           if \<not> go_on then Done (out, reset_retries st1)
           else if \<not> IsCanonical (Status out2) \<and>
               hasMatchingOutgoingCondition (rc_graph cfg) (node_id (rs_node st1)) out2 (rs_context st1)
             then Done (out2, reset_retries st1)
           else
             (let failureClass = classifyFailureClass out2;
                  (canRetry, st2) = retry_decision cfg attempt out2 failureClass st1
              in if canRetry then
                   (case ae_sleep ev of
                      Some c \<Rightarrow> Done (write_and_return (canonical_or_zero (canceledOutcomeForRetry c out2)) (count_retry st2))
                    | None \<Rightarrow> Again (count_retry st2))
                 else Done (give_up cfg out2 st2))))"

function attempts_loop ::
  "retry_cfg \<Rightarrow> (int \<Rightarrow> attempt_env) \<Rightarrow> int \<Rightarrow> retry_state \<Rightarrow> outcome \<times> retry_state" where
  "attempts_loop cfg env attempt st =
     (if attempt \<le> rc_max_attempts cfg then
        (case attempt_step cfg (env attempt) attempt st of
           Done r \<Rightarrow> r
         | Again st' \<Rightarrow> attempts_loop cfg env (attempt + 1) st')
      else (fail_outcome ''max retries exceeded'', st))"
  by pat_completeness auto
termination
  by (relation "measure (\<lambda>(cfg, env, attempt, st). nat (rc_max_attempts cfg + 1 - attempt))") auto

declare attempts_loop.simps [simp del]

text \<open>
  The deferred function puts the model attributes back; an attribute that was absent comes back as
  the empty string.
\<close>

definition restore_model :: "node \<Rightarrow> retry_state \<Rightarrow> retry_state" where
  "restore_model orig st = st\<lparr>rs_node := set_model (rs_node st) (node_model orig)\<rparr>"

definition executeWithRetry ::
  "string list \<Rightarrow> graph \<Rightarrow> (int \<Rightarrow> attempt_env) \<Rightarrow> node \<Rightarrow> (string \<Rightarrow> int) \<Rightarrow> run_context \<Rightarrow> outcome option \<Rightarrow>
   outcome \<times> retry_state" where
  "executeWithRetry registered g env n retries ctx json =
     (let st0 = \<lparr>rs_node = n, rs_retries = retries, rs_context = ctx, rs_esc_fail = 0, rs_esc_idx = - 1,
                 rs_status_json = json, rs_calls = []\<rparr>
      in if SkipRetry (Resolve registered (Some n)) then run_attempt (env 1) st0
         else (let (out, st) = attempts_loop (retry_cfg_for g n) env 1 st0 in (out, restore_model n st)))"

section \<open>Reasoning about the attempts\<close>

lemma attempts_loop_rule:
  assumes "P attempt st"
    and again: "\<And>a s s'. a \<le> rc_max_attempts cfg \<Longrightarrow> P a s \<Longrightarrow> attempt_step cfg (env a) a s = Again s' \<Longrightarrow> P (a + 1) s'"
    and finished: "\<And>a s r. a \<le> rc_max_attempts cfg \<Longrightarrow> P a s \<Longrightarrow> attempt_step cfg (env a) a s = Done r \<Longrightarrow> Q r"
    and fallthrough: "\<And>a s. rc_max_attempts cfg < a \<Longrightarrow> P a s \<Longrightarrow> Q (fail_outcome ''max retries exceeded'', s)"
  shows "Q (attempts_loop cfg env attempt st)"
  using assms(1)
proof (induction "nat (rc_max_attempts cfg + 1 - attempt)" arbitrary: attempt st rule: less_induct)
  case less
  show ?case
  proof (cases "attempt \<le> rc_max_attempts cfg")
    case True
    show ?thesis
    proof (cases "attempt_step cfg (env attempt) attempt st")
      case (Done r)
      with finished [OF True less.prems Done] True show ?thesis
        by (simp add: attempts_loop.simps [of cfg env attempt])
    next
      case (Again s')
      have "Q (attempts_loop cfg env (attempt + 1) s')"
        using again [OF True less.prems Again] True by (intro less.hyps) auto
      with Again True show ?thesis
        by (simp add: attempts_loop.simps [of cfg env attempt])
    qed
  next
    case False
    with fallthrough [of attempt st] less.prems show ?thesis
      by (simp add: attempts_loop.simps [of cfg env attempt])
  qed
qed

text \<open>The four ways an attempt can end, with what each does to the state.\<close>

lemma canonical_or_zero_eq:
  "canonical_status (Status out) \<Longrightarrow>
   canonical_or_zero out = out\<lparr>ContextUpdates := Some (map_of_nil (ContextUpdates out)),
     SuggestedNextIDs := Some (slice_of_nil (SuggestedNextIDs out)), Meta := Some (map_of_nil (Meta out))\<rparr>"
  by (simp add: canonical_or_zero_def Canonicalize_canonical)

lemma canonical_or_zero_sound [wf_intros]: "sound_outcome out \<Longrightarrow> sound_outcome (canonical_or_zero out)"
  by (simp add: canonical_or_zero_eq sound_outcome_def)

lemma Status_canonical_or_zero [simp]:
  "canonical_status (Status out) \<Longrightarrow> Status (canonical_or_zero out) = Status out"
  by (simp add: canonical_or_zero_eq)

lemma canceled_status [simp]: "Status (canceledOutcomeForRetry c out) = StatusFail"
  by (simp add: canceledOutcomeForRetry_def Let_def)

lemma Again_elim:
  assumes "attempt_step cfg ev a st = Again st'"
  obtains out st1 out2 st2 where
    "run_attempt ev st = (out, st1)" "a < rc_max_attempts cfg"
    "ae_cancel ev = None" "ae_sleep ev = None" "is_failing (Status out2)"
    "out2 = out \<or> success_like (Status out) \<and> enforceOutputContract (ae_files ev) (rs_node st1) out = (out2, True)"
    "retry_decision cfg a out2 (classifyFailureClass out2) st1 = (True, st2)" "st' = count_retry st2"
proof -
  obtain out st1 where run: "run_attempt ev st = (out, st1)" by fastforce
  obtain out2 go_on where o2: "(if success_like (Status out) then
      enforceOutputContract (ae_files ev) (rs_node st1) out else (out, True)) = (out2, go_on)"
    by fastforce
  obtain ok st2 where dec: "retry_decision cfg a out2 (classifyFailureClass out2) st1 = (ok, st2)"
    by fastforce
  note assms [unfolded attempt_step_def Let_def run o2 dec prod.case, simplified run o2 dec prod.case]
  then have "ae_cancel ev = None" "ae_sleep ev = None" "go_on" "ok" "st' = count_retry st2"
    by (auto simp: o2 dec split: option.splits if_splits)
  moreover from dec \<open>ok\<close> have "a < rc_max_attempts cfg" "is_failing (Status out2)"
    by (auto simp: retry_decision_def shouldRetryOutcome_def is_failing_def split: if_splits)
  ultimately show thesis
    using run o2 dec that by (auto split: if_splits)
qed

definition plain_env :: "attempt_env \<Rightarrow> bool" where
  "plain_env ev \<longleftrightarrow> (\<forall>n ctx. plain_run (fst (ae_handler ev n ctx)))"

lemma run_attempt_facts:
  assumes "run_attempt ev st = (out, st1)"
  shows "rs_calls st1 = rs_calls st @ [node_model (rs_node st)]" "rs_node st1 = rs_node st"
    "rs_retries st1 = rs_retries st" "rs_esc_fail st1 = rs_esc_fail st" "rs_esc_idx st1 = rs_esc_idx st"
    "plain_env ev \<Longrightarrow> sound_outcome out"
    "Status out \<noteq> StatusFail \<Longrightarrow> rs_status_json st1 = Some out"
proof -
  obtain nr ctx' where h: "ae_handler ev (rs_node st) (rs_context st) = (nr, ctx')" by fastforce
  obtain err js where e: "executeNode nr (rs_status_json st) = (out, err, js)"
    using assms h by (auto simp: run_attempt_def split: prod.splits)
  from assms h e have st1: "st1 = st\<lparr>rs_context := ctx', rs_status_json := js,
      rs_calls := rs_calls st @ [node_model (rs_node st)]\<rparr>"
    by (simp add: run_attempt_def)
  then show "rs_calls st1 = rs_calls st @ [node_model (rs_node st)]" "rs_node st1 = rs_node st"
    "rs_retries st1 = rs_retries st" "rs_esc_fail st1 = rs_esc_fail st" "rs_esc_idx st1 = rs_esc_idx st"
    by simp_all
  show "plain_env ev \<Longrightarrow> sound_outcome out"
    using executeNode_sound [of nr "rs_status_json st"] e h
    by (metis fst_conv plain_env_def)
  show "Status out \<noteq> StatusFail \<Longrightarrow> rs_status_json st1 = Some out"
    using e executeNode_json executeNode_error_fails st1 by (cases err) auto
qed

lemma escalate_keeps [simp]:
  "rs_calls (escalate cfg cls st) = rs_calls st" "rs_retries (escalate cfg cls st) = rs_retries st"
  "rs_context (escalate cfg cls st) = rs_context st" "node_id (rs_node (escalate cfg cls st)) = node_id (rs_node st)"
  by (simp_all add: escalate_def Let_def set_model_def set_attr_def)

lemma count_retry_keeps [simp]:
  "rs_calls (count_retry st) = rs_calls st" "rs_node (count_retry st) = rs_node st"
  "rs_esc_idx (count_retry st) = rs_esc_idx st" "rs_esc_fail (count_retry st) = rs_esc_fail st"
  by (simp_all add: count_retry_def Let_def)

lemma reset_retries_keeps [simp]:
  "rs_calls (reset_retries st) = rs_calls st" "rs_node (reset_retries st) = rs_node st"
  "rs_status_json (reset_retries st) = rs_status_json st"
  by (simp_all add: reset_retries_def)

lemma write_and_return_eq: "write_and_return out st = (o', s') \<longleftrightarrow> o' = out \<and> s' = st\<lparr>rs_status_json := Some out\<rparr>"
  by (auto simp: write_and_return_def)

lemma retry_decision_keeps:
  "retry_decision cfg a out cls st = (ok, st2) \<Longrightarrow> rs_calls st2 = rs_calls st \<and> node_id (rs_node st2) = node_id (rs_node st)"
  by (auto simp: retry_decision_def split: if_splits)

text \<open>An outcome executeWithRetry may return.\<close>

definition final_outcome :: "outcome \<Rightarrow> bool" where
  "final_outcome out \<longleftrightarrow> canonical_status (Status out) \<and>
     (success_like (Status out) \<or> Status out = StatusFail \<and> FailureReason out \<noteq> '''' \<or> \<not> IsCanonical (Status out))"

lemma success_like_cases:
  "IsCanonical st \<longleftrightarrow> success_like st \<or> is_failing st"
  by (auto simp: IsCanonical_def success_like_def is_failing_def)

lemma success_not_failing: "success_like st \<Longrightarrow> \<not> is_failing st"
  by (auto simp: success_like_def)

lemma failed_final:
  assumes "sound_outcome out" "Status out = StatusFail"
  shows "final_outcome (canonical_or_zero out)"
  using assms by (auto simp: final_outcome_def canonical_or_zero_eq sound_outcome_def)

lemma give_up_facts:
  assumes "give_up cfg out st = (o', s')"
  shows "final_outcome o'" "rs_status_json s' = Some o'" "rs_calls s' = rs_calls st"
    "rs_node s' = rs_node st" "rs_retries s' = rs_retries st"
    "Status o' = (if rc_allow_partial cfg then StatusPartialSuccess else StatusFail)"
  using assms
  by (auto simp: give_up_def write_and_return_eq final_outcome_def canonical_or_zero_eq success_like_def
      split: if_splits)

lemma Done_elim:
  assumes "attempt_step cfg ev a st = Done (o', s')"
  obtains
    (cancelled) c out st1 where "run_attempt ev st = (out, st1)" "ae_cancel ev = Some c"
      "write_and_return (canonical_or_zero (canceledOutcomeForRetry c out)) st1 = (o', s')"
  | (succeeded) st1 where "run_attempt ev st = (o', st1)" "success_like (Status o')" "s' = reset_retries st1"
  | (routed) st1 where "run_attempt ev st = (o', st1)" "\<not> IsCanonical (Status o')" "s' = reset_retries st1"
  | (interrupted) c out st1 out2 st2 where "run_attempt ev st = (out, st1)" "ae_sleep ev = Some c"
      "retry_decision cfg a out2 (classifyFailureClass out2) st1 = (True, st2)"
      "write_and_return (canonical_or_zero (canceledOutcomeForRetry c out2)) (count_retry st2) = (o', s')"
  | (gave_up) out st1 out2 st2 where "run_attempt ev st = (out, st1)" "ae_cancel ev = None"
      "out2 = out \<and> \<not> success_like (Status out) \<or> success_like (Status out) \<and>
         enforceOutputContract (ae_files ev) (rs_node st1) out = (out2, True)"
      "retry_decision cfg a out2 (classifyFailureClass out2) st1 = (False, st2)"
      "give_up cfg out2 st2 = (o', s')"
proof -
  obtain out st1 where run: "run_attempt ev st = (out, st1)" by fastforce
  obtain out2 go_on where o2: "(if success_like (Status out) then
      enforceOutputContract (ae_files ev) (rs_node st1) out else (out, True)) = (out2, go_on)"
    by fastforce
  obtain ok st2 where dec: "retry_decision cfg a out2 (classifyFailureClass out2) st1 = (ok, st2)"
    by fastforce
  have contract: "out2 = out \<or> Status out2 = StatusFail"
    using o2 by (auto simp: enforceOutputContract_def Let_def split: if_splits)
  have fail_canonical: "IsCanonical StatusFail" by (simp add: IsCanonical_def)
  note step = assms [unfolded attempt_step_def Let_def run o2 dec prod.case, simplified run o2 dec prod.case]
  show thesis
  proof (cases "ae_cancel ev")
    case (Some c)
    with step run show thesis by (intro cancelled) (auto simp: o2)
  next
    case None
    consider "\<not> go_on" | "go_on" "\<not> IsCanonical (Status out2)"
        "hasMatchingOutgoingCondition (rc_graph cfg) (node_id (rs_node st1)) out2 (rs_context st1)"
      | "go_on" "IsCanonical (Status out2) \<or>
          \<not> hasMatchingOutgoingCondition (rc_graph cfg) (node_id (rs_node st1)) out2 (rs_context st1)"
      by blast
    then show thesis
    proof cases
      case 1
      then have "success_like (Status out)" using o2 by (auto split: if_splits)
      with 1 None step run show thesis by (intro succeeded [of st1]) (auto simp: o2)
    next
      case 2
      with contract fail_canonical have "out2 = out" by auto
      with 2 None step run show thesis by (intro routed [of st1]) (auto simp: o2)
    next
      case 3
      show thesis
      proof (cases ok)
        case True
        with 3 None step run dec show thesis
          by (cases "ae_sleep ev") (auto simp: o2 intro: interrupted)
      next
        case False
        have "out2 = out \<and> \<not> success_like (Status out) \<or> success_like (Status out) \<and>
            enforceOutputContract (ae_files ev) (rs_node st1) out = (out2, True)"
          using o2 3(1) by (auto split: if_splits)
        moreover have "give_up cfg out2 st2 = (o', s')"
          using 3 None step False by (auto simp: o2 dec)
        ultimately show thesis
          using run None dec False by (intro gave_up) auto
      qed
    qed
  qed
qed

lemma Done_facts:
  assumes "attempt_step cfg ev a st = Done (o', s')" "plain_env ev"
  shows "final_outcome o' \<and> rs_status_json s' = Some o' \<and>
    rs_calls s' = rs_calls st @ [node_model (rs_node st)] \<and> node_id (rs_node s') = node_id (rs_node st)"
  using assms(1)
proof (cases rule: Done_elim)
  case (cancelled c out st1)
  then show ?thesis
    using run_attempt_facts(1,2) [OF cancelled(1)] canceled_sound
    by (auto simp: write_and_return_eq intro!: failed_final)
next
  case (succeeded st1)
  then have "Status o' \<noteq> StatusFail" by (auto simp: success_like_def status_defs)
  then show ?thesis
    using succeeded run_attempt_facts [OF succeeded(1)] assms(2)
    by (auto simp: final_outcome_def sound_outcome_def)
next
  case (routed st1)
  then have "Status o' \<noteq> StatusFail" by (auto simp: IsCanonical_def)
  then show ?thesis
    using routed run_attempt_facts [OF routed(1)] assms(2)
    by (auto simp: final_outcome_def sound_outcome_def)
next
  case (interrupted c out st1 out2 st2)
  then show ?thesis
    using run_attempt_facts(1,2) [OF interrupted(1)] retry_decision_keeps [OF interrupted(3)] canceled_sound
    by (auto simp: write_and_return_eq intro!: failed_final)
next
  case (gave_up out st1 out2 st2)
  then show ?thesis
    using run_attempt_facts(1,2) [OF gave_up(1)] retry_decision_keeps [OF gave_up(4)] give_up_facts [OF gave_up(5)]
    by auto
qed

lemma Again_facts:
  assumes "attempt_step cfg ev a st = Again s'"
  shows "a < rc_max_attempts cfg" "rs_calls s' = rs_calls st @ [node_model (rs_node st)]"
    "node_id (rs_node s') = node_id (rs_node st)"
proof -
  obtain out st1 out2 st2 where *: "run_attempt ev st = (out, st1)" "a < rc_max_attempts cfg"
    "retry_decision cfg a out2 (classifyFailureClass out2) st1 = (True, st2)" "s' = count_retry st2"
    by (rule Again_elim [OF assms])
  from * retry_decision_keeps [OF *(3)] run_attempt_facts(1,2) [OF *(1)]
  show "a < rc_max_attempts cfg" "rs_calls s' = rs_calls st @ [node_model (rs_node st)]"
    "node_id (rs_node s') = node_id (rs_node st)"
    by auto
qed

text \<open>A stage that is not a pass-through and whose number of attempts does not overflow.\<close>

definition retried_stage :: "string list \<Rightarrow> graph \<Rightarrow> node \<Rightarrow> bool" where
  "retried_stage registered g n \<longleftrightarrow> \<not> SkipRetry (Resolve registered (Some n)) \<and> max_retries_for g n < int64_max"

lemma max_retries_range: "0 \<le> max_retries_for g n" "max_retries_for g n \<le> int64_max"
proof -
  have r: "parseInt s (- 1) \<le> int64_max" for s
    using parseInt_range [of "- 1" s] by (simp add: int64_min_def int64_max_def)
  show "0 \<le> max_retries_for g n" by (simp add: max_retries_for_def Let_def)
  show "max_retries_for g n \<le> int64_max"
    using r by (auto simp: max_retries_for_def Let_def int64_max_def)
qed

lemma retried_max_attempts:
  "max_retries_for g n < int64_max \<Longrightarrow> rc_max_attempts (retry_cfg_for g n) = max_retries_for g n + 1"
  using max_retries_range(1) [of g n]
  by (simp add: retry_cfg_for_def wrap64_id int64_min_def int64_max_def)

lemma attempts_loop_result:
  assumes "\<And>a. plain_env (env a)" "1 \<le> rc_max_attempts cfg" "rs_calls st = []"
  shows "case attempts_loop cfg env 1 st of (out, st') \<Rightarrow>
    final_outcome out \<and> rs_status_json st' = Some out \<and>
    1 \<le> length (rs_calls st') \<and> int (length (rs_calls st')) \<le> rc_max_attempts cfg"
proof (rule attempts_loop_rule [where
      P = "\<lambda>a s. 1 \<le> a \<and> a \<le> rc_max_attempts cfg \<and> int (length (rs_calls s)) = a - 1"])
  show "1 \<le> (1 :: int) \<and> 1 \<le> rc_max_attempts cfg \<and> int (length (rs_calls st)) = 1 - 1"
    using assms by simp
next
  fix a s s'
  assume "1 \<le> a \<and> a \<le> rc_max_attempts cfg \<and> int (length (rs_calls s)) = a - 1"
    "attempt_step cfg (env a) a s = Again s'"
  then show "1 \<le> a + 1 \<and> a + 1 \<le> rc_max_attempts cfg \<and> int (length (rs_calls s')) = a + 1 - 1"
    using Again_facts [of cfg "env a" a s s'] by auto
next
  fix a s r
  assume "1 \<le> a \<and> a \<le> rc_max_attempts cfg \<and> int (length (rs_calls s)) = a - 1"
    "attempt_step cfg (env a) a s = Done r"
  then show "case r of (out, st') \<Rightarrow> final_outcome out \<and> rs_status_json st' = Some out \<and>
      1 \<le> length (rs_calls st') \<and> int (length (rs_calls st')) \<le> rc_max_attempts cfg"
    using Done_facts [of cfg "env a" a s "fst r" "snd r"] assms(1) by (auto split: prod.splits)
qed auto

lemma restore_model_keeps [simp]:
  "rs_status_json (restore_model n st) = rs_status_json st" "rs_calls (restore_model n st) = rs_calls st"
  by (simp_all add: restore_model_def)

section \<open>Escalation\<close>

text \<open>
  The models of the attempts when every attempt ends in a failure that escalates: the model of the
  node for the first rbe + 1 attempts, then each model of the chain for rbe + 1 attempts, and the
  last one for all that remain.
\<close>

definition model_at :: "retry_cfg \<Rightarrow> provider_model \<Rightarrow> nat \<Rightarrow> provider_model" where
  "model_at cfg orig k =
     (let q = min (k div (nat (rc_rbe cfg) + 1)) (length (rc_chain cfg))
      in if q = 0 then orig else rc_chain cfg ! (q - 1))"

definition capability_failure :: "outcome \<Rightarrow> bool" where
  "capability_failure out \<longleftrightarrow> is_failing (Status out) \<and> isEscalatableFailureClass (classifyFailureClass out)"

definition failing_env :: "attempt_env \<Rightarrow> bool" where
  "failing_env ev \<longleftrightarrow> ae_cancel ev = None \<and> ae_sleep ev = None \<and>
     (\<forall>n ctx js. capability_failure (fst (executeNode (fst (ae_handler ev n ctx)) js)))"

lemma node_model_set_model [simp]: "node_model (set_model n pm) = pm"
  by (simp add: node_model_def set_model_def set_attr_def raw_attr_def)

lemma is_tool_set_model [simp]: "is_tool_node (set_model n pm) = is_tool_node n"
  by (simp add: is_tool_node_def set_model_def set_attr_def node_Attr_def)

lemma capability_failure_retried:
  "capability_failure out \<Longrightarrow> shouldRetryOutcome out (classifyFailureClass out)"
  by (auto simp: capability_failure_def shouldRetryOutcome_def isEscalatableFailureClass_def is_failing_def
      retryableFailureClasses_def Let_def)

definition escalation_inv :: "retry_cfg \<Rightarrow> provider_model \<Rightarrow> nat \<Rightarrow> retry_state \<Rightarrow> bool" where
  "escalation_inv cfg orig k st \<longleftrightarrow>
     (let m = nat (rc_rbe cfg) + 1; q = min (k div m) (length (rc_chain cfg)) in
      rs_esc_idx st = int q - 1 \<and>
      (q < length (rc_chain cfg) \<longrightarrow> rs_esc_fail st = int (k mod m)) \<and>
      node_model (rs_node st) = model_at cfg orig k \<and>
      rs_calls st = map (model_at cfg orig) [0..<k])"

lemma escalate_step:
  assumes inv: "escalation_inv cfg orig k st" and "rc_chain cfg \<noteq> []" "0 \<le> rc_rbe cfg"
    and cls: "isEscalatableFailureClass cls"
    and st1: "rs_node st1 = rs_node st" "rs_esc_fail st1 = rs_esc_fail st" "rs_esc_idx st1 = rs_esc_idx st"
      "rs_calls st1 = rs_calls st @ [node_model (rs_node st)]"
  shows "escalation_inv cfg orig (Suc k) (escalate cfg cls st1)"
proof -
  let ?m = "nat (rc_rbe cfg) + 1" and ?len = "length (rc_chain cfg)"
  define q where "q = min (k div ?m) ?len"
  have m: "int ?m = rc_rbe cfg + 1" using assms(3) by simp
  have idx: "rs_esc_idx st = int q - 1" and fail: "q < ?len \<Longrightarrow> rs_esc_fail st = int (k mod ?m)"
    and model: "node_model (rs_node st) = (if q = 0 then orig else rc_chain cfg ! (q - 1))"
    and calls: "rs_calls st = map (model_at cfg orig) [0..<k]"
    using inv unfolding escalation_inv_def Let_def model_at_def q_def by blast+
  have calls': "rs_calls (escalate cfg cls st1) = map (model_at cfg orig) [0..<Suc k]"
    using st1(4) calls inv by (simp add: escalation_inv_def Let_def)
  consider (switch) "q < ?len" "Suc (k mod ?m) = ?m" | (stay) "q < ?len" "Suc (k mod ?m) \<noteq> ?m" | (last) "q = ?len"
    unfolding q_def by linarith
  then show ?thesis
  proof cases
    case switch
    then have "Suc k div ?m = Suc (k div ?m)" "Suc k mod ?m = 0" "k div ?m = q"
      by (auto simp: div_Suc mod_Suc q_def)
    moreover have "rs_esc_fail st + 1 > rc_rbe cfg" "rs_esc_idx st < int ?len - 1"
      using fail switch idx m by linarith+
    then have "escalate cfg cls st1 = st1\<lparr>rs_esc_idx := int q, rs_esc_fail := 0,
        rs_node := set_model (rs_node st1) (rc_chain cfg ! q)\<rparr>"
      using cls assms(2) st1 idx by (simp add: escalate_def Let_def)
    ultimately show ?thesis
      using calls' switch by (simp add: escalation_inv_def Let_def model_at_def)
  next
    case stay
    then have div: "Suc k div ?m = k div ?m" "Suc k mod ?m = Suc (k mod ?m)" "k div ?m = q"
      by (auto simp: div_Suc mod_Suc q_def)
    have "k mod ?m < ?m" by simp
    with stay(2) have "Suc (k mod ?m) < ?m" by linarith
    with m have "int (k mod ?m) + 1 \<le> rc_rbe cfg" by linarith
    with fail stay have "\<not> rs_esc_fail st + 1 > rc_rbe cfg" by linarith
    then have "escalate cfg cls st1 = st1\<lparr>rs_esc_fail := rs_esc_fail st + 1\<rparr>"
      using cls assms(2) st1 by (simp add: escalate_def Let_def)
    with div calls' fail stay model idx st1 show ?thesis
      by (simp add: escalation_inv_def Let_def model_at_def)
  next
    case last
    then have q': "min (Suc k div ?m) ?len = ?len"
      using div_le_mono [of k "Suc k" ?m] unfolding q_def by linarith
    have "escalate cfg cls st1 = st1\<lparr>rs_esc_fail := rs_esc_fail st + 1\<rparr>"
      using cls assms(2) st1 idx last by (simp add: escalate_def Let_def)
    moreover have "node_model (rs_node st) = model_at cfg orig (Suc k)"
      using model last q' assms(2) unfolding model_at_def Let_def by simp
    ultimately show ?thesis
      using q' last calls' idx st1 unfolding escalation_inv_def Let_def by simp
  qed
qed

lemma failing_attempt:
  assumes inv: "escalation_inv cfg orig k st" and "rc_chain cfg \<noteq> []" "0 \<le> rc_rbe cfg"
    and ev: "failing_env ev" and tool: "\<not> is_tool_node (rs_node st)"
  shows "if int k + 1 < rc_max_attempts cfg
    then \<exists>s'. attempt_step cfg ev (int k + 1) st = Again s' \<and> escalation_inv cfg orig (Suc k) s' \<and>
           \<not> is_tool_node (rs_node s')
    else \<exists>o' s'. attempt_step cfg ev (int k + 1) st = Done (o', s') \<and>
           rs_calls s' = map (model_at cfg orig) [0..<Suc k]"
proof -
  obtain out st1 where run: "run_attempt ev st = (out, st1)" by fastforce
  note facts = run_attempt_facts(1-5) [OF run]
  have cap: "capability_failure out"
    using ev run by (auto simp: failing_env_def run_attempt_def split: prod.splits) (metis fst_conv)
  then have canon: "IsCanonical (Status out)" "\<not> success_like (Status out)"
    using success_like_cases success_not_failing by (auto simp: capability_failure_def)
  let ?cls = "classifyFailureClass out"
  have esc: "escalation_inv cfg orig (Suc k) (escalate cfg ?cls st1)"
    using escalate_step [OF inv assms(2,3), of ?cls st1] cap facts by (simp add: capability_failure_def)
  have calls: "rs_calls st1 = map (model_at cfg orig) [0..<Suc k]"
    using facts inv by (simp add: escalation_inv_def Let_def)
  show ?thesis
  proof (cases "int k + 1 < rc_max_attempts cfg")
    case True
    then have "retry_decision cfg (int k + 1) out ?cls st1 = (True, escalate cfg ?cls st1)"
      using capability_failure_retried [OF cap] tool facts by (simp add: retry_decision_def)
    then have "attempt_step cfg ev (int k + 1) st = Again (count_retry (escalate cfg ?cls st1))"
      using run canon ev by (simp add: attempt_step_def failing_env_def)
    moreover have "escalation_inv cfg orig (Suc k) (count_retry (escalate cfg ?cls st1))"
      using esc by (simp add: escalation_inv_def)
    moreover have "\<not> is_tool_node (rs_node (count_retry (escalate cfg ?cls st1)))"
      using tool facts by (simp add: escalate_def Let_def)
    ultimately show ?thesis using True by auto
  next
    case False
    then have "retry_decision cfg (int k + 1) out ?cls st1 = (False, st1)"
      by (simp add: retry_decision_def)
    then have "attempt_step cfg ev (int k + 1) st = Done (give_up cfg out st1)"
      using run canon ev by (simp add: attempt_step_def failing_env_def)
    moreover obtain o' s' where g: "give_up cfg out st1 = (o', s')" by fastforce
    ultimately show ?thesis
      using False give_up_facts(3) [OF g] calls by auto
  qed
qed

lemma escalation_schedule_loop:
  assumes "rc_chain cfg \<noteq> []" "0 \<le> rc_rbe cfg" "1 \<le> rc_max_attempts cfg" "\<And>a. failing_env (env a)"
    and "\<not> is_tool_node (rs_node st)" "rs_esc_idx st = - 1" "rs_esc_fail st = 0" "rs_calls st = []"
  shows "rs_calls (snd (attempts_loop cfg env 1 st)) =
    map (model_at cfg (node_model (rs_node st))) [0..<nat (rc_max_attempts cfg)]"
proof (rule attempts_loop_rule [where
      P = "\<lambda>a s. 1 \<le> a \<and> a \<le> rc_max_attempts cfg \<and> \<not> is_tool_node (rs_node s) \<and>
        escalation_inv cfg (node_model (rs_node st)) (nat (a - 1)) s"])
  show "1 \<le> (1 :: int) \<and> 1 \<le> rc_max_attempts cfg \<and> \<not> is_tool_node (rs_node st) \<and>
      escalation_inv cfg (node_model (rs_node st)) (nat (1 - 1)) st"
    using assms by (simp add: escalation_inv_def model_at_def)
next
  fix a s s'
  assume P: "1 \<le> a \<and> a \<le> rc_max_attempts cfg \<and> \<not> is_tool_node (rs_node s) \<and>
      escalation_inv cfg (node_model (rs_node st)) (nat (a - 1)) s"
    and step: "attempt_step cfg (env a) a s = Again s'"
  have "int (nat (a - 1)) + 1 = a" "Suc (nat (a - 1)) = nat (a + 1 - 1)" using P by auto
  then show "1 \<le> a + 1 \<and> a + 1 \<le> rc_max_attempts cfg \<and> \<not> is_tool_node (rs_node s') \<and>
      escalation_inv cfg (node_model (rs_node st)) (nat (a + 1 - 1)) s'"
    using failing_attempt [of cfg "node_model (rs_node st)" "nat (a - 1)" s "env a"] assms(1,2,4) P step
      Again_facts(1) [OF step] by auto
next
  fix a s r
  assume P: "1 \<le> a \<and> a \<le> rc_max_attempts cfg \<and> \<not> is_tool_node (rs_node s) \<and>
      escalation_inv cfg (node_model (rs_node st)) (nat (a - 1)) s"
    and step: "attempt_step cfg (env a) a s = Done r"
  have a: "int (nat (a - 1)) + 1 = a" "Suc (nat (a - 1)) = nat a" using P by auto
  then have "\<not> a < rc_max_attempts cfg"
    using failing_attempt [of cfg "node_model (rs_node st)" "nat (a - 1)" s "env a"] assms(1,2,4) P step
    by (auto split: if_splits)
  with P have "a = rc_max_attempts cfg" by simp
  with a show "rs_calls (snd r) = map (model_at cfg (node_model (rs_node st))) [0..<nat (rc_max_attempts cfg)]"
    using failing_attempt [of cfg "node_model (rs_node st)" "nat (a - 1)" s "env a"] assms(1,2,4) P step
    by auto
qed auto

section \<open>The whole stage\<close>

definition start_state :: "node \<Rightarrow> (string \<Rightarrow> int) \<Rightarrow> run_context \<Rightarrow> outcome option \<Rightarrow> retry_state" where
  "start_state n retries ctx json = \<lparr>rs_node = n, rs_retries = retries, rs_context = ctx, rs_esc_fail = 0,
     rs_esc_idx = - 1, rs_status_json = json, rs_calls = []\<rparr>"

lemma executeWithRetry_loop:
  "\<not> SkipRetry (Resolve registered (Some n)) \<Longrightarrow> executeWithRetry registered g env n retries ctx json =
    (case attempts_loop (retry_cfg_for g n) env 1 (start_state n retries ctx json) of
       (out, st) \<Rightarrow> (out, restore_model n st))"
  by (simp add: executeWithRetry_def start_state_def)

lemma start_state_sel [simp]:
  "rs_node (start_state n retries ctx json) = n" "rs_calls (start_state n retries ctx json) = []"
  "rs_esc_idx (start_state n retries ctx json) = - 1" "rs_esc_fail (start_state n retries ctx json) = 0"
  by (simp_all add: start_state_def)

section \<open>Properties\<close>


definition const_env :: "node_run \<Rightarrow> attempt_env" where
  "const_env nr = \<lparr>ae_handler = (\<lambda>n ctx. (nr, ctx)), ae_cancel = None, ae_files = (\<lambda>f. False), ae_sleep = None\<rparr>"

lemma plain_const_env: "plain_run nr \<Longrightarrow> plain_env (const_env nr)"
  by (simp add: plain_env_def const_env_def)

definition build_node :: node where
  "build_node = (NewNode ''build'')\<lparr>node_attrs := [''max_retries'' \<mapsto> ''4'', ''llm_model'' \<mapsto> ''small'',
     ''llm_provider'' \<mapsto> ''openai'', ''allow_partial'' \<mapsto> ''TRUE'', ''outputs'' \<mapsto> ''report.md'',
     ''escalation_models'' \<mapsto> ''gemini:mid, broken, Anthropic: large '']\<rparr>"

definition build_graph :: graph where
  "build_graph = (NewGraph ''g'')\<lparr>g_attrs := [''retries_before_escalation'' \<mapsto> ''1'']\<rparr>"

definition turn_limit_run :: node_run where
  "turn_limit_run = panicking_run\<lparr>nr_handler := Returned (fail_outcome ''hit the turn limit'') None\<rparr>"

lemma retried_build: "retried_stage core_types build_graph build_node"
  by (simp add: retried_stage_def) code_simp


text \<open>
  when every attempt of an LLM stage ends in a failure of capability, the attempts walk through
  the escalation chain: the model of the node for retries_before_escalation + 1 attempts, then each
  model of the chain for as many, and the last one for the rest.
\<close>

theorem escalation_schedule:
  assumes "retried_stage registered g n" and "\<not> is_tool_node n" and "\<And>a. failing_env (env a)"
    and "parseEscalationModels (node_Attr (Some n) ''escalation_models'' '''') \<noteq> []"
  shows "rs_calls (snd (executeWithRetry registered g env n retries ctx json)) =
    map (model_at (retry_cfg_for g n) (node_model n)) [0..<nat (max_retries_for g n + 1)]"
proof -
  from assms(1) have skip: "\<not> SkipRetry (Resolve registered (Some n))"
    and max: "rc_max_attempts (retry_cfg_for g n) = max_retries_for g n + 1"
    by (simp_all add: retried_stage_def retried_max_attempts)
  have "0 \<le> rc_rbe (retry_cfg_for g n)" "rc_chain (retry_cfg_for g n) \<noteq> []"
    using assms(4) by (simp_all add: retry_cfg_for_def retriesBeforeEscalation_nonneg)
  then have "rs_calls (snd (attempts_loop (retry_cfg_for g n) env 1 (start_state n retries ctx json))) =
      map (model_at (retry_cfg_for g n) (node_model n)) [0..<nat (max_retries_for g n + 1)]"
    using escalation_schedule_loop [of "retry_cfg_for g n" env "start_state n retries ctx json"]
      assms(2,3) max max_retries_range(1) [of g n] by simp
  with executeWithRetry_loop [OF skip] show ?thesis
    by (simp add: split_beta)
qed

lemma failing_turn_limit: "failing_env (const_env turn_limit_run)"
proof -
  have eq: "executeNode turn_limit_run js = executeNode turn_limit_run None" for js
    by (simp add: executeNode_def turn_limit_run_def panicking_run_def)
  have "capability_failure (fst (executeNode turn_limit_run None))" by code_simp
  then have "capability_failure (fst (executeNode turn_limit_run js))" for js by (subst eq)
  then show ?thesis by (simp add: failing_env_def const_env_def)
qed

theorem escalation_schedule_witness:
  "map pm_model (rs_calls (snd (executeWithRetry core_types build_graph (\<lambda>a. const_env turn_limit_run) build_node
      (\<lambda>i. 0) NewContext None))) = [''small'', ''small'', ''mid'', ''mid'', ''large'']"
proof -
  have "\<not> is_tool_node build_node"
    "parseEscalationModels (node_Attr (Some build_node) ''escalation_models'' '''') \<noteq> []"
    by code_simp+
  note sched = escalation_schedule [OF retried_build this(1) failing_turn_limit this(2)]
  have "map pm_model (map (model_at (retry_cfg_for build_graph build_node) (node_model build_node))
      [0..<nat (max_retries_for build_graph build_node + 1)]) = [''small'', ''small'', ''mid'', ''mid'', ''large'']"
    by code_simp
  then show ?thesis by (simp only: sched)
qed

text \<open>
  with max_retries at the largest 64-bit integer the number of attempts wraps around, and the
  stage fails without its handler having run at all.
\<close>

theorem max_retries_overflow_runs_nothing:
  assumes "\<not> SkipRetry (Resolve registered (Some n))" and "max_retries_for g n = int64_max"
  shows "case executeWithRetry registered g env n retries ctx json of (out, st) \<Rightarrow>
    out = fail_outcome ''max retries exceeded'' \<and> rs_calls st = []"
proof -
  have "rc_max_attempts (retry_cfg_for g n) = int64_min"
    using assms(2) by (simp add: retry_cfg_for_def wrap64_def int64_min_def int64_max_def)
  then have "attempts_loop (retry_cfg_for g n) env 1 (start_state n retries ctx json) =
      (fail_outcome ''max retries exceeded'', start_state n retries ctx json)"
    by (simp add: attempts_loop.simps [of _ _ 1] int64_min_def)
  with executeWithRetry_loop [OF assms(1)] show ?thesis by simp
qed

theorem max_retries_overflow_runs_nothing_witness:
  "case executeWithRetry core_types build_graph (\<lambda>a. const_env panicking_run)
      (set_attr build_node ''max_retries'' ''9223372036854775807'') (\<lambda>i. 0) NewContext None of
     (out, st) \<Rightarrow> out = fail_outcome ''max retries exceeded'' \<and> rs_calls st = []"
proof (rule max_retries_overflow_runs_nothing)
  show "\<not> SkipRetry (Resolve core_types (Some (set_attr build_node ''max_retries'' ''9223372036854775807'')))"
    "max_retries_for build_graph (set_attr build_node ''max_retries'' ''9223372036854775807'') = int64_max"
    by code_simp+
qed

text \<open>
  with allow_partial a stage that is not cancelled never reports a failure, not even one that
  would not be retried or a declared output that is missing: partial success is reported although
  attempts are left.
\<close>

theorem allow_partial_masks_failures:
  assumes "retried_stage registered g n" and "\<And>a. plain_env (env a)"
    and "\<And>a. ae_cancel (env a) = None \<and> ae_sleep (env a) = None"
    and "equal_fold (node_Attr (Some n) ''allow_partial'' ''false'') ''true''"
  shows "Status (fst (executeWithRetry registered g env n retries ctx json)) \<noteq> StatusFail"
proof -
  from assms(1) have skip: "\<not> SkipRetry (Resolve registered (Some n))"
    and max: "rc_max_attempts (retry_cfg_for g n) = max_retries_for g n + 1"
    by (simp_all add: retried_stage_def retried_max_attempts)
  let ?cfg = "retry_cfg_for g n"
  have partial: "rc_allow_partial ?cfg" using assms(4) by (simp add: retry_cfg_for_def)
  have "Status (fst (attempts_loop ?cfg env 1 (start_state n retries ctx json))) \<noteq> StatusFail"
  proof (rule attempts_loop_rule [where P = "\<lambda>a s. a \<le> rc_max_attempts ?cfg"])
    show "1 \<le> rc_max_attempts ?cfg" using max max_retries_range(1) [of g n] by simp
  next
    fix a s s'
    assume "attempt_step ?cfg (env a) a s = Again s'"
    from Again_facts(1) [OF this] show "a + 1 \<le> rc_max_attempts ?cfg" by simp
  next
    fix a s r
    assume "attempt_step ?cfg (env a) a s = Done r"
    then have "attempt_step ?cfg (env a) a s = Done (fst r, snd r)" by simp
    then show "Status (fst r) \<noteq> StatusFail"
    proof (cases rule: Done_elim)
      case (succeeded st1)
      then show ?thesis by (auto simp: success_like_def status_defs)
    next
      case (routed st1)
      then show ?thesis by (auto simp: IsCanonical_def)
    next
      case (gave_up out st1 out2 st2)
      with give_up_facts(6) [OF gave_up(5)] partial show ?thesis by (simp add: status_defs)
    qed (use assms(3) [of a] in auto)
  qed auto
  with executeWithRetry_loop [OF skip] show ?thesis by (simp add: split_beta)
qed

theorem allow_partial_masks_failures_witness:
  "Status (fst (executeWithRetry core_types build_graph (\<lambda>a. const_env panicking_run) build_node
     (\<lambda>i. 0) NewContext None)) \<noteq> StatusFail"
  using retried_build
proof (rule allow_partial_masks_failures)
  show "plain_env (const_env panicking_run)"
    by (simp add: plain_const_env plain_run_def panicking_run_def)
  show "ae_cancel (const_env panicking_run) = None \<and> ae_sleep (const_env panicking_run) = None"
    by (simp add: const_env_def)
  show "equal_fold (node_Attr (Some build_node) ''allow_partial'' ''false'') ''true''"
    by code_simp
qed

end
