(* ===== verification/LoopPrimitive.thy ===== *)
theory LoopPrimitive
  imports EdgeSelection
begin

text \<open>
  The loop primitive, \<^verbatim>\<open>internal/attractor/engine/loop.go\<close>: loop specifications on nodes,
  the termination conditions, and the step that counts an iteration and decides whether the engine
  jumps back.  The files of the workspace are given by their content; the order in which Go ranges
  over the nodes of the graph is an argument.
\<close>

section \<open>Specifications\<close>

record loop_spec =
  LoopID :: string
  BeginNode :: string
  EndNode :: string
  Count :: int
  Max :: int
  UntilFile :: string
  UntilFileContains :: string
  WhileOutcomeFail :: bool

definition hasTerminationCondition :: "loop_spec \<Rightarrow> bool" where
  "hasTerminationCondition s \<longleftrightarrow>
     Count s > 0 \<or> UntilFile s \<noteq> '''' \<or> UntilFileContains s \<noteq> '''' \<or> WhileOutcomeFail s"

definition parseLoopSpecFromNode :: "node option \<Rightarrow> loop_spec option" where
  "parseLoopSpecFromNode nd = (case nd of
      None \<Rightarrow> None
    | Some n \<Rightarrow>
        (let count = parseInt (node_Attr nd ''loop_count'' '''') 0;
             mx = parseInt (node_Attr nd ''loop_max'' '''') 0;
             untilFile = trim_space (node_Attr nd ''loop_until_file'' '''');
             untilFileContains = trim_space (node_Attr nd ''loop_until_file_contains'' '''');
             whileFail = equal_fold (trim_space (node_Attr nd ''loop_while_outcome'' '''')) ''fail'';
             loopID = trim_space (node_Attr nd ''loop_id'' '''')
         in if count = 0 \<and> mx = 0 \<and> untilFile = '''' \<and> untilFileContains = '''' \<and> \<not> whileFail \<and> loopID = ''''
            then None
            else Some \<lparr>LoopID = if loopID = '''' then node_id n else loopID, BeginNode = node_id n,
              EndNode = node_id n, Count = count, Max = mx, UntilFile = untilFile,
              UntilFileContains = untilFileContains, WhileOutcomeFail = whileFail\<rparr>))"

section \<open>Termination conditions\<close>

type_synonym workspace = "string \<Rightarrow> string option" \<comment> \<open>content by path, relative paths in the worktree\<close>

text \<open>Whether the loop goes on, a reason, and whether that reason is a failure.\<close>

definition shouldContinueLoop ::
  "workspace \<Rightarrow> loop_spec \<Rightarrow> int \<Rightarrow> stage_status \<Rightarrow> bool \<times> string \<times> bool" where
  "shouldContinueLoop ws spec iteration lastStatus =
     (if Max spec > 0 \<and> iteration \<ge> Max spec then
        (False, ''loop_max exceeded: '' @ int_to_dec (Max spec) @ '' iterations without meeting termination condition'', True)
      else if Count spec > 0 \<and> iteration \<ge> Count spec then (False, '''', False)
      else if UntilFile spec \<noteq> '''' \<and> ws (UntilFile spec) \<noteq> None then (False, '''', False)
      else if UntilFileContains spec \<noteq> '''' \<and>
          (case cut_at '':'' (UntilFileContains spec) of
             None \<Rightarrow> False
           | Some (path, pattern) \<Rightarrow>
               (case ws (trim_space path) of
                  None \<Rightarrow> False
                | Some data \<Rightarrow> contains_sub (trim_space pattern) data)) then (False, '''', False)
      else if WhileOutcomeFail spec \<and> lastStatus \<in> {''success'', ''degraded_success'', ''partial_success''}
        then (False, '''', False)
      else (True, '''', False))"

section \<open>The pair of a loop end\<close>

definition loop_id_of :: "node \<Rightarrow> string \<Rightarrow> string" where
  "loop_id_of n i = (let l = trim_space (node_Attr (Some n) ''loop_id'' '''') in if l = '''' then i else l)"

fun first_node :: "(string \<Rightarrow> node \<Rightarrow> bool) \<Rightarrow> graph \<Rightarrow> string list \<Rightarrow> node option" where
  "first_node P g [] = None"
| "first_node P g (i # is) = (case g_nodes g i of
      None \<Rightarrow> first_node P g is
    | Some n \<Rightarrow> if P i n then Some n else first_node P g is)"

definition findLoopBeginForEnd :: "string list \<Rightarrow> graph \<Rightarrow> node \<Rightarrow> node option" where
  "findLoopBeginForEnd order g endNode =
     first_node (\<lambda>i n. shapeToType (node_Shape n) = ''loop.begin'' \<and>
        loop_id_of n i = loop_id_of endNode (node_id endNode)) g order"

section \<open>One iteration\<close>

record loop_state =
  ls_context :: run_context
  ls_iterations :: "string \<rightharpoonup> int"
  ls_active :: int

datatype loop_result = LoopBack string | LoopFail string | NoLoop

definition loop_key :: "loop_spec \<Rightarrow> string" where
  "loop_key spec = ''loop.'' @ LoopID spec @ ''.iteration''"

text \<open>The counter is read back only when the context holds a Go int.\<close>

definition read_iteration :: "run_context \<Rightarrow> string \<Rightarrow> int" where
  "read_iteration c key = (case ctx_Get c key of Some (VInt n) \<Rightarrow> n | _ \<Rightarrow> 0)"

text \<open>The loop a node closes, with the node to jump back to.\<close>

definition loop_of_node :: "string list \<Rightarrow> graph \<Rightarrow> node \<Rightarrow> (loop_spec \<times> string) option" where
  "loop_of_node order g n =
     (let handlerType = shapeToType (node_Shape n) in
      if handlerType = ''loop.begin'' then None
      else (case parseLoopSpecFromNode (Some n) of
          None \<Rightarrow> None
        | Some spec \<Rightarrow>
            if \<not> hasTerminationCondition spec then None
            else if handlerType = ''loop.end'' then
              (case findLoopBeginForEnd order g n of
                 None \<Rightarrow> None
               | Some b \<Rightarrow> Some (spec\<lparr>BeginNode := node_id b, EndNode := node_id n\<rparr>, node_id b))
            else Some (spec, node_id n)))"

definition handleLoopIteration ::
  "string list \<Rightarrow> workspace \<Rightarrow> graph \<Rightarrow> node option \<Rightarrow> outcome \<Rightarrow> loop_state \<Rightarrow> loop_result \<times> loop_state" where
  "handleLoopIteration order ws g nd out ls = (case nd of
      None \<Rightarrow> (NoLoop, ls)
    | Some n \<Rightarrow> (case loop_of_node order g n of
        None \<Rightarrow> (NoLoop, ls)
      | Some (spec, jumpTo) \<Rightarrow>
          (let key = loop_key spec;
               iteration = read_iteration (ls_context ls) key + 1;
               ls1 = ls\<lparr>ls_context := ctx_Set (ls_context ls) key (VInt iteration)\<rparr>
           in case shouldContinueLoop ws spec iteration (Status out) of
                (go_on, reason, isFailure) \<Rightarrow>
                  if isFailure then (LoopFail reason, ls1)
                  else if \<not> go_on then
                    (NoLoop, ls1\<lparr>ls_context := ctx_Set (ls_context ls1) key (VInt 0),
                       ls_iterations := (ls_iterations ls1)(jumpTo := None, EndNode spec := None),
                       ls_active := 0\<rparr>)
                  else (LoopBack jumpTo, ls1\<lparr>ls_iterations := (ls_iterations ls1)(jumpTo \<mapsto> iteration),
                       ls_active := iteration + 1\<rparr>))))"

section \<open>Lemmas\<close>

text \<open>The loop steps of a run of the same node: all but the last jump back.\<close>

fun loop_run :: "string list \<Rightarrow> workspace \<Rightarrow> graph \<Rightarrow> node \<Rightarrow> outcome list \<Rightarrow> loop_state \<Rightarrow> loop_result list \<times> loop_state" where
  "loop_run order ws g n [] ls = ([], ls)"
| "loop_run order ws g n (out # outs) ls =
     (case handleLoopIteration order ws g (Some n) out ls of
        (r, ls') \<Rightarrow> (case loop_run order ws g n outs ls' of (rs, ls'') \<Rightarrow> (r # rs, ls'')))"

lemma loop_run_Cons:
  "loop_run order ws g n (out # outs) ls =
    (fst (handleLoopIteration order ws g (Some n) out ls) #
       fst (loop_run order ws g n outs (snd (handleLoopIteration order ws g (Some n) out ls))),
     snd (loop_run order ws g n outs (snd (handleLoopIteration order ws g (Some n) out ls))))"
  by (simp add: split_beta)

lemma handle_continue:
  assumes "loop_of_node order g n = Some (spec, j)"
    and "shouldContinueLoop ws spec (read_iteration (ls_context ls) (loop_key spec) + 1) (Status out) = (True, '''', False)"
  shows "fst (handleLoopIteration order ws g (Some n) out ls) = LoopBack j"
    and "read_iteration (ls_context (snd (handleLoopIteration order ws g (Some n) out ls))) (loop_key spec) =
      read_iteration (ls_context ls) (loop_key spec) + 1"
  using assms by (simp_all add: handleLoopIteration_def Let_def read_iteration_def)

lemma handle_stop:
  assumes "loop_of_node order g n = Some (spec, j)"
    and "shouldContinueLoop ws spec (read_iteration (ls_context ls) (loop_key spec) + 1) (Status out) = (False, '''', False)"
  shows "fst (handleLoopIteration order ws g (Some n) out ls) = NoLoop"
    and "read_iteration (ls_context (snd (handleLoopIteration order ws g (Some n) out ls))) (loop_key spec) = 0"
  using assms by (simp_all add: handleLoopIteration_def Let_def read_iteration_def)

definition counting_only :: "loop_spec \<Rightarrow> bool" where
  "counting_only spec \<longleftrightarrow> UntilFile spec = '''' \<and> UntilFileContains spec = '''' \<and> \<not> WhileOutcomeFail spec \<and> Count spec > 0"

lemma counting_continue:
  assumes "counting_only spec" "Max spec \<le> 0 \<or> Count spec < Max spec" "i \<le> Count spec"
  shows "shouldContinueLoop ws spec i st = (i < Count spec, '''', False)"
  using assms by (auto simp: counting_only_def shouldContinueLoop_def)

lemma loop_run_counting:
  assumes "loop_of_node order g n = Some (spec, j)" "counting_only spec" "Max spec \<le> 0 \<or> Count spec < Max spec"
    and "read_iteration (ls_context ls) (loop_key spec) + int (length outs) = Count spec" "outs \<noteq> []"
    and "0 \<le> read_iteration (ls_context ls) (loop_key spec)"
  shows "fst (loop_run order ws g n outs ls) = replicate (length outs - 1) (LoopBack j) @ [NoLoop] \<and>
    read_iteration (ls_context (snd (loop_run order ws g n outs ls))) (loop_key spec) = 0"
  using assms(4-6)
proof (induction outs arbitrary: ls)
  case Nil
  then show ?case by simp
next
  case (Cons out outs)
  let ?i = "read_iteration (ls_context ls) (loop_key spec)"
  let ?h = "handleLoopIteration order ws g (Some n) out ls"
  note cont = counting_continue [OF assms(2,3), of "?i + 1" ws "Status out"]
  show ?case
  proof (cases "outs = []")
    case True
    with Cons.prems have "shouldContinueLoop ws spec (?i + 1) (Status out) = (False, '''', False)"
      using cont by simp
    from handle_stop [OF assms(1) this] True show ?thesis
      by (simp add: split_beta)
  next
    case False
    then have "shouldContinueLoop ws spec (?i + 1) (Status out) = (True, '''', False)"
      using cont Cons.prems(1) by (cases outs) auto
    note c = handle_continue [OF assms(1) this]
    have "fst (loop_run order ws g n outs (snd ?h)) = replicate (length outs - 1) (LoopBack j) @ [NoLoop] \<and>
        read_iteration (ls_context (snd (loop_run order ws g n outs (snd ?h)))) (loop_key spec) = 0"
      using c(2) Cons.prems False by (intro Cons.IH) auto
    moreover have "LoopBack j # replicate (length outs - 1) (LoopBack j) = replicate (length outs) (LoopBack j)"
      using False by (cases outs) auto
    ultimately show ?thesis
      using c(1) by (simp add: loop_run_Cons del: loop_run.simps(2))
  qed
qed

section \<open>Properties\<close>


definition poll_node :: node where
  "poll_node = (NewNode ''poll'')\<lparr>node_attrs := [''loop_count'' \<mapsto> ''3'']\<rparr>"

definition fresh_loops :: loop_state where
  "fresh_loops = \<lparr>ls_context = NewContext, ls_iterations = Map.empty, ls_active = 0\<rparr>"

definition poll_spec :: loop_spec where
  "poll_spec = \<lparr>LoopID = ''poll'', BeginNode = ''poll'', EndNode = ''poll'', Count = 3, Max = 0,
     UntilFile = '''', UntilFileContains = '''', WhileOutcomeFail = False\<rparr>"

lemma poll_loop: "loop_of_node [] (NewGraph ''g'') poll_node = Some (poll_spec, ''poll'')"
  by code_simp


text \<open>
  loop_max bounds a loop: it jumps back only while the new count is below the ceiling.
\<close>

theorem loop_max_bounds:
  assumes "loop_of_node order g n = Some (spec, j)" and "0 < Max spec"
    and "handleLoopIteration order ws g (Some n) out ls = (LoopBack t, ls')"
  shows "t = j \<and> read_iteration (ls_context ls') (loop_key spec) < Max spec \<and>
    read_iteration (ls_context ls') (loop_key spec) = read_iteration (ls_context ls) (loop_key spec) + 1"
  using assms
  by (auto simp: handleLoopIteration_def Let_def shouldContinueLoop_def read_iteration_def split: if_splits)

definition retry_node :: node where
  "retry_node = (NewNode ''poll'')\<lparr>node_attrs := [''loop_while_outcome'' \<mapsto> ''Fail'', ''loop_max'' \<mapsto> ''5'']\<rparr>"

theorem loop_max_bounds_witness:
  "case handleLoopIteration [] (\<lambda>p. None) (NewGraph ''g'') (Some retry_node) (zero_outcome\<lparr>Status := ''fail''\<rparr>) fresh_loops of
     (r, ls') \<Rightarrow> r = LoopBack ''poll'' \<and> read_iteration (ls_context ls') ''loop.poll.iteration'' < 5"
proof -
  let ?h = "handleLoopIteration [] (\<lambda>p. None) (NewGraph ''g'') (Some retry_node) (zero_outcome\<lparr>Status := ''fail''\<rparr>) fresh_loops"
  let ?s = "poll_spec\<lparr>Count := 0, Max := 5, WhileOutcomeFail := True\<rparr>"
  have loop: "loop_of_node [] (NewGraph ''g'') retry_node = Some (?s, ''poll'')" by code_simp
  have f: "fst ?h = LoopBack ''poll''" by code_simp
  then have h: "?h = (LoopBack ''poll'', snd ?h)" by (metis prod.collapse)
  have "read_iteration (ls_context (snd ?h)) (loop_key ?s) < Max ?s"
    using loop_max_bounds [OF loop _ h] by (simp add: poll_spec_def)
  with f show ?thesis
    by (simp add: split_beta loop_key_def poll_spec_def)
qed

text \<open>
  the ceiling is tested before the conditions: a loop whose loop_count equals its loop_max fails
  with the message that no condition was met, in the very iteration that meets its count.
\<close>

theorem loop_count_at_max_fails:
  assumes "loop_of_node order g n = Some (spec, j)" and "0 < Max spec" and "Count spec = Max spec"
    and "read_iteration (ls_context ls) (loop_key spec) = Count spec - 1"
  shows "fst (handleLoopIteration order ws g (Some n) out ls) =
    LoopFail (''loop_max exceeded: '' @ int_to_dec (Max spec) @ '' iterations without meeting termination condition'')"
  using assms by (simp add: handleLoopIteration_def Let_def shouldContinueLoop_def)


definition both_node :: node where
  "both_node = (NewNode ''poll'')\<lparr>node_attrs := [''loop_count'' \<mapsto> ''1'', ''loop_max'' \<mapsto> ''1'']\<rparr>"

theorem loop_count_at_max_fails_witness:
  "fst (handleLoopIteration [] (\<lambda>p. None) (NewGraph ''g'') (Some both_node) zero_outcome fresh_loops) =
     LoopFail ''loop_max exceeded: 1 iterations without meeting termination condition''"
proof -
  let ?s = "poll_spec\<lparr>Count := 1, Max := 1\<rparr>"
  have loop: "loop_of_node [] (NewGraph ''g'') both_node = Some (?s, ''poll'')" by code_simp
  have "int_to_dec 1 = ''1''" by code_simp
  with loop_count_at_max_fails [OF loop, of fresh_loops] show ?thesis
    by (simp add: poll_spec_def fresh_loops_def read_iteration_def)
qed

end
