(* ===== verification/JoinSearch.thy ===== *)
theory JoinSearch
  imports EdgeSelection
begin

text \<open>
  The search for the node at which parallel branches converge: findJoinNode, findJoinFanInNode and
  their breadth-first searches, \<^verbatim>\<open>internal/attractor/engine/parallel_handlers.go\<close>.
  The searches are shown to compute shortest distances, and the join to be the closest common one.
\<close>

section \<open>Breadth-first search\<close>

definition succs :: "graph \<Rightarrow> string \<Rightarrow> string list" where
  "succs g x = map edge_to (Outgoing g x)"

fun enqueue :: "string list \<Rightarrow> nat \<Rightarrow> (string \<times> nat) list \<Rightarrow> string list \<Rightarrow> (string \<times> nat) list \<times> string list" where
  "enqueue [] d queue seen = (queue, seen)"
| "enqueue (y # ys) d queue seen =
     (if y \<in> set seen then enqueue ys d queue seen else enqueue ys d (queue @ [(y, d)]) (y # seen))"

text \<open>
  The loop over the queue; \<^verbatim>\<open>record\<close> says which nodes are entered in the result.  Fuel counts
  the dequeued items; running out of it is \<^verbatim>\<open>None\<close>.
\<close>

fun bfs_loop ::
  "nat \<Rightarrow> graph \<Rightarrow> (string \<Rightarrow> bool) \<Rightarrow> (string \<times> nat) list \<Rightarrow> string list \<Rightarrow> (string \<times> nat) list \<Rightarrow>
   (string \<times> nat) list option" where
  "bfs_loop fuel g rec [] seen out = Some out"
| "bfs_loop 0 g rec (it # queue) seen out = None"
| "bfs_loop (Suc fuel) g rec ((x, d) # queue) seen out =
     (let out' = (if rec x \<and> map_of out x = None then out @ [(x, d)] else out);
          (queue', seen') = enqueue (succs g x) (d + 1) queue seen
      in bfs_loop fuel g rec queue' seen' out')"

definition bfs :: "graph \<Rightarrow> (string \<Rightarrow> bool) \<Rightarrow> string \<Rightarrow> (string \<times> nat) list option" where
  "bfs g rec start = bfs_loop (length (g_edges g) + 1) g rec [(start, 0)] [start] []"

definition is_fan_in :: "graph \<Rightarrow> string \<Rightarrow> bool" where
  "is_fan_in g i = (case g_nodes g i of
      None \<Rightarrow> False | Some n \<Rightarrow> shapeToType (node_Shape n) = ''parallel.fan_in'')"

definition bfsFanInDistances :: "graph \<Rightarrow> string \<Rightarrow> (string \<times> nat) list option" where
  "bfsFanInDistances g start = bfs g (is_fan_in g) start"

definition bfsAllDistances :: "graph \<Rightarrow> string \<Rightarrow> (string \<times> nat) list option" where
  "bfsAllDistances g start = bfs g (\<lambda>x. x \<noteq> start) start"

section \<open>Distances\<close>

fun level :: "graph \<Rightarrow> string \<Rightarrow> nat \<Rightarrow> string set" where
  "level g a 0 = {a}"
| "level g a (Suc n) = (\<Union>x \<in> level g a n. set (succs g x))"

definition shortest :: "graph \<Rightarrow> string \<Rightarrow> string \<Rightarrow> nat \<Rightarrow> bool" where
  "shortest g a x d \<longleftrightarrow> x \<in> level g a d \<and> (\<forall>k < d. x \<notin> level g a k)"

lemma shortest_unique: "shortest g a x d \<Longrightarrow> shortest g a x e \<Longrightarrow> d = e"
  unfolding shortest_def by (meson linorder_neqE_nat)

lemma shortest_exists: "x \<in> level g a k \<Longrightarrow> \<exists>d \<le> k. shortest g a x d"
proof -
  assume x: "x \<in> level g a k"
  let ?d = "LEAST d. x \<in> level g a d"
  have "shortest g a x ?d"
    using LeastI [of "\<lambda>d. x \<in> level g a d", OF x] not_less_Least by (auto simp: shortest_def)
  moreover have "?d \<le> k" using x by (rule Least_le)
  ultimately show ?thesis by blast
qed

lemma shortest_pred:
  assumes "shortest g a x (Suc d)"
  shows "\<exists>w. shortest g a w d \<and> x \<in> set (succs g w)"
proof -
  from assms obtain w where w: "w \<in> level g a d" "x \<in> set (succs g w)"
    by (auto simp: shortest_def)
  have "w \<notin> level g a k" if "k < d" for k
  proof
    assume "w \<in> level g a k"
    with w(2) have "x \<in> level g a (Suc k)" by auto
    with assms that show False by (auto simp: shortest_def)
  qed
  with w show ?thesis by (auto simp: shortest_def)
qed

lemma enqueue_eq:
  "enqueue ys d queue seen =
    (queue @ map (\<lambda>y. (y, d)) (dedupe_from (set seen) ys), rev (dedupe_from (set seen) ys) @ seen)"
  by (induction ys d queue seen rule: enqueue.induct) auto

section \<open>The search computes shortest distances\<close>

text \<open>
  The invariant: \<^verbatim>\<open>past\<close> holds the dequeued items.  All items carry shortest distances, the
  seen nodes are those of the items, the successors of past nodes have been seen, and the queue
  spans at most two consecutive distances in order.
\<close>

definition bfs_inv ::
  "graph \<Rightarrow> string \<Rightarrow> (string \<times> nat) list \<Rightarrow> (string \<times> nat) list \<Rightarrow> string list \<Rightarrow> bool" where
  "bfs_inv g a past queue seen \<longleftrightarrow>
     (\<forall>(x, d) \<in> set (past @ queue). shortest g a x d) \<and>
     distinct (map fst (past @ queue)) \<and> set seen = fst ` set (past @ queue) \<and> a \<in> set seen \<and>
     (\<forall>x \<in> fst ` set past. set (succs g x) \<subseteq> set seen) \<and>
     sorted (map snd queue) \<and> (\<forall>it \<in> set queue. snd it \<le> snd (hd queue) + 1)"

lemma bfs_inv_start: "bfs_inv g a [] [(a, 0)] [a]"
  by (simp add: bfs_inv_def shortest_def)

lemma bfs_invD:
  assumes "bfs_inv g a past queue seen"
  shows bfs_inv_item: "(x, d) \<in> set past \<union> set queue \<Longrightarrow> shortest g a x d"
    and bfs_inv_seen: "z \<in> set seen \<longleftrightarrow> z \<in> fst ` set past \<or> z \<in> fst ` set queue"
    and bfs_inv_start_seen: "a \<in> set seen"
    and bfs_inv_closed: "w \<in> fst ` set past \<Longrightarrow> y \<in> set (succs g w) \<Longrightarrow> y \<in> set seen"
    and bfs_inv_head: "(x, d) \<in> set queue \<Longrightarrow> snd (hd queue) \<le> d"
proof -
  show "(x, d) \<in> set past \<union> set queue \<Longrightarrow> shortest g a x d"
    using assms by (auto simp: bfs_inv_def)
  show "z \<in> set seen \<longleftrightarrow> z \<in> fst ` set past \<or> z \<in> fst ` set queue"
    using assms by (simp add: bfs_inv_def image_Un)
  show "a \<in> set seen"
    using assms unfolding bfs_inv_def by blast
  show "w \<in> fst ` set past \<Longrightarrow> y \<in> set (succs g w) \<Longrightarrow> y \<in> set seen"
    using assms unfolding bfs_inv_def by blast
  show "(x, d) \<in> set queue \<Longrightarrow> snd (hd queue) \<le> d"
    using assms by (cases queue) (auto simp: bfs_inv_def)
qed

text \<open>Nodes closer than the head of the queue have been dequeued.\<close>

lemma bfs_inv_closer:
  assumes "bfs_inv g a past queue seen" "queue = [] \<or> k < snd (hd queue)" "shortest g a z k"
  shows "z \<in> fst ` set past"
  using assms(2,3)
proof (induction k arbitrary: z)
  case 0
  then have "z = a" by (simp add: shortest_def)
  then have "z \<in> set seen" using bfs_inv_start_seen [OF assms(1)] by simp
  moreover have "z \<notin> fst ` set queue"
  proof
    assume "z \<in> fst ` set queue"
    then obtain d where d: "(z, d) \<in> set queue" by force
    then have "shortest g a z d" using bfs_inv_item [OF assms(1)] by auto
    with 0 shortest_unique have "d = 0" by metis
    with bfs_inv_head [OF assms(1) d] 0 d show False by (cases queue) auto
  qed
  ultimately show ?case using bfs_inv_seen [OF assms(1)] by blast
next
  case (Suc k)
  obtain w where w: "shortest g a w k" "z \<in> set (succs g w)"
    using shortest_pred [OF Suc.prems(2)] by blast
  have "queue = [] \<or> k < snd (hd queue)" using Suc.prems(1) by auto
  with Suc.IH w(1) have "w \<in> fst ` set past" by blast
  with w(2) have "z \<in> set seen" using bfs_inv_closed [OF assms(1)] by blast
  moreover have "z \<notin> fst ` set queue"
  proof
    assume "z \<in> fst ` set queue"
    then obtain d where d: "(z, d) \<in> set queue" by force
    then have "shortest g a z d" using bfs_inv_item [OF assms(1)] by auto
    with Suc.prems(2) shortest_unique have "d = Suc k" by metis
    with bfs_inv_head [OF assms(1) d] Suc.prems(1) d show False by (cases queue) auto
  qed
  ultimately show ?case using bfs_inv_seen [OF assms(1)] by blast
qed

lemma bfs_inv_new:
  assumes inv: "bfs_inv g a past ((x, d) # queue) seen" and y: "y \<in> set (succs g x)" "y \<notin> set seen"
  shows "shortest g a y (Suc d)"
proof -
  have "shortest g a x d" using bfs_inv_item [OF inv] by auto
  with y(1) have "y \<in> level g a (Suc d)" by (auto simp: shortest_def)
  moreover have "y \<notin> level g a k" if "k < Suc d" for k
  proof
    assume "y \<in> level g a k"
    then obtain e where e: "e \<le> k" "shortest g a y e" using shortest_exists by blast
    show False
    proof (cases e)
      case 0
      with e(2) have "y = a" by (simp add: shortest_def)
      with bfs_inv_start_seen [OF inv] y(2) show False by simp
    next
      case (Suc j)
      with e(2) obtain w where w: "shortest g a w j" "y \<in> set (succs g w)"
        using shortest_pred by blast
      have "w \<in> fst ` set past"
        using bfs_inv_closer [OF inv _ w(1)] e(1) that Suc by simp
      with bfs_inv_closed [OF inv] w(2) y(2) show False by blast
    qed
  qed
  ultimately show ?thesis by (simp add: shortest_def)
qed

lemma bfs_inv_step:
  assumes inv: "bfs_inv g a past ((x, d) # queue) seen"
    and enq: "enqueue (succs g x) (d + 1) queue seen = (queue', seen')"
  shows "bfs_inv g a (past @ [(x, d)]) queue' seen'"
proof -
  define new where "new = dedupe_from (set seen) (succs g x)"
  have new: "set new = set (succs g x) - set seen" "distinct new"
    by (simp_all add: new_def set_dedupe_from distinct_dedupe_from)
  have q: "queue' = queue @ map (\<lambda>y. (y, Suc d)) new" and s: "seen' = rev new @ seen"
    using enq by (simp_all add: enqueue_eq new_def)
  have items: "shortest g a z k" if "(z, k) \<in> set ((past @ [(x, d)]) @ queue')" for z k
    using that bfs_inv_item [OF inv, of z k] bfs_inv_new [OF inv, of z] new(1) by (auto simp: q)
  have keys: "distinct (map fst past @ x # map fst queue)"
    using inv by (simp add: bfs_inv_def)
  have seen: "set seen = set (map fst past @ x # map fst queue)"
    using inv by (simp add: bfs_inv_def image_Un)
  have "distinct (map fst ((past @ [(x, d)]) @ queue'))"
    using keys new seen by (auto simp: q comp_def)
  moreover have "set seen' = fst ` set ((past @ [(x, d)]) @ queue')"
    by (auto simp: s q seen image_Un image_image)
  moreover have "a \<in> set seen'"
    using bfs_inv_start_seen [OF inv] by (simp add: s)
  moreover have "\<forall>z \<in> fst ` set (past @ [(x, d)]). set (succs g z) \<subseteq> set seen'"
    using bfs_inv_closed [OF inv] new(1) by (auto simp: s)
  moreover have queue_le: "\<forall>it \<in> set queue. snd it \<le> Suc d \<and> d \<le> snd it" and "sorted (map snd queue)"
    using inv by (auto simp: bfs_inv_def)
  then have "sorted (map snd queue')"
    by (auto simp: q sorted_append comp_def) (simp add: map_replicate_const)
  moreover have "\<forall>it \<in> set queue'. snd it \<le> snd (hd queue') + 1"
    using queue_le by (cases queue; cases new) (auto simp: q)
  ultimately show ?thesis
    using items unfolding bfs_inv_def by auto
qed

lemma bfs_loop_correct:
  assumes "bfs_inv g a past queue seen" "out = filter (\<lambda>it. rec (fst it)) past"
    and "bfs_loop fuel g rec queue seen out = Some res"
  shows "(map_of res x = Some d \<longleftrightarrow> rec x \<and> shortest g a x d) \<and> distinct (map fst res)"
  using assms
proof (induction fuel g rec queue seen out arbitrary: past rule: bfs_loop.induct)
  case (1 fuel g rec seen out)
  have dist: "distinct (map fst past)" using 1 by (simp add: bfs_inv_def)
  have "map_of res x = Some d \<longleftrightarrow> rec x \<and> (x, d) \<in> set past"
    using 1 map_of_eq_Some_iff [of res x d] distinct_map_filter [OF dist, of "\<lambda>it. rec (fst it)"] by auto
  also have "(x, d) \<in> set past \<longleftrightarrow> shortest g a x d"
  proof
    assume "(x, d) \<in> set past"
    then show "shortest g a x d" using bfs_inv_item [OF 1(1)] by auto
  next
    assume sh: "shortest g a x d"
    then have "x \<in> fst ` set past" using bfs_inv_closer [OF 1(1)] by blast
    then obtain e where e: "(x, e) \<in> set past" by force
    then have "shortest g a x e" using bfs_inv_item [OF 1(1)] by auto
    with e sh shortest_unique show "(x, d) \<in> set past" by metis
  qed
  finally show ?case
    using distinct_map_filter [OF dist, of "\<lambda>it. rec (fst it)"] 1 by simp
next
  case (2 g rec it queue seen out)
  then show ?case by simp
next
  case (3 fuel g rec y k queue seen out)
  obtain queue' seen' where enq: "enqueue (succs g y) (k + 1) queue seen = (queue', seen')" by fastforce
  have "y \<notin> fst ` set past" using 3(2) by (simp add: bfs_inv_def)
  then have "map_of out y = None" using 3(3) by (auto simp: map_of_eq_None_iff)
  then have "(if rec y \<and> map_of out y = None then out @ [(y, k)] else out) =
      filter (\<lambda>it. rec (fst it)) (past @ [(y, k)])"
    using 3(3) by simp
  with "3.IH" [OF refl enq [symmetric] refl bfs_inv_step [OF 3(2) enq]] 3(4) enq show ?case
    by simp
qed

text \<open>Every node is enqueued once, so the fuel of one item for each edge and one for the start is enough.\<close>

lemma bfs_inv_universe:
  assumes "wf_graph g" "bfs_inv g a past queue seen" "set (map fst (past @ queue)) \<subseteq> insert a (edge_to ` set (g_edges g))"
  shows "length past + length queue \<le> length (g_edges g) + 1"
proof -
  have "distinct (map fst (past @ queue))" using assms(2) by (simp only: bfs_inv_def)
  from distinct_card [OF this] have "length past + length queue = card (set (map fst (past @ queue)))"
    by (simp only: length_map length_append)
  also have "\<dots> \<le> card (insert a (edge_to ` set (g_edges g)))"
    using assms(3) by (intro card_mono) auto
  also have "\<dots> \<le> length (g_edges g) + 1"
    using card_image_le [of "set (g_edges g)" edge_to] card_length [of "g_edges g"]
    by (simp add: card_insert_if)
  finally show ?thesis .
qed

lemma succs_targets: "wf_graph g \<Longrightarrow> set (succs g x) \<subseteq> edge_to ` set (g_edges g)"
  by (auto simp: succs_def Outgoing_filter)

lemma bfs_loop_enough:
  assumes "wf_graph g" "bfs_inv g a past queue seen"
    "set (map fst (past @ queue)) \<subseteq> insert a (edge_to ` set (g_edges g))"
    "length (g_edges g) + 1 \<le> fuel + length past"
  shows "\<exists>res. bfs_loop fuel g rec queue seen out = Some res"
  using assms
proof (induction fuel g rec queue seen out arbitrary: past rule: bfs_loop.induct)
  case (2 g rec it queue seen out)
  with bfs_inv_universe [OF 2(1,2,3)] show ?case by simp
next
  case (3 fuel g rec y k queue seen out)
  obtain queue' seen' where enq: "enqueue (succs g y) (k + 1) queue seen = (queue', seen')" by fastforce
  have inv: "bfs_inv g a (past @ [(y, k)]) queue' seen'"
    by (rule bfs_inv_step [OF 3(3) enq])
  have "set (map fst ((past @ [(y, k)]) @ queue')) \<subseteq> set (map fst (past @ (y, k) # queue)) \<union> set (succs g y)"
    using enq by (auto simp: enqueue_eq set_dedupe_from)
  then have "set (map fst ((past @ [(y, k)]) @ queue')) \<subseteq> insert a (edge_to ` set (g_edges g))"
    using 3(4) succs_targets [OF 3(2), of y] by blast
  with "3.IH" [OF refl enq [symmetric] refl 3(2) inv] 3(5) enq show ?case by simp
qed auto

lemma bfs_total:
  assumes "wf_graph g"
  shows "\<exists>res. bfs g rec a = Some res \<and> distinct (map fst res) \<and>
    (\<forall>x d. map_of res x = Some d \<longleftrightarrow> rec x \<and> shortest g a x d)"
proof -
  obtain res where res: "bfs g rec a = Some res"
    using bfs_loop_enough [OF assms bfs_inv_start, of a "length (g_edges g) + 1" rec "[]"]
    by (auto simp: bfs_def)
  then show ?thesis
    using bfs_loop_correct [OF bfs_inv_start, of "[]" rec "length (g_edges g) + 1" g a res]
    by (auto simp: bfs_def)
qed

section \<open>Candidates\<close>

text \<open>The join of several branches: nodes entered in every result, with the largest and the total distance.\<close>

record join_cand =
  cand_id :: string
  cand_max :: nat
  cand_sum :: nat

fun extend_cand :: "(string \<times> nat) list list \<Rightarrow> join_cand \<Rightarrow> join_cand option" where
  "extend_cand [] c = Some c"
| "extend_cand (r # rs) c = (case map_of r (cand_id c) of
      None \<Rightarrow> None
    | Some d \<Rightarrow> extend_cand rs (c\<lparr>cand_sum := cand_sum c + d,
        cand_max := if d > cand_max c then d else cand_max c\<rparr>))"

definition cand_less :: "join_cand \<Rightarrow> join_cand \<Rightarrow> bool" where
  "cand_less i j =
     (if cand_max i \<noteq> cand_max j then cand_max i < cand_max j
      else if cand_sum i \<noteq> cand_sum j then cand_sum i < cand_sum j
      else cand_id i < cand_id j)"

text \<open>The order in which Go ranges over the first result is that of its list here.\<close>

definition join_cands :: "(string \<times> nat) list list \<Rightarrow> join_cand list" where
  "join_cands reachable = (case reachable of
      [] \<Rightarrow> []
    | r0 # rs \<Rightarrow> List.map_filter (\<lambda>(i, d). extend_cand rs \<lparr>cand_id = i, cand_max = d, cand_sum = d\<rparr>) r0)"

definition closest_cand :: "(string \<times> nat) list list \<Rightarrow> string option" where
  "closest_cand reachable = (case slice_stable cand_less (join_cands reachable) of
      [] \<Rightarrow> None | c # _ \<Rightarrow> Some (cand_id c))"

datatype join_error = NoBranches | NoConvergence | OutOfFuel

fun all_some :: "'a option list \<Rightarrow> 'a list option" where
  "all_some [] = Some []"
| "all_some (None # xs) = None"
| "all_some (Some x # xs) = (case all_some xs of None \<Rightarrow> None | Some ys \<Rightarrow> Some (x # ys))"

definition find_join_by :: "(string \<Rightarrow> (string \<times> nat) list option) \<Rightarrow> edge list \<Rightarrow> join_error + string" where
  "find_join_by search branches =
     (if branches = [] then Inl NoBranches
      else (case all_some (map (\<lambda>e. search (edge_to e)) branches) of
          None \<Rightarrow> Inl OutOfFuel
        | Some reachable \<Rightarrow> (case closest_cand reachable of
            None \<Rightarrow> Inl NoConvergence | Some i \<Rightarrow> Inr i)))"

definition findJoinFanInNode :: "graph \<Rightarrow> edge list \<Rightarrow> join_error + string" where
  "findJoinFanInNode g branches = find_join_by (bfsFanInDistances g) branches"

definition findJoinNode :: "graph \<Rightarrow> edge list \<Rightarrow> join_error + string" where
  "findJoinNode g branches =
     (if branches = [] then Inl NoBranches
      else (case findJoinFanInNode g branches of
          Inr i \<Rightarrow> if i \<noteq> '''' then Inr i else find_join_by (bfsAllDistances g) branches
        | Inl _ \<Rightarrow> find_join_by (bfsAllDistances g) branches))"

text \<open>Whether the join merges the branches itself.\<close>

definition classifyJoinMergeMode :: "graph \<Rightarrow> string \<Rightarrow> string" where
  "classifyJoinMergeMode g join = (case g_nodes g (trim_space join) of
      None \<Rightarrow> ''manual_box_fan_in''
    | Some n \<Rightarrow> (let t0 = trim_space (node_TypeOverride n);
                    t = (if t0 = '''' then shapeToType (node_Shape n) else t0)
                in if t = ''parallel.fan_in'' then ''fan_in_handler'' else ''manual_box_fan_in''))"

section \<open>The join is the closest common node\<close>

definition cand_key :: "join_cand \<Rightarrow> nat \<times> nat \<times> string" where
  "cand_key c = (cand_max c, cand_sum c, cand_id c)"

lemma sort_cands: "slice_stable cand_less cs = sort_key cand_key cs"
  by (rule slice_stable_sort_key) (auto simp: cand_less_def cand_key_def)

lemma all_some_iff: "all_some xs = Some ys \<longleftrightarrow> xs = map Some ys"
proof (induction xs arbitrary: ys rule: all_some.induct)
  case (3 x xs)
  have "all_some (Some x # xs) = Some ys \<longleftrightarrow> (\<exists>zs. all_some xs = Some zs \<and> ys = x # zs)"
    by (auto split: option.splits)
  also have "\<dots> \<longleftrightarrow> (\<exists>zs. xs = map Some zs \<and> ys = x # zs)"
    by (simp only: 3)
  also have "\<dots> \<longleftrightarrow> Some x # xs = map Some ys"
    by (auto simp: Cons_eq_map_conv)
  finally show ?case .
qed auto

lemma extend_cand_iff:
  "extend_cand rs c = Some c' \<longleftrightarrow> (\<exists>ds. list_all2 (\<lambda>r d. map_of r (cand_id c) = Some d) rs ds \<and>
     c' = c\<lparr>cand_sum := cand_sum c + sum_list ds, cand_max := foldl max (cand_max c) ds\<rparr>)"
proof (induction rs arbitrary: c)
  case Nil
  then show ?case by auto
next
  case (Cons r rs)
  show ?case
  proof (cases "map_of r (cand_id c)")
    case None
    then show ?thesis by (auto simp: list_all2_Cons1)
  next
    case (Some d)
    have "(if cand_max c < d then d else cand_max c) = max (cand_max c) d" by (simp add: max_def)
    with Some Cons.IH show ?thesis
      by (force simp: list_all2_Cons1 add.assoc)
  qed
qed

text \<open>The distances of one node from all branches.\<close>

definition distances :: "graph \<Rightarrow> edge list \<Rightarrow> string \<Rightarrow> nat list \<Rightarrow> bool" where
  "distances g branches j ds \<longleftrightarrow> list_all2 (\<lambda>e d. shortest g (edge_to e) j d) branches ds"

lemma distances_unique: "distances g bs j ds \<Longrightarrow> distances g bs j ds' \<Longrightarrow> ds = ds'"
  unfolding distances_def
proof (induction bs arbitrary: ds ds')
  case (Cons b bs)
  then show ?case by (auto simp: list_all2_Cons1 dest: shortest_unique)
qed auto

lemma list_all2_conj_left:
  "xs \<noteq> [] \<Longrightarrow> list_all2 (\<lambda>x y. P \<and> Q x y) xs ys \<longleftrightarrow> P \<and> list_all2 Q xs ys"
  by (cases xs) (auto simp: list_all2_Cons1 list_all2_conv_all_nth)

lemma foldl_max_Max: "foldl max (d :: nat) ds = Max (set (d # ds))"
proof -
  have "(\<lambda>x s. max s x) = (max :: nat \<Rightarrow> nat \<Rightarrow> nat)" by (simp add: fun_eq_iff max.commute)
  then show ?thesis unfolding Max.set_eq_fold foldl_conv_fold by simp
qed

text \<open>The candidates are the nodes entered by the search from every branch, with their distances.\<close>

lemma join_cands_iff:
  assumes "wf_graph g" "branches \<noteq> []"
    and search: "\<And>e. e \<in> set branches \<Longrightarrow> search (edge_to e) = bfs g (rec (edge_to e)) (edge_to e)"
  obtains reachable where "all_some (map (\<lambda>e. search (edge_to e)) branches) = Some reachable"
    and "\<And>c. c \<in> set (join_cands reachable) \<longleftrightarrow>
      (\<exists>ds. distances g branches (cand_id c) ds \<and> (\<forall>e \<in> set branches. rec (edge_to e) (cand_id c)) \<and>
        cand_max c = Max (set ds) \<and> cand_sum c = sum_list ds)"
proof -
  define reach :: "edge \<Rightarrow> (string \<times> nat) list" where "reach e = the (bfs g (rec (edge_to e)) (edge_to e))" for e
  have reach: "bfs g (rec (edge_to e)) (edge_to e) = Some (reach e)" "distinct (map fst (reach e))"
    "map_of (reach e) x = Some d \<longleftrightarrow> rec (edge_to e) x \<and> shortest g (edge_to e) x d" for e x d
    using bfs_total [OF assms(1), of "rec (edge_to e)" "edge_to e"] by (auto simp: reach_def)
  have all: "all_some (map (\<lambda>e. search (edge_to e)) branches) = Some (map reach branches)"
    unfolding all_some_iff using search reach(1) by simp
  obtain b bs where b: "branches = b # bs" using assms(2) by (cases branches) auto
  have rest: "list_all2 (\<lambda>r d. map_of r i = Some d) (map reach bs) ds \<longleftrightarrow>
      list_all2 (\<lambda>e d. shortest g (edge_to e) i d) bs ds \<and> (\<forall>e \<in> set bs. rec (edge_to e) i)" for i ds
    by (induction bs arbitrary: ds) (auto simp: list_all2_Cons1 reach(3))
  have "c \<in> set (join_cands (map reach branches)) \<longleftrightarrow>
      (\<exists>ds. distances g branches (cand_id c) ds \<and> (\<forall>e \<in> set branches. rec (edge_to e) (cand_id c)) \<and>
        cand_max c = Max (set ds) \<and> cand_sum c = sum_list ds)" for c :: join_cand
  proof -
    have "c \<in> set (join_cands (map reach branches)) \<longleftrightarrow>
        (\<exists>i d. map_of (reach b) i = Some d \<and>
          extend_cand (map reach bs) \<lparr>cand_id = i, cand_max = d, cand_sum = d\<rparr> = Some c)"
      using map_of_eq_Some_iff [OF reach(2) [of b]]
      by (force simp: b join_cands_def List.map_filter_def)
    also have "\<dots> \<longleftrightarrow> (\<exists>d ds. map_of (reach b) (cand_id c) = Some d \<and>
        list_all2 (\<lambda>r d. map_of r (cand_id c) = Some d) (map reach bs) ds \<and>
        cand_max c = foldl max d ds \<and> cand_sum c = d + sum_list ds)"
      unfolding extend_cand_iff by (cases c) fastforce
    also have "\<dots> \<longleftrightarrow> (\<exists>ds. distances g branches (cand_id c) ds \<and>
        (\<forall>e \<in> set branches. rec (edge_to e) (cand_id c)) \<and> cand_max c = Max (set ds) \<and> cand_sum c = sum_list ds)"
      unfolding rest reach(3) distances_def b list_all2_Cons1 foldl_max_Max by fastforce
    finally show ?thesis .
  qed
  with all show thesis by (rule that)
qed

definition first_cand :: "(string \<times> nat) list list \<Rightarrow> join_cand option" where
  "first_cand reachable = (case slice_stable cand_less (join_cands reachable) of
      [] \<Rightarrow> None | c # _ \<Rightarrow> Some c)"

interpretation join: ranked_choice join_cands "\<lambda>_. cand_key" first_cand
proof unfold_locales
  fix r :: "(string \<times> nat) list list"
  have "sort_key cand_key (join_cands r) = [] \<longleftrightarrow> join_cands r = []"
    by (metis length_0_conv length_sort)
  then show "first_cand r = None \<longleftrightarrow> join_cands r = []"
    by (auto simp: first_cand_def sort_cands split: list.splits)
  show "c \<in> set (join_cands r) \<and> (\<forall>c' \<in> set (join_cands r). cand_key c \<le> cand_key c')"
    if "first_cand r = Some c" for c
  proof -
    from that obtain cs where cs: "sort_key cand_key (join_cands r) = c # cs"
      by (auto simp: first_cand_def sort_cands split: list.splits)
    then have "set (c # cs) = set (join_cands r)" by (metis set_sort)
    moreover have "sorted (map cand_key (c # cs))" by (metis cs sorted_sort_key)
    ultimately show ?thesis by auto
  qed
qed

lemma closest_cand_first: "closest_cand r = map_option cand_id (first_cand r)"
  by (simp add: closest_cand_def first_cand_def split: list.splits)

text \<open>The common nodes with a property, and the closest of them.\<close>

definition common_node :: "graph \<Rightarrow> edge list \<Rightarrow> (string \<Rightarrow> bool) \<Rightarrow> string \<Rightarrow> bool" where
  "common_node g branches P j \<longleftrightarrow> P j \<and> (\<exists>ds. distances g branches j ds)"

definition closest_common :: "graph \<Rightarrow> edge list \<Rightarrow> (string \<Rightarrow> bool) \<Rightarrow> string \<Rightarrow> bool" where
  "closest_common g branches P j \<longleftrightarrow> P j \<and> (\<exists>ds. distances g branches j ds \<and>
     (\<forall>j' ds'. P j' \<and> distances g branches j' ds' \<longrightarrow>
        (Max (set ds), sum_list ds, j) \<le> (Max (set ds'), sum_list ds', j')))"

lemma find_join_by_closest:
  assumes "wf_graph g" "branches \<noteq> []"
    and search: "\<And>e. e \<in> set branches \<Longrightarrow> search (edge_to e) = bfs g (rec (edge_to e)) (edge_to e)"
    and P: "\<And>j. P j \<longleftrightarrow> (\<forall>e \<in> set branches. rec (edge_to e) j)"
  shows "case find_join_by search branches of
      Inr j \<Rightarrow> closest_common g branches P j
    | Inl e \<Rightarrow> e = NoConvergence \<and> (\<forall>j. \<not> common_node g branches P j)"
proof -
  obtain reachable where all: "all_some (map (\<lambda>e. search (edge_to e)) branches) = Some reachable"
    and cands: "\<And>c. c \<in> set (join_cands reachable) \<longleftrightarrow>
      (\<exists>ds. distances g branches (cand_id c) ds \<and> P (cand_id c) \<and>
        cand_max c = Max (set ds) \<and> cand_sum c = sum_list ds)"
    using join_cands_iff [OF assms(1,2), of search rec] search unfolding P by metis
  have mk: "\<lparr>cand_id = j, cand_max = Max (set ds), cand_sum = sum_list ds\<rparr> \<in> set (join_cands reachable)"
    if "distances g branches j ds" "P j" for j ds
    using that by (auto simp: cands)
  show ?thesis
  proof (cases "first_cand reachable")
    case None
    then have "join_cands reachable = []" by (simp add: join.pick_None)
    with mk have "\<forall>j. \<not> common_node g branches P j"
      by (metis common_node_def empty_iff empty_set)
    with None show ?thesis
      using all assms(2) by (simp add: find_join_by_def closest_cand_first)
  next
    case (Some c)
    from join.pick_least [OF Some] obtain ds where ds: "distances g branches (cand_id c) ds" "P (cand_id c)"
        "cand_max c = Max (set ds)" "cand_sum c = sum_list ds"
      and least: "\<forall>c' \<in> set (join_cands reachable). cand_key c \<le> cand_key c'"
      by (auto simp: cands)
    have "(Max (set ds), sum_list ds, cand_id c) \<le> (Max (set ds'), sum_list ds', j')"
      if "P j' \<and> distances g branches j' ds'" for j' ds'
    proof -
      from that mk have "\<lparr>cand_id = j', cand_max = Max (set ds'), cand_sum = sum_list ds'\<rparr> \<in> set (join_cands reachable)"
        by blast
      with least ds show ?thesis by (auto simp: cand_key_def)
    qed
    with ds have "closest_common g branches P (cand_id c)"
      unfolding closest_common_def by blast
    with Some show ?thesis
      using all assms(2) by (simp add: find_join_by_def closest_cand_first)
  qed
qed

lemma closest_is_common: "closest_common g bs P j \<Longrightarrow> common_node g bs P j"
  by (auto simp: closest_common_def common_node_def)

lemma fan_in_search:
  assumes "wf_graph g" "branches \<noteq> []"
  shows "case findJoinFanInNode g branches of
      Inr j \<Rightarrow> closest_common g branches (is_fan_in g) j
    | Inl e \<Rightarrow> e = NoConvergence \<and> (\<forall>j. \<not> common_node g branches (is_fan_in g) j)"
  unfolding findJoinFanInNode_def
proof (rule find_join_by_closest [OF assms])
  show "bfsFanInDistances g (edge_to e) = bfs g (is_fan_in g) (edge_to e)" for e :: edge
    by (simp add: bfsFanInDistances_def)
  obtain b where "b \<in> set branches" using assms(2) by (cases branches) auto
  then show "is_fan_in g j = (\<forall>e \<in> set branches. is_fan_in g j)" for j by auto
qed

lemma all_nodes_search:
  assumes "wf_graph g" "branches \<noteq> []"
  shows "case find_join_by (bfsAllDistances g) branches of
      Inr j \<Rightarrow> closest_common g branches (\<lambda>j. \<forall>e \<in> set branches. j \<noteq> edge_to e) j
    | Inl e \<Rightarrow> e = NoConvergence \<and> (\<forall>j. \<not> common_node g branches (\<lambda>j. \<forall>e \<in> set branches. j \<noteq> edge_to e) j)"
  by (rule find_join_by_closest [OF assms, of "bfsAllDistances g" "\<lambda>a x. x \<noteq> a"]) (simp_all add: bfsAllDistances_def)

text \<open>A join is reached from every branch.\<close>

lemma findJoinNode_common:
  assumes "wf_graph g" "findJoinNode g branches = Inr j"
  shows "branches \<noteq> []" "\<exists>ds. distances g branches j ds"
proof -
  show ne: "branches \<noteq> []" using assms(2) by (auto simp: findJoinNode_def)
  have "findJoinFanInNode g branches = Inr j \<or> find_join_by (bfsAllDistances g) branches = Inr j"
    using assms(2) by (auto simp: findJoinNode_def split: sum.splits if_splits)
  then show "\<exists>ds. distances g branches j ds"
    using fan_in_search [OF assms(1) ne] all_nodes_search [OF assms(1) ne] by (auto simp: closest_common_def)
qed

section \<open>Properties\<close>

text \<open>
  C6: the join of parallel branches is the closest node that all of them reach: an explicit fan-in
  node when there is one, else a node that does not start a branch, with the least maximal distance,
  then the least total distance, then the least name; the search fails only when there is neither.
\<close>

theorem findJoinNode_closest:
  assumes "built_graph g" and "branches \<noteq> []"
  shows "let other = (\<lambda>j. \<forall>e \<in> set branches. j \<noteq> edge_to e) in
    case findJoinNode g branches of
      Inr j \<Rightarrow> if \<exists>i. common_node g branches (is_fan_in g) i then closest_common g branches (is_fan_in g) j
        else closest_common g branches other j
    | Inl err \<Rightarrow> err = NoConvergence \<and>
        (\<forall>i. \<not> common_node g branches (is_fan_in g) i \<and> \<not> common_node g branches other i)"
proof -
  have wf: "wf_graph g" using assms(1) by (rule built_wf)
  let ?other = "\<lambda>j. \<forall>e \<in> set branches. j \<noteq> edge_to e"
  note fan' = fan_in_search [OF wf assms(2)]
  note all' = all_nodes_search [OF wf assms(2)]
  have named: "i \<noteq> ''''" if "is_fan_in g i" for i
    using that wf by (auto simp: is_fan_in_def wf_graph_def)
  show ?thesis
  proof (cases "findJoinFanInNode g branches")
    case (Inl err)
    with fan' all' assms(2) show ?thesis
      by (auto simp: findJoinNode_def Let_def split: sum.splits)
  next
    case (Inr i)
    with fan' have cc: "closest_common g branches (is_fan_in g) i" by simp
    then have "i \<noteq> ''''" using named by (auto simp: closest_common_def)
    with Inr cc assms(2) closest_is_common [OF cc] show ?thesis
      by (auto simp: findJoinNode_def Let_def)
  qed
qed

definition diamond_graph :: graph where
  "diamond_graph = add_edges
     [NewEdge ''p'' ''a'', NewEdge ''p'' ''b'', NewEdge ''a'' ''m'', NewEdge ''b'' ''m'']
     (add_nodes [(NewNode ''m'')\<lparr>node_attrs := [''shape'' \<mapsto> ''tripleoctagon'']\<rparr>] (NewGraph ''g''))"

theorem findJoinNode_closest_witness:
  "findJoinNode diamond_graph (Outgoing diamond_graph ''p'') = Inr ''m'' \<and>
   closest_common diamond_graph (Outgoing diamond_graph ''p'') (is_fan_in diamond_graph) ''m''"
proof -
  let ?bs = "Outgoing diamond_graph ''p''"
  have built: "built_graph diamond_graph"
    by (simp add: diamond_graph_def built_add_edges built_add_nodes built_graph.new)
  have ne: "?bs \<noteq> []" by code_simp
  have f: "findJoinFanInNode diamond_graph ?bs = Inr ''m''" by code_simp
  with ne have j: "findJoinNode diamond_graph ?bs = Inr ''m''" by (simp add: findJoinNode_def)
  have "common_node diamond_graph ?bs (is_fan_in diamond_graph) ''m''"
    using fan_in_search [OF built_wf [OF built] ne] f closest_is_common by simp
  with findJoinNode_closest [OF built ne] j show ?thesis
    by (auto simp: Let_def split: if_splits)
qed

end
