(* ===== verification/RunLoop.thy ===== *)
theory RunLoop
  imports StageRetry LoopPrimitive JoinSearch
begin

text \<open>
  The main loop of a run, \<^verbatim>\<open>runLoop\<close> and \<^verbatim>\<open>loopRestart\<close> of
  \<^verbatim>\<open>internal/attractor/engine/engine.go\<close>, as a function from the state of the engine to its
  next state or the end of the run, and the run as its iteration.

  What the environment contributes to one pass of the loop is the record
  \<^verbatim>\<open>step_env\<close>: cancellation of the run, the attempts of the stage (see StageRetry), errors of
  the checkpoint, of the restart's file operations and of the run database, the results of parallel
  branches, what a concurrent region leaves behind, the files of the workspace, and the order in
  which Go ranges over maps.  Not modelled: progress events, the run log, the run and context
  databases, git, fidelity and threads, and the content of the failure dossier.
\<close>

section \<open>State and results\<close>

record run_state =
  r_current :: string
  r_completed :: "string list"
  r_retries :: "string \<Rightarrow> int"
  r_outcomes :: "string \<rightharpoonup> outcome"
  r_visits :: "string \<Rightarrow> int"
  r_context :: run_context
  r_incoming :: "edge option"
  r_loop_sigs :: "string \<Rightarrow> int"
  r_restart_sigs :: "string \<Rightarrow> int"
  r_restart_count :: int
  r_iterations :: "string \<rightharpoonup> int"
  r_active :: int
  r_calls :: nat \<comment> \<open>stages executed so far\<close>

record run_cfg =
  rc_run_graph :: graph
  rc_registered :: "string list"
  rc_base_logs_root :: string
  rc_base_sha :: string

record region_result =
  rg_completed :: "string list"
  rg_retries :: "string \<Rightarrow> int"
  rg_outcomes :: "string \<rightharpoonup> outcome"
  rg_context :: run_context
  rg_error :: "string option"

record step_env =
  se_cancel :: "string option"
  se_attempts :: "int \<Rightarrow> attempt_env"
  se_prior_json :: "outcome option"
  se_exit_run :: node_run
  se_cancel_after :: "string option"
  se_dossier :: "goval list"
  se_checkpoint_error :: "string option"
  se_region :: region_result
  se_branches :: "string + goval"
  se_completed_error :: "string option"
  se_restart_error :: "string option"
  se_order :: "string list"
  se_files :: workspace

datatype run_error =
    RunCancelled string
  | MissingNode string
  | StuckCycle string int
  | GoalGateUnsatisfied string
  | ExitHandlerError string
  | CheckpointError string
  | DeterministicCycle string int
  | RegionFailed string
  | LoopFailed string
  | ParallelWithoutJoin
  | BranchesFailed string
  | ConditionError cond_error
  | StageFailed string
  | CompletionError string
  | RestartWithoutBase
  | RestartBlocked failure_class string
  | RestartCircuitBreaker string int
  | RestartLimit int int
  | RestartIOError string

datatype run_result = RunSuccess | RunFailed run_error

datatype step_result = Goto run_state | Stop run_result run_state

section \<open>Terminal nodes, goal gates, the start\<close>

definition isTerminal :: "node option \<Rightarrow> bool" where
  "isTerminal nd = (case nd of
      None \<Rightarrow> False
    | Some n \<Rightarrow> node_Shape n = ''Msquare'' \<or> node_Shape n = ''doublecircle'' \<or>
        equal_fold (node_id n) ''exit'' \<or> equal_fold (node_id n) ''end'')"

definition gate_satisfied :: "outcome \<Rightarrow> bool" where
  "gate_satisfied out \<longleftrightarrow>
     Status out = StatusSuccess \<or> Status out = StatusDegradedSuccess \<or> Status out = StatusPartialSuccess"

definition is_goal_gate :: "node \<Rightarrow> bool" where
  "is_goal_gate n \<longleftrightarrow> equal_fold (node_Attr (Some n) ''goal_gate'' ''false'') ''true''"

text \<open>The first goal gate, in the order of the map, whose outcome does not satisfy it.\<close>

definition checkGoalGates :: "string list \<Rightarrow> graph \<Rightarrow> (string \<rightharpoonup> outcome) \<Rightarrow> bool \<times> string" where
  "checkGoalGates order g outcomes =
     (case find (\<lambda>i. case outcomes i of None \<Rightarrow> False | Some out \<Rightarrow>
         (case g_nodes g i of None \<Rightarrow> False | Some n \<Rightarrow> is_goal_gate n \<and> \<not> gate_satisfied out)) order of
        Some i \<Rightarrow> (False, i)
      | None \<Rightarrow> (True, ''''))"

definition findStartNodeID :: "string list \<Rightarrow> graph \<Rightarrow> string" where
  "findStartNodeID order g =
     (case find (\<lambda>i. case g_nodes g i of None \<Rightarrow> False | Some n \<Rightarrow> node_Shape n \<in> {''Mdiamond'', ''circle''}) order of
        Some i \<Rightarrow> i
      | None \<Rightarrow> (case find (\<lambda>i. g_nodes g i \<noteq> None \<and> equal_fold i ''start'') order of
          Some i \<Rightarrow> i | None \<Rightarrow> ''''))"

section \<open>Restarting the loop\<close>

definition snapshotPersistKeys :: "graph \<Rightarrow> run_context \<Rightarrow> (string \<rightharpoonup> goval)" where
  "snapshotPersistKeys g ctx = fold (\<lambda>key m. case ctx_Get ctx key of None \<Rightarrow> m | Some v \<Rightarrow> m(key \<mapsto> v))
     (loopRestartPersistKeyNames (Some g)) Map.empty"

text \<open>The context of the next iteration: graph attributes, kept keys, and the restart counters.\<close>

definition restart_context :: "run_cfg \<Rightarrow> run_context \<Rightarrow> int \<Rightarrow> string \<Rightarrow> run_context" where
  "restart_context cfg ctx count fromNode =
     (let g = rc_run_graph cfg;
          attrs = (\<lambda>k. if has_prefix ''graph.'' k then map_option VStr (g_attrs g (drop 6 k)) else None);
          c1 = NewContext\<lparr>ctx_values := attrs\<rparr>;
          c2 = ctx_Set c1 ''graph.goal'' (VStr (graph_attr g ''goal''));
          c3 = ctx_Set c2 ''base_sha'' (VStr (rc_base_sha cfg));
          c4 = ctx_ApplyUpdates c3 (Some (snapshotPersistKeys g ctx));
          c5 = ctx_Set c4 ''loop_restart.iteration_count'' (VInt count)
      in ctx_Set c5 ''loop_restart.from_node'' (VStr fromNode))"

definition maxRestarts :: "graph \<Rightarrow> int" where
  "maxRestarts g = parseInt (graph_attr g ''max_restarts'') 50"

text \<open>The circuit breaker for failures that restart the loop.\<close>

definition restart_guard ::
  "run_cfg \<Rightarrow> string \<Rightarrow> outcome \<Rightarrow> failure_class \<Rightarrow> run_state \<Rightarrow> run_error option \<times> run_state" where
  "restart_guard cfg fromNode out failureClass st =
     (if \<not> isFailureLoopRestartOutcome out then (None, st)
      else if \<not> equal_fold (trim_space failureClass) failureClassTransientInfra then
        (Some (RestartBlocked (normalizedFailureClassOrDefault failureClass) (trim_space (FailureReason out))), st)
      else (let signature = restartFailureSignature fromNode out failureClass in
            if signature = '''' then (None, st)
            else (let count = r_restart_sigs st signature + 1;
                      st1 = st\<lparr>r_restart_sigs := (r_restart_sigs st)(signature := count)\<rparr>
                  in if count \<ge> loopRestartSignatureLimit (Some (rc_run_graph cfg))
                     then (Some (RestartCircuitBreaker signature count), st1) else (None, st1))))"

definition loopRestart ::
  "run_cfg \<Rightarrow> step_env \<Rightarrow> string \<Rightarrow> string \<Rightarrow> outcome \<Rightarrow> failure_class \<Rightarrow> run_state \<Rightarrow> step_result" where
  "loopRestart cfg ev target fromNode out failureClass st =
     (if trim_space (rc_base_logs_root cfg) = '''' then Stop (RunFailed RestartWithoutBase) st
      else (case restart_guard cfg fromNode out failureClass st of
          (Some err, st1) \<Rightarrow> Stop (RunFailed err) st1
        | (None, st1) \<Rightarrow>
            (let count = r_restart_count st1 + 1; st2 = st1\<lparr>r_restart_count := count\<rparr> in
             if count > maxRestarts (rc_run_graph cfg) then
               Stop (RunFailed (RestartLimit count (maxRestarts (rc_run_graph cfg)))) st2
             else (case se_restart_error ev of
                 Some err \<Rightarrow> Stop (RunFailed (RestartIOError err)) st2
               | None \<Rightarrow> Goto (st2\<lparr>r_context := restart_context cfg (r_context st2) count fromNode,
                   r_incoming := None, r_current := target, r_completed := [], r_retries := (\<lambda>_. 0),
                   r_outcomes := Map.empty, r_visits := (\<lambda>_. 0)\<rparr>)))))"

section \<open>One pass of the loop\<close>

text \<open>Counting the visit and setting the built-in context keys.\<close>

definition visit :: "run_state \<Rightarrow> run_state" where
  "visit st = st\<lparr>r_visits := (r_visits st)(r_current st := r_visits st (r_current st) + 1)\<rparr>"

definition prepare_context :: "run_state \<Rightarrow> run_context" where
  "prepare_context st =
     (let completed = r_completed st;
          prev = (if completed = [] then '''' else last completed);
          prevOutcome = (if prev = '''' then '''' else
             (case r_outcomes st prev of Some out \<Rightarrow> Status out | None \<Rightarrow> ''''));
          c1 = ctx_Set (r_context st) ''previous_node'' (VStr prev);
          c2 = ctx_Set c1 ''previous_outcome'' (VStr prevOutcome);
          c3 = ctx_Set c2 ''current_node'' (VStr (r_current st));
          c4 = ctx_Set c3 ''completed_nodes'' (VList (map VStr completed))
      in ctx_Set c4 (''internal.retry_count.'' @ r_current st) (VInt (r_retries st (r_current st))))"

text \<open>A terminal node: goal gates, the exit handler as the last stage, the end of the run.\<close>

definition terminal_step :: "run_cfg \<Rightarrow> step_env \<Rightarrow> node \<Rightarrow> run_state \<Rightarrow> step_result" where
  "terminal_step cfg ev n st =
     (let g = rc_run_graph cfg; (ok, failedGate) = checkGoalGates (se_order ev) g (r_outcomes st) in
      if \<not> ok \<and> failedGate \<noteq> '''' then
        (let retryTarget = resolveRetryTarget (Some g) failedGate in
         if retryTarget = '''' then Stop (RunFailed (GoalGateUnsatisfied failedGate)) st
         else Goto (st\<lparr>r_incoming := None, r_current := retryTarget\<rparr>))
      else (case executeNode (se_exit_run ev) (se_prior_json ev) of (out, err, _) \<Rightarrow>
        if err then Stop (RunFailed (ExitHandlerError (FailureReason out))) st
        else (let st1 = st\<lparr>r_outcomes := (r_outcomes st)(node_id n \<mapsto> out),
                          r_completed := r_completed st @ [node_id n], r_calls := Suc (r_calls st)\<rparr>
              in case se_cancel_after ev of
                   Some cause \<Rightarrow> Stop (RunFailed (RunCancelled cause)) st1
                 | None \<Rightarrow> (case se_checkpoint_error ev of
                     Some err \<Rightarrow> Stop (RunFailed (CheckpointError err)) st1
                   | None \<Rightarrow> (case se_completed_error ev of
                       Some err \<Rightarrow> Stop (RunFailed (CompletionError err)) st1
                     | None \<Rightarrow> Stop RunSuccess st1)))))"

definition dossier_keys :: "string list" where
  "dossier_keys = [''context.failure_dossier.path'', ''context.failure_dossier.logs_path'',
     ''context.failure_dossier.failed_node'', ''context.failure_dossier.failure_class'',
     ''context.failure_dossier.summary'']"

text \<open>Recording a finished stage in the state and the context.\<close>

definition record_stage :: "step_env \<Rightarrow> node \<Rightarrow> outcome \<Rightarrow> run_state \<Rightarrow> run_state" where
  "record_stage ev n out st =
     (let c1 = ctx_ApplyUpdates (r_context st) (ContextUpdates out);
          c2 = ctx_Set c1 ''outcome'' (VStr (Status out));
          c3 = ctx_Set c2 ''preferred_label'' (VStr (PreferredLabel out));
          c4 = ctx_Set c3 ''failure_reason'' (VStr (FailureReason out));
          c5 = ctx_Set c4 ''failure_class'' (VStr (classifyFailureClass out));
          vals = (if isFailureLoopRestartOutcome out then se_dossier ev else map (\<lambda>_. VStr '''') dossier_keys);
          c6 = fold (\<lambda>(k, v) c. ctx_Set c k v) (zip dossier_keys vals) c5
      in st\<lparr>r_completed := r_completed st @ [node_id n],
            r_outcomes := (r_outcomes st)(node_id n \<mapsto> out), r_context := c6\<rparr>)"

text \<open>The breaker for failures that repeat with the same signature.\<close>

definition cycle_check ::
  "run_cfg \<Rightarrow> node \<Rightarrow> outcome \<Rightarrow> failure_class \<Rightarrow> run_state \<Rightarrow> run_error option \<times> run_state" where
  "cycle_check cfg n out failureClass st =
     (if isFailureLoopRestartOutcome out \<and> isSignatureTrackedFailureClass failureClass then
        (let sig = restartFailureSignature (node_id n) out failureClass in
         if sig = '''' then (None, st)
         else (let count = r_loop_sigs st sig + 1;
                   st1 = st\<lparr>r_loop_sigs := (r_loop_sigs st)(sig := count)\<rparr>
               in if count \<ge> loopRestartSignatureLimit (Some (rc_run_graph cfg))
                  then (Some (DeterministicCycle sig count), st1) else (None, st1)))
      else (None, st))"

definition goto_node :: "string \<Rightarrow> edge option \<Rightarrow> run_state \<Rightarrow> step_result" where
  "goto_node i incoming st = Goto (st\<lparr>r_incoming := incoming, r_current := i\<rparr>)"

text \<open>Following the next hop, or ending the run where there is none.\<close>

definition route :: "run_cfg \<Rightarrow> step_env \<Rightarrow> node \<Rightarrow> outcome \<Rightarrow> failure_class \<Rightarrow> run_state \<Rightarrow> step_result" where
  "route cfg ev n out failureClass st =
     (let g = rc_run_graph cfg in
      case resolveNextHop (Some g) (node_id n) out (Some (r_context st)) failureClass of
        Inl err \<Rightarrow> Stop (RunFailed (ConditionError err)) st
      | Inr None \<Rightarrow>
          if Status out = StatusFail then
            (let fanInDeterministic = (isFanInFailureLike g (node_id n) (Status out) \<and>
                   normalizedFailureClassOrDefault failureClass = failureClassDeterministic);
                 retryTarget = resolveRetryTarget (Some g) (node_id n)
             in if retryTarget \<noteq> '''' \<and> \<not> fanInDeterministic then goto_node retryTarget None st
                else Stop (RunFailed (StageFailed (FailureReason out))) st)
          else (case se_completed_error ev of
              Some err \<Rightarrow> Stop (RunFailed (CompletionError err)) st
            | None \<Rightarrow> Stop RunSuccess st)
      | Inr (Some hop) \<Rightarrow>
          (let next = hop_edge hop in
           if equal_fold (edge_Attr (Some next) ''loop_restart'' ''false'') ''true'' then
             loopRestart cfg ev (edge_to next) (node_id n) out failureClass st
           else goto_node (edge_to next) (Some next) st))"

text \<open>Several eligible edges that converge are run in parallel; otherwise one edge is followed.\<close>

definition fan_out :: "run_cfg \<Rightarrow> step_env \<Rightarrow> node \<Rightarrow> outcome \<Rightarrow> failure_class \<Rightarrow> run_state \<Rightarrow> step_result" where
  "fan_out cfg ev n out failureClass st =
     (let g = rc_run_graph cfg in
      case selectAllEligibleEdgesWithMeta g (node_id n) out (Some (r_context st)) of
        Inl err \<Rightarrow> Stop (RunFailed (ConditionError err)) st
      | Inr (allEdges, _) \<Rightarrow>
          if length allEdges > 1 then
            (case findJoinNode g allEdges of
               Inl _ \<Rightarrow> route cfg ev n out failureClass st
             | Inr joinID \<Rightarrow>
                 if joinID = '''' then route cfg ev n out failureClass st
                 else (case se_branches ev of
                     Inl err \<Rightarrow> Stop (RunFailed (BranchesFailed err)) st
                   | Inr results \<Rightarrow>
                       goto_node joinID None (st\<lparr>r_context := ctx_ApplyUpdates (r_context st)
                         (Some [''parallel.join_node'' \<mapsto> VStr joinID,
                                ''parallel.merge_mode'' \<mapsto> VStr (classifyJoinMergeMode g joinID),
                                ''parallel.results'' \<mapsto> results])\<rparr>)))
          else route cfg ev n out failureClass st)"

definition is_parallel_node :: "node \<Rightarrow> bool" where
  "is_parallel_node n \<longleftrightarrow> (let t = trim_space (node_TypeOverride n) in
     t = ''parallel'' \<or> t = '''' \<and> shapeToType (node_Shape n) = ''parallel'')"

text \<open>What follows a recorded stage: concurrent region, loop primitive, explicit parallel node, routing.\<close>

definition after_stage :: "run_cfg \<Rightarrow> step_env \<Rightarrow> node \<Rightarrow> outcome \<Rightarrow> failure_class \<Rightarrow> run_state \<Rightarrow> step_result" where
  "after_stage cfg ev n out failureClass st =
     (let g = rc_run_graph cfg in
      if shapeToType (node_Shape n) = ''concurrent.split'' then
        (case first_node (\<lambda>i m. shapeToType (node_Shape m) = ''concurrent.join'' \<and>
             (let l = trim_space (node_Attr (Some m) ''concurrent_id'' '''') in if l = '''' then i else l) =
             (let l = trim_space (node_Attr (Some n) ''concurrent_id'' '''') in if l = '''' then node_id n else l))
             g (se_order ev) of
           None \<Rightarrow> Stop (RunFailed (RegionFailed ''no paired concurrent_join'')) st
         | Some join \<Rightarrow>
             if length (filter (\<lambda>e. edge_from e = node_id n) (g_edges g)) < 2
             then Stop (RunFailed (RegionFailed ''needs two outgoing edges'')) st
             else (let rg = se_region ev;
                       st1 = st\<lparr>r_completed := r_completed st @ rg_completed rg, r_retries := rg_retries rg,
                               r_outcomes := rg_outcomes rg, r_context := rg_context rg\<rparr>
                   in case rg_error rg of
                        Some err \<Rightarrow> Stop (RunFailed (RegionFailed err)) st1
                      | None \<Rightarrow> goto_node (node_id join) None st1))
      else (case handleLoopIteration (se_order ev) (se_files ev) g (Some n) out
              \<lparr>ls_context = r_context st, ls_iterations = r_iterations st, ls_active = r_active st\<rparr> of
          (r, ls) \<Rightarrow>
            (let st1 = st\<lparr>r_context := ls_context ls, r_iterations := ls_iterations ls, r_active := ls_active ls\<rparr> in
             case r of
               LoopBack i \<Rightarrow> goto_node i None st1
             | LoopFail reason \<Rightarrow> Stop (RunFailed (LoopFailed reason)) st1
             | NoLoop \<Rightarrow>
                 if is_parallel_node n then
                   (let join = trim_space (ctx_GetString (r_context st1) ''parallel.join_node'' '''') in
                    if join = '''' then Stop (RunFailed ParallelWithoutJoin) st1
                    else goto_node join None st1)
                 else fan_out cfg ev n out failureClass st1)))"

definition run_stage :: "run_cfg \<Rightarrow> step_env \<Rightarrow> node \<Rightarrow> run_state \<Rightarrow> outcome \<times> run_state" where
  "run_stage cfg ev n st =
     (case executeWithRetry (rc_registered cfg) (rc_run_graph cfg) (se_attempts ev) n (r_retries st)
             (r_context st) (se_prior_json ev) of
        (out, rs) \<Rightarrow> (out, st\<lparr>r_retries := rs_retries rs, r_context := rs_context rs, r_calls := Suc (r_calls st)\<rparr>))"

definition stage_step :: "run_cfg \<Rightarrow> step_env \<Rightarrow> node \<Rightarrow> run_state \<Rightarrow> step_result" where
  "stage_step cfg ev n st =
     (case run_stage cfg ev n st of (out, st1) \<Rightarrow>
        (case se_cancel_after ev of
           Some cause \<Rightarrow> Stop (RunFailed (RunCancelled cause)) st1
         | None \<Rightarrow>
             (let st2 = record_stage ev n out st1; failureClass = classifyFailureClass out in
              case cycle_check cfg n out failureClass st2 of
                (Some err, st3) \<Rightarrow> Stop (RunFailed err) st3
              | (None, st3) \<Rightarrow>
                  (case se_checkpoint_error ev of
                     Some err \<Rightarrow> Stop (RunFailed (CheckpointError err)) st3
                   | None \<Rightarrow> after_stage cfg ev n out failureClass st3))))"

definition run_step :: "run_cfg \<Rightarrow> step_env \<Rightarrow> run_state \<Rightarrow> step_result" where
  "run_step cfg ev st =
     (case se_cancel ev of
        Some cause \<Rightarrow> Stop (RunFailed (RunCancelled cause)) st
      | None \<Rightarrow> (case g_nodes (rc_run_graph cfg) (r_current st) of
          None \<Rightarrow> Stop (RunFailed (MissingNode (r_current st))) st
        | Some n \<Rightarrow>
            (let st1 = visit st; visitLimit = maxNodeVisits (Some (rc_run_graph cfg)) in
             if visitLimit > 0 \<and> r_visits st1 (r_current st) \<ge> visitLimit then
               Stop (RunFailed (StuckCycle (r_current st) (r_visits st1 (r_current st)))) st1
             else (let st2 = st1\<lparr>r_context := prepare_context st1\<rparr> in
                   if isTerminal (Some n) then terminal_step cfg ev n st2 else stage_step cfg ev n st2))))"

text \<open>The run: at most as many passes as the fuel; \<^verbatim>\<open>None\<close> is a run that has not ended.\<close>

fun run_loop :: "run_cfg \<Rightarrow> (nat \<Rightarrow> step_env) \<Rightarrow> nat \<Rightarrow> nat \<Rightarrow> run_state \<Rightarrow> (run_result \<times> run_state) option" where
  "run_loop cfg env t 0 st = None"
| "run_loop cfg env t (Suc fuel) st = (case run_step cfg (env t) st of
      Stop r st' \<Rightarrow> Some (r, st')
    | Goto st' \<Rightarrow> run_loop cfg env (Suc t) fuel st')"

definition initial_state :: "string \<Rightarrow> run_context \<Rightarrow> run_state" where
  "initial_state start ctx = \<lparr>r_current = start, r_completed = [], r_retries = (\<lambda>_. 0), r_outcomes = Map.empty,
     r_visits = (\<lambda>_. 0), r_context = ctx, r_incoming = None, r_loop_sigs = (\<lambda>_. 0), r_restart_sigs = (\<lambda>_. 0),
     r_restart_count = 0, r_iterations = Map.empty, r_active = 0, r_calls = 0\<rparr>"

section \<open>What a pass keeps\<close>

named_theorems run_keeps \<open>fields that a part of the loop leaves alone\<close>

text \<open>The parts of the state that bound a run.\<close>

definition bounds_of :: "run_state \<Rightarrow> (string \<Rightarrow> int) \<times> int" where
  "bounds_of st = (r_visits st, r_restart_count st)"

lemma bounds_record_stage [run_keeps]: "bounds_of (record_stage ev n out st) = bounds_of st"
  "r_loop_sigs (record_stage ev n out st) = r_loop_sigs st"
  "r_restart_sigs (record_stage ev n out st) = r_restart_sigs st"
  by (simp_all add: bounds_of_def record_stage_def Let_def)

lemma bounds_run_stage [run_keeps]:
  assumes "run_stage cfg ev n st = (out, st1)"
  shows "bounds_of st1 = bounds_of st \<and> r_loop_sigs st1 = r_loop_sigs st \<and>
    r_restart_sigs st1 = r_restart_sigs st \<and> r_outcomes st1 = r_outcomes st \<and> r_current st1 = r_current st"
  using assms by (auto simp: bounds_of_def run_stage_def split: prod.splits)

lemma cycle_check_None:
  assumes "cycle_check cfg n out cls st = (None, st1)"
  shows "bounds_of st1 = bounds_of st" "r_restart_sigs st1 = r_restart_sigs st"
    "r_context st1 = r_context st" "r_outcomes st1 = r_outcomes st" "r_loop_sigs st sig \<le> r_loop_sigs st1 sig"
    "r_loop_sigs st sig < loopRestartSignatureLimit (Some (rc_run_graph cfg)) \<Longrightarrow>
     r_loop_sigs st1 sig < loopRestartSignatureLimit (Some (rc_run_graph cfg))"
  using assms by (auto simp: cycle_check_def bounds_of_def Let_def split: if_splits)

lemma restart_guard_None:
  assumes "restart_guard cfg i out cls st = (None, st1)"
  shows "bounds_of st1 = bounds_of st" "r_loop_sigs st1 = r_loop_sigs st" "r_context st1 = r_context st"
    "r_restart_sigs st sig < loopRestartSignatureLimit (Some (rc_run_graph cfg)) \<Longrightarrow>
     r_restart_sigs st1 sig < loopRestartSignatureLimit (Some (rc_run_graph cfg))"
    "isFailureLoopRestartOutcome out \<Longrightarrow> equal_fold (trim_space cls) failureClassTransientInfra"
  using assms by (auto simp: restart_guard_def bounds_of_def Let_def split: if_splits)

text \<open>
  A part of the loop advances the state when it keeps the counters, or restarts the loop within
  its budget with fresh visit counts.
\<close>

definition advances :: "run_cfg \<Rightarrow> run_state \<Rightarrow> run_state \<Rightarrow> bool" where
  "advances cfg st st' \<longleftrightarrow> (\<forall>sig. r_loop_sigs st' sig = r_loop_sigs st sig) \<and>
     (bounds_of st' = bounds_of st \<and> r_restart_sigs st' = r_restart_sigs st \<or>
      r_visits st' = (\<lambda>_. 0) \<and> r_restart_count st' = r_restart_count st + 1 \<and>
      r_restart_count st' \<le> maxRestarts (rc_run_graph cfg) \<and>
      (\<forall>sig. r_restart_sigs st sig < loopRestartSignatureLimit (Some (rc_run_graph cfg)) \<longrightarrow>
         r_restart_sigs st' sig < loopRestartSignatureLimit (Some (rc_run_graph cfg))))"

lemma advances_same:
  "bounds_of st' = bounds_of st \<Longrightarrow> r_loop_sigs st' = r_loop_sigs st \<Longrightarrow> r_restart_sigs st' = r_restart_sigs st \<Longrightarrow>
   advances cfg st st'"
  by (simp add: advances_def)

lemma advances_cong:
  "advances cfg st1 st' \<Longrightarrow> bounds_of st1 = bounds_of st \<Longrightarrow> r_loop_sigs st1 = r_loop_sigs st \<Longrightarrow>
   r_restart_sigs st1 = r_restart_sigs st \<Longrightarrow> advances cfg st st'"
  by (simp add: advances_def bounds_of_def)

lemma advances_update [simp]:
  "advances cfg (st\<lparr>r_context := c\<rparr>) st' = advances cfg st st'"
  "advances cfg (st\<lparr>r_completed := d\<rparr>) st' = advances cfg st st'"
  "advances cfg (st\<lparr>r_retries := f\<rparr>) st' = advances cfg st st'"
  "advances cfg (st\<lparr>r_outcomes := m\<rparr>) st' = advances cfg st st'"
  "advances cfg (st\<lparr>r_iterations := i\<rparr>) st' = advances cfg st st'"
  "advances cfg (st\<lparr>r_active := a\<rparr>) st' = advances cfg st st'"
  by (simp_all add: advances_def bounds_of_def)

lemma loopRestart_advances:
  assumes "loopRestart cfg ev target i out cls st = Goto st'"
  shows "advances cfg st st'"
proof -
  from assms obtain st1 where g: "restart_guard cfg i out cls st = (None, st1)"
    and s: "r_visits st' = (\<lambda>_. 0)" "r_restart_count st' = r_restart_count st1 + 1"
      "r_restart_count st' \<le> maxRestarts (rc_run_graph cfg)" "r_loop_sigs st' = r_loop_sigs st1"
      "r_restart_sigs st' = r_restart_sigs st1"
    by (auto simp: loopRestart_def Let_def split: if_splits prod.splits option.splits)
  from s restart_guard_None [OF g] show ?thesis
    by (auto simp: advances_def bounds_of_def)
qed

lemma goto_node_advances: "goto_node i inc st = Goto st' \<Longrightarrow> advances cfg st st'"
  by (auto simp: goto_node_def bounds_of_def intro!: advances_same)

lemma route_advances:
  assumes "route cfg ev n out cls st = Goto st'"
  shows "advances cfg st st'"
  using assms
  by (auto simp: route_def Let_def split: sum.splits option.splits if_splits
      intro: goto_node_advances loopRestart_advances)

lemma fan_out_advances:
  assumes "fan_out cfg ev n out cls st = Goto st'"
  shows "advances cfg st st'"
  using assms
  by (auto simp: fan_out_def Let_def split: sum.splits if_splits
      dest!: route_advances goto_node_advances [where cfg = cfg])

lemma after_stage_advances:
  assumes "after_stage cfg ev n out cls st = Goto st'"
  shows "advances cfg st st'"
  using assms
  by (auto simp: after_stage_def Let_def split: option.splits if_splits prod.splits loop_result.splits
      dest!: fan_out_advances goto_node_advances [where cfg = cfg])

lemma stage_step_Goto:
  assumes "stage_step cfg ev n st = Goto st'"
  obtains st3 where "advances cfg st3 st'" "bounds_of st3 = bounds_of st" "r_restart_sigs st3 = r_restart_sigs st"
    "\<And>sig. r_loop_sigs st sig \<le> r_loop_sigs st3 sig"
    "\<And>sig. r_loop_sigs st sig < loopRestartSignatureLimit (Some (rc_run_graph cfg)) \<Longrightarrow>
       r_loop_sigs st3 sig < loopRestartSignatureLimit (Some (rc_run_graph cfg))"
proof -
  obtain out st1 where run: "run_stage cfg ev n st = (out, st1)" by fastforce
  obtain err st3 where check: "cycle_check cfg n out (classifyFailureClass out) (record_stage ev n out st1) = (err, st3)"
    by fastforce
  from assms run check have "err = None" and after: "after_stage cfg ev n out (classifyFailureClass out) st3 = Goto st'"
    by (auto simp: stage_step_def Let_def split: option.splits)
  note c = cycle_check_None [OF check [unfolded \<open>err = None\<close>]]
  show thesis
    by (rule that [OF after_stage_advances [OF after]])
       (use c bounds_run_stage [OF run] in \<open>simp_all add: bounds_record_stage\<close>)
qed

abbreviation sig_limit :: "run_cfg \<Rightarrow> int" where
  "sig_limit cfg \<equiv> loopRestartSignatureLimit (Some (rc_run_graph cfg))"

abbreviation visit_limit :: "run_cfg \<Rightarrow> int" where
  "visit_limit cfg \<equiv> maxNodeVisits (Some (rc_run_graph cfg))"

lemma terminal_step_advances:
  assumes "terminal_step cfg ev n st = Goto st'"
  shows "advances cfg st st'"
  using assms
  by (auto simp: terminal_step_def Let_def bounds_of_def split: prod.splits if_splits option.splits
      intro!: advances_same)

lemma bounds_visit:
  "bounds_of (visit st) = ((r_visits st)(r_current st := r_visits st (r_current st) + 1), r_restart_count st)"
  by (simp add: visit_def bounds_of_def)

text \<open>A pass that continues, in terms of the counters.\<close>

lemma run_step_Goto:
  assumes "run_step cfg ev st = Goto st'"
  shows "r_current st \<in> dom (g_nodes (rc_run_graph cfg))"
    and "visit_limit cfg > 0 \<Longrightarrow> r_visits st (r_current st) + 1 < visit_limit cfg"
    and "r_visits st' = (r_visits st)(r_current st := r_visits st (r_current st) + 1) \<and>
         r_restart_count st' = r_restart_count st \<or>
         r_visits st' = (\<lambda>_. 0) \<and> r_restart_count st' = r_restart_count st + 1 \<and>
         r_restart_count st' \<le> maxRestarts (rc_run_graph cfg)"
    and "r_loop_sigs st sig \<le> r_loop_sigs st' sig"
    and "r_loop_sigs st sig < sig_limit cfg \<Longrightarrow> r_loop_sigs st' sig < sig_limit cfg"
    and "r_restart_sigs st sig < sig_limit cfg \<Longrightarrow> r_restart_sigs st' sig < sig_limit cfg"
proof -
  define st2 where "st2 = (visit st)\<lparr>r_context := prepare_context (visit st)\<rparr>"
  from assms obtain n where n: "g_nodes (rc_run_graph cfg) (r_current st) = Some n"
    and lim: "\<not> (visit_limit cfg > 0 \<and> r_visits (visit st) (r_current st) \<ge> visit_limit cfg)"
    and step: "(if isTerminal (Some n) then terminal_step cfg ev n st2 else stage_step cfg ev n st2) = Goto st'"
    by (auto simp: run_step_def Let_def st2_def split: option.splits if_splits)
  have st2: "bounds_of st2 = bounds_of (visit st)" "r_restart_sigs st2 = r_restart_sigs st"
    "r_loop_sigs st2 = r_loop_sigs st"
    by (simp_all add: st2_def bounds_of_def visit_def)
  obtain st3 where st3: "advances cfg st3 st'" "bounds_of st3 = bounds_of st2"
    "r_restart_sigs st3 = r_restart_sigs st2" "\<And>sig. r_loop_sigs st2 sig \<le> r_loop_sigs st3 sig"
    "\<And>sig. r_loop_sigs st2 sig < sig_limit cfg \<Longrightarrow> r_loop_sigs st3 sig < sig_limit cfg"
  proof (cases "isTerminal (Some n)")
    case True
    with step terminal_step_advances that [of st2] show thesis by auto
  next
    case False
    with step have "stage_step cfg ev n st2 = Goto st'" by simp
    then show thesis by (rule stage_step_Goto) (use that in blast)
  qed
  show "r_current st \<in> dom (g_nodes (rc_run_graph cfg))" using n by auto
  show "visit_limit cfg > 0 \<Longrightarrow> r_visits st (r_current st) + 1 < visit_limit cfg"
    using lim by (simp add: visit_def)
  show "r_visits st' = (r_visits st)(r_current st := r_visits st (r_current st) + 1) \<and>
         r_restart_count st' = r_restart_count st \<or>
         r_visits st' = (\<lambda>_. 0) \<and> r_restart_count st' = r_restart_count st + 1 \<and>
         r_restart_count st' \<le> maxRestarts (rc_run_graph cfg)"
    using st3(1,2) st2(1) by (auto simp: advances_def bounds_of_def visit_def)
  show "r_loop_sigs st sig \<le> r_loop_sigs st' sig"
    "r_loop_sigs st sig < sig_limit cfg \<Longrightarrow> r_loop_sigs st' sig < sig_limit cfg"
    using st3(1,4,5) st2(3) by (auto simp: advances_def)
  show "r_restart_sigs st sig < sig_limit cfg \<Longrightarrow> r_restart_sigs st' sig < sig_limit cfg"
    using st3(1,3) st2(2) by (auto simp: advances_def)
qed

section \<open>Termination\<close>

text \<open>The visits that are left in this iteration of the run, and the iterations that are left.\<close>

definition visit_budget :: "run_cfg \<Rightarrow> nat" where
  "visit_budget cfg = card (dom (g_nodes (rc_run_graph cfg))) * nat (visit_limit cfg - 1)"

definition run_bound :: "run_cfg \<Rightarrow> nat" where
  "run_bound cfg = nat (maxRestarts (rc_run_graph cfg)) * (visit_budget cfg + 1) + visit_budget cfg + 1"

definition visits_left :: "run_cfg \<Rightarrow> run_state \<Rightarrow> nat" where
  "visits_left cfg st = (\<Sum>i \<in> dom (g_nodes (rc_run_graph cfg)). nat (visit_limit cfg - 1 - r_visits st i))"

definition passes_left :: "run_cfg \<Rightarrow> run_state \<Rightarrow> nat" where
  "passes_left cfg st =
     nat (maxRestarts (rc_run_graph cfg) - r_restart_count st) * (visit_budget cfg + 1) + visits_left cfg st"

lemma visits_left_fresh: "r_visits st = (\<lambda>_. 0) \<Longrightarrow> visits_left cfg st = visit_budget cfg"
  by (simp add: visits_left_def visit_budget_def)

lemma passes_decrease:
  assumes "finite (dom (g_nodes (rc_run_graph cfg)))" "0 < visit_limit cfg" "run_step cfg ev st = Goto st'"
  shows "passes_left cfg st' < passes_left cfg st"
proof -
  let ?N = "dom (g_nodes (rc_run_graph cfg))" and ?c = "r_current st"
  note step = run_step_Goto [OF assms(3)]
  from step(3) show ?thesis
  proof (elim disjE conjE)
    assume v: "r_visits st' = (r_visits st)(?c := r_visits st ?c + 1)" and r: "r_restart_count st' = r_restart_count st"
    have "visits_left cfg st' < visits_left cfg st"
      unfolding visits_left_def
    proof (rule sum_strict_mono_ex1 [OF assms(1)])
      show "\<forall>i \<in> ?N. nat (visit_limit cfg - 1 - r_visits st' i) \<le> nat (visit_limit cfg - 1 - r_visits st i)"
        by (auto simp: v intro!: nat_mono)
      show "\<exists>i \<in> ?N. nat (visit_limit cfg - 1 - r_visits st' i) < nat (visit_limit cfg - 1 - r_visits st i)"
        using step(1,2) assms(2) by (intro bexI [of _ ?c]) (auto simp: v)
    qed
    with r show ?thesis by (simp add: passes_left_def)
  next
    assume v: "r_visits st' = (\<lambda>_. 0)" and r: "r_restart_count st' = r_restart_count st + 1"
      "r_restart_count st' \<le> maxRestarts (rc_run_graph cfg)"
    let ?m = "maxRestarts (rc_run_graph cfg)"
    have "nat (?m - r_restart_count st) = Suc (nat (?m - r_restart_count st'))"
      using r by simp
    then show ?thesis
      using visits_left_fresh [OF v, of cfg] by (simp add: passes_left_def)
  qed
qed

lemma run_loop_enough:
  assumes "finite (dom (g_nodes (rc_run_graph cfg)))" "0 < visit_limit cfg" "passes_left cfg st < fuel"
  shows "\<exists>r st'. run_loop cfg env t fuel st = Some (r, st')"
  using assms(3)
proof (induction fuel arbitrary: t st)
  case 0
  then show ?case by simp
next
  case (Suc fuel)
  show ?case
  proof (cases "run_step cfg (env t) st")
    case (Goto st1)
    with passes_decrease [OF assms(1,2) Goto] Suc show ?thesis by simp
  next
    case (Stop r st1)
    then show ?thesis by simp
  qed
qed

section \<open>Reachable states\<close>

inductive run_reach :: "run_cfg \<Rightarrow> run_state \<Rightarrow> bool" for cfg where
  start: "run_reach cfg (initial_state s ctx)"
| step: "run_reach cfg st \<Longrightarrow> run_step cfg ev st = Goto st' \<Longrightarrow> run_reach cfg st'"

inductive_cases run_reach_cases: "run_reach cfg st"

lemma run_reach_sigs:
  assumes "run_reach cfg st"
  shows "r_loop_sigs st sig < sig_limit cfg \<and> r_restart_sigs st sig < sig_limit cfg"
  using assms
proof (induction rule: run_reach.induct)
  case (start s ctx)
  then show ?case using limit_ge_1 [of "Some (rc_run_graph cfg)"] by (simp add: initial_state_def)
next
  case (step st ev st')
  then show ?case using run_step_Goto(5,6) [OF step(2)] by simp
qed

lemma run_reach_counts:
  assumes "run_reach cfg st"
  shows "0 \<le> r_restart_count st \<and> r_restart_count st \<le> max 0 (maxRestarts (rc_run_graph cfg)) \<and>
    (\<forall>i. 0 \<le> r_visits st i \<and> (0 < visit_limit cfg \<longrightarrow> r_visits st i < visit_limit cfg))"
  using assms
proof (induction rule: run_reach.induct)
  case (start s ctx)
  then show ?case by (simp add: initial_state_def)
next
  case (step st ev st')
  from run_step_Goto(2,3) [OF step(2)] step.IH show ?case by auto
qed

section \<open>Successful ends\<close>

lemma checkGoalGates_ok:
  assumes "checkGoalGates order g outcomes = (ok, i)" "ok \<or> i = ''''" "g_nodes g '''' = None"
    "dom (g_nodes g) \<subseteq> set order" "outcomes j = Some out" "g_nodes g j = Some n" "is_goal_gate n"
  shows "gate_satisfied out"
proof -
  let ?P = "\<lambda>i. case outcomes i of None \<Rightarrow> False | Some out \<Rightarrow>
      (case g_nodes g i of None \<Rightarrow> False | Some n \<Rightarrow> is_goal_gate n \<and> \<not> gate_satisfied out)"
  have "find ?P order = None"
  proof (cases "find ?P order")
    case (Some k)
    then have "?P k" by (auto simp: find_Some_iff)
    moreover from Some assms(1,2) have "k = ''''" by (simp add: checkGoalGates_def)
    ultimately show ?thesis using assms(3) by (simp split: option.splits)
  qed
  moreover have "j \<in> set order" using assms(4,6) by auto
  ultimately have "\<not> ?P j" by (auto simp: find_None_iff)
  with assms(5-7) show ?thesis by simp
qed

text \<open>A node where a run may end although it is not terminal.\<close>

definition dead_end :: "graph \<Rightarrow> node \<Rightarrow> outcome \<Rightarrow> bool" where
  "dead_end g n out \<longleftrightarrow> Status out \<noteq> StatusFail \<and>
     (trim_space (node_id n) = '''' \<or> Outgoing g (trim_space (node_id n)) = [] \<or>
      isFanInFailureLike g (trim_space (node_id n)) (Status out))"

lemma resolveNextHop_None:
  assumes "resolveNextHop (Some g) i out ctx cls = Inr None"
  shows "trim_space i = '''' \<or> Outgoing g (trim_space i) = [] \<or> isFanInFailureLike g (trim_space i) (Status out)"
proof (rule ccontr)
  assume "\<not> ?thesis"
  then have i: "trim_space i \<noteq> ''''" "Outgoing g (trim_space i) \<noteq> []" "\<not> isFanInFailureLike g (trim_space i) (Status out)"
    by auto
  obtain e meta where "selectNextEdgeWithMeta g (trim_space i) out ctx = Inr (e, meta)" "e \<noteq> None"
    using select_total [of g "trim_space i" out ctx] i(2) by blast
  with i assms show False by (auto simp: resolveNextHop_def Let_def)
qed

lemma loopRestart_no_success: "loopRestart cfg ev target i out cls st \<noteq> Stop RunSuccess st'"
  by (auto simp: loopRestart_def Let_def split: prod.splits option.splits)

lemma route_success:
  assumes "route cfg ev n out cls st = Stop RunSuccess st'"
  shows "dead_end (rc_run_graph cfg) n out \<and> r_outcomes st' = r_outcomes st"
  using assms resolveNextHop_None [of "rc_run_graph cfg" "node_id n" out "Some (r_context st)" cls]
  by (auto simp: route_def Let_def goto_node_def loopRestart_no_success dead_end_def
      split: sum.splits option.splits if_splits)

lemma fan_out_success:
  assumes "fan_out cfg ev n out cls st = Stop RunSuccess st'"
  shows "dead_end (rc_run_graph cfg) n out \<and> r_outcomes st' = r_outcomes st"
  using assms
  by (auto simp: fan_out_def Let_def goto_node_def split: sum.splits if_splits dest!: route_success)

lemma after_stage_success:
  assumes "after_stage cfg ev n out cls st = Stop RunSuccess st'"
  shows "dead_end (rc_run_graph cfg) n out \<and> r_outcomes st' = r_outcomes st"
  using assms
  by (auto simp: after_stage_def Let_def goto_node_def split: option.splits if_splits prod.splits loop_result.splits
      dest!: fan_out_success)

lemma stage_step_success:
  assumes "stage_step cfg ev n st = Stop RunSuccess st'"
  shows "\<exists>out. dead_end (rc_run_graph cfg) n out \<and> r_outcomes st' = (r_outcomes st)(node_id n \<mapsto> out)"
proof -
  obtain out st1 where run: "run_stage cfg ev n st = (out, st1)" by fastforce
  obtain err st3 where check: "cycle_check cfg n out (classifyFailureClass out) (record_stage ev n out st1) = (err, st3)"
    by fastforce
  from assms run check have "err = None" and after: "after_stage cfg ev n out (classifyFailureClass out) st3 = Stop RunSuccess st'"
    by (auto simp: stage_step_def Let_def split: option.splits)
  from after_stage_success [OF after] cycle_check_None(4) [OF check [unfolded \<open>err = None\<close>]] bounds_run_stage [OF run]
  show ?thesis by (auto simp: record_stage_def Let_def)
qed

text \<open>How a pass can end the run in success.\<close>

definition gates_satisfied :: "graph \<Rightarrow> (string \<rightharpoonup> outcome) \<Rightarrow> bool" where
  "gates_satisfied g outcomes \<longleftrightarrow>
     (\<forall>i n out. g_nodes g i = Some n \<and> is_goal_gate n \<and> outcomes i = Some out \<longrightarrow> gate_satisfied out)"

lemma run_step_success:
  assumes "run_step cfg ev st = Stop RunSuccess st'" "wf_graph (rc_run_graph cfg)"
    "dom (g_nodes (rc_run_graph cfg)) \<subseteq> set (se_order ev)"
  shows "\<exists>n. g_nodes (rc_run_graph cfg) (r_current st) = Some n \<and>
    (if isTerminal (Some n) then gates_satisfied (rc_run_graph cfg) (r_outcomes st)
     else \<exists>out. dead_end (rc_run_graph cfg) n out \<and> r_outcomes st' = (r_outcomes st)(node_id n \<mapsto> out))"
proof -
  let ?g = "rc_run_graph cfg"
  define st2 where "st2 = (visit st)\<lparr>r_context := prepare_context (visit st)\<rparr>"
  have outs: "r_outcomes st2 = r_outcomes st" by (simp add: st2_def visit_def)
  from assms(1) obtain n where n: "g_nodes ?g (r_current st) = Some n"
    and step: "(if isTerminal (Some n) then terminal_step cfg ev n st2 else stage_step cfg ev n st2) = Stop RunSuccess st'"
    by (auto simp: run_step_def Let_def st2_def split: option.splits if_splits)
  show ?thesis
  proof (cases "isTerminal (Some n)")
    case True
    with step have t: "terminal_step cfg ev n st2 = Stop RunSuccess st'" by simp
    obtain ok i where check: "checkGoalGates (se_order ev) ?g (r_outcomes st2) = (ok, i)" by fastforce
    with t have "ok \<or> i = ''''"
      by (auto simp: terminal_step_def Let_def split: if_splits)
    with checkGoalGates_ok [OF check] assms(2,3) outs have "gates_satisfied ?g (r_outcomes st)"
      by (auto simp: gates_satisfied_def wf_graph_def)
    with n True show ?thesis by simp
  next
    case False
    with step stage_step_success [of cfg ev n st2 st'] outs n show ?thesis by simp
  qed
qed

end
