(* ===== verification/RunSafety.thy ===== *)
theory RunSafety
  imports RunLoop
begin

text \<open>
  The properties of whole runs, over the loop of RunLoop: runs end within a bound, they end in
  success only where they may, the breakers hold in every reachable state, and a restart keeps what
  it promises to keep.
\<close>

section \<open>The stages of a run\<close>

fun result_state :: "step_result \<Rightarrow> run_state" where
  "result_state (Goto st) = st"
| "result_state (Stop r st) = st"

lemma calls_goto_node [run_keeps]: "r_calls (result_state (goto_node i inc st)) = r_calls st"
  by (simp add: goto_node_def)

lemma calls_restart_guard: "r_calls (snd (restart_guard cfg i out cls st)) = r_calls st"
  by (simp add: restart_guard_def Let_def)

lemma calls_loopRestart [run_keeps]: "r_calls (result_state (loopRestart cfg ev target i out cls st)) = r_calls st"
  using calls_restart_guard [of cfg i out cls st]
  by (simp add: loopRestart_def Let_def split_beta split: option.split)

lemma calls_route [run_keeps]: "r_calls (result_state (route cfg ev n out cls st)) = r_calls st"
  by (simp add: route_def Let_def run_keeps split: sum.split option.split)

lemma calls_fan_out [run_keeps]: "r_calls (result_state (fan_out cfg ev n out cls st)) = r_calls st"
  by (simp add: fan_out_def Let_def run_keeps split_beta split: sum.split)

lemma calls_after_stage [run_keeps]: "r_calls (result_state (after_stage cfg ev n out cls st)) = r_calls st"
  by (simp add: after_stage_def Let_def run_keeps split_beta split: option.split loop_result.split)

lemma calls_cycle_check [run_keeps]: "r_calls (snd (cycle_check cfg n out cls st)) = r_calls st"
  by (simp add: cycle_check_def Let_def)

lemma calls_stage_step: "r_calls (result_state (stage_step cfg ev n st)) = Suc (r_calls st)"
proof -
  have run: "r_calls (snd (run_stage cfg ev n st)) = Suc (r_calls st)"
    by (simp add: run_stage_def split_beta)
  have rec: "r_calls (record_stage ev n out st1) = r_calls st1" for out st1
    by (simp add: record_stage_def Let_def)
  show ?thesis
    using calls_cycle_check [of cfg n "fst (run_stage cfg ev n st)"
        "classifyFailureClass (fst (run_stage cfg ev n st))"
        "record_stage ev n (fst (run_stage cfg ev n st)) (snd (run_stage cfg ev n st))"]
    by (simp add: stage_step_def Let_def split_beta run rec run_keeps split: option.split)
qed

lemma calls_terminal_step: "r_calls (result_state (terminal_step cfg ev n st)) \<le> Suc (r_calls st)"
  by (simp add: terminal_step_def Let_def split_beta split: option.split)

lemma calls_run_step: "r_calls (result_state (run_step cfg ev st)) \<le> Suc (r_calls st)"
proof -
  have v: "r_calls (visit st) = r_calls st" by (simp add: visit_def)
  show ?thesis
    using calls_terminal_step [of cfg ev _ "(visit st)\<lparr>r_context := prepare_context (visit st)\<rparr>"]
    by (simp add: run_step_def Let_def v calls_stage_step split: option.split)
qed

lemma run_loop_calls:
  assumes "run_loop cfg env t fuel st = Some (r, st')"
  shows "r_calls st' \<le> r_calls st + fuel"
  using assms
proof (induction fuel arbitrary: t st)
  case 0
  then show ?case by simp
next
  case (Suc fuel)
  then show ?case
    using calls_run_step [of cfg "env t" st]
    by (cases "run_step cfg (env t) st") (fastforce dest: Suc.IH)+
qed

text \<open>The last pass of a run that ends, and that it is reached from the start.\<close>

lemma run_loop_last:
  assumes "run_loop cfg env t fuel st = Some (r, st')" "run_reach cfg st"
  shows "\<exists>k st1. run_reach cfg st1 \<and> run_step cfg (env k) st1 = Stop r st'"
  using assms
proof (induction fuel arbitrary: t st)
  case 0
  then show ?case by simp
next
  case (Suc fuel)
  show ?case
  proof (cases "run_step cfg (env t) st")
    case (Goto st1)
    with Suc.prems have "run_loop cfg env (Suc t) fuel st1 = Some (r, st')" by simp
    from Suc.IH [OF this run_reach.step [OF Suc.prems(2) Goto]] show ?thesis .
  qed (use Suc.prems in auto)
qed

lemma passes_left_initial:
  assumes "0 < visit_limit cfg"
  shows "passes_left cfg (initial_state s ctx) < run_bound cfg"
  by (simp add: passes_left_def run_bound_def visits_left_fresh initial_state_def)

section \<open>What a restart keeps\<close>

lemma snapshot_lookup:
  "snapshotPersistKeys g ctx k =
     (if k \<in> set (loopRestartPersistKeyNames (Some g)) then ctx_Get ctx k else None)"
proof -
  have "fold (\<lambda>key m. case ctx_Get ctx key of None \<Rightarrow> m | Some v \<Rightarrow> m(key \<mapsto> v)) ks m k =
      (if k \<in> set ks \<and> ctx_Get ctx k \<noteq> None then ctx_Get ctx k else m k)" for ks m
    by (induction ks arbitrary: m) (auto split: option.splits)
  then show ?thesis by (auto simp: snapshotPersistKeys_def)
qed

lemma restart_context_lookup:
  assumes "k \<noteq> ''loop_restart.from_node''" "k \<noteq> ''loop_restart.iteration_count''"
  shows "ctx_Get (restart_context cfg ctx count i) k =
    (if k \<in> set (loopRestartPersistKeyNames (Some (rc_run_graph cfg))) \<and> ctx_Get ctx k \<noteq> None then ctx_Get ctx k
     else if k = ''base_sha'' then Some (VStr (rc_base_sha cfg))
     else if k = ''graph.goal'' then Some (VStr (graph_attr (rc_run_graph cfg) ''goal''))
     else if has_prefix ''graph.'' k then map_option VStr (g_attrs (rc_run_graph cfg) (drop 6 k)) else None)"
proof -
  let ?g = "rc_run_graph cfg"
  have vals: "ctx_Get (NewContext\<lparr>ctx_values := m\<rparr>) k = m k" for m
    by (simp add: ctx_Get_def)
  have upd: "ctx_Get (ctx_ApplyUpdates c (Some m)) k = (if m k \<noteq> None then m k else ctx_Get c k)" for c m
    by (simp add: map_of_nil_def split: option.split)
  show ?thesis
    unfolding restart_context_def Let_def ctx_Get_Set if_not_P [OF assms(1)] if_not_P [OF assms(2)]
      upd snapshot_lookup vals
    by (cases "k \<in> set (loopRestartPersistKeyNames (Some ?g))"; cases "ctx_Get ctx k = None";
        cases "k = ''base_sha''") (simp_all only: simp_thms if_True if_False)
qed

lemma restart_context_counters:
  "ctx_Get (restart_context cfg ctx count i) ''loop_restart.from_node'' = Some (VStr i)"
  "ctx_Get (restart_context cfg ctx count i) ''loop_restart.iteration_count'' = Some (VInt count)"
  by (simp_all add: restart_context_def Let_def)

section \<open>Runs end\<close>

text \<open>A graph, an environment and a state for the concrete instances.\<close>

definition gate_node :: node where
  "gate_node = (NewNode ''a'')\<lparr>node_attrs := [''goal_gate'' \<mapsto> ''true'']\<rparr>"

definition gate_graph :: graph where
  "gate_graph = (add_edges [NewEdge ''a'' ''b''] (add_nodes [gate_node, NewNode ''b''] (NewGraph ''g'')))
     \<lparr>g_attrs := [''max_node_visits'' \<mapsto> ''3'']\<rparr>"

definition gate_cfg :: run_cfg where
  "gate_cfg = \<lparr>rc_run_graph = gate_graph, rc_registered = core_types, rc_base_logs_root = ''logs'', rc_base_sha = ''0''\<rparr>"

definition returning :: "outcome \<Rightarrow> node_run" where
  "returning out = panicking_run\<lparr>nr_handler := Returned out None\<rparr>"

definition quiet_env :: "outcome \<Rightarrow> step_env" where
  "quiet_env out = \<lparr>se_cancel = None, se_attempts = (\<lambda>_. const_env (returning out)), se_prior_json = None,
     se_exit_run = returning out, se_cancel_after = None, se_dossier = [],
     se_checkpoint_error = None, se_region = \<lparr>rg_completed = [], rg_retries = (\<lambda>_. 0),
       rg_outcomes = Map.empty, rg_context = NewContext, rg_error = None\<rparr>,
     se_branches = Inl ''no branches'', se_completed_error = None, se_restart_error = None,
     se_order = [''a'', ''b''], se_files = (\<lambda>_. None)\<rparr>"

lemma wf_gate_graph: "wf_graph gate_graph"
  unfolding gate_graph_def by (intro built_wf built_graph.attrs built_add_edges built_add_nodes built_graph.new)

lemma gate_visit_limit: "visit_limit gate_cfg = 3"
  by code_simp

lemma gate_nodes: "g_nodes gate_graph = [''a'' \<mapsto> gate_node, ''b'' \<mapsto> NewNode ''b'']"
  by (simp add: gate_graph_def add_edges_def add_nodes_def AddNode_def AddEdge_def Let_def NewGraph_def
      NewNode_def NewEdge_def gate_node_def fun_eq_iff)




definition exit_cfg :: run_cfg where
  "exit_cfg = gate_cfg\<lparr>rc_run_graph := add_nodes [NewNode ''end''] (NewGraph ''g'')\<rparr>"

definition exit_env :: step_env where
  "exit_env = (quiet_env (zero_outcome\<lparr>Status := StatusSuccess\<rparr>))\<lparr>se_order := [''end'']\<rparr>"

lemma exit_nodes: "g_nodes (rc_run_graph exit_cfg) = [''end'' \<mapsto> NewNode ''end'']"
  by (simp add: exit_cfg_def add_nodes_def AddNode_def NewGraph_def NewNode_def fun_eq_iff)

lemma exit_run:
  "map_option fst (run_loop exit_cfg (\<lambda>t. exit_env) 0 1 (initial_state ''end'' NewContext)) = Some RunSuccess"
  by code_simp


section \<open>Breakers\<close>

text \<open>
  C5: in every reachable state each failure signature has been counted fewer than
  loop_restart_signature_limit times, in all iterations together, no more than max_restarts
  restarts have happened, and with max_node_visits set no node has reached that many visits.
\<close>

theorem reachable_below_limits:
  assumes "run_reach cfg st"
  shows "r_loop_sigs st sig < sig_limit cfg \<and> r_restart_sigs st sig < sig_limit cfg \<and>
    r_restart_count st \<le> max 0 (maxRestarts (rc_run_graph cfg)) \<and>
    (if 0 < visit_limit cfg then r_visits st i < visit_limit cfg else True)"
  using run_reach_sigs [OF assms] run_reach_counts [OF assms] by simp

theorem reachable_below_limits_witness:
  "case run_step gate_cfg (quiet_env zero_outcome) (initial_state ''a'' NewContext) of
     Stop r st \<Rightarrow> True
   | Goto st \<Rightarrow> r_visits st ''a'' < 3 \<and> r_restart_count st \<le> 50"
proof -
  have m: "maxRestarts (rc_run_graph gate_cfg) = 50" by code_simp
  have "r_visits st ''a'' < 3 \<and> r_restart_count st \<le> 50"
    if "run_step gate_cfg (quiet_env zero_outcome) (initial_state ''a'' NewContext) = Goto st" for st
    using reachable_below_limits [OF run_reach.step [OF run_reach.start that], of _ "''a''"] gate_visit_limit m
    by simp
  then show ?thesis by (simp split: step_result.split)
qed

text \<open>
  the count of a failure signature never goes down while the run goes on, not even in a pass
  whose stage succeeds or that restarts the loop: successes between two failures do not reset it.
\<close>

theorem success_keeps_failure_counts:
  assumes "run_step cfg ev st = Goto st'"
  shows "r_loop_sigs st sig \<le> r_loop_sigs st' sig"
  by (rule run_step_Goto(4) [OF assms])

definition hop_graph :: graph where
  "hop_graph = add_edges [NewEdge ''p'' ''q''] (add_nodes
     [(NewNode ''p'')\<lparr>node_attrs := [''shape'' \<mapsto> ''diamond'']\<rparr>, NewNode ''q''] (NewGraph ''g''))"

definition hop_cfg :: run_cfg where
  "hop_cfg = gate_cfg\<lparr>rc_run_graph := hop_graph\<rparr>"

definition hop_state :: run_state where
  "hop_state = (initial_state ''p'' NewContext)\<lparr>r_loop_sigs := (\<lambda>_. 0)(''s'' := 2)\<rparr>"

lemma hop_run:
  "case run_step hop_cfg (quiet_env (zero_outcome\<lparr>Status := StatusSuccess\<rparr>)) hop_state of
     Goto st \<Rightarrow> r_current st = ''q'' | Stop r st \<Rightarrow> False"
  by code_simp

theorem success_keeps_failure_counts_witness:
  "case run_step hop_cfg (quiet_env (zero_outcome\<lparr>Status := StatusSuccess\<rparr>)) hop_state of
     Goto st \<Rightarrow> 2 \<le> r_loop_sigs st ''s'' | Stop r st \<Rightarrow> False"
  using hop_run success_keeps_failure_counts [of hop_cfg "quiet_env (zero_outcome\<lparr>Status := StatusSuccess\<rparr>)" hop_state _ "''s''"]
  by (auto simp: hop_state_def split: step_result.splits)

section \<open>Dead ends and goal gates\<close>

text \<open>A stage without a concurrent region, a loop or an explicit parallel node.\<close>

definition ordinary_node :: "node \<Rightarrow> bool" where
  "ordinary_node n \<longleftrightarrow> shapeToType (node_Shape n) \<noteq> ''concurrent.split'' \<and>
     parseLoopSpecFromNode (Some n) = None \<and> \<not> is_parallel_node n"

definition no_trouble :: "step_env \<Rightarrow> bool" where
  "no_trouble ev \<longleftrightarrow> se_cancel_after ev = None \<and> se_checkpoint_error ev = None \<and> se_completed_error ev = None"

lemma ordinary_no_loop:
  assumes "ordinary_node n"
  shows "handleLoopIteration order ws g (Some n) out ls = (NoLoop, ls)"
  using assms by (simp add: ordinary_node_def handleLoopIteration_def loop_of_node_def Let_def)

lemma resolveNextHop_no_edges:
  assumes "Outgoing g (trim_space i) = []" "Status out \<noteq> StatusFail" "Status out \<noteq> StatusRetry"
  shows "resolveNextHop (Some g) i out ctx cls = Inr None"
  using assms select_total [of g "trim_space i" out ctx]
  by (auto simp: resolveNextHop_def Let_def isFanInFailureLike_def)

lemma dead_end_after_stage:
  assumes "ordinary_node n" "no_trouble ev" "Outgoing (rc_run_graph cfg) (node_id n) = []"
    "trim_space (node_id n) = node_id n" "\<not> isFailureLoopRestartOutcome out"
  shows "\<exists>st'. after_stage cfg ev n out cls st = Stop RunSuccess st' \<and> r_outcomes st' = r_outcomes st"
proof -
  from assms(5) have s: "Status out \<noteq> StatusFail" "Status out \<noteq> StatusRetry"
    by (auto simp: failing_iff is_failing_def)
  have route: "route cfg ev n out cls st1 = Stop RunSuccess st1" for st1
    using assms(2,3,4) s resolveNextHop_no_edges [of "rc_run_graph cfg" "node_id n" out]
    by (simp add: route_def Let_def no_trouble_def)
  have "fan_out cfg ev n out cls st1 = Stop RunSuccess st1" for st1
    using assms(3) by (simp add: fan_out_def Let_def selectAllEligibleEdgesWithMeta_def route)
  with assms(1) show ?thesis
    by (simp add: after_stage_def Let_def ordinary_no_loop [OF assms(1)]) (simp add: ordinary_node_def)
qed

text \<open>
  a stage that does not fail and has no outgoing edge ends the run in success although its node
  is not terminal, and no goal gate is looked at: the outcomes of all other nodes may be failures.
\<close>

theorem dead_end_skips_goal_gates:
  assumes "ordinary_node n" and "no_trouble ev" and "Outgoing (rc_run_graph cfg) (node_id n) = []"
    and "trim_space (node_id n) = node_id n"
    and "\<not> isFailureLoopRestartOutcome (fst (run_stage cfg ev n st))"
  shows "\<exists>st'. stage_step cfg ev n st = Stop RunSuccess st' \<and>
    r_outcomes st' = (r_outcomes st)(node_id n \<mapsto> fst (run_stage cfg ev n st))"
proof -
  obtain out st1 where run: "run_stage cfg ev n st = (out, st1)" by fastforce
  with assms(5) have nf: "\<not> isFailureLoopRestartOutcome out" by simp
  then have check: "cycle_check cfg n out cls st2 = (None, st2)" for cls st2
    by (simp add: cycle_check_def)
  from dead_end_after_stage [OF assms(1-4) nf] obtain st' where
    "after_stage cfg ev n out (classifyFailureClass out) (record_stage ev n out st1) = Stop RunSuccess st'"
    "r_outcomes st' = r_outcomes (record_stage ev n out st1)" by blast
  moreover have "r_outcomes st1 = r_outcomes st" using bounds_run_stage [OF run] by simp
  ultimately show ?thesis
    using run assms(2) by (simp add: stage_step_def Let_def check no_trouble_def) (simp add: record_stage_def Let_def)
qed

definition last_node :: node where
  "last_node = (NewNode ''b'')\<lparr>node_attrs := [''shape'' \<mapsto> ''diamond'']\<rparr>"

definition gate_state :: run_state where
  "gate_state = (initial_state ''b'' NewContext)\<lparr>r_outcomes := [''a'' \<mapsto> fail_outcome ''red'']\<rparr>"

lemma last_stage:
  "\<not> isFailureLoopRestartOutcome
     (fst (run_stage gate_cfg (quiet_env (zero_outcome\<lparr>Status := StatusSuccess\<rparr>)) last_node gate_state))"
  by code_simp

theorem dead_end_skips_goal_gates_witness:
  "case stage_step gate_cfg (quiet_env (zero_outcome\<lparr>Status := StatusSuccess\<rparr>)) last_node gate_state of
     Stop r st \<Rightarrow> r = RunSuccess \<and> map_option gate_satisfied (r_outcomes st ''a'') = Some False
   | Goto st \<Rightarrow> False"
proof -
  let ?ev = "quiet_env (zero_outcome\<lparr>Status := StatusSuccess\<rparr>)"
  have "ordinary_node last_node" "trim_space (node_id last_node) = node_id last_node" by code_simp+
  moreover have "no_trouble ?ev" by (simp add: no_trouble_def quiet_env_def)
  moreover have "Outgoing (rc_run_graph gate_cfg) (node_id last_node) = []"
    by (simp add: gate_cfg_def gate_graph_def add_edges_def add_nodes_def AddNode_def AddEdge_def Let_def
        NewGraph_def NewNode_def NewEdge_def gate_node_def Outgoing_def last_node_def)
  moreover note last_stage
  ultimately obtain st' where "stage_step gate_cfg ?ev last_node gate_state = Stop RunSuccess st'"
    "r_outcomes st' ''a'' = Some (fail_outcome ''red'')"
    using dead_end_skips_goal_gates [of last_node ?ev gate_cfg gate_state]
    by (auto simp: last_node_def NewNode_def gate_state_def)
  moreover have "\<not> gate_satisfied (fail_outcome ''red'')" by code_simp
  ultimately show ?thesis by simp
qed

section \<open>Restarts\<close>

text \<open>
  a restart happens after a failure only if its class is transient_infra.  It starts at the target
  of the edge with no completed stages, no outcomes, no retries used and no visits; from the context
  it keeps the values of the keys in loop_restart_persist_keys and drops everything that is not an
  attribute of the graph, the base revision or its own two counters; it keeps the failure counts.
\<close>

theorem restart_keeps_and_drops:
  assumes "loopRestart cfg ev target i out cls st = Goto st'"
    and "k \<noteq> ''loop_restart.from_node''" and "k \<noteq> ''loop_restart.iteration_count''"
    and "k \<noteq> ''base_sha''" and "\<not> has_prefix ''graph.'' k"
  shows "(if isFailureLoopRestartOutcome out then equal_fold (trim_space cls) ''transient_infra'' else True) \<and>
    r_current st' = target \<and> r_completed st' = [] \<and> r_outcomes st' = Map.empty \<and> r_retries st' = (\<lambda>_. 0) \<and>
    r_visits st' = (\<lambda>_. 0) \<and> r_loop_sigs st' = r_loop_sigs st \<and>
    r_restart_count st' = r_restart_count st + 1 \<and> r_restart_count st' \<le> maxRestarts (rc_run_graph cfg) \<and>
    ctx_Get (r_context st') k =
      (if k \<in> set (loopRestartPersistKeyNames (Some (rc_run_graph cfg))) then ctx_Get (r_context st) k else None)"
proof -
  from assms(1) obtain st1 where g: "restart_guard cfg i out cls st = (None, st1)"
    and st': "st' = st1\<lparr>r_restart_count := r_restart_count st1 + 1,
        r_context := restart_context cfg (r_context st1) (r_restart_count st1 + 1) i,
        r_incoming := None, r_current := target, r_completed := [], r_retries := (\<lambda>_. 0),
        r_outcomes := Map.empty, r_visits := (\<lambda>_. 0)\<rparr>"
    and max: "r_restart_count st1 + 1 \<le> maxRestarts (rc_run_graph cfg)"
    by (auto simp: loopRestart_def Let_def split: if_splits prod.splits option.splits)
  note keep = restart_guard_None [OF g]
  from assms(5) have "k \<noteq> ''graph.goal''" by auto
  then have "ctx_Get (restart_context cfg c cnt i) k =
      (if k \<in> set (loopRestartPersistKeyNames (Some (rc_run_graph cfg))) then ctx_Get c k else None)" for c cnt
    using restart_context_lookup [OF assms(2,3), of cfg c cnt i] assms(4,5) by presburger
  then show ?thesis
    using keep(1,2,3,5) max by (auto simp: st' bounds_of_def failureClassTransientInfra_def)
qed

definition flaky :: outcome where
  "flaky = fail_outcome ''connection reset''"

definition again_cfg :: run_cfg where
  "again_cfg = gate_cfg\<lparr>rc_run_graph := gate_graph\<lparr>g_attrs := [''loop_restart_persist_keys'' \<mapsto> ''done, todo'']\<rparr>\<rparr>"

definition again_state :: run_state where
  "again_state = (initial_state ''b'' NewContext)\<lparr>r_context := ctx_Set (ctx_Set NewContext ''todo'' (VInt 3)) ''tmp'' (VInt 4)\<rparr>"

lemma again_restarts:
  "case loopRestart again_cfg (quiet_env flaky) ''a'' ''b'' flaky ''transient_infra'' again_state of
     Goto st \<Rightarrow> True | Stop r st \<Rightarrow> False"
  by code_simp

theorem restart_keeps_and_drops_witness:
  "case loopRestart again_cfg (quiet_env flaky) ''a'' ''b'' flaky ''transient_infra'' again_state of
     Goto st \<Rightarrow> r_current st = ''a'' \<and> ctx_Get (r_context st) ''todo'' = Some (VInt 3) \<and>
       ctx_Get (r_context st) ''tmp'' = None
   | Stop r st \<Rightarrow> False"
proof -
  let ?r = "loopRestart again_cfg (quiet_env flaky) ''a'' ''b'' flaky ''transient_infra'' again_state"
  from again_restarts obtain st' where r: "?r = Goto st'" by (auto split: step_result.splits)
  have keys: "loopRestartPersistKeyNames (Some (rc_run_graph again_cfg)) = [''done'', ''todo'']" by code_simp
  from restart_keeps_and_drops [OF r, of "''todo''"] restart_keeps_and_drops [OF r, of "''tmp''"] r keys
  show ?thesis by (simp add: again_state_def)
qed

text \<open>
  max_node_visits counts the visit that is refused: with the limit 1 the run ends before its
  first stage, and with any limit a node runs at most one time less than the limit.
\<close>

theorem visit_limit_one_runs_nothing:
  assumes "maxNodeVisits (Some (rc_run_graph cfg)) = 1" and "se_cancel ev = None"
    and "s \<in> dom (g_nodes (rc_run_graph cfg))"
  shows "run_step cfg ev (initial_state s ctx) =
    Stop (RunFailed (StuckCycle s 1)) (visit (initial_state s ctx))"
  using assms by (auto simp: run_step_def Let_def visit_def initial_state_def)

definition once_cfg :: run_cfg where
  "once_cfg = gate_cfg\<lparr>rc_run_graph := gate_graph\<lparr>g_attrs := [''max_node_visits'' \<mapsto> ''1'']\<rparr>\<rparr>"

theorem visit_limit_one_runs_nothing_witness:
  "case run_step once_cfg (quiet_env zero_outcome) (initial_state ''a'' NewContext) of
     Stop r st \<Rightarrow> r = RunFailed (StuckCycle ''a'' 1) \<and> r_calls st = 0
   | Goto st \<Rightarrow> False"
proof -
  have "maxNodeVisits (Some (rc_run_graph once_cfg)) = 1" by code_simp
  moreover have "''a'' \<in> dom (g_nodes (rc_run_graph once_cfg))"
    by (simp add: once_cfg_def gate_nodes)
  moreover have "se_cancel (quiet_env zero_outcome) = None" by (simp add: quiet_env_def)
  ultimately show ?thesis
    using visit_limit_one_runs_nothing [of once_cfg "quiet_env zero_outcome" "''a''" NewContext]
    by (simp add: visit_def initial_state_def)
qed

end
