(* ===== verification/ParallelPolicy.thy ===== *)
theory ParallelPolicy
  imports StageExec JoinSearch "HOL-Library.Multiset"
begin

text \<open>
  Parallel branches and their fan-in: the join and error policies with their early termination
  (\<^verbatim>\<open>internal/attractor/engine/parallel_policy.go\<close>), the parallel handler, the
  choice of the winner and the outcome when all branches fail
  (\<^verbatim>\<open>internal/attractor/engine/parallel_handlers.go\<close>).

  Workers run concurrently; what they contribute is the list of the results that arrive, in the
  order of arrival.  The floating-point product of the quorum policy is an argument: the branches
  needed for a fraction text and a number of branches, and the fraction as printed with %.2f.
  Git, files and the lineage of inputs are inputs of the handlers.
\<close>

section \<open>Results and policies\<close>

record branch_result =
  BranchKey :: string
  BranchName :: string
  StartNodeID :: string
  StopNodeID :: string
  CXDBContextID :: string
  CXDBHeadTurnID :: string
  HeadSHA :: string
  LastNodeID :: string
  Outcome :: outcome
  Completed :: "string list"
  LogsRoot :: string
  WorktreeDir :: string
  BranchError :: string

definition zero_branch_result :: branch_result where
  "zero_branch_result = \<lparr>BranchKey = '''', BranchName = '''', StartNodeID = '''', StopNodeID = '''',
     CXDBContextID = '''', CXDBHeadTurnID = '''', HeadSHA = '''', LastNodeID = '''', Outcome = zero_outcome,
     Completed = [], LogsRoot = '''', WorktreeDir = '''', BranchError = ''''\<rparr>"

datatype join_policy = JoinWaitAll | JoinFirstSuccess | JoinKOfN | JoinQuorum

datatype error_policy = ErrContinue | ErrFailFast | ErrIgnore

definition parseJoinPolicy :: "string \<Rightarrow> join_policy" where
  "parseJoinPolicy s =
     (let t = to_lower (trim_space s) in
      if t = ''first_success'' then JoinFirstSuccess
      else if t = ''k_of_n'' then JoinKOfN
      else if t = ''quorum'' then JoinQuorum
      else JoinWaitAll)"

definition parseErrorPolicy :: "string \<Rightarrow> error_policy" where
  "parseErrorPolicy s =
     (let t = to_lower (trim_space s) in
      if t = ''fail_fast'' then ErrFailFast else if t = ''ignore'' then ErrIgnore else ErrContinue)"

definition parallelPolicies :: "node \<Rightarrow> join_policy \<times> error_policy" where
  "parallelPolicies n =
     (parseJoinPolicy (node_Attr (Some n) ''join_policy'' ''''),
      parseErrorPolicy (node_Attr (Some n) ''error_policy'' ''''))"

definition branch_succeeded :: "branch_result \<Rightarrow> bool" where
  "branch_succeeded r \<longleftrightarrow> Status (Outcome r) = StatusSuccess \<or> Status (Outcome r) = StatusPartialSuccess"

definition branch_failed :: "branch_result \<Rightarrow> bool" where
  "branch_failed r \<longleftrightarrow> Status (Outcome r) = StatusFail"

definition k_attr :: "node \<Rightarrow> int" where
  "k_attr n = parseInt (node_Attr (Some n) ''k'' '''') 1"

type_synonym quorum_arith = "string \<Rightarrow> nat \<Rightarrow> int \<times> string"

definition policy_success :: "string \<Rightarrow> outcome" where
  "policy_success notes = zero_outcome\<lparr>Status := StatusSuccess, Notes := notes\<rparr>"

definition evaluateJoinPolicy :: "quorum_arith \<Rightarrow> join_policy \<Rightarrow> node \<Rightarrow> branch_result list \<Rightarrow> outcome" where
  "evaluateJoinPolicy quorum jp n results =
     (let successCount = int (length (filter branch_succeeded results));
          failCount = int (length (filter branch_failed results));
          all = int (length results);
          dec = int_to_dec
      in case jp of
           JoinWaitAll \<Rightarrow>
             if failCount = 0 then policy_success (''wait_all: all '' @ dec all @ '' branches succeeded'')
             else zero_outcome\<lparr>Status := StatusPartialSuccess,
               Notes := ''wait_all: '' @ dec failCount @ ''/'' @ dec all @ '' branches failed'',
               FailureReason := dec failCount @ '' of '' @ dec all @ '' branches failed''\<rparr>
         | JoinFirstSuccess \<Rightarrow>
             if successCount > 0 then policy_success (''first_success: '' @ dec successCount @ '' succeeded'')
             else fail_outcome (''first_success: all '' @ dec all @ '' branches failed'')
         | JoinKOfN \<Rightarrow>
             (let k = (if k_attr n \<le> 0 then 1 else k_attr n) in
              if successCount \<ge> k then
                policy_success (''k_of_n: '' @ dec successCount @ ''/'' @ dec all @ '' succeeded (k='' @ dec k @ '')'')
              else fail_outcome (''k_of_n: only '' @ dec successCount @ ''/'' @ dec all @
                '' succeeded (need k='' @ dec k @ '')''))
         | JoinQuorum \<Rightarrow>
             (case quorum (node_Attr (Some n) ''quorum_fraction'' '''') (length results) of (part, shown) \<Rightarrow>
                (let needed = (if part < 1 then 1 else part) in
                 if successCount \<ge> needed then
                   policy_success (''quorum: '' @ dec successCount @ ''/'' @ dec all @ '' succeeded (needed '' @
                     dec needed @ '', fraction='' @ shown @ '')'')
                 else fail_outcome (''quorum: only '' @ dec successCount @ ''/'' @ dec all @
                   '' succeeded (need '' @ dec needed @ '', fraction='' @ shown @ '')''))))"

definition filterResultsByErrorPolicy :: "error_policy \<Rightarrow> branch_result list \<Rightarrow> branch_result list" where
  "filterResultsByErrorPolicy ep results =
     (if ep \<noteq> ErrIgnore then results else filter (\<lambda>r. Status (Outcome r) \<noteq> StatusFail) results)"

section \<open>Dispatch and early termination\<close>

definition branch_less :: "branch_result \<Rightarrow> branch_result \<Rightarrow> bool" where
  "branch_less r s = (if BranchKey r \<noteq> BranchKey s then BranchKey r < BranchKey s else StartNodeID r < StartNodeID s)"

text \<open>Every branch runs to its end; the results are put in order.\<close>

definition dispatchParallelBranches :: "(nat \<Rightarrow> edge \<Rightarrow> branch_result) \<Rightarrow> edge list \<Rightarrow> branch_result list" where
  "dispatchParallelBranches run branches =
     slice_stable branch_less (map (\<lambda>(i, e). run i e) (zip [0..<length branches] branches))"

definition needsEarlyTermination :: "join_policy \<Rightarrow> error_policy \<Rightarrow> bool" where
  "needsEarlyTermination jp ep \<longleftrightarrow> ep = ErrFailFast \<or> jp = JoinFirstSuccess \<or> jp = JoinKOfN"

text \<open>The verb \<^verbatim>\<open>%q\<close> on a branch key, which holds no byte that needs an escape.\<close>

definition quoted :: "string \<Rightarrow> string" where
  "quoted s = CHR 0x22 # s @ [CHR 0x22]"

definition earlyTerminationCheck ::
  "join_policy \<Rightarrow> error_policy \<Rightarrow> node \<Rightarrow> branch_result \<Rightarrow> int \<Rightarrow> bool \<times> string" where
  "earlyTerminationCheck jp ep n result successSoFar =
     (if ep = ErrFailFast \<and> branch_failed result then 
        (True, ''fail_fast: branch '' @ quoted (BranchKey result) @ '' failed'')
      else if jp = JoinFirstSuccess \<and> branch_succeeded result then
        (True, ''first_success: branch '' @ quoted (BranchKey result) @ '' succeeded'')
      else if jp = JoinKOfN \<and> k_attr n > 0 \<and> successSoFar \<ge> k_attr n then
        (True, ''k_of_n: reached k='' @ int_to_dec (k_attr n) @ '' successes'')
      else (False, ''''))"

record stream_state =
  ss_slots :: "branch_result list"
  ss_success :: int
  ss_fail :: int
  ss_received :: nat
  ss_terminated :: bool

definition stream_step ::
  "join_policy \<Rightarrow> error_policy \<Rightarrow> node \<Rightarrow> nat \<times> branch_result \<Rightarrow> stream_state \<Rightarrow> stream_state" where
  "stream_step jp ep n ir st =
     (case ir of (idx, r) \<Rightarrow>
        (let st1 = st\<lparr>ss_slots := (ss_slots st)[idx := r], ss_received := Suc (ss_received st),
               ss_success := ss_success st + (if branch_succeeded r then 1 else 0),
               ss_fail := ss_fail st + (if \<not> branch_succeeded r \<and> branch_failed r then 1 else 0)\<rparr>
         in if \<not> ss_terminated st1 \<and> fst (earlyTerminationCheck jp ep n r (ss_success st1))
            then st1\<lparr>ss_terminated := True\<rparr> else st1))"

definition stream_all ::
  "join_policy \<Rightarrow> error_policy \<Rightarrow> node \<Rightarrow> nat \<Rightarrow> (nat \<times> branch_result) list \<Rightarrow> stream_state" where
  "stream_all jp ep n len arrivals = fold (stream_step jp ep n) arrivals
     \<lparr>ss_slots = replicate len zero_branch_result, ss_success = 0, ss_fail = 0, ss_received = 0, ss_terminated = False\<rparr>"

text \<open>Empty slots, of branches that never ran, are dropped.\<close>

definition dispatchParallelBranchesStreaming ::
  "join_policy \<Rightarrow> error_policy \<Rightarrow> node \<Rightarrow> nat \<Rightarrow> (nat \<times> branch_result) list \<Rightarrow> branch_result list" where
  "dispatchParallelBranchesStreaming jp ep n len arrivals =
     slice_stable branch_less (filter (\<lambda>r. BranchKey r \<noteq> '''') (ss_slots (stream_all jp ep n len arrivals)))"

section \<open>The parallel handler\<close>

fun join_error_text :: "join_error \<Rightarrow> string" where
  "join_error_text NoBranches = ''no branches''"
| "join_error_text NoConvergence = ''no convergence node reachable from all branches''"
| "join_error_text OutOfFuel = ''''"

record branch_runs =
  bn_dispatch_error :: "string option"
  bn_run :: "nat \<Rightarrow> edge \<Rightarrow> branch_result"
  bn_arrivals :: "(nat \<times> branch_result) list"

definition dispatchParallelBranchesWithPolicy ::
  "join_policy \<Rightarrow> error_policy \<Rightarrow> node \<Rightarrow> edge list \<Rightarrow> branch_runs \<Rightarrow> string + branch_result list" where
  "dispatchParallelBranchesWithPolicy jp ep n branches runs = (case bn_dispatch_error runs of
      Some err \<Rightarrow> Inl err
    | None \<Rightarrow>
        if \<not> needsEarlyTermination jp ep then Inr (dispatchParallelBranches (bn_run runs) branches)
        else Inr (dispatchParallelBranchesStreaming jp ep n (length branches) (bn_arrivals runs)))"

text \<open>The outcome of the handler, and the results it leaves in the context for the fan-in.\<close>

definition parallel_Execute ::
  "quorum_arith \<Rightarrow> graph \<Rightarrow> node \<Rightarrow> branch_runs \<Rightarrow> outcome \<times> branch_result list" where
  "parallel_Execute quorum g n runs =
     (let branches = Outgoing g (node_id n) in
      if branches = [] then (fail_outcome ''parallel node has no outgoing edges'', [])
      else (case findJoinNode g branches of
          Inl err \<Rightarrow> (fail_outcome (join_error_text err), [])
        | Inr joinID \<Rightarrow>
            (case parallelPolicies n of (jp, ep) \<Rightarrow>
              (case dispatchParallelBranchesWithPolicy jp ep n branches runs of
                 Inl err \<Rightarrow> (fail_outcome err, [])
               | Inr results \<Rightarrow>
                   (let kept = filterResultsByErrorPolicy ep results;
                        policyOutcome = evaluateJoinPolicy quorum jp n kept
                    in (zero_outcome\<lparr>Status := Status policyOutcome,
                          Notes := ''parallel fan-out complete ('' @ int_to_dec (int (length results)) @
                            '' branches), join='' @ joinID @ ''; '' @ Notes policyOutcome,
                          FailureReason := FailureReason policyOutcome,
                          ContextUpdates := Some [''parallel.join_node'' \<mapsto> VStr joinID,
                            ''parallel.merge_mode'' \<mapsto> VStr (classifyJoinMergeMode g joinID)]\<rparr>, kept))))))"

section \<open>Fan-in\<close>

definition winner_rank :: "stage_status \<Rightarrow> nat" where
  "winner_rank s =
     (if s = StatusSuccess then 0 else if s = StatusPartialSuccess then 1
      else if s = StatusRetry then 2 else if s = StatusFail then 3 else 9)"

definition winner_less :: "branch_result \<Rightarrow> branch_result \<Rightarrow> bool" where
  "winner_less r s =
     (let ri = winner_rank (Status (Outcome r)); rj = winner_rank (Status (Outcome s)) in
      if ri \<noteq> rj then ri < rj
      else if BranchKey r \<noteq> BranchKey s then BranchKey r < BranchKey s
      else HeadSHA r < HeadSHA s)"

definition selectHeuristicWinner :: "branch_result list \<Rightarrow> branch_result option" where
  "selectHeuristicWinner results =
     (case slice_stable winner_less (filter (\<lambda>r. \<not> branch_failed r) results) of
        [] \<Rightarrow> None | r # _ \<Rightarrow> Some r)"

definition classifyParallelAllFailFailureClass :: "branch_result list \<Rightarrow> failure_class" where
  "classifyParallelAllFailFailureClass results =
     (if results = [] then failureClassDeterministic
      else if \<exists>r \<in> set results. normalizedFailureClassOrDefault (readFailureClassHint (Outcome r)) \<noteq> failureClassTransientInfra
        then failureClassDeterministic
      else failureClassTransientInfra)"

definition all_fail_part :: "branch_result \<Rightarrow> string" where
  "all_fail_part r =
     (let reason0 = normalizeFailureReason (FailureReason (Outcome r));
          reason = (if reason0 = '''' then ''status='' @ to_lower (trim_space (Status (Outcome r))) else reason0);
          key0 = trim_space (BranchKey r);
          key1 = (if key0 = '''' then trim_space (BranchName r) else key0);
          key = (if key1 = '''' then ''unknown'' else key1)
      in key @ '':'' @ reason)"

definition parallelAllFailSignature :: "branch_result list \<Rightarrow> failure_class \<Rightarrow> string" where
  "parallelAllFailSignature results failureClass =
     take 512 (''parallel_all_failed|'' @ normalizedFailureClassOrDefault failureClass @ ''|branches='' @
       int_to_dec (int (length results)) @ ''|'' @ join_with '';'' (sort (map all_fail_part results)))"

definition all_failed_outcome :: "branch_result list \<Rightarrow> outcome" where
  "all_failed_outcome results =
     (let failureClass = classifyParallelAllFailFailureClass results in
      (fail_outcome ''all parallel branches failed'')\<lparr>
        Meta := Some [''failure_class'' \<mapsto> VStr failureClass,
                      ''failure_signature'' \<mapsto> VStr (parallelAllFailSignature results failureClass)],
        ContextUpdates := Some [''failure_class'' \<mapsto> VStr failureClass]\<rparr>)"

text \<open>
  The results in the context are absent, do not decode or are a list; merging the winner and the
  lineage of the inputs can fail, the latter with a conflict.
\<close>

datatype merge_result = Merged string | MergeConflict goval | MergeError string

record fan_in_env =
  fe_results :: "(string + branch_result list) option"
  fe_merge_branch :: "string \<Rightarrow> string option"
  fe_lineage :: merge_result

definition losers :: "branch_result \<Rightarrow> branch_result list \<Rightarrow> branch_result list" where
  "losers winner results = filter (\<lambda>r. \<not> (BranchKey r = BranchKey winner \<and> HeadSHA r = HeadSHA winner)) results"

definition loser_entry :: "branch_result \<Rightarrow> goval" where
  "loser_entry r = VMap [(''branch_key'', VStr (BranchKey r)), (''branch_name'', VStr (BranchName r)),
     (''cxdb_context_id'', VStr (CXDBContextID r)), (''cxdb_head_turn_id'', VStr (CXDBHeadTurnID r)),
     (''head_sha'', VStr (HeadSHA r)), (''logs_root'', VStr (LogsRoot r)), (''status'', VStr (Status (Outcome r)))]"

definition fan_in_success :: "(outcome \<Rightarrow> goval) \<Rightarrow> branch_result \<Rightarrow> branch_result list \<Rightarrow> string \<Rightarrow> outcome" where
  "fan_in_success enc winner results head =
     (let updates = [''parallel.fan_in.best_id'' \<mapsto> VStr (BranchKey winner),
            ''parallel.fan_in.best_outcome'' \<mapsto> enc (Outcome winner),
            ''parallel.fan_in.best_head_sha'' \<mapsto> VStr (HeadSHA winner),
            ''parallel.fan_in.best_cxdb_context_id'' \<mapsto> VStr (CXDBContextID winner),
            ''parallel.fan_in.best_cxdb_head_turn_id'' \<mapsto> VStr (CXDBHeadTurnID winner),
            ''parallel.fan_in.losers'' \<mapsto> VList (map loser_entry (losers winner results))]
      in zero_outcome\<lparr>Status := StatusSuccess,
           Notes := ''fan-in selected '' @ BranchKey winner @ '' ('' @ Status (Outcome winner) @ '')'',
           ContextUpdates := Some (if trim_space head \<noteq> ''''
             then updates(''input_lineage.run_head_revision'' \<mapsto> VStr (trim_space head)) else updates)\<rparr>)"

definition fan_in_Execute :: "(outcome \<Rightarrow> goval) \<Rightarrow> fan_in_env \<Rightarrow> outcome" where
  "fan_in_Execute enc ev = (case fe_results ev of
      None \<Rightarrow> fail_outcome ''no parallel.results found in context''
    | Some (Inl err) \<Rightarrow> fail_outcome err
    | Some (Inr results) \<Rightarrow>
        if results = [] then fail_outcome ''no parallel results to evaluate''
        else (case selectHeuristicWinner results of
            None \<Rightarrow> all_failed_outcome results
          | Some winner \<Rightarrow>
              (case (if trim_space (HeadSHA winner) \<noteq> '''' then fe_merge_branch ev (HeadSHA winner) else None) of
                 Some err \<Rightarrow> fail_outcome err
               | None \<Rightarrow> (case fe_lineage ev of
                   MergeError err \<Rightarrow> fail_outcome err
                 | MergeConflict conflicts \<Rightarrow> (fail_outcome ''input_snapshot_conflict'')\<lparr>
                     Meta := Some [''conflicts'' \<mapsto> conflicts, ''failure_class'' \<mapsto> VStr failureClassDeterministic],
                     ContextUpdates := Some [''failure_class'' \<mapsto> VStr failureClassDeterministic]\<rparr>
                 | Merged head \<Rightarrow> fan_in_success enc winner results head))))"

section \<open>Early termination\<close>

definition succ_count :: "branch_result list \<Rightarrow> nat" where
  "succ_count rs = length (filter branch_succeeded rs)"

lemma succ_count_mset: "mset rs = mset ss \<Longrightarrow> succ_count rs = succ_count ss"
  unfolding succ_count_def by (metis mset_filter size_mset)

text \<open>What can arrive: one result for each of some of the branches, each with a key.\<close>

definition valid_arrivals :: "nat \<Rightarrow> (nat \<times> branch_result) list \<Rightarrow> bool" where
  "valid_arrivals len arrivals \<longleftrightarrow> distinct (map fst arrivals) \<and>
     (\<forall>(i, r) \<in> set arrivals. i < len \<and> BranchKey r \<noteq> '''')"

lemma stream_step_sel [simp]:
  "ss_slots (stream_step jp ep n (i, r) st) = (ss_slots st)[i := r]"
  "ss_success (stream_step jp ep n (i, r) st) = ss_success st + (if branch_succeeded r then 1 else 0)"
  "ss_terminated (stream_step jp ep n (i, r) st) \<longleftrightarrow> ss_terminated st \<or>
     fst (earlyTerminationCheck jp ep n r (ss_success st + (if branch_succeeded r then 1 else 0)))"
  by (simp_all add: stream_step_def Let_def)

lemma ss_success_fold:
  "ss_success (fold (stream_step jp ep n) arrivals st) = ss_success st + int (succ_count (map snd arrivals))"
  by (induction arrivals arbitrary: st) (auto simp: succ_count_def)

lemma mset_filter_update:
  assumes "i < length xs" "\<not> P (xs ! i)" "P x"
  shows "mset (filter P (xs[i := x])) = add_mset x (mset (filter P xs))"
  using assms
proof (induction xs arbitrary: i)
  case (Cons y ys)
  then show ?case by (cases i) auto
qed simp

lemma slots_fold:
  assumes "distinct (map fst arrivals)" "\<forall>(i, r) \<in> set arrivals. i < length (ss_slots st) \<and> BranchKey r \<noteq> '''' \<and>
      BranchKey (ss_slots st ! i) = ''''"
  shows "mset (filter (\<lambda>r. BranchKey r \<noteq> '''') (ss_slots (fold (stream_step jp ep n) arrivals st))) =
    mset (filter (\<lambda>r. BranchKey r \<noteq> '''') (ss_slots st)) + mset (map snd arrivals)"
  using assms
proof (induction arrivals arbitrary: st)
  case Nil
  then show ?case by simp
next
  case (Cons ir arrivals)
  obtain i r where ir: "ir = (i, r)" by (cases ir)
  let ?st = "stream_step jp ep n (i, r) st"
  have "\<forall>(j, s) \<in> set arrivals. j < length (ss_slots ?st) \<and> BranchKey s \<noteq> '''' \<and> BranchKey (ss_slots ?st ! j) = ''''"
    using Cons.prems ir by (force simp: nth_list_update)
  moreover have "mset (filter (\<lambda>r. BranchKey r \<noteq> '''') (ss_slots ?st)) =
      add_mset r (mset (filter (\<lambda>r. BranchKey r \<noteq> '''') (ss_slots st)))"
    unfolding stream_step_sel using Cons.prems(2) ir by (intro mset_filter_update) auto
  ultimately show ?case
    using Cons.IH [of ?st] Cons.prems(1) ir by simp
qed

lemma mset_insert_stable: "mset (insert_stable lt x xs) = add_mset x (mset xs)"
  by (induction xs) auto

lemma mset_slice_stable: "mset (slice_stable lt xs) = mset xs"
  unfolding slice_stable_def by (induction xs) (simp_all add: mset_insert_stable)

lemma slice_stable_Nil: "slice_stable lt xs = [] \<longleftrightarrow> xs = []"
  using mset_slice_stable [of lt xs] by auto

lemma streamed_results:
  assumes "valid_arrivals len arrivals"
  shows "mset (dispatchParallelBranchesStreaming jp ep n len arrivals) = mset (map snd arrivals)"
proof -
  let ?st = "\<lparr>ss_slots = replicate len zero_branch_result, ss_success = 0, ss_fail = 0, ss_received = 0,
    ss_terminated = False\<rparr>"
  have zero: "BranchKey zero_branch_result = ''''" by (simp add: zero_branch_result_def)
  have "\<forall>(i, r) \<in> set arrivals. i < length (ss_slots ?st) \<and> BranchKey r \<noteq> '''' \<and> BranchKey (ss_slots ?st ! i) = ''''"
    using assms by (auto simp: valid_arrivals_def zero)
  with slots_fold [of arrivals ?st jp ep n] assms show ?thesis
    by (simp add: dispatchParallelBranchesStreaming_def stream_all_def mset_slice_stable valid_arrivals_def zero)
qed

lemma succ_count_Cons: "succ_count (r # rs) = (if branch_succeeded r then 1 else 0) + succ_count rs"
  by (simp add: succ_count_def)

lemma check_first_success:
  "ep \<noteq> ErrFailFast \<Longrightarrow> fst (earlyTerminationCheck JoinFirstSuccess ep n r s) \<longleftrightarrow> branch_succeeded r"
  by (simp add: earlyTerminationCheck_def)

lemma check_k_of_n:
  "ep \<noteq> ErrFailFast \<Longrightarrow> fst (earlyTerminationCheck JoinKOfN ep n r s) \<longleftrightarrow> 0 < k_attr n \<and> k_attr n \<le> s"
  by (simp add: earlyTerminationCheck_def)

lemma first_success_terminated:
  assumes "ep \<noteq> ErrFailFast"
  shows "ss_terminated (fold (stream_step JoinFirstSuccess ep n) arrivals st) \<longleftrightarrow>
    ss_terminated st \<or> 0 < succ_count (map snd arrivals)"
proof (induction arrivals arbitrary: st)
  case Nil
  then show ?case by (simp add: succ_count_def)
next
  case (Cons ir arrivals)
  obtain i r where "ir = (i, r)" by (cases ir)
  with Cons check_first_success [OF assms] show ?case by (auto simp: succ_count_Cons)
qed

lemma k_of_n_terminated:
  assumes "ep \<noteq> ErrFailFast" "0 < k_attr n"
  shows "ss_terminated (fold (stream_step JoinKOfN ep n) arrivals st) \<longleftrightarrow>
    ss_terminated st \<or> arrivals \<noteq> [] \<and> k_attr n \<le> ss_success st + int (succ_count (map snd arrivals))"
proof (induction arrivals arbitrary: st)
  case Nil
  then show ?case by simp
next
  case (Cons ir arrivals)
  obtain i r where ir: "ir = (i, r)" by (cases ir)
  show ?case
  proof (cases "arrivals = []")
    case True
    then show ?thesis
      using check_k_of_n [OF assms(1)] assms(2) ir by (auto simp: succ_count_def)
  next
    case False
    then show ?thesis
      using Cons.IH [of "stream_step JoinKOfN ep n (i, r) st"] check_k_of_n [OF assms(1)] assms(2)
      by (auto simp: ir succ_count_Cons)
  qed
qed

lemma filter_policy_count: "succ_count (filterResultsByErrorPolicy ep rs) = succ_count rs"
proof -
  have "filter branch_succeeded (filter (\<lambda>r. Status (Outcome r) \<noteq> StatusFail) rs) = filter branch_succeeded rs"
    by (auto simp: branch_succeeded_def status_defs intro!: filter_cong)
  then show ?thesis by (simp add: filterResultsByErrorPolicy_def succ_count_def)
qed

text \<open>The successes a policy waits for.\<close>

definition needed_successes :: "join_policy \<Rightarrow> node \<Rightarrow> int" where
  "needed_successes jp n = (if jp = JoinKOfN then k_attr n else 1)"

lemma policy_status:
  assumes "jp = JoinFirstSuccess \<or> jp = JoinKOfN" "0 < needed_successes jp n"
  shows "Status (evaluateJoinPolicy quorum jp n rs) =
    (if needed_successes jp n \<le> int (succ_count rs) then StatusSuccess else StatusFail)"
  using assms
  by (cases "filter branch_succeeded rs")
     (auto simp: evaluateJoinPolicy_def Let_def needed_successes_def succ_count_def policy_success_def fail_outcome_def)

lemma stream_terminated:
  assumes "jp = JoinFirstSuccess \<or> jp = JoinKOfN" "0 < needed_successes jp n" "ep \<noteq> ErrFailFast"
  shows "ss_terminated (stream_all jp ep n len arrivals) \<longleftrightarrow>
    needed_successes jp n \<le> int (succ_count (map snd arrivals))"
proof (cases "jp = JoinFirstSuccess")
  case True
  then show ?thesis
    using first_success_terminated [OF assms(3)] by (auto simp: stream_all_def needed_successes_def)
next
  case False
  with assms have k: "jp = JoinKOfN" "0 < k_attr n" by (auto simp: needed_successes_def)
  then show ?thesis
    using k_of_n_terminated [OF assms(3) k(2), of arrivals]
    by (cases arrivals) (simp_all add: stream_all_def needed_successes_def succ_count_def)
qed

section \<open>The winner\<close>

definition winner_key :: "branch_result \<Rightarrow> nat \<times> string \<times> string" where
  "winner_key r = (winner_rank (Status (Outcome r)), BranchKey r, HeadSHA r)"

definition live_results :: "branch_result list \<Rightarrow> branch_result list" where
  "live_results results = filter (\<lambda>r. \<not> branch_failed r) results"

lemma sort_winner: "slice_stable winner_less rs = sort_key winner_key rs"
  by (rule slice_stable_sort_key) (auto simp: winner_less_def winner_key_def Let_def)

interpretation winner: ranked_choice live_results "\<lambda>_. winner_key" selectHeuristicWinner
proof unfold_locales
  fix results r
  show "selectHeuristicWinner results = None \<longleftrightarrow> live_results results = []"
    using slice_stable_Nil [of winner_less "live_results results"]
    by (auto simp: selectHeuristicWinner_def live_results_def split: list.splits)
  show "r \<in> set (live_results results) \<and> (\<forall>s \<in> set (live_results results). winner_key r \<le> winner_key s)"
    if "selectHeuristicWinner results = Some r"
  proof -
    from that obtain rest where s: "sort_key winner_key (live_results results) = r # rest"
      by (auto simp: selectHeuristicWinner_def sort_winner live_results_def split: list.splits)
    have "set (r # rest) = set (live_results results)" by (metis s set_sort)
    moreover have "\<forall>s \<in> set rest. winner_key r \<le> winner_key s"
      using sorted_sort_key [of winner_key "live_results results"] by (simp add: s)
    ultimately show ?thesis by auto
  qed
qed

section \<open>Properties\<close>


definition ended :: "string \<Rightarrow> stage_status \<Rightarrow> branch_result" where
  "ended key status = zero_branch_result\<lparr>BranchKey := key, Outcome := zero_outcome\<lparr>Status := status\<rparr>\<rparr>"

definition two_of_three :: node where
  "two_of_three = (NewNode ''p'')\<lparr>node_attrs := [''k'' \<mapsto> ''2'', ''join_policy'' \<mapsto> ''k_of_n'']\<rparr>"


text \<open>
  the winner of a fan-in is a branch that did not fail, with the best status, and among these the
  least key and commit; there is none exactly when all branches failed.
\<close>

theorem fan_in_winner_least:
  shows "case selectHeuristicWinner results of
      None \<Rightarrow> filter (\<lambda>r. Status (Outcome r) \<noteq> ''fail'') results = []
    | Some r \<Rightarrow> r \<in> set (filter (\<lambda>r. Status (Outcome r) \<noteq> ''fail'') results) \<and>
        filter (\<lambda>s. Status (Outcome s) \<noteq> ''fail'' \<and>
          (winner_rank (Status (Outcome s)), BranchKey s, HeadSHA s) <
          (winner_rank (Status (Outcome r)), BranchKey r, HeadSHA r)) results = []"
proof -
  have live: "live_results results = filter (\<lambda>r. Status (Outcome r) \<noteq> ''fail'') results"
    by (simp add: live_results_def branch_failed_def status_defs)
  show ?thesis
    using winner.pick_None [of results] winner.pick_least [of results]
    by (auto simp: live winner_key_def not_less [symmetric] filter_empty_conv split: option.split)
qed

text \<open>
  the policies know two successful statuses: branches that end with degraded_success, which
  satisfies goal gates and ends a stage, are failures for first_success and for k_of_n, no failures
  for wait_all, and come behind a branch that asks for a retry when the winner is chosen.
\<close>

theorem degraded_success_is_no_success:
  assumes "\<And>r. r \<in> set results \<Longrightarrow> Status (Outcome r) = ''degraded_success''"
  shows "Status (evaluateJoinPolicy quorum JoinFirstSuccess n results) = ''fail'' \<and>
    Status (evaluateJoinPolicy quorum JoinKOfN n results) = ''fail'' \<and>
    Status (evaluateJoinPolicy quorum JoinWaitAll n results) = ''success'' \<and>
    (if results = [] then True else selectHeuristicWinner (results @ [ended key ''retry'']) = Some (ended key ''retry''))"
proof -
  have "filter branch_succeeded results = []" "filter branch_failed results = []"
    using assms by (auto simp: filter_empty_conv branch_succeeded_def branch_failed_def status_defs)
  moreover have "selectHeuristicWinner (results @ [ended key ''retry'']) = Some (ended key ''retry'')"
  proof -
    let ?rs = "results @ [ended key ''retry'']" and ?w = "ended key ''retry''"
    have live: "set (live_results ?rs) = insert ?w (set results)"
      using assms by (auto simp: live_results_def branch_failed_def ended_def status_defs)
    obtain r where r: "selectHeuristicWinner ?rs = Some r"
      using winner.pick_Some [of ?rs] live by fastforce
    from winner.pick_least [OF r] live have "r \<in> insert ?w (set results)" "winner_key r \<le> winner_key ?w" by auto
    with assms have "r = ?w"
      by (auto simp: winner_key_def winner_rank_def ended_def status_defs)
    with r show ?thesis by simp
  qed
  ultimately show ?thesis
    by (auto simp: evaluateJoinPolicy_def Let_def policy_success_def fail_outcome_def status_defs)
qed

theorem degraded_success_is_no_success_witness:
  "Status (evaluateJoinPolicy (\<lambda>f m. (1, f)) JoinFirstSuccess two_of_three [ended ''a'' ''degraded_success'']) = ''fail''"
  using degraded_success_is_no_success [of "[ended ''a'' ''degraded_success'']" "\<lambda>f m. (1, f)" two_of_three]
  by (simp add: ended_def)

section \<open>All branches failed\<close>

lemma hint_of_meta:
  "readFailureClassHint ((fail_outcome reason)\<lparr>Meta := Some m, ContextUpdates := u\<rparr>) = cls"
  if "m ''failure_class'' = Some (VStr cls)" "trim_space cls = cls" "cls \<noteq> ''''" "cls \<noteq> ''<nil>''"
  using that by (simp add: readFailureClassHint_def read_hint_def hint_of_def map_of_nil_def)

lemma all_failed_class:
  assumes "results \<noteq> []" "\<And>r. r \<in> set results \<Longrightarrow> branch_failed r"
  shows "fan_in_Execute enc (ev\<lparr>fe_results := Some (Inr results)\<rparr>) = all_failed_outcome results"
proof -
  have "live_results results = []" using assms(2) by (simp add: live_results_def filter_empty_conv)
  then have "selectHeuristicWinner results = None" by (simp add: winner.pick_None)
  with assms(1) show ?thesis by (simp add: fan_in_Execute_def)
qed

text \<open>
  when all branches failed the fan-in fails, and its class, which decides whether a retry target
  may be taken, is transient_infra only if every branch carries that class as a hint: the reasons
  of the branches, by which a stage of the main loop is classified, are not looked at.
\<close>

theorem fan_in_class_ignores_reasons:
  assumes "results \<noteq> []" and "\<And>r. r \<in> set results \<Longrightarrow> Status (Outcome r) = ''fail''"
    and "\<exists>r \<in> set results. readFailureClassHint (Outcome r) = ''''"
  shows "classifyFailureClass (fan_in_Execute enc (ev\<lparr>fe_results := Some (Inr results)\<rparr>)) = ''deterministic''"
proof -
  from assms(3) obtain r where "r \<in> set results" "readFailureClassHint (Outcome r) = ''''" by blast
  moreover have "normalizedFailureClassOrDefault '''' \<noteq> failureClassTransientInfra" by code_simp
  ultimately have "classifyParallelAllFailFailureClass results = failureClassDeterministic"
    unfolding classifyParallelAllFailFailureClass_def by metis
  then have "readFailureClassHint (all_failed_outcome results) = ''deterministic''"
    unfolding all_failed_outcome_def Let_def
    by (intro hint_of_meta) (simp_all add: failureClassDeterministic_def, code_simp)
  moreover have "normalizedFailureClass ''deterministic'' = ''deterministic''" by code_simp
  moreover have "isFailureLoopRestartOutcome (all_failed_outcome results)"
    by (simp add: all_failed_outcome_def Let_def fail_outcome_def isFailureLoopRestartOutcome_def)
  ultimately have "classifyFailureClass (all_failed_outcome results) = ''deterministic''"
    by (simp add: classifyFailureClass_def)
  moreover have "\<And>r. r \<in> set results \<Longrightarrow> branch_failed r"
    using assms(2) by (simp add: branch_failed_def status_defs)
  ultimately show ?thesis
    using all_failed_class [OF assms(1), of enc ev] by simp
qed

definition reset_branch :: branch_result where
  "reset_branch = zero_branch_result\<lparr>BranchKey := ''a'', Outcome := fail_outcome ''connection reset''\<rparr>"

definition plain_fan_in :: fan_in_env where
  "plain_fan_in = \<lparr>fe_results = None, fe_merge_branch = (\<lambda>_. None), fe_lineage = Merged ''''\<rparr>"

theorem fan_in_class_ignores_reasons_witness:
  "classifyFailureClass (Outcome reset_branch) = ''transient_infra'' \<and>
   classifyFailureClass (fan_in_Execute (\<lambda>_. VNil) (plain_fan_in\<lparr>fe_results := Some (Inr [reset_branch])\<rparr>)) = ''deterministic''"
proof (rule conjI)
  show "classifyFailureClass (Outcome reset_branch) = ''transient_infra''" by code_simp
  have "Status (Outcome reset_branch) = ''fail''" "readFailureClassHint (Outcome reset_branch) = ''''" by code_simp+
  then show "classifyFailureClass (fan_in_Execute (\<lambda>_. VNil) (plain_fan_in\<lparr>fe_results := Some (Inr [reset_branch])\<rparr>)) = ''deterministic''"
    by (intro fan_in_class_ignores_reasons) auto
qed

end
