(* ===== verification/Subgraph.thy ===== *)
theory Subgraph
  imports RunLoop ParallelPolicy
begin

text \<open>
  A parallel branch: \<^verbatim>\<open>runSubgraphUntil\<close> of \<^verbatim>\<open>internal/attractor/engine/subgraph.go\<close>
  as a step function, and what \<^verbatim>\<open>runBranch\<close> of \<^verbatim>\<open>parallel_handlers.go\<close> makes of
  its result.  The environment of a pass says when cancellation is seen, what the attempts of the
  stage do and what the checkpoint returns.
\<close>

section \<open>State and results\<close>

record sub_state =
  sb_current :: string
  sb_completed :: "string list"
  sb_retries :: "string \<Rightarrow> int"
  sb_visits :: "string \<Rightarrow> int"
  sb_context :: run_context
  sb_sigs :: "string \<Rightarrow> int"
  sb_head :: string
  sb_last :: string
  sb_outcome :: outcome

record sub_env =
  sv_cancel_top :: "string option"
  sv_attempts :: "int \<Rightarrow> attempt_env"
  sv_prior_json :: "outcome option"
  sv_cancel_stage :: "string option"
  sv_dossier :: "goval list"
  sv_checkpoint :: "string + string"
  sv_cancel_checkpoint :: "string option"
  sv_cancel_route :: "string option"

record sub_cfg =
  sc_graph :: graph
  sc_registered :: "string list"
  sc_stop :: string

datatype sub_error =
    SubCancelled string
  | SubMissingNode string
  | SubStuckCycle string int
  | SubStructural string
  | SubDeterministicCycle string
  | SubCheckpoint string
  | SubCondition cond_error
  | SubLoopRestart
  | SubNoStart

datatype sub_result = SubNext sub_state | SubDone branch_result "sub_error option"

definition build_result :: "sub_state \<Rightarrow> outcome \<Rightarrow> branch_result" where
  "build_result st out = zero_branch_result\<lparr>HeadSHA := sb_head st, LastNodeID := sb_last st, Outcome := out,
     Completed := sb_completed st\<rparr>"

section \<open>One pass\<close>

text \<open>Leaving a finished stage: its edge, the stop node, the end of the branch.\<close>

definition sub_route :: "sub_cfg \<Rightarrow> sub_env \<Rightarrow> node \<Rightarrow> outcome \<Rightarrow> sub_state \<Rightarrow> sub_result" where
  "sub_route cfg ev n out st =
     (case selectNextEdgeWithMeta (sc_graph cfg) (node_id n) out (Some (sb_context st)) of
        Inl err \<Rightarrow> SubDone zero_branch_result (Some (SubCondition err))
      | Inr (None, _) \<Rightarrow> SubDone (build_result st (sb_outcome st)) None
      | Inr (Some next, _) \<Rightarrow>
          if trim_space (sc_stop cfg) \<noteq> '''' \<and> edge_to next = sc_stop cfg then SubDone (build_result st (sb_outcome st)) None
          else if equal_fold (edge_Attr (Some next) ''loop_restart'' ''false'') ''true'' then
            SubDone zero_branch_result (Some SubLoopRestart)
          else (case sv_cancel_route ev of
              Some cause \<Rightarrow> SubDone (build_result st (sb_outcome st)) (Some (SubCancelled cause))
            | None \<Rightarrow> SubNext (st\<lparr>sb_current := edge_to next\<rparr>)))"

text \<open>The checks after a stage that end the branch, then the checkpoint.\<close>

definition sub_finish :: "sub_cfg \<Rightarrow> sub_env \<Rightarrow> node \<Rightarrow> outcome \<Rightarrow> failure_class \<Rightarrow> sub_state \<Rightarrow> sub_result" where
  "sub_finish cfg ev n out failureClass st =
     (if isFailureLoopRestartOutcome out \<and> normalizedFailureClassOrDefault failureClass = failureClassStructural then
        SubDone (build_result st out) (Some (SubStructural (FailureReason out)))
      else (let sig = restartFailureSignature (node_id n) out failureClass;
                tracked = (isFailureLoopRestartOutcome out \<and> isSignatureTrackedFailureClass failureClass \<and> sig \<noteq> '''');
                st1 = (if tracked then st\<lparr>sb_sigs := (sb_sigs st)(sig := sb_sigs st sig + 1)\<rparr> else st)
            in if tracked \<and> sb_sigs st1 sig \<ge> loopRestartSignatureLimit (Some (sc_graph cfg)) then
                 SubDone (build_result st1 out) (Some (SubDeterministicCycle sig))
               else (case sv_checkpoint ev of
                   Inl err \<Rightarrow> SubDone zero_branch_result (Some (SubCheckpoint err))
                 | Inr sha \<Rightarrow>
                     (let st2 = st1\<lparr>sb_head := sha, sb_last := node_id n, sb_outcome := out\<rparr> in
                      case sv_cancel_checkpoint ev of
                        Some cause \<Rightarrow> SubDone (build_result st2 (sb_outcome st2)) (Some (SubCancelled cause))
                      | None \<Rightarrow> sub_route cfg ev n out st2))))"

text \<open>Running the stage and recording it in the context.\<close>

definition sub_record :: "sub_env \<Rightarrow> node \<Rightarrow> outcome \<Rightarrow> sub_state \<Rightarrow> sub_state" where
  "sub_record ev n out st =
     (let c1 = ctx_ApplyUpdates (sb_context st) (ContextUpdates out);
          c2 = ctx_Set c1 ''outcome'' (VStr (Status out));
          c3 = ctx_Set c2 ''preferred_label'' (VStr (PreferredLabel out));
          c4 = ctx_Set c3 ''failure_reason'' (VStr (FailureReason out));
          c5 = ctx_Set c4 ''failure_class'' (VStr (classifyFailureClass out));
          vals = (if isFailureLoopRestartOutcome out then sv_dossier ev else map (\<lambda>_. VStr '''') dossier_keys);
          c6 = fold (\<lambda>(k, v) c. ctx_Set c k v) (zip dossier_keys vals) c5
      in st\<lparr>sb_completed := sb_completed st @ [node_id n], sb_context := c6\<rparr>)"

definition sub_stage :: "sub_cfg \<Rightarrow> sub_env \<Rightarrow> node \<Rightarrow> sub_state \<Rightarrow> sub_result" where
  "sub_stage cfg ev n st =
     (let ctx = ctx_Set (sb_context st) (''internal.retry_count.'' @ sb_current st) (VInt (sb_retries st (sb_current st)))
      in case executeWithRetry (sc_registered cfg) (sc_graph cfg) (sv_attempts ev) n (sb_retries st) ctx (sv_prior_json ev) of
        (out, rs) \<Rightarrow>
          (let st1 = st\<lparr>sb_retries := rs_retries rs, sb_context := rs_context rs\<rparr> in
           case sv_cancel_stage ev of
             Some cause \<Rightarrow> SubDone (build_result st1 out) (Some (SubCancelled cause))
           | None \<Rightarrow> sub_finish cfg ev n out (classifyFailureClass out) (sub_record ev n out st1)))"

definition sub_step :: "sub_cfg \<Rightarrow> sub_env \<Rightarrow> sub_state \<Rightarrow> sub_result" where
  "sub_step cfg ev st =
     (case sv_cancel_top ev of
        Some cause \<Rightarrow> SubDone (build_result st (sb_outcome st)) (Some (SubCancelled cause))
      | None \<Rightarrow>
          if trim_space (sc_stop cfg) \<noteq> '''' \<and> sb_current st = sc_stop cfg then
            SubDone (build_result st (sb_outcome st)) None
          else (case g_nodes (sc_graph cfg) (sb_current st) of
              None \<Rightarrow> SubDone zero_branch_result (Some (SubMissingNode (sb_current st)))
            | Some n \<Rightarrow>
                (let visits = sb_visits st (sb_current st) + 1;
                     visitLimit = maxNodeVisits (Some (sc_graph cfg));
                     st1 = st\<lparr>sb_visits := (sb_visits st)(sb_current st := visits)\<rparr>
                 in if visitLimit > 0 \<and> visits \<ge> visitLimit then
                      SubDone zero_branch_result (Some (SubStuckCycle (sb_current st) visits))
                    else sub_stage cfg ev n st1)))"

fun sub_loop :: "sub_cfg \<Rightarrow> (nat \<Rightarrow> sub_env) \<Rightarrow> nat \<Rightarrow> nat \<Rightarrow> sub_state \<Rightarrow> (branch_result \<times> sub_error option) option" where
  "sub_loop cfg env t 0 st = None"
| "sub_loop cfg env t (Suc fuel) st = (case sub_step cfg (env t) st of
      SubDone r err \<Rightarrow> Some (r, err)
    | SubNext st' \<Rightarrow> sub_loop cfg env (Suc t) fuel st')"

definition sub_start :: "string \<Rightarrow> run_context \<Rightarrow> string \<Rightarrow> sub_state" where
  "sub_start start ctx head = \<lparr>sb_current = start, sb_completed = [], sb_retries = (\<lambda>_. 0), sb_visits = (\<lambda>_. 0),
     sb_context = ctx, sb_sigs = (\<lambda>_. 0), sb_head = head, sb_last = '''', sb_outcome = zero_outcome\<rparr>"

definition runSubgraphUntil ::
  "sub_cfg \<Rightarrow> (nat \<Rightarrow> sub_env) \<Rightarrow> nat \<Rightarrow> string \<Rightarrow> run_context \<Rightarrow> string \<Rightarrow>
   (branch_result \<times> sub_error option) option" where
  "runSubgraphUntil cfg env fuel start ctx head =
     (if trim_space start = '''' then Some (zero_branch_result, Some SubNoStart)
      else sub_loop cfg env 0 fuel (sub_start start ctx head))"

section \<open>The branch\<close>

text \<open>An error fills in a failed outcome only where the result has no status yet.\<close>

definition branch_outcome :: "(sub_error \<Rightarrow> string) \<Rightarrow> branch_result \<times> sub_error option \<Rightarrow> branch_result" where
  "branch_outcome text res = (case res of
      (r, None) \<Rightarrow> r
    | (r, Some err) \<Rightarrow>
        (let r1 = r\<lparr>BranchError := text err\<rparr> in
         if Status (Outcome r1) = '''' then r1\<lparr>Outcome := fail_outcome (text err)\<rparr> else r1))"

section \<open>A branch ends\<close>

abbreviation sub_limit :: "sub_cfg \<Rightarrow> int" where
  "sub_limit cfg \<equiv> maxNodeVisits (Some (sc_graph cfg))"

lemma sub_route_Next:
  assumes "sub_route cfg ev n out st = SubNext st'"
  shows "sb_visits st' = sb_visits st"
  using assms by (auto simp: sub_route_def split: sum.splits option.splits if_splits)

lemma sub_finish_Next:
  assumes "sub_finish cfg ev n out cls st = SubNext st'"
  shows "sb_visits st' = sb_visits st"
  using assms by (auto simp: sub_finish_def Let_def split: sum.splits option.splits if_splits dest!: sub_route_Next)

lemma sub_record_visits [simp]: "sb_visits (sub_record ev n out st) = sb_visits st"
  by (simp add: sub_record_def Let_def)

lemma sub_stage_Next:
  assumes "sub_stage cfg ev n st = SubNext st'"
  shows "sb_visits st' = sb_visits st"
  using assms by (auto simp: sub_stage_def Let_def split: prod.splits option.splits dest!: sub_finish_Next)

lemma sub_step_Next:
  assumes "sub_step cfg ev st = SubNext st'"
  shows "sb_current st \<in> dom (g_nodes (sc_graph cfg))"
    and "0 < sub_limit cfg \<Longrightarrow> sb_visits st (sb_current st) + 1 < sub_limit cfg"
    and "sb_visits st' = (sb_visits st)(sb_current st := sb_visits st (sb_current st) + 1)"
  using assms by (auto simp: sub_step_def Let_def split: option.splits if_splits dest!: sub_stage_Next)

definition sub_left :: "sub_cfg \<Rightarrow> sub_state \<Rightarrow> nat" where
  "sub_left cfg st = (\<Sum>i \<in> dom (g_nodes (sc_graph cfg)). nat (sub_limit cfg - 1 - sb_visits st i))"

lemma sub_left_decreases:
  assumes "finite (dom (g_nodes (sc_graph cfg)))" "0 < sub_limit cfg" "sub_step cfg ev st = SubNext st'"
  shows "sub_left cfg st' < sub_left cfg st"
  unfolding sub_left_def
proof (rule sum_strict_mono_ex1 [OF assms(1)])
  let ?c = "sb_current st"
  note step = sub_step_Next [OF assms(3)]
  show "\<forall>i \<in> dom (g_nodes (sc_graph cfg)). nat (sub_limit cfg - 1 - sb_visits st' i) \<le> nat (sub_limit cfg - 1 - sb_visits st i)"
    by (auto simp: step(3) intro!: nat_mono)
  show "\<exists>i \<in> dom (g_nodes (sc_graph cfg)). nat (sub_limit cfg - 1 - sb_visits st' i) < nat (sub_limit cfg - 1 - sb_visits st i)"
    using step(1,2) assms(2) by (intro bexI [of _ ?c]) (auto simp: step(3))
qed

lemma sub_loop_enough:
  assumes "finite (dom (g_nodes (sc_graph cfg)))" "0 < sub_limit cfg" "sub_left cfg st < fuel"
  shows "\<exists>res. sub_loop cfg env t fuel st = Some res"
  using assms(3)
proof (induction fuel arbitrary: t st)
  case (Suc fuel)
  show ?case
  proof (cases "sub_step cfg (env t) st")
    case (SubNext st1)
    with sub_left_decreases [OF assms(1,2) SubNext] Suc show ?thesis by simp
  qed simp
qed simp

section \<open>How a branch ends without an error\<close>

text \<open>
  The last stage of a branch, with the outcome it recorded, has no edge to follow, or the selected
  edge enters the stop node.
\<close>

definition branch_end :: "sub_cfg \<Rightarrow> branch_result \<Rightarrow> bool" where
  "branch_end cfg r \<longleftrightarrow> (\<exists>ctx e meta.
     selectNextEdgeWithMeta (sc_graph cfg) (LastNodeID r) (Outcome r) (Some ctx) = Inr (e, meta) \<and>
     (e = None \<or> (\<exists>next. e = Some next \<and> edge_to next = sc_stop cfg)))"

lemma sub_route_Done:
  assumes "sub_route cfg ev n out st = SubDone r None" "sb_last st = node_id n" "sb_outcome st = out"
  shows "branch_end cfg r \<and> LastNodeID r = node_id n \<and> Outcome r = out"
proof -
  from assms(1) have r: "r = build_result st (sb_outcome st)"
    and "\<exists>e meta. selectNextEdgeWithMeta (sc_graph cfg) (node_id n) out (Some (sb_context st)) = Inr (e, meta) \<and>
      (e = None \<or> (\<exists>next. e = Some next \<and> edge_to next = sc_stop cfg))"
    by (auto simp: sub_route_def split: sum.splits option.splits if_splits prod.splits)
  then show ?thesis
    unfolding branch_end_def using assms(2,3) by (simp add: build_result_def) blast
qed

lemma sub_finish_Done:
  assumes "sub_finish cfg ev n out cls st = SubDone r None"
  shows "branch_end cfg r \<and> LastNodeID r = node_id n \<and> Outcome r = out"
  using assms by (auto simp: sub_finish_def Let_def split: sum.splits option.splits if_splits dest!: sub_route_Done)

lemma sub_stage_Done:
  assumes "sub_stage cfg ev n st = SubDone r None"
  shows "branch_end cfg r"
  using assms by (auto simp: sub_stage_def Let_def split: prod.splits option.splits dest!: sub_finish_Done)

text \<open>The branch is never at the stop node between passes, except at its start.\<close>

lemma sub_step_not_stop:
  assumes "sub_step cfg ev st = SubNext st'" "trim_space (sc_stop cfg) \<noteq> ''''"
  shows "sb_current st' \<noteq> sc_stop cfg"
proof -
  have "sub_route cfg ev n out st1 = SubNext st' \<Longrightarrow> sb_current st' \<noteq> sc_stop cfg" for n out st1
    using assms(2) by (auto simp: sub_route_def split: sum.splits option.splits if_splits prod.splits)
  then have "sub_finish cfg ev n out cls st1 = SubNext st' \<Longrightarrow> sb_current st' \<noteq> sc_stop cfg" for n out cls st1
    by (auto simp: sub_finish_def Let_def split: sum.splits option.splits if_splits)
  then have "sub_stage cfg ev n st1 = SubNext st' \<Longrightarrow> sb_current st' \<noteq> sc_stop cfg" for n st1
    by (auto simp: sub_stage_def Let_def split: prod.splits option.splits)
  with assms(1) show ?thesis by (auto simp: sub_step_def Let_def split: option.splits if_splits)
qed

lemma sub_loop_Done:
  assumes "sub_loop cfg env t fuel st = Some (r, None)" "trim_space (sc_stop cfg) \<noteq> ''''" "sb_current st \<noteq> sc_stop cfg"
  shows "branch_end cfg r"
  using assms(1,3)
proof (induction fuel arbitrary: t st)
  case (Suc fuel)
  show ?case
  proof (cases "sub_step cfg (env t) st")
    case (SubNext st1)
    with Suc.IH [of "Suc t" st1] Suc.prems sub_step_not_stop [OF SubNext assms(2)] show ?thesis by simp
  next
    case (SubDone r' err)
    with Suc.prems(1) have "sub_step cfg (env t) st = SubDone r None" by simp
    then show ?thesis
      using Suc.prems(2) by (auto simp: sub_step_def Let_def split: option.splits if_splits dest: sub_stage_Done)
  qed
qed simp

section \<open>Properties\<close>

text \<open>
  C34: with max_node_visits set every branch ends, in an error or a result, after fewer stages than
  that many visits of every node.
\<close>

theorem branch_terminates:
  assumes "wf_graph (sc_graph cfg)" and "0 < maxNodeVisits (Some (sc_graph cfg))"
  shows "runSubgraphUntil cfg env
    (Suc (card (dom (g_nodes (sc_graph cfg))) * nat (maxNodeVisits (Some (sc_graph cfg)) - 1))) start ctx head \<noteq> None"
proof -
  have fin: "finite (dom (g_nodes (sc_graph cfg)))" using assms(1) by (simp add: wf_graph_def)
  have "sub_left cfg (sub_start start ctx head) =
      card (dom (g_nodes (sc_graph cfg))) * nat (maxNodeVisits (Some (sc_graph cfg)) - 1)"
    by (simp add: sub_left_def sub_start_def)
  with sub_loop_enough [OF fin assms(2), of "sub_start start ctx head"] show ?thesis
    by (auto simp: runSubgraphUntil_def simp del: sub_loop.simps)
qed

text \<open>A graph with a branch node in front of a join.\<close>

definition branch_graph :: graph where
  "branch_graph = (add_edges [NewEdge ''a'' ''b'', NewEdge ''b'' ''j'']
     (add_nodes [(NewNode ''a'')\<lparr>node_attrs := [''shape'' \<mapsto> ''diamond'']\<rparr>,
        (NewNode ''b'')\<lparr>node_attrs := [''shape'' \<mapsto> ''diamond'']\<rparr>, NewNode ''j''] (NewGraph ''g'')))
     \<lparr>g_attrs := [''max_node_visits'' \<mapsto> ''2'']\<rparr>"

definition branch_cfg :: sub_cfg where
  "branch_cfg = \<lparr>sc_graph = branch_graph, sc_registered = core_types, sc_stop = ''j''\<rparr>"

definition good :: outcome where
  "good = zero_outcome\<lparr>Status := ''success''\<rparr>"

definition calm_env :: sub_env where
  "calm_env = \<lparr>sv_cancel_top = None,
     sv_attempts = (\<lambda>_. const_env (panicking_run\<lparr>nr_handler := Returned good None\<rparr>)), sv_prior_json = None,
     sv_cancel_stage = None, sv_dossier = [], sv_checkpoint = Inr ''c1'', sv_cancel_checkpoint = None,
     sv_cancel_route = None\<rparr>"

lemma wf_branch_graph: "wf_graph branch_graph"
  unfolding branch_graph_def by (intro built_wf built_graph.attrs built_add_edges built_add_nodes built_graph.new)

theorem branch_terminates_witness:
  "runSubgraphUntil branch_cfg (\<lambda>t. calm_env)
     (Suc (card (dom (g_nodes (sc_graph branch_cfg))) * nat (maxNodeVisits (Some (sc_graph branch_cfg)) - 1)))
     ''a'' NewContext '''' \<noteq> None"
proof (rule branch_terminates)
  show "wf_graph (sc_graph branch_cfg)" by (simp add: branch_cfg_def wf_branch_graph)
  show "0 < maxNodeVisits (Some (sc_graph branch_cfg))" by code_simp
qed

text \<open>
  a branch that ends without an error carries the outcome of its last stage, and that stage
  selects an edge into the join or has none at all.
\<close>

theorem branch_ends_at_join:
  assumes "runSubgraphUntil cfg env fuel start ctx head = Some (r, None)"
    and "trim_space (sc_stop cfg) \<noteq> ''''" and "start \<noteq> sc_stop cfg"
  shows "branch_end cfg r"
  using assms by (auto simp: runSubgraphUntil_def sub_start_def split: if_splits dest: sub_loop_Done)

lemma branch_run:
  "map_option (\<lambda>(r, err). (LastNodeID r, Status (Outcome r), Completed r, err))
     (runSubgraphUntil branch_cfg (\<lambda>t. calm_env) 3 ''a'' NewContext '''') =
   Some (''b'', ''success'', [''a'', ''b''], None)"
  by code_simp

theorem branch_ends_at_join_witness:
  "case runSubgraphUntil branch_cfg (\<lambda>t. calm_env) 3 ''a'' NewContext '''' of
     None \<Rightarrow> False
   | Some (r, err) \<Rightarrow> LastNodeID r = ''b'' \<and> branch_end branch_cfg r"
proof -
  from branch_run obtain r where "runSubgraphUntil branch_cfg (\<lambda>t. calm_env) 3 ''a'' NewContext '''' = Some (r, None)"
    "LastNodeID r = ''b''" by auto
  moreover have "trim_space (sc_stop branch_cfg) \<noteq> ''''" "''a'' \<noteq> sc_stop branch_cfg" by code_simp+
  ultimately show ?thesis using branch_ends_at_join by auto
qed

text \<open>
  a branch that is cancelled while its stage is being committed keeps the outcome of that stage:
  it counts as a success although it never reached the join, and when a policy cancelled it because
  another branch had finished, the fan-in can choose the unfinished branch over the finished one.
\<close>

theorem cancelled_branch_can_win:
  assumes "Status out = ''success''" and "sv_checkpoint ev = Inr sha" and "sv_cancel_checkpoint ev = Some cause"
    and "Status (Outcome finished) = ''success''" and "key < BranchKey finished"
  shows "case sub_finish cfg ev n out cls st of
      SubNext st' \<Rightarrow> False
    | SubDone r err \<Rightarrow> err = Some (SubCancelled cause) \<and>
        (let b = (branch_outcome msg (r, err))\<lparr>BranchKey := key\<rparr> in
         BranchError b = msg (SubCancelled cause) \<and> selectHeuristicWinner [finished, b] = Some b)"
proof -
  let ?st = "st\<lparr>sb_head := sha, sb_last := node_id n, sb_outcome := out\<rparr>"
  let ?b = "(branch_outcome msg (build_result ?st out, Some (SubCancelled cause)))\<lparr>BranchKey := key\<rparr>"
  have "\<not> isFailureLoopRestartOutcome out"
    using assms(1) by (simp add: isFailureLoopRestartOutcome_def status_defs)
  then have fin: "sub_finish cfg ev n out cls st = SubDone (build_result ?st out) (Some (SubCancelled cause))"
    using assms(2,3) by (simp add: sub_finish_def Let_def)
  have b: "Status (Outcome ?b) = ''success''" "BranchKey ?b = key" "BranchError ?b = msg (SubCancelled cause)"
    using assms(1) by (simp_all add: branch_outcome_def build_result_def)
  have "\<not> branch_failed finished" "\<not> branch_failed ?b" "winner_less ?b finished" "\<not> winner_less finished ?b"
    using b assms(4,5) by (auto simp: branch_failed_def winner_less_def winner_rank_def status_defs)
  then have "selectHeuristicWinner [finished, ?b] = Some ?b"
    by (simp add: selectHeuristicWinner_def slice_stable_def)
  with fin b show ?thesis by (simp add: Let_def)
qed

theorem cancelled_branch_can_win_witness:
  "case sub_finish branch_cfg (calm_env\<lparr>sv_cancel_checkpoint := Some ''first_success''\<rparr>) (NewNode ''a'') good ''''
      (sub_start ''a'' NewContext '''') of
     SubNext st' \<Rightarrow> False
   | SubDone r err \<Rightarrow>
       (let b = (branch_outcome (\<lambda>_. ''context canceled'') (r, err))\<lparr>BranchKey := ''a''\<rparr> in
        Completed b = [] \<and> selectHeuristicWinner [ended ''b'' ''success'', b] = Some b)"
proof -
  let ?ev = "calm_env\<lparr>sv_cancel_checkpoint := Some ''first_success''\<rparr>"
  let ?f = "sub_finish branch_cfg ?ev (NewNode ''a'') good '''' (sub_start ''a'' NewContext '''')"
  have "Status good = ''success''" "sv_checkpoint ?ev = Inr ''c1''"
    "sv_cancel_checkpoint ?ev = Some ''first_success''" "Status (Outcome (ended ''b'' ''success'')) = ''success''"
    "''a'' < BranchKey (ended ''b'' ''success'')"
    by (simp_all add: good_def calm_env_def ended_def)
  note win = cancelled_branch_can_win [OF this, where cfg = branch_cfg and n = "NewNode ''a''" and cls = "''''"
      and st = "sub_start ''a'' NewContext ''''" and msg = "\<lambda>_. ''context canceled''"]
  have "case ?f of SubNext _ \<Rightarrow> False | SubDone r err \<Rightarrow> Completed r = []" by code_simp
  with win show ?thesis by (auto simp: Let_def branch_outcome_def split: sub_result.splits option.splits)
qed

end
