(* ===== verification/DotLexer.thy ===== *)
theory DotLexer
  imports GoStrings
begin

text \<open>
  The front end of the DOT reader: removal of comments
  (\<^verbatim>\<open>internal/attractor/dot/comments.go\<close>) and the lexer
  (\<^verbatim>\<open>internal/attractor/dot/lexer.go\<close>), on bytes.  The lexer is a function of the rest of
  the source; it returns the rest also where it fails, because the parser ignores an error of the
  token behind an optional semicolon and goes on from there.  The positions in tokens and messages
  are not modelled.
\<close>

section \<open>Comments\<close>

datatype dot_error =
    UnterminatedComment
  | UnterminatedString
  | UnterminatedEscape
  | UnexpectedChar char
  | MalformedFloat
  | Expected string string
  | UnexpectedEOF
  | EmptyAttrValue
  | TrailingTokens
  | GraphRefused
  | OutOfFuel

definition quote_char :: char where "quote_char = CHR 0x22"
definition backslash :: char where "backslash = CHR 0x5C"
definition newline :: char where "newline = CHR 0x0A"

lemmas dot_chars = quote_char_def backslash_def newline_def

fun skip_block :: "string \<Rightarrow> string option" where
  "skip_block (c # d # s) = (if c = CHR ''*'' \<and> d = CHR ''/'' then Some s else skip_block (d # s))"
| "skip_block _ = None"

lemma skip_block_length: "skip_block s = Some r \<Longrightarrow> length r < length s"
  by (induction s rule: skip_block.induct) (auto split: if_splits)

definition out_byte :: "char \<Rightarrow> dot_error + string \<Rightarrow> dot_error + string" where
  "out_byte c r = (case r of Inl e \<Rightarrow> Inl e | Inr s \<Rightarrow> Inr (c # s))"

function (sequential) strip :: "bool \<Rightarrow> bool \<Rightarrow> string \<Rightarrow> dot_error + string" where
  "strip inString escaped [] = (if inString then Inl UnterminatedString else Inr [])"
| "strip True escaped (ch # s) = out_byte ch
     (if escaped then strip True False s
      else if ch = backslash then strip True True s
      else if ch = quote_char then strip False False s
      else strip True False s)"
| "strip False escaped (ch # s) =
     (if ch = quote_char then out_byte ch (strip True False s)
      else if ch = CHR ''/'' \<and> has_prefix ''/'' s then strip False False (dropWhile (\<lambda>c. c \<noteq> newline) (tl s))
      else if ch = CHR ''/'' \<and> has_prefix ''*'' s then
        (case skip_block (tl s) of None \<Rightarrow> Inl UnterminatedComment | Some r \<Rightarrow> strip False False r)
      else out_byte ch (strip False False s))"
  by pat_completeness auto
termination
proof (relation "measure (\<lambda>(inString, escaped, s). length s)")
  show "((False, False, dropWhile (\<lambda>c. c \<noteq> newline) (tl s)), False, escaped, ch # s)
      \<in> measure (\<lambda>(inString, escaped, s). length s)" for ch :: char and s escaped
    using length_dropWhile_le [of "\<lambda>c. c \<noteq> newline" "tl s"] by (auto simp: le_imp_less_Suc order_trans)
  show "((False, False, r), False, escaped, ch # s) \<in> measure (\<lambda>(inString, escaped, s). length s)"
    if "skip_block (tl s) = Some r" for ch :: char and s r escaped
    using skip_block_length [OF that] by simp
qed auto

definition stripComments :: "string \<Rightarrow> dot_error + string" where
  "stripComments src = strip False False src"

section \<open>Tokens\<close>

datatype token = TEOF | TIdent string | TString string | TSymbol string

definition in_range :: "char \<Rightarrow> char \<Rightarrow> char \<Rightarrow> bool" where
  "in_range a b c \<longleftrightarrow> (of_char a :: nat) \<le> of_char c \<and> (of_char c :: nat) \<le> of_char b"

definition isAlpha :: "char \<Rightarrow> bool" where
  "isAlpha c \<longleftrightarrow> in_range (CHR ''A'') (CHR ''Z'') c \<or> in_range (CHR ''a'') (CHR ''z'') c"

definition isDigit :: "char \<Rightarrow> bool" where
  "isDigit c \<longleftrightarrow> in_range (CHR ''0'') (CHR ''9'') c"

definition isIdentStart :: "char \<Rightarrow> bool" where
  "isIdentStart c \<longleftrightarrow> c = CHR ''_'' \<or> isAlpha c"

definition isIdentContinue :: "char \<Rightarrow> bool" where
  "isIdentContinue c \<longleftrightarrow> isIdentStart c \<or> isDigit c"

definition is_blank :: "char \<Rightarrow> bool" where
  "is_blank c \<longleftrightarrow> c \<in> {newline, CHR 0x0D, CHR 0x09, CHR '' ''}"

definition is_symbol_char :: "char \<Rightarrow> bool" where
  "is_symbol_char c \<longleftrightarrow> c \<in> set ''{}[],;=.:/''"

type_synonym lexed = "(dot_error + token) \<times> string"

definition lexIdent :: "string \<Rightarrow> lexed" where
  "lexIdent s = (Inr (TIdent (takeWhile isIdentContinue s)), dropWhile isIdentContinue s)"

definition lexBareNumberish :: "string \<Rightarrow> lexed" where
  "lexBareNumberish s =
     (let d1 = takeWhile isDigit s; r1 = dropWhile isDigit s in
      if has_prefix ''.'' r1 then
        (let r2 = tl r1 in
         if r2 = [] \<or> \<not> isDigit (hd r2) then (Inl MalformedFloat, r2)
         else (let d2 = takeWhile isDigit r2; r3 = dropWhile isDigit r2
               in (Inr (TIdent (d1 @ ''.'' @ d2 @ takeWhile isAlpha r3)), dropWhile isAlpha r3)))
      else (Inr (TIdent (d1 @ takeWhile isAlpha r1)), dropWhile isAlpha r1))"

definition unescape :: "char \<Rightarrow> string" where
  "unescape esc =
     (if esc = quote_char then [quote_char]
      else if esc = backslash then [backslash]
      else if esc = CHR ''n'' then [newline]
      else if esc = CHR ''t'' then [CHR 0x09]
      else [backslash, esc])"

text \<open>The body of a string, behind its opening quote; \<^verbatim>\<open>sb\<close> is what has been read.\<close>

fun lexString :: "string \<Rightarrow> string \<Rightarrow> lexed" where
  "lexString sb [] = (Inl UnterminatedString, [])"
| "lexString sb [ch] =
     (if ch = quote_char then (Inr (TString sb), [])
      else if ch = backslash then (Inl UnterminatedEscape, [])
      else (Inl UnterminatedString, []))"
| "lexString sb (ch # esc # s) =
     (if ch = quote_char then (Inr (TString sb), esc # s)
      else if ch = backslash then lexString (sb @ unescape esc) s
      else lexString (sb @ [ch]) (esc # s))"

definition lex_next :: "string \<Rightarrow> lexed" where
  "lex_next src = (case dropWhile is_blank src of
      [] \<Rightarrow> (Inr TEOF, [])
    | ch # s \<Rightarrow>
        if is_symbol_char ch then (Inr (TSymbol [ch]), s)
        else if ch = CHR ''-'' then
          (if has_prefix ''>'' s then (Inr (TSymbol ''->''), tl s) else (Inr (TSymbol ''-''), s))
        else if ch = quote_char then lexString [] s
        else if isIdentStart ch then lexIdent (ch # s)
        else if isDigit ch then lexBareNumberish (ch # s)
        else (Inl (UnexpectedChar ch), ch # s))"

end
