(* ===== verification/DotParser.thy ===== *)
theory DotParser
  imports DotLexer GraphModel
begin

text \<open>
  The parser of the DOT dialect, \<^verbatim>\<open>internal/attractor/dot/parser.go\<close>: one token of
  lookahead, statements executed on the graph as they are read, scopes for the defaults and the
  classes of subgraphs.

  The stack of scopes is a list, the innermost first; the last one is the root.  Loops over the
  input take fuel; the length of the source plus one is enough, as DotFacts shows.
\<close>

section \<open>Reading tokens\<close>

record pstate =
  p_rest :: string
  p_peek :: "token option"

text \<open>Sequencing of steps that can fail.\<close>

fun and_then :: "'e + 'a \<Rightarrow> ('a \<Rightarrow> 'e + 'b) \<Rightarrow> 'e + 'b" where
  "and_then (Inl e) f = Inl e"
| "and_then (Inr x) f = f x"

text \<open>\<^verbatim>\<open>read\<close> fills the lookahead; it also says what is left when it fails.\<close>

definition p_read :: "pstate \<Rightarrow> dot_error option \<times> pstate" where
  "p_read st = (case p_peek st of
      Some _ \<Rightarrow> (None, st)
    | None \<Rightarrow> (case lex_next (p_rest st) of
        (Inl e, r) \<Rightarrow> (Some e, st\<lparr>p_rest := r\<rparr>)
      | (Inr t, r) \<Rightarrow> (None, st\<lparr>p_rest := r, p_peek := Some t\<rparr>)))"

definition look :: "pstate \<Rightarrow> dot_error + token \<times> pstate" where
  "look st = (case p_read st of
      (Some e, _) \<Rightarrow> Inl e
    | (None, st') \<Rightarrow> (case p_peek st' of Some t \<Rightarrow> Inr (t, st') | None \<Rightarrow> Inl OutOfFuel))"

definition p_next :: "pstate \<Rightarrow> dot_error + token \<times> pstate" where
  "p_next st = and_then (look st) (\<lambda>(t, st'). Inr (t, st'\<lparr>p_peek := None\<rparr>))"

fun tok_lit :: "token \<Rightarrow> string" where
  "tok_lit TEOF = ''''"
| "tok_lit (TIdent s) = s"
| "tok_lit (TString s) = s"
| "tok_lit (TSymbol s) = s"

definition expectSymbol :: "string \<Rightarrow> pstate \<Rightarrow> dot_error + pstate" where
  "expectSymbol wanted st = and_then (p_next st) (\<lambda>(t, st').
     if t = TSymbol wanted then Inr st' else Inl (Expected wanted (tok_lit t)))"

definition expectIdent :: "string \<Rightarrow> pstate \<Rightarrow> dot_error + pstate" where
  "expectIdent lit st = and_then (p_next st) (\<lambda>(t, st').
     if t = TIdent lit then Inr st' else Inl (Expected lit (tok_lit t)))"

definition ident :: "string \<Rightarrow> pstate \<Rightarrow> dot_error + string \<times> pstate" where
  "ident what st = and_then (p_next st) (\<lambda>(t, st').
     case t of TIdent s \<Rightarrow> Inr (s, st') | _ \<Rightarrow> Inl (Expected what (tok_lit t)))"

text \<open>The callers ignore an error of \<^verbatim>\<open>consumeOptionalSemicolon\<close> but keep its state.\<close>

definition consumeOptionalSemicolon :: "pstate \<Rightarrow> pstate" where
  "consumeOptionalSemicolon st = (case p_read st of (err, st') \<Rightarrow>
     if err = None \<and> p_peek st' = Some (TSymbol '';'') then st'\<lparr>p_peek := None\<rparr> else st')"

section \<open>Attributes\<close>

fun more_key :: "nat \<Rightarrow> string \<Rightarrow> pstate \<Rightarrow> dot_error + string \<times> pstate" where
  "more_key 0 key st = Inl OutOfFuel"
| "more_key (Suc fuel) key st = and_then (look st) (\<lambda>(t, st1).
     if t = TSymbol ''.'' then
       and_then (p_next st1) (\<lambda>(_, st2).
       and_then (ident ''identifier after .'' st2) (\<lambda>(part, st3).
       more_key fuel (key @ ''.'' @ part) st3))
     else Inr (key, st1))"

definition parseQualifiedKey :: "nat \<Rightarrow> pstate \<Rightarrow> dot_error + string \<times> pstate" where
  "parseQualifiedKey fuel st = and_then (ident ''identifier key'' st) (\<lambda>(key, st1). more_key fuel key st1)"

fun value_parts :: "nat \<Rightarrow> string list \<Rightarrow> pstate \<Rightarrow> dot_error + string list \<times> pstate" where
  "value_parts 0 parts st = Inl OutOfFuel"
| "value_parts (Suc fuel) parts st = and_then (look st) (\<lambda>(t, st1).
     if t = TSymbol '','' \<or> t = TSymbol '']'' then Inr (parts, st1)
     else and_then (p_next st1) (\<lambda>(t2, st2).
       case t2 of
         TIdent s \<Rightarrow> value_parts fuel (parts @ [s]) st2
       | TSymbol s \<Rightarrow>
           if s \<in> {''-'', ''.'', '':'', ''/''} then value_parts fuel (parts @ [s]) st2
           else Inl (Expected ''value'' s)
       | _ \<Rightarrow> Inl (Expected ''value'' (tok_lit t2))))"

definition parseAttrValue :: "nat \<Rightarrow> pstate \<Rightarrow> dot_error + string \<times> pstate" where
  "parseAttrValue fuel st = and_then (look st) (\<lambda>(t, st1).
     case t of
       TString s \<Rightarrow> and_then (p_next st1) (\<lambda>(_, st2). Inr (s, st2))
     | _ \<Rightarrow> and_then (value_parts fuel [] st1) (\<lambda>(parts, st2).
         let val = trim_space (concat parts) in
         if val = '''' then Inl EmptyAttrValue else Inr (val, st2)))"

fun attr_block :: "nat \<Rightarrow> (string \<rightharpoonup> string) \<Rightarrow> pstate \<Rightarrow> dot_error + (string \<rightharpoonup> string) \<times> pstate" where
  "attr_block 0 attrs st = Inl OutOfFuel"
| "attr_block (Suc fuel) attrs st = and_then (look st) (\<lambda>(t, st1).
     if t = TSymbol '']'' then and_then (p_next st1) (\<lambda>(_, st2). Inr (attrs, st2))
     else and_then (parseQualifiedKey fuel st1) (\<lambda>(key, st2).
          and_then (expectSymbol ''='' st2) (\<lambda>st3.
          and_then (parseAttrValue fuel st3) (\<lambda>(val, st4).
          and_then (look st4) (\<lambda>(t5, st5).
            if t5 = TSymbol '','' then
              and_then (p_next st5) (\<lambda>(_, st6). attr_block fuel (attrs(key \<mapsto> val)) st6)
            else if t5 = TSymbol '']'' then attr_block fuel (attrs(key \<mapsto> val)) st5
            else Inl (Expected '', or ]'' (tok_lit t5)))))))"

definition parseAttrBlock :: "nat \<Rightarrow> pstate \<Rightarrow> dot_error + (string \<rightharpoonup> string) \<times> pstate" where
  "parseAttrBlock fuel st = and_then (expectSymbol ''['' st) (\<lambda>st1. attr_block fuel Map.empty st1)"

definition optional_attrs :: "nat \<Rightarrow> pstate \<Rightarrow> dot_error + (string \<rightharpoonup> string) \<times> pstate" where
  "optional_attrs fuel st = and_then (look st) (\<lambda>(t, st1).
     if t = TSymbol ''['' then parseAttrBlock fuel st1 else Inr (Map.empty, st1))"

definition parseTopLevelValue :: "pstate \<Rightarrow> dot_error + string \<times> pstate" where
  "parseTopLevelValue st = and_then (look st) (\<lambda>(t, st1).
     case t of
       TString s \<Rightarrow> and_then (p_next st1) (\<lambda>(_, st2). Inr (s, st2))
     | TIdent s \<Rightarrow> and_then (p_next st1) (\<lambda>(_, st2). Inr (s, st2))
     | TSymbol s \<Rightarrow>
         if s = ''-'' then and_then (p_next st1) (\<lambda>(_, st2).
           and_then (ident ''number after -'' st2) (\<lambda>(num, st3). Inr (''-'' @ num, st3)))
         else Inl (Expected ''value after ='' s)
     | TEOF \<Rightarrow> Inl (Expected ''value after ='' ''''))"

section \<open>Scopes\<close>

record scope =
  sc_node_defaults :: "string \<rightharpoonup> string"
  sc_edge_defaults :: "string \<rightharpoonup> string"
  sc_label :: string
  sc_ids :: "string list"

definition newScope :: "scope list \<Rightarrow> scope" where
  "newScope parents = (case parents of
      [] \<Rightarrow> \<lparr>sc_node_defaults = Map.empty, sc_edge_defaults = Map.empty, sc_label = '''', sc_ids = []\<rparr>
    | p # _ \<Rightarrow> \<lparr>sc_node_defaults = sc_node_defaults p, sc_edge_defaults = sc_edge_defaults p,
        sc_label = '''', sc_ids = []\<rparr>)"

definition recordNode :: "string \<Rightarrow> scope list \<Rightarrow> scope list" where
  "recordNode i = map (\<lambda>s. s\<lparr>sc_ids := List.insert i (sc_ids s)\<rparr>)"

text \<open>\<^verbatim>\<open>strings.ReplaceAll\<close> of single bytes, and \<^verbatim>\<open>strings.Trim\<close> of hyphens.\<close>

definition deriveClassFromLabel :: "string \<Rightarrow> string" where
  "deriveClassFromLabel lbl =
     (let l = map (\<lambda>c. if c = CHR '' '' then CHR ''-'' else c) (to_lower lbl)
      in trim_by (\<lambda>c. c = CHR ''-'')
           (filter (\<lambda>c. in_range (CHR ''a'') (CHR ''z'') c \<or> isDigit c \<or> c = CHR ''-'') l))"

definition add_class :: "string \<Rightarrow> string \<Rightarrow> graph \<Rightarrow> graph" where
  "add_class cls i g = (case g_nodes g i of
      None \<Rightarrow> g
    | Some n \<Rightarrow> g\<lparr>g_nodes := (g_nodes g)(i \<mapsto> n\<lparr>node_classes := node_classes n @ [cls]\<rparr>)\<rparr>)"

definition applySubgraphLabelClass :: "scope \<Rightarrow> graph \<Rightarrow> graph" where
  "applySubgraphLabelClass sc g =
     (let lbl = trim_space (sc_label sc); cls = deriveClassFromLabel lbl in
      if lbl = '''' \<or> cls = '''' then g else fold (add_class cls) (sc_ids sc) g)"

section \<open>Statements\<close>

text \<open>The number of nodes of the graph is the number of identifiers the root scope has recorded.\<close>

definition node_count :: "scope list \<Rightarrow> nat" where
  "node_count scs = (if scs = [] then 0 else length (sc_ids (last scs)))"

definition edge_steps :: "scope \<Rightarrow> (string \<rightharpoonup> string) \<Rightarrow> string list \<Rightarrow> edge list" where
  "edge_steps sc attrs chain =
     map (\<lambda>(a, b). (NewEdge a b)\<lparr>edge_attrs := sc_edge_defaults sc ++ attrs\<rparr>) (zip chain (tl chain))"

fun add_all_edges :: "edge list \<Rightarrow> graph \<Rightarrow> dot_error + graph" where
  "add_all_edges [] g = Inr g"
| "add_all_edges (e # es) g = (case AddEdge g (Some e) of
      Inl _ \<Rightarrow> Inl GraphRefused | Inr g' \<Rightarrow> add_all_edges es g')"

definition declare_node :: "string \<Rightarrow> (string \<rightharpoonup> string) \<Rightarrow> scope list \<Rightarrow> graph \<Rightarrow> dot_error + graph \<times> scope list" where
  "declare_node i attrs scs g =
     (let n = (NewNode i)\<lparr>node_order := int (node_count scs),
                node_attrs := sc_node_defaults (hd scs) ++ attrs\<rparr>
      in case AddNode g (Some n) of Inl _ \<Rightarrow> Inl GraphRefused | Inr g' \<Rightarrow> Inr (g', recordNode i scs))"

definition set_defaults :: "(scope \<Rightarrow> scope) \<Rightarrow> scope list \<Rightarrow> scope list" where
  "set_defaults f scs = (case scs of [] \<Rightarrow> [] | s # ps \<Rightarrow> f s # ps)"

definition set_attr_stmt :: "string \<Rightarrow> string \<Rightarrow> scope list \<Rightarrow> graph \<Rightarrow> graph \<times> scope list" where
  "set_attr_stmt key val scs g =
     (if length scs > 1 \<and> key = ''label'' then (g, set_defaults (\<lambda>s. s\<lparr>sc_label := val\<rparr>) scs)
      else (g\<lparr>g_attrs := (g_attrs g)(key \<mapsto> val)\<rparr>, scs))"

text \<open>The chain behind a first identifier, whose arrow is the next token.\<close>

fun edge_chain :: "nat \<Rightarrow> string list \<Rightarrow> pstate \<Rightarrow> dot_error + string list \<times> pstate" where
  "edge_chain 0 chain st = Inl OutOfFuel"
| "edge_chain (Suc fuel) chain st = and_then (p_next st) (\<lambda>(_, st1).
     and_then (ident ''edge target identifier'' st1) (\<lambda>(to, st2).
     and_then (look st2) (\<lambda>(t, st3).
       if t = TSymbol ''->'' then edge_chain fuel (chain @ [to]) st3 else Inr (chain @ [to], st3))))"

text \<open>A statement that starts with an identifier that is no keyword.\<close>

definition plain_stmt :: "nat \<Rightarrow> string \<Rightarrow> graph \<Rightarrow> scope list \<Rightarrow> pstate \<Rightarrow> dot_error + graph \<times> scope list \<times> pstate" where
  "plain_stmt fuel i g scs st = and_then (look st) (\<lambda>(t, st1).
     if t = TSymbol ''='' then
       and_then (p_next st1) (\<lambda>(_, st2).
       and_then (parseTopLevelValue st2) (\<lambda>(val, st3).
         case set_attr_stmt i val scs g of (g', scs') \<Rightarrow> Inr (g', scs', consumeOptionalSemicolon st3)))
     else if t = TSymbol ''->'' then
       and_then (edge_chain fuel [i] st1) (\<lambda>(chain, st2).
       and_then (optional_attrs fuel st2) (\<lambda>(attrs, st3).
       and_then (add_all_edges (edge_steps (hd scs) attrs chain) g) (\<lambda>g'.
         Inr (g', scs, consumeOptionalSemicolon st3))))
     else
       and_then (optional_attrs fuel st1) (\<lambda>(attrs, st2).
       and_then (declare_node i attrs scs g) (\<lambda>(g', scs').
         Inr (g', scs', consumeOptionalSemicolon st2))))"

text \<open>The statements graph, node and edge.\<close>

definition default_stmt :: "nat \<Rightarrow> string \<Rightarrow> graph \<Rightarrow> scope list \<Rightarrow> pstate \<Rightarrow> dot_error + graph \<times> scope list \<times> pstate" where
  "default_stmt fuel kw g scs st = and_then (parseAttrBlock fuel st) (\<lambda>(attrs, st1).
     let st2 = consumeOptionalSemicolon st1 in
     if kw = ''graph'' then Inr (g\<lparr>g_attrs := g_attrs g ++ attrs\<rparr>, scs, st2)
     else if kw = ''node'' then
       Inr (g, set_defaults (\<lambda>s. s\<lparr>sc_node_defaults := sc_node_defaults s ++ attrs\<rparr>) scs, st2)
     else Inr (g, set_defaults (\<lambda>s. s\<lparr>sc_edge_defaults := sc_edge_defaults s ++ attrs\<rparr>) scs, st2))"

definition subgraph_head :: "pstate \<Rightarrow> dot_error + pstate" where
  "subgraph_head st = and_then (look st) (\<lambda>(t, st1).
     case t of
       TIdent _ \<Rightarrow> and_then (p_next st1) (\<lambda>(_, st2). expectSymbol ''{'' st2)
     | _ \<Rightarrow> expectSymbol ''{'' st1)"

fun parseStatements :: "nat \<Rightarrow> graph \<Rightarrow> scope list \<Rightarrow> pstate \<Rightarrow> dot_error + graph \<times> scope list \<times> pstate" where
  "parseStatements 0 g scs st = Inl OutOfFuel"
| "parseStatements (Suc fuel) g scs st = and_then (look st) (\<lambda>(t, st1).
     if t = TEOF then Inl UnexpectedEOF
     else if t = TSymbol ''}'' then
       Inr (if length scs > 1 then applySubgraphLabelClass (hd scs) g else g, scs, st1)
     else and_then (ident ''identifier'' st1) (\<lambda>(i, st2).
       if i \<in> {''graph'', ''node'', ''edge''} then
         and_then (default_stmt fuel i g scs st2) (\<lambda>(g', scs', st3). parseStatements fuel g' scs' st3)
       else if i = ''subgraph'' then
         and_then (subgraph_head st2) (\<lambda>st3.
         and_then (parseStatements fuel g (newScope scs # scs) st3) (\<lambda>(g', scs', st4).
         and_then (expectSymbol ''}'' st4) (\<lambda>st5.
           parseStatements fuel (applySubgraphLabelClass (hd scs') g') (tl scs') st5)))
       else
         and_then (plain_stmt fuel i g scs st2) (\<lambda>(g', scs', st3). parseStatements fuel g' scs' st3)))"

section \<open>The graph\<close>

definition parseGraph :: "nat \<Rightarrow> pstate \<Rightarrow> dot_error + graph" where
  "parseGraph fuel st =
     and_then (expectIdent ''digraph'' st) (\<lambda>st1.
     and_then (ident ''graph identifier'' st1) (\<lambda>(name, st2).
     and_then (expectSymbol ''{'' st2) (\<lambda>st3.
     and_then (parseStatements fuel (NewGraph name) [newScope []] st3) (\<lambda>(g, _, st4).
     and_then (expectSymbol ''}'' st4) (\<lambda>st5.
     and_then (look (consumeOptionalSemicolon st5)) (\<lambda>(t, _).
       if t = TEOF then Inr g else Inl TrailingTokens))))))"

definition Parse :: "string \<Rightarrow> dot_error + graph" where
  "Parse dotSource = and_then (stripComments dotSource) (\<lambda>clean.
     let st = \<lparr>p_rest = clean, p_peek = None\<rparr> in
     and_then (look st) (\<lambda>(_, st1). parseGraph (length clean + 1) st1))"

end
