(* ===== verification/DotFacts.thy ===== *)
theory DotFacts
  imports DotParser
begin

text \<open>
  What holds of the DOT parser on every source: reading makes progress, so that the fuel is enough,
  and the graphs it returns satisfy the invariant of the graph model.
\<close>

section \<open>Results of steps\<close>

text \<open>A result is fine when it is a value with the property or an error other than the end of the fuel.\<close>

definition fine :: "dot_error + 'a \<Rightarrow> ('a \<Rightarrow> bool) \<Rightarrow> bool" where
  "fine r P \<longleftrightarrow> (case r of Inl e \<Rightarrow> e \<noteq> OutOfFuel | Inr a \<Rightarrow> P a)"

lemma fine_simps [simp]: "fine (Inr a) P \<longleftrightarrow> P a" "fine (Inl e) P \<longleftrightarrow> e \<noteq> OutOfFuel"
  by (simp_all add: fine_def)

lemma fine_and_then [simp]: "fine (and_then x f) P \<longleftrightarrow> fine x (\<lambda>a. fine (f a) P)"
  by (cases x) auto

lemma fine_mono: "fine x Q \<Longrightarrow> (\<And>a. Q a \<Longrightarrow> P a) \<Longrightarrow> fine x P"
  by (cases x) auto

lemma fine_pair_mono: "fine x (\<lambda>(a, b). Q a b) \<Longrightarrow> (\<And>a b. Q a b \<Longrightarrow> P (a, b)) \<Longrightarrow> fine x P"
  by (cases x) auto

section \<open>Progress of the lexer\<close>

lemma length_dropWhile_lt: "s \<noteq> [] \<Longrightarrow> P (hd s) \<Longrightarrow> length (dropWhile P s) < length s"
  by (cases s) (auto simp: le_imp_less_Suc length_dropWhile_le)

lemma lexString_length: "lexString sb s = (r, rest) \<Longrightarrow> length rest \<le> length s"
  by (induction sb s rule: lexString.induct) (fastforce split: if_splits)+

lemma lexBare_length:
  assumes "lexBareNumberish s = (r, rest)" "s \<noteq> []" "isDigit (hd s)"
  shows "length rest < length s"
proof -
  let ?r1 = "dropWhile isDigit s"
  have r1: "length ?r1 < length s" using length_dropWhile_lt assms(2,3) by blast
  have le: "length (dropWhile P xs) \<le> length xs" for P and xs :: string by (rule length_dropWhile_le)
  show ?thesis
  proof (cases "has_prefix ''.'' ?r1")
    case True
    then have "length (tl ?r1) < length s" using r1 by simp
    with True assms(1) show ?thesis
      using le [of isAlpha "dropWhile isDigit (tl ?r1)"] le [of isDigit "tl ?r1"]
      by (auto simp: lexBareNumberish_def Let_def split: if_splits)
  next
    case False
    with assms(1) r1 show ?thesis
      using le [of isAlpha ?r1] by (auto simp: lexBareNumberish_def Let_def)
  qed
qed

lemma lexString_token: "lexString sb s = (r, rest) \<Longrightarrow> r \<noteq> Inr TEOF"
  by (induction sb s rule: lexString.induct) (auto split: if_splits)

lemma lex_next_length:
  assumes "lex_next s = (r, rest)"
  shows "length rest \<le> length s \<and> (r = Inr TEOF \<longrightarrow> rest = []) \<and>
    (\<forall>t. r = Inr t \<longrightarrow> t \<noteq> TEOF \<longrightarrow> length rest < length s)"
proof (cases "dropWhile is_blank s")
  case Nil
  with assms show ?thesis by (auto simp: lex_next_def)
next
  case (Cons ch u)
  have len: "length (ch # u) \<le> length s" using length_dropWhile_le [of is_blank s] Cons by simp
  have num: "length rest < length (ch # u) \<and> r \<noteq> Inr TEOF" if "isDigit ch" "lexBareNumberish (ch # u) = (r, rest)"
    using lexBare_length [OF that(2)] that by (auto simp: lexBareNumberish_def Let_def split: if_splits)
  have str: "length rest < length (ch # u) \<and> r \<noteq> Inr TEOF" if "lexString [] u = (r, rest)"
    using lexString_length [OF that] lexString_token [OF that] by simp
  have ident: "length rest < length (ch # u) \<and> r \<noteq> Inr TEOF" if "isIdentStart ch" "lexIdent (ch # u) = (r, rest)"
    using that length_dropWhile_lt [of "ch # u" isIdentContinue] by (auto simp: lexIdent_def isIdentContinue_def)
  have "r = Inl (UnexpectedChar ch) \<and> rest = ch # u \<or> length rest < length (ch # u) \<and> r \<noteq> Inr TEOF"
    using assms Cons num str ident by (auto simp: lex_next_def split: if_splits)
  then show ?thesis using len by auto
qed

section \<open>Progress of the parser\<close>

text \<open>The bytes that are left, and the lookahead.\<close>

definition psize :: "pstate \<Rightarrow> nat" where
  "psize st = length (p_rest st) + (case p_peek st of None \<Rightarrow> 0 | Some t \<Rightarrow> if t = TEOF then 0 else 1)"

lemma p_read_size:
  assumes "p_read st = (err, st')"
  shows "psize st' \<le> psize st"
proof (cases "p_peek st")
  case None
  obtain r rest where l: "lex_next (p_rest st) = (r, rest)" by fastforce
  show ?thesis
  proof (cases r)
    case (Inl e)
    with assms None l lex_next_length [OF l] show ?thesis by (auto simp: p_read_def psize_def)
  next
    case (Inr t)
    with assms None l lex_next_length [OF l] show ?thesis
      by (cases "t = TEOF") (auto simp: p_read_def psize_def Suc_le_eq)
  qed
qed (use assms in \<open>auto simp: p_read_def\<close>)

lemma lexer_fuel: "lex_next s \<noteq> (Inl OutOfFuel, r)"
proof -
  have "lexString sb u \<noteq> (Inl OutOfFuel, r)" for sb u
    by (induction sb u rule: lexString.induct) auto
  then show ?thesis
    by (auto simp: lex_next_def lexIdent_def lexBareNumberish_def Let_def split: list.splits)
qed

lemma fine_look: "fine (look st) (\<lambda>(t, st'). psize st' \<le> psize st \<and> p_peek st' = Some t)"
proof -
  obtain err st' where r: "p_read st = (err, st')" by fastforce
  have "err \<noteq> Some OutOfFuel" "err = None \<Longrightarrow> p_peek st' \<noteq> None"
    using r lexer_fuel [of "p_rest st"] by (auto simp: p_read_def split: option.splits prod.splits sum.splits)
  with p_read_size [OF r] show ?thesis
    by (cases err) (auto simp: look_def r)
qed

lemma fine_next: "fine (p_next st) (\<lambda>(t, st'). psize st' \<le> psize st \<and> (t \<noteq> TEOF \<longrightarrow> psize st' < psize st))"
  unfolding p_next_def fine_and_then
  by (rule fine_pair_mono [OF fine_look]) (auto simp: psize_def split: if_splits)

lemma fine_expectSymbol: "fine (expectSymbol s st) (\<lambda>st'. psize st' < psize st)"
  unfolding expectSymbol_def fine_and_then by (rule fine_pair_mono [OF fine_next]) auto

lemma fine_expectIdent: "fine (expectIdent s st) (\<lambda>st'. psize st' < psize st)"
  unfolding expectIdent_def fine_and_then by (rule fine_pair_mono [OF fine_next]) auto

lemma fine_ident: "fine (ident w st) (\<lambda>(i, st'). psize st' < psize st)"
  unfolding ident_def fine_and_then by (rule fine_pair_mono [OF fine_next]) (auto split: token.split)

lemma semicolon_size: "psize (consumeOptionalSemicolon st) \<le> psize st"
  using p_read_size [of st]
  by (fastforce simp: consumeOptionalSemicolon_def psize_def split: prod.splits)

text \<open>The loops: with fuel for the size they are fine and do not grow the input.\<close>

lemma fine_more_key:
  "psize st < fuel \<Longrightarrow> fine (more_key fuel key st) (\<lambda>(k, st'). psize st' \<le> psize st)"
proof (induction fuel arbitrary: key st)
  case (Suc fuel)
  have "fine (more_key fuel k st3) (\<lambda>(k, st'). psize st' \<le> psize st)" if "psize st3 < psize st" for k st3
    using that Suc.prems by (intro fine_mono [OF Suc.IH]) auto
  then show ?case
    by (auto intro!: fine_pair_mono [OF fine_look] fine_pair_mono [OF fine_next] fine_pair_mono [OF fine_ident])
qed simp

lemma fine_key: "psize st \<le> fuel \<Longrightarrow> fine (parseQualifiedKey fuel st) (\<lambda>(k, st'). psize st' < psize st)"
  unfolding parseQualifiedKey_def fine_and_then
  by (auto intro!: fine_pair_mono [OF fine_ident] fine_pair_mono [OF fine_more_key])

lemma fine_value_parts:
  "psize st < fuel \<Longrightarrow> fine (value_parts fuel parts st) (\<lambda>(k, st'). psize st' \<le> psize st)"
proof (induction fuel arbitrary: parts st)
  case (Suc fuel)
  have "fine (value_parts fuel ps st3) (\<lambda>(k, st'). psize st' \<le> psize st)" if "psize st3 < psize st" for ps st3
    using that Suc.prems by (intro fine_mono [OF Suc.IH]) auto
  then show ?case
    by (auto intro!: fine_pair_mono [OF fine_look] fine_pair_mono [OF fine_next] split: token.split)
qed simp

lemma fine_attr_value: "psize st < fuel \<Longrightarrow> fine (parseAttrValue fuel st) (\<lambda>(v, st'). psize st' \<le> psize st)"
proof -
  assume fuel: "psize st < fuel"
  have parts: "fine (value_parts fuel [] st1) (\<lambda>(k, st'). psize st' \<le> psize st)" if "psize st1 \<le> psize st" for st1
    using that fuel by (intro fine_mono [OF fine_value_parts]) auto
  show ?thesis
    unfolding parseAttrValue_def fine_and_then
  proof (rule fine_pair_mono [OF fine_look], elim conjE)
    fix t st1
    assume "psize st1 \<le> psize st"
    with parts [OF this] show "fine (case (t, st1) of (t, st1) \<Rightarrow> (case t of
        TString s \<Rightarrow> and_then (p_next st1) (\<lambda>(_, st2). Inr (s, st2))
      | _ \<Rightarrow> and_then (value_parts fuel [] st1) (\<lambda>(parts, st2).
          let val = trim_space (concat parts) in
          if val = '''' then Inl EmptyAttrValue else Inr (val, st2)))) (\<lambda>(v, st'). psize st' \<le> psize st)"
      by (cases t) (auto simp: Let_def intro!: fine_pair_mono [OF fine_next] elim!: fine_pair_mono)
  qed
qed

lemma fine_attr_block:
  "psize st < fuel \<Longrightarrow> fine (attr_block fuel attrs st) (\<lambda>(m, st'). psize st' \<le> psize st)"
proof (induction fuel arbitrary: attrs st)
  case (Suc fuel)
  have rec: "fine (attr_block fuel m st3) (\<lambda>(k, st'). psize st' \<le> psize st)" if "psize st3 < psize st" for m st3
    using that Suc.prems by (intro fine_mono [OF Suc.IH]) auto
  show ?case
    using Suc.prems
    by (auto intro!: rec fine_pair_mono [OF fine_look] fine_pair_mono [OF fine_next] fine_pair_mono [OF fine_key]
        fine_mono [OF fine_expectSymbol] fine_pair_mono [OF fine_attr_value])
qed simp

lemma fine_block: "psize st < fuel \<Longrightarrow> fine (parseAttrBlock fuel st) (\<lambda>(m, st'). psize st' < psize st)"
  unfolding parseAttrBlock_def fine_and_then
  by (auto intro!: fine_mono [OF fine_expectSymbol] fine_pair_mono [OF fine_attr_block])

lemma fine_optional: "psize st < fuel \<Longrightarrow> fine (optional_attrs fuel st) (\<lambda>(m, st'). psize st' \<le> psize st)"
  unfolding optional_attrs_def fine_and_then
  by (auto intro!: fine_pair_mono [OF fine_look] fine_pair_mono [OF fine_block])

lemma fine_top_value: "fine (parseTopLevelValue st) (\<lambda>(v, st'). psize st' \<le> psize st)"
  unfolding parseTopLevelValue_def fine_and_then
  by (auto intro!: fine_pair_mono [OF fine_look] fine_pair_mono [OF fine_next] fine_pair_mono [OF fine_ident]
      split: token.split)

lemma fine_edge_chain: "psize st < fuel \<Longrightarrow> fine (edge_chain fuel chain st) (\<lambda>(m, st'). psize st' \<le> psize st)"
proof (induction fuel arbitrary: chain st)
  case (Suc fuel)
  have rec: "fine (edge_chain fuel m st3) (\<lambda>(k, st'). psize st' \<le> psize st)" if "psize st3 < psize st" for m st3
    using that Suc.prems by (intro fine_mono [OF Suc.IH]) auto
  show ?case
    by (auto intro!: rec fine_pair_mono [OF fine_look] fine_pair_mono [OF fine_next] fine_pair_mono [OF fine_ident])
qed simp

lemma fine_subgraph_head: "fine (subgraph_head st) (\<lambda>st'. psize st' < psize st)"
  unfolding subgraph_head_def fine_and_then
  by (auto intro!: fine_pair_mono [OF fine_look] fine_pair_mono [OF fine_next] fine_mono [OF fine_expectSymbol]
      split: token.split)

section \<open>The graph while it is read\<close>

text \<open>The root scope has recorded the nodes of the graph, each of them once.\<close>

definition parse_inv :: "graph \<Rightarrow> scope list \<Rightarrow> bool" where
  "parse_inv g scs \<longleftrightarrow> wf_graph g \<and> scs \<noteq> [] \<and> set (sc_ids (last scs)) = dom (g_nodes g) \<and>
     distinct (sc_ids (last scs))"

lemma node_count_card: "parse_inv g scs \<Longrightarrow> node_count scs = card (dom (g_nodes g))"
  unfolding parse_inv_def node_count_def by (metis distinct_card)

lemma AddEdge_nodes: "AddEdge g e = Inr g' \<Longrightarrow> g_nodes g' = g_nodes g"
  by (auto simp: AddEdge_def Let_def split: option.splits if_splits)

lemma AddNode_dom: "AddNode g (Some n) = Inr g' \<Longrightarrow> dom (g_nodes g') = insert (node_id n) (dom (g_nodes g))"
  by (auto simp: AddNode_def split: option.splits if_splits)

lemma inv_add_all_edges: "parse_inv g scs \<Longrightarrow> fine (add_all_edges es g) (\<lambda>g'. parse_inv g' scs)"
proof (induction es arbitrary: g)
  case (Cons e es)
  have "parse_inv g' scs" if "AddEdge g (Some e) = Inr g'" for g'
    using that Cons.prems wf_AddEdge AddEdge_nodes [OF that] by (auto simp: parse_inv_def)
  with Cons.IH show ?case by (auto split: sum.split)
qed simp

lemma last_recordNode: "scs \<noteq> [] \<Longrightarrow> sc_ids (last (recordNode i scs)) = List.insert i (sc_ids (last scs))"
  by (simp add: recordNode_def last_map)

lemma recordNode_shape [simp]: "length (recordNode i scs) = length scs" "recordNode i scs = [] \<longleftrightarrow> scs = []"
  by (simp_all add: recordNode_def)

lemma inv_declare_node:
  assumes "parse_inv g scs"
  shows "fine (declare_node i attrs scs g) (\<lambda>(g', scs'). parse_inv g' scs' \<and> length scs' = length scs)"
proof -
  have "parse_inv g' (recordNode i scs)" if "AddNode g (Some n) = Inr g'" "node_id n = i" for g' n
    using assms wf_AddNode [OF _ that(1)] AddNode_dom [OF that(1)] that(2)
    by (auto simp: parse_inv_def last_recordNode)
  then show ?thesis
    by (auto simp: declare_node_def Let_def NewNode_def split: sum.split)
qed

lemma inv_add_class: "parse_inv g scs \<Longrightarrow> parse_inv (add_class c i g) scs"
  by (auto simp: parse_inv_def add_class_def wf_graph_def split: option.splits)

lemma inv_label_class: "parse_inv g scs \<Longrightarrow> parse_inv (applySubgraphLabelClass sc g) scs"
proof -
  have "parse_inv g scs \<Longrightarrow> parse_inv (fold (add_class c) is g) scs" for c "is"
    by (induction "is" arbitrary: g) (auto simp: inv_add_class)
  then show "parse_inv g scs \<Longrightarrow> parse_inv (applySubgraphLabelClass sc g) scs"
    by (simp add: applySubgraphLabelClass_def Let_def)
qed

lemma inv_graph_attrs: "parse_inv (g\<lparr>g_attrs := a\<rparr>) scs \<longleftrightarrow> parse_inv g scs"
  by (simp add: parse_inv_def wf_graph_def)

lemma inv_set_defaults:
  assumes "\<And>s. sc_ids (f s) = sc_ids s"
  shows "parse_inv g (set_defaults f scs) \<longleftrightarrow> parse_inv g scs" "length (set_defaults f scs) = length scs"
  using assms by (cases scs; auto simp: parse_inv_def set_defaults_def)+

lemma inv_set_attr:
  "parse_inv g scs \<Longrightarrow> set_attr_stmt k v scs g = (g', scs') \<Longrightarrow> parse_inv g' scs' \<and> length scs' = length scs"
  by (auto simp: set_attr_stmt_def inv_graph_attrs inv_set_defaults split: if_splits)

lemma inv_push: "parse_inv g scs \<Longrightarrow> parse_inv g (newScope scs # scs)"
  by (simp add: parse_inv_def)

lemma inv_pop: "parse_inv g scs \<Longrightarrow> 1 < length scs \<Longrightarrow> parse_inv g (tl scs)"
  by (cases scs) (auto simp: parse_inv_def)

section \<open>The statements\<close>

lemma fine_plain_stmt:
  assumes "psize st < fuel" "parse_inv g scs"
  shows "fine (plain_stmt fuel i g scs st)
    (\<lambda>(g', scs', st'). psize st' \<le> psize st \<and> parse_inv g' scs' \<and> length scs' = length scs)"
proof -
  have semi: "psize st1 \<le> psize st \<Longrightarrow> psize (consumeOptionalSemicolon st1) \<le> psize st" for st1
    using semicolon_size [of st1] by simp
  have attr: "fine (case set_attr_stmt i v scs g of (g', scs') \<Rightarrow> Inr (g', scs', consumeOptionalSemicolon st1))
      (\<lambda>(g', scs', st'). psize st' \<le> psize st \<and> parse_inv g' scs' \<and> length scs' = length scs)"
    if "psize st1 \<le> psize st" for v st1
    using inv_set_attr [OF assms(2), of i v] semi [OF that] by (cases "set_attr_stmt i v scs g") auto
  show ?thesis
    unfolding plain_stmt_def fine_and_then
    using assms
    by (auto intro!: fine_pair_mono [OF fine_look] fine_pair_mono [OF fine_next] fine_pair_mono [OF fine_top_value]
        fine_pair_mono [OF fine_edge_chain] fine_pair_mono [OF fine_optional]
        fine_mono [OF inv_add_all_edges [OF assms(2)]] fine_pair_mono [OF inv_declare_node [OF assms(2)]] attr semi)
qed

lemma fine_default_stmt:
  assumes "psize st < fuel" "parse_inv g scs"
  shows "fine (default_stmt fuel kw g scs st)
    (\<lambda>(g', scs', st'). psize st' \<le> psize st \<and> parse_inv g' scs' \<and> length scs' = length scs)"
proof -
  have semi: "psize st1 < psize st \<Longrightarrow> psize (consumeOptionalSemicolon st1) \<le> psize st" for st1
    using semicolon_size [of st1] by simp
  show ?thesis
    using assms unfolding default_stmt_def fine_and_then
    by (intro fine_pair_mono [OF fine_block]) (auto simp: Let_def inv_graph_attrs inv_set_defaults semi)
qed

lemma fine_statements:
  assumes "psize st < fuel" "parse_inv g scs"
  shows "fine (parseStatements fuel g scs st)
    (\<lambda>(g', scs', st'). psize st' \<le> psize st \<and> parse_inv g' scs' \<and> length scs' = length scs)"
  using assms
proof (induction fuel arbitrary: g scs st)
  case (Suc fuel)
  have rec: "fine (parseStatements fuel g1 scs1 st1)
      (\<lambda>(g', scs', st'). psize st' \<le> psize st \<and> parse_inv g' scs' \<and> length scs' = length scs)"
    if "psize st1 < psize st" "parse_inv g1 scs1" "length scs1 = length scs" for g1 scs1 st1
    using that Suc.prems by (intro fine_mono [OF Suc.IH]) auto
  have sub: "fine (parseStatements fuel g (newScope scs # scs) st1)
      (\<lambda>(g', scs', st'). psize st' \<le> psize st1 \<and> parse_inv g' scs' \<and> length scs' = Suc (length scs))"
    if "psize st1 < psize st" for st1
    using that Suc.prems inv_push by (intro fine_mono [OF Suc.IH]) auto
  have pop: "parse_inv g1 (tl scs1)" if "parse_inv g1 scs1" "length scs1 = Suc (length scs)" for g1 scs1
    using inv_pop [OF that(1)] that Suc.prems(2) by (cases scs) (auto simp: parse_inv_def)
  have plain: "fine (plain_stmt fuel i g scs st1)
      (\<lambda>(g', scs', st'). psize st' < psize st \<and> parse_inv g' scs' \<and> length scs' = length scs)"
    if "psize st1 < psize st" for i st1
    using that Suc.prems by (intro fine_mono [OF fine_plain_stmt]) auto
  have deflt: "fine (default_stmt fuel i g scs st1)
      (\<lambda>(g', scs', st'). psize st' < psize st \<and> parse_inv g' scs' \<and> length scs' = length scs)"
    if "psize st1 < psize st" for i st1
    using that Suc.prems by (intro fine_mono [OF fine_default_stmt]) auto
  show ?case
    using Suc.prems(2)
    by (auto intro!: fine_pair_mono [OF fine_look] fine_pair_mono [OF fine_ident] fine_mono [OF fine_subgraph_head]
        fine_mono [OF sub] fine_mono [OF fine_expectSymbol] fine_mono [OF plain] fine_mono [OF deflt] rec pop
        inv_label_class)
qed simp

section \<open>The whole parser\<close>

lemma inv_start: "parse_inv (NewGraph nm) [newScope []]"
  by (simp add: parse_inv_def newScope_def wf_NewGraph) (simp add: NewGraph_def)

lemma fine_parseGraph:
  assumes "psize st < fuel"
  shows "fine (parseGraph fuel st) wf_graph"
proof -
  have stmts: "fine (parseStatements fuel (NewGraph nm) [newScope []] st1) (\<lambda>(g, _, _). wf_graph g)"
    if "psize st1 < fuel" for nm st1
    using that by (intro fine_mono [OF fine_statements [OF _ inv_start]]) (auto simp: parse_inv_def)
  show ?thesis
    unfolding parseGraph_def fine_and_then
    using assms
    by (auto intro!: fine_mono [OF fine_expectIdent] fine_pair_mono [OF fine_ident] fine_mono [OF fine_expectSymbol]
        fine_mono [OF stmts] fine_pair_mono [OF fine_look])
qed

lemma strip_fuel: "strip i e s \<noteq> Inl OutOfFuel"
  by (induction i e s rule: strip.induct) (auto simp: out_byte_def split: sum.splits option.splits)

lemma fine_Parse: "fine (Parse src) wf_graph"
proof -
  have "fine (stripComments src) (\<lambda>_. True)"
    using strip_fuel by (auto simp: fine_def stripComments_def split: sum.split)
  then show ?thesis
    unfolding Parse_def fine_and_then
    by (rule fine_mono)
       (auto simp: Let_def psize_def intro!: fine_pair_mono [OF fine_look] fine_parseGraph)
qed

end
