(* ===== verification/DotRoundtrip.thy ===== *)
theory DotRoundtrip
  imports DotFacts
begin

text \<open>
  The documented subset of DOT as abstract syntax with a printer and a meaning, and the proof that
  parsing the printed text has that meaning: graph attributes, defaults for nodes and edges,
  subgraphs, chained edges and qualified attribute keys, with values that hold any bytes.
\<close>

section \<open>Abstract syntax and meaning\<close>

type_synonym attr_list = "(string list \<times> string) list" \<comment> \<open>qualified keys with values\<close>

datatype stmt =
    GraphAttrs attr_list
  | NodeDefaults attr_list
  | EdgeDefaults attr_list
  | Assign string string
  | EdgeStmt string string "string list" attr_list
  | NodeStmt string attr_list
  | Subgraph "stmt list"

definition assign :: "string list \<times> string \<Rightarrow> (string \<rightharpoonup> string) \<Rightarrow> (string \<rightharpoonup> string)" where
  "assign kv m = m(join_with ''.'' (fst kv) \<mapsto> snd kv)"

definition attr_map :: "attr_list \<Rightarrow> (string \<rightharpoonup> string)" where
  "attr_map kvs = fold assign kvs Map.empty"

type_synonym reading = "graph \<times> scope list"

fun exec_stmt :: "stmt \<Rightarrow> reading \<Rightarrow> reading" and exec_stmts :: "stmt list \<Rightarrow> reading \<Rightarrow> reading" where
  "exec_stmt (GraphAttrs kvs) (g, scs) = (g\<lparr>g_attrs := g_attrs g ++ attr_map kvs\<rparr>, scs)"
| "exec_stmt (NodeDefaults kvs) (g, scs) =
     (g, set_defaults (\<lambda>s. s\<lparr>sc_node_defaults := sc_node_defaults s ++ attr_map kvs\<rparr>) scs)"
| "exec_stmt (EdgeDefaults kvs) (g, scs) =
     (g, set_defaults (\<lambda>s. s\<lparr>sc_edge_defaults := sc_edge_defaults s ++ attr_map kvs\<rparr>) scs)"
| "exec_stmt (Assign k v) (g, scs) = set_attr_stmt k v scs g"
| "exec_stmt (EdgeStmt a b cs kvs) (g, scs) = (add_edges (edge_steps (hd scs) (attr_map kvs) (a # b # cs)) g, scs)"
| "exec_stmt (NodeStmt i kvs) (g, scs) =
     (add_nodes [(NewNode i)\<lparr>node_order := int (node_count scs),
        node_attrs := sc_node_defaults (hd scs) ++ attr_map kvs\<rparr>] g, recordNode i scs)"
| "exec_stmt (Subgraph ss) (g, scs) =
     (case exec_stmts ss (g, newScope scs # scs) of (g', scs') \<Rightarrow>
        (applySubgraphLabelClass (hd scs') (applySubgraphLabelClass (hd scs') g'), tl scs'))"
| "exec_stmts [] r = r"
| "exec_stmts (s # ss) r = exec_stmts ss (exec_stmt s r)"

section \<open>Printing\<close>

definition escape_char :: "char \<Rightarrow> string" where
  "escape_char c = (if c = quote_char \<or> c = backslash then [backslash, c] else [c])"

definition escape :: "string \<Rightarrow> string" where
  "escape s = concat (map escape_char s)"

fun print_token :: "token \<Rightarrow> string" where
  "print_token TEOF = ''''"
| "print_token (TIdent s) = s @ '' ''"
| "print_token (TSymbol s) = s @ '' ''"
| "print_token (TString s) = quote_char # escape s @ [quote_char, CHR '' '']"

definition key_tokens :: "string list \<Rightarrow> token list" where
  "key_tokens k = TIdent (hd k) # concat (map (\<lambda>p. [TSymbol ''.'', TIdent p]) (tl k))"

fun item_tokens :: "attr_list \<Rightarrow> token list" where
  "item_tokens [] = []"
| "item_tokens [(k, v)] = key_tokens k @ [TSymbol ''='', TString v]"
| "item_tokens ((k, v) # kvs) = key_tokens k @ [TSymbol ''='', TString v, TSymbol '',''] @ item_tokens kvs"

definition attr_tokens :: "attr_list \<Rightarrow> token list" where
  "attr_tokens kvs = TSymbol ''['' # item_tokens kvs @ [TSymbol '']'']"

definition arrow_tokens :: "string list \<Rightarrow> token list" where
  "arrow_tokens cs = concat (map (\<lambda>c. [TSymbol ''->'', TIdent c]) cs)"

fun stmt_tokens :: "stmt \<Rightarrow> token list" and stmts_tokens :: "stmt list \<Rightarrow> token list" where
  "stmt_tokens (GraphAttrs kvs) = TIdent ''graph'' # attr_tokens kvs @ [TSymbol '';'']"
| "stmt_tokens (NodeDefaults kvs) = TIdent ''node'' # attr_tokens kvs @ [TSymbol '';'']"
| "stmt_tokens (EdgeDefaults kvs) = TIdent ''edge'' # attr_tokens kvs @ [TSymbol '';'']"
| "stmt_tokens (Assign k v) = [TIdent k, TSymbol ''='', TString v, TSymbol '';'']"
| "stmt_tokens (EdgeStmt a b cs kvs) = TIdent a # arrow_tokens (b # cs) @ attr_tokens kvs @ [TSymbol '';'']"
| "stmt_tokens (NodeStmt i kvs) = TIdent i # attr_tokens kvs @ [TSymbol '';'']"
| "stmt_tokens (Subgraph ss) = TIdent ''subgraph'' # TSymbol ''{'' # stmts_tokens ss @ [TSymbol ''}'']"
| "stmts_tokens [] = []"
| "stmts_tokens (s # ss) = stmt_tokens s @ stmts_tokens ss"

definition graph_tokens :: "string \<Rightarrow> stmt list \<Rightarrow> token list" where
  "graph_tokens name ss = [TIdent ''digraph'', TIdent name, TSymbol ''{''] @ stmts_tokens ss @ [TSymbol ''}'']"

definition print_tokens :: "token list \<Rightarrow> string" where
  "print_tokens ts = concat (map print_token ts)"

definition print_graph :: "string \<Rightarrow> stmt list \<Rightarrow> string" where
  "print_graph name ss = print_tokens (graph_tokens name ss)"

text \<open>Names that can be printed: identifiers; node names and assigned keys are no keywords.\<close>

definition is_ident :: "string \<Rightarrow> bool" where
  "is_ident s \<longleftrightarrow> s \<noteq> '''' \<and> isIdentStart (hd s) \<and> list_all isIdentContinue s"

definition is_name :: "string \<Rightarrow> bool" where
  "is_name s \<longleftrightarrow> is_ident s \<and> s \<notin> {''graph'', ''node'', ''edge'', ''subgraph''}"

definition good_attrs :: "attr_list \<Rightarrow> bool" where
  "good_attrs kvs \<longleftrightarrow> list_all (\<lambda>(k, v). k \<noteq> [] \<and> list_all is_ident k) kvs"

fun good_stmt :: "stmt \<Rightarrow> bool" where
  "good_stmt (GraphAttrs kvs) = good_attrs kvs"
| "good_stmt (NodeDefaults kvs) = good_attrs kvs"
| "good_stmt (EdgeDefaults kvs) = good_attrs kvs"
| "good_stmt (Assign k v) = is_name k"
| "good_stmt (EdgeStmt a b cs kvs) = (is_name a \<and> is_ident b \<and> list_all is_ident cs \<and> good_attrs kvs)"
| "good_stmt (NodeStmt i kvs) = (is_name i \<and> good_attrs kvs)"
| "good_stmt (Subgraph ss) = list_all good_stmt ss"

section \<open>Lexing what was printed\<close>

definition good_token :: "token \<Rightarrow> bool" where
  "good_token t \<longleftrightarrow> (case t of TEOF \<Rightarrow> False | TIdent s \<Rightarrow> is_ident s | TString s \<Rightarrow> True
     | TSymbol s \<Rightarrow> s \<in> {''{'', ''}'', ''['', '']'', '','', '';'', ''='', ''.'', ''->''})"

lemma lex_blank [simp]: "lex_next (CHR '' '' # s) = lex_next s"
  by (simp add: lex_next_def is_blank_def)

lemma takeWhile_ident:
  "list_all P s \<Longrightarrow> \<not> P c \<Longrightarrow> takeWhile P (s @ c # r) = s \<and> dropWhile P (s @ c # r) = c # r"
  by (induction s) auto

lemma ident_start_plain:
  assumes "isIdentStart c"
  shows "\<not> is_blank c" "\<not> is_symbol_char c" "c \<noteq> CHR ''-''" "c \<noteq> quote_char" "c \<noteq> CHR ''/''"
  using assms
  by (auto simp: isIdentStart_def isAlpha_def in_range_def is_blank_def is_symbol_char_def dot_chars)

lemma blank_no_ident: "\<not> isIdentContinue (CHR '' '')"
  by code_simp

lemma lex_ident:
  assumes "is_ident s"
  shows "lex_next (s @ CHR '' '' # r) = (Inr (TIdent s), CHR '' '' # r)"
proof -
  obtain c u where s: "s = c # u" and c: "isIdentStart c" and all: "list_all isIdentContinue s"
    using assms by (cases s) (auto simp: is_ident_def)
  show ?thesis
    using ident_start_plain [OF c] c takeWhile_ident [OF all blank_no_ident, of r] s
    by (simp add: lex_next_def lexIdent_def)
qed

lemma lexString_quote [simp]: "lexString sb (quote_char # r) = (Inr (TString sb), r)"
  by (cases r) auto

lemma lexString_escape: "lexString sb (escape s @ quote_char # r) = (Inr (TString (sb @ s)), r)"
proof (induction s arbitrary: sb)
  case (Cons c s)
  have "escape s @ quote_char # r \<noteq> []" by simp
  then obtain d u where du: "escape s @ quote_char # r = d # u" by (cases "escape s @ quote_char # r") auto
  show ?case
  proof (cases "c = quote_char \<or> c = backslash")
    case True
    then have "lexString sb (escape (c # s) @ quote_char # r) = lexString (sb @ [c]) (escape s @ quote_char # r)"
      by (auto simp: escape_def escape_char_def unescape_def dot_chars)
    with Cons.IH show ?thesis by simp
  next
    case False
    then have "lexString sb (escape (c # s) @ quote_char # r) = lexString (sb @ [c]) (escape s @ quote_char # r)"
      using du by (simp add: escape_def escape_char_def)
    with Cons.IH show ?thesis by simp
  qed
qed (simp add: escape_def)

lemma lex_symbol:
  "s \<in> {''{'', ''}'', ''['', '']'', '','', '';'', ''='', ''.'', ''->''} \<Longrightarrow>
   lex_next (s @ CHR '' '' # r) = (Inr (TSymbol s), CHR '' '' # r)"
  by (auto simp: lex_next_def is_blank_def is_symbol_char_def dot_chars)

lemma lex_string: "lex_next (quote_char # escape s @ quote_char # r) = (Inr (TString s), r)"
proof -
  have "lex_next (quote_char # u) = lexString [] u" for u
    by (simp add: lex_next_def is_blank_def is_symbol_char_def dot_chars)
  then show ?thesis by (simp add: lexString_escape)
qed

text \<open>A printed token is read back, up to the blank behind it.\<close>

lemma lex_token: "good_token t \<Longrightarrow> lex_next (print_token t @ r) = (Inr t, CHR '' '' # r)"
  by (cases t) (auto simp: good_token_def lex_ident lex_symbol lex_string)

lemma lex_tokens: "list_all good_token (t # ts) \<Longrightarrow>
    lex_next (print_tokens (t # ts)) = (Inr t, CHR '' '' # print_tokens ts)"
  by (simp add: print_tokens_def lex_token)

section \<open>Steps of the parser on printed text\<close>

text \<open>The tokens a state still delivers; what is left may start with the blank behind a token.\<close>

definition delivers :: "pstate \<Rightarrow> token list \<Rightarrow> bool" where
  "delivers st ts \<longleftrightarrow> list_all good_token ts \<and>
     (let at = (\<lambda>us. p_rest st = print_tokens us \<or> p_rest st = CHR '' '' # print_tokens us)
      in case p_peek st of None \<Rightarrow> at ts | Some t \<Rightarrow> t = TEOF \<and> ts = [] \<or> (\<exists>us. ts = t # us \<and> at us))"

text \<open>A run ends with a value that has the property, unless its fuel ends.\<close>

definition runs :: "dot_error + 'a \<Rightarrow> ('a \<Rightarrow> bool) \<Rightarrow> bool" where
  "runs r P \<longleftrightarrow> (case r of Inl e \<Rightarrow> e = OutOfFuel | Inr a \<Rightarrow> P a)"

lemma runs_simps [simp]: "runs (Inr a) P \<longleftrightarrow> P a" "runs (Inl e) P \<longleftrightarrow> e = OutOfFuel"
  by (simp_all add: runs_def)

lemma runs_and_then [simp]: "runs (and_then x f) P \<longleftrightarrow> runs x (\<lambda>a. runs (f a) P)"
  by (cases x) auto

lemma runs_mono: "runs x Q \<Longrightarrow> (\<And>a. Q a \<Longrightarrow> P a) \<Longrightarrow> runs x P"
  by (cases x) auto

lemma runs_pair_mono: "runs x (\<lambda>(a, b). Q a b) \<Longrightarrow> (\<And>a b. Q a b \<Longrightarrow> P (a, b)) \<Longrightarrow> runs x P"
  by (cases x) auto

lemma runs_look:
  "delivers st (t # ts) \<Longrightarrow> runs (look st) (\<lambda>(t', st'). t' = t \<and> delivers st' (t # ts) \<and> p_peek st' = Some t)"
  using lex_tokens [of t ts]
  by (auto simp: look_def p_read_def delivers_def Let_def split: option.splits)

lemma runs_look_end: "delivers st [] \<Longrightarrow> runs (look st) (\<lambda>(t', st'). t' = TEOF)"
  by (auto simp: look_def p_read_def delivers_def Let_def print_tokens_def split: option.splits)
     (simp_all add: lex_next_def)

lemma runs_next: "delivers st (t # ts) \<Longrightarrow> runs (p_next st) (\<lambda>(t', st'). t' = t \<and> delivers st' ts)"
  unfolding p_next_def runs_and_then
  by (rule runs_pair_mono [OF runs_look]) (auto simp: delivers_def Let_def)

lemma runs_expectSymbol: "delivers st (TSymbol s # ts) \<Longrightarrow> runs (expectSymbol s st) (\<lambda>st'. delivers st' ts)"
  unfolding expectSymbol_def runs_and_then by (rule runs_pair_mono [OF runs_next]) auto

lemma runs_expectIdent: "delivers st (TIdent s # ts) \<Longrightarrow> runs (expectIdent s st) (\<lambda>st'. delivers st' ts)"
  unfolding expectIdent_def runs_and_then by (rule runs_pair_mono [OF runs_next]) auto

lemma runs_ident: "delivers st (TIdent s # ts) \<Longrightarrow> runs (ident w st) (\<lambda>(i, st'). i = s \<and> delivers st' ts)"
  unfolding ident_def runs_and_then by (rule runs_pair_mono [OF runs_next]) auto

lemma semicolon_delivers: "delivers st (TSymbol '';'' # ts) \<Longrightarrow> delivers (consumeOptionalSemicolon st) ts"
  using lex_tokens [of "TSymbol '';''" ts]
  by (auto simp: consumeOptionalSemicolon_def p_read_def delivers_def Let_def split: option.splits)

lemma no_semicolon_delivers:
  "delivers st (t # ts) \<Longrightarrow> t \<noteq> TSymbol '';'' \<Longrightarrow> delivers (consumeOptionalSemicolon st) (t # ts)"
  using lex_tokens [of t ts]
  by (auto simp: consumeOptionalSemicolon_def p_read_def delivers_def Let_def split: option.splits)

lemma lex_end [simp]: "lex_next [] = (Inr TEOF, [])"
  by (simp add: lex_next_def)

lemma semicolon_end: "delivers st [] \<Longrightarrow> delivers (consumeOptionalSemicolon st) []"
  by (auto simp: consumeOptionalSemicolon_def p_read_def delivers_def Let_def print_tokens_def split: option.splits)

text \<open>Attributes.\<close>

fun dotted :: "string \<Rightarrow> string list \<Rightarrow> string" where
  "dotted k [] = k"
| "dotted k (p # ps) = dotted (k @ ''.'' @ p) ps"

lemma dotted_append: "dotted (a @ k) ps = a @ dotted k ps"
  by (induction ps arbitrary: k) simp_all

lemma join_dots: "join_with ''.'' (k # ps) = dotted k ps"
proof (induction ps arbitrary: k)
  case (Cons p ps)
  then show ?case using dotted_append [of "k @ ''.''" p ps] by simp
qed simp

lemma runs_more_key:
  "delivers st (concat (map (\<lambda>p. [TSymbol ''.'', TIdent p]) ps) @ t # ts) \<Longrightarrow> t \<noteq> TSymbol ''.'' \<Longrightarrow>
   runs (more_key fuel k st) (\<lambda>(key, st'). key = dotted k ps \<and> delivers st' (t # ts))"
proof (induction ps arbitrary: fuel k st)
  case Nil
  then show ?case by (cases fuel) (auto intro!: runs_pair_mono [OF runs_look])
next
  case (Cons p ps)
  from Cons.prems show ?case
    by (cases fuel) (auto intro!: runs_pair_mono [OF runs_look] runs_pair_mono [OF runs_next]
        runs_pair_mono [OF runs_ident] runs_pair_mono [OF Cons.IH])
qed

lemma runs_key:
  assumes "delivers st (key_tokens k @ t # ts)" "k \<noteq> []" "t \<noteq> TSymbol ''.''"
  shows "runs (parseQualifiedKey fuel st) (\<lambda>(key, st'). key = join_with ''.'' k \<and> delivers st' (t # ts))"
proof -
  obtain k1 ps where k: "k = k1 # ps" using assms(2) by (cases k) auto
  with assms show ?thesis
    unfolding parseQualifiedKey_def runs_and_then k join_dots
    by (auto simp: key_tokens_def intro!: runs_pair_mono [OF runs_ident] runs_pair_mono [OF runs_more_key])
qed

lemma runs_attr_value:
  "delivers st (TString v # ts) \<Longrightarrow> runs (parseAttrValue fuel st) (\<lambda>(w, st'). w = v \<and> delivers st' ts)"
  unfolding parseAttrValue_def runs_and_then
  by (auto intro!: runs_pair_mono [OF runs_look] runs_pair_mono [OF runs_next])

text \<open>One item of an attribute block, up to the comma or the bracket behind it.\<close>

lemma runs_item:
  assumes "delivers st (key_tokens k @ TSymbol ''='' # TString v # t # ts)" "k \<noteq> []"
    and "\<And>st'. delivers st' (t # ts) \<Longrightarrow> p_peek st' = Some t \<Longrightarrow>
      runs (if t = TSymbol '','' then and_then (p_next st') (\<lambda>(_, st6). attr_block fuel (assign (k, v) m) st6)
            else if t = TSymbol '']'' then attr_block fuel (assign (k, v) m) st'
            else Inl (Expected '', or ]'' (tok_lit t))) Q"
  shows "runs (attr_block (Suc fuel) m st) Q"
proof -
  have st: "delivers st (TIdent (hd k) # concat (map (\<lambda>p. [TSymbol ''.'', TIdent p]) (tl k)) @ TSymbol ''='' # TString v # t # ts)"
    using assms(1) by (simp add: key_tokens_def)
  have key: "runs (parseQualifiedKey fuel st1)
      (\<lambda>(key, st'). key = join_with ''.'' k \<and> delivers st' (TSymbol ''='' # TString v # t # ts))"
    if "delivers st1 (key_tokens k @ TSymbol ''='' # TString v # t # ts)" for st1
    using runs_key [OF that assms(2)] by simp
  have rest: "runs (expectSymbol ''='' st2) (\<lambda>st3. runs (and_then (parseAttrValue fuel st3) (\<lambda>(val, st4).
          and_then (look st4) (\<lambda>(t5, st5).
            if t5 = TSymbol '','' then
              and_then (p_next st5) (\<lambda>(_, st6). attr_block fuel (m(join_with ''.'' k \<mapsto> val)) st6)
            else if t5 = TSymbol '']'' then attr_block fuel (m(join_with ''.'' k \<mapsto> val)) st5
            else Inl (Expected '', or ]'' (tok_lit t5))))) Q)"
    if "delivers st2 (TSymbol ''='' # TString v # t # ts)" for st2
    using that assms(3) unfolding runs_and_then assign_def fst_conv snd_conv
    by (intro runs_mono [OF runs_expectSymbol] runs_pair_mono [OF runs_attr_value])
       (auto intro!: runs_pair_mono [OF runs_look])
  show ?thesis
    unfolding attr_block.simps runs_and_then
    by (rule runs_pair_mono [OF runs_look [OF st]])
       (auto simp: key_tokens_def intro!: runs_pair_mono [OF key] rest [unfolded runs_and_then])
qed

lemma runs_attr_block:
  "delivers st (item_tokens kvs @ TSymbol '']'' # ts) \<Longrightarrow> good_attrs kvs \<Longrightarrow>
   runs (attr_block fuel m st) (\<lambda>(m', st'). m' = fold assign kvs m \<and> delivers st' ts)"
proof (induction kvs arbitrary: fuel m st rule: item_tokens.induct)
  case 1
  then show ?case
    by (cases fuel) (auto intro!: runs_pair_mono [OF runs_look] runs_pair_mono [OF runs_next])
next
  case (2 k v)
  have close: "runs (attr_block n m' st') (\<lambda>(m'', st''). m'' = m' \<and> delivers st'' ts)"
    if "delivers st' (TSymbol '']'' # ts)" for st' m' n
    using that by (cases n) (auto intro!: runs_pair_mono [OF runs_look] runs_pair_mono [OF runs_next])
  from 2 show ?case
    by (cases fuel) (auto simp: good_attrs_def simp del: attr_block.simps(2) intro!: runs_item close)
next
  case (3 k v kv kvs)
  have good: "k \<noteq> []" "good_attrs (kv # kvs)" using 3(3) by (auto simp: good_attrs_def)
  show ?case
  proof (cases fuel)
    case (Suc f)
    show ?thesis
      unfolding Suc
      by (rule runs_item [where k = k and v = v and t = "TSymbol '',''" and ts = "item_tokens (kv # kvs) @ TSymbol '']'' # ts"])
        (use 3(2) good in \<open>auto intro!: runs_pair_mono [OF runs_next] runs_pair_mono [OF 3(1)]\<close>)
  qed simp
qed

lemma runs_block:
  "delivers st (attr_tokens kvs @ ts) \<Longrightarrow> good_attrs kvs \<Longrightarrow>
   runs (parseAttrBlock fuel st) (\<lambda>(m, st'). m = attr_map kvs \<and> delivers st' ts)"
  unfolding parseAttrBlock_def runs_and_then attr_map_def
  by (rule runs_mono [OF runs_expectSymbol]) (auto simp: attr_tokens_def intro: runs_attr_block)

lemma runs_optional:
  "delivers st (attr_tokens kvs @ ts) \<Longrightarrow> good_attrs kvs \<Longrightarrow>
   runs (optional_attrs fuel st) (\<lambda>(m, st'). m = attr_map kvs \<and> delivers st' ts)"
  unfolding optional_attrs_def runs_and_then
  by (rule runs_pair_mono [OF runs_look])
     (auto simp: attr_tokens_def intro!: runs_block [unfolded attr_tokens_def])

lemma runs_top_value:
  "delivers st (TString v # ts) \<Longrightarrow> runs (parseTopLevelValue st) (\<lambda>(w, st'). w = v \<and> delivers st' ts)"
  unfolding parseTopLevelValue_def runs_and_then
  by (auto intro!: runs_pair_mono [OF runs_look] runs_pair_mono [OF runs_next])

lemma runs_edge_chain:
  "delivers st (arrow_tokens (c # cs) @ t # ts) \<Longrightarrow> t \<noteq> TSymbol ''->'' \<Longrightarrow>
   runs (edge_chain fuel pre st) (\<lambda>(chain, st'). chain = pre @ c # cs \<and> delivers st' (t # ts))"
proof (induction cs arbitrary: c fuel pre st)
  case Nil
  then show ?case
    by (cases fuel; auto simp: arrow_tokens_def
        intro!: runs_pair_mono [OF runs_next] runs_pair_mono [OF runs_ident] runs_pair_mono [OF runs_look]; simp)
next
  case (Cons d cs)
  from Cons.prems show ?case
    by (cases fuel; auto simp: arrow_tokens_def
        intro!: runs_pair_mono [OF runs_next] runs_pair_mono [OF runs_ident] runs_pair_mono [OF runs_look]
          runs_pair_mono [OF Cons.IH]; simp)
qed

text \<open>Statements on identifiers cannot be refused by the graph.\<close>

lemma add_all_edges_good:
  "\<forall>e \<in> set es. edge_from e \<noteq> '''' \<and> edge_to e \<noteq> '''' \<Longrightarrow> add_all_edges es g = Inr (add_edges es g)"
  by (induction es arbitrary: g) (auto simp: add_edges_def AddEdge_def Let_def)

lemma chain_edges_good:
  assumes "list_all is_ident chain"
  shows "add_all_edges (edge_steps sc m chain) g = Inr (add_edges (edge_steps sc m chain) g)"
proof (rule add_all_edges_good)
  have "a \<in> set chain \<and> b \<in> set chain" if "(a, b) \<in> set (zip chain (tl chain))" for a b
    using that by (cases chain) (auto dest: set_zip_leftD set_zip_rightD)
  moreover have "'''' \<notin> set chain" using assms by (auto simp: list_all_iff is_ident_def)
  ultimately show "\<forall>e \<in> set (edge_steps sc m chain). edge_from e \<noteq> '''' \<and> edge_to e \<noteq> ''''"
    by (fastforce simp: edge_steps_def NewEdge_def)
qed

lemma declare_node_good:
  "is_ident i \<Longrightarrow> declare_node i (attr_map kvs) scs g = Inr (exec_stmt (NodeStmt i kvs) (g, scs))"
  by (auto simp: declare_node_def Let_def add_nodes_def AddNode_def NewNode_def is_ident_def
      split: option.splits sum.splits)

lemma exec_length [simp]:
  "length (snd (exec_stmt s r)) = length (snd r)" "length (snd (exec_stmts ss r)) = length (snd r)"
proof (induction s r and ss r rule: exec_stmt_exec_stmts.induct)
  case (7 ss g scs)
  then show ?case by (cases "exec_stmts ss (g, newScope scs # scs)") simp
qed (auto simp: set_defaults_def set_attr_stmt_def split: list.split)

text \<open>The parser at one statement that starts with a name.\<close>

lemma runs_plain_assign:
  assumes "delivers st (TSymbol ''='' # TString v # TSymbol '';'' # ts)"
  shows "runs (plain_stmt fuel k g scs st) (\<lambda>(g', scs', st'). (g', scs') = exec_stmt (Assign k v) (g, scs) \<and> delivers st' ts)"
  unfolding plain_stmt_def runs_and_then
  using assms
  by (intro runs_pair_mono [OF runs_look [OF assms]])
     (auto intro!: runs_pair_mono [OF runs_next] runs_pair_mono [OF runs_top_value] semicolon_delivers
       split: prod.split)

lemma runs_plain_edge:
  assumes "delivers st (arrow_tokens (b # cs) @ attr_tokens kvs @ TSymbol '';'' # ts)"
    and "good_stmt (EdgeStmt a b cs kvs)"
  shows "runs (plain_stmt fuel a g scs st)
    (\<lambda>(g', scs', st'). (g', scs') = exec_stmt (EdgeStmt a b cs kvs) (g, scs) \<and> delivers st' ts)"
proof -
  have st: "delivers st (TSymbol ''->'' # TIdent b # arrow_tokens cs @ attr_tokens kvs @ TSymbol '';'' # ts)"
    using assms(1) by (simp add: arrow_tokens_def)
  have idents: "list_all is_ident (a # b # cs)" using assms(2) by (simp add: is_name_def)
  have chain: "runs (edge_chain fuel [a] st1) (\<lambda>(chain, st2). chain = a # b # cs \<and> delivers st2 (attr_tokens kvs @ TSymbol '';'' # ts))"
    if "delivers st1 (TSymbol ''->'' # TIdent b # arrow_tokens cs @ attr_tokens kvs @ TSymbol '';'' # ts)" for st1
    using that runs_edge_chain [of st1 b cs "TSymbol ''[''" "item_tokens kvs @ TSymbol '']'' # TSymbol '';'' # ts" fuel "[a]"]
    by (simp add: arrow_tokens_def attr_tokens_def)
  show ?thesis
    unfolding plain_stmt_def runs_and_then
    using assms(2) chain_edges_good [OF idents]
    by (intro runs_pair_mono [OF runs_look [OF st]])
       (auto intro!: runs_pair_mono [OF chain] runs_pair_mono [OF runs_optional] semicolon_delivers)
qed

lemma runs_plain_node:
  assumes "delivers st (attr_tokens kvs @ TSymbol '';'' # ts)" "good_stmt (NodeStmt i kvs)"
  shows "runs (plain_stmt fuel i g scs st)
    (\<lambda>(g', scs', st'). (g', scs') = exec_stmt (NodeStmt i kvs) (g, scs) \<and> delivers st' ts)"
proof -
  have st: "delivers st (TSymbol ''['' # item_tokens kvs @ TSymbol '']'' # TSymbol '';'' # ts)"
    using assms(1) by (simp add: attr_tokens_def)
  have optional: "runs (optional_attrs fuel st1) (\<lambda>(m, st'). m = attr_map kvs \<and> delivers st' (TSymbol '';'' # ts))"
    if "delivers st1 (TSymbol ''['' # item_tokens kvs @ TSymbol '']'' # TSymbol '';'' # ts)" for st1
    using runs_optional [of st1 kvs "TSymbol '';'' # ts"] that assms(2) by (simp add: attr_tokens_def)
  have ident: "is_ident i" using assms(2) by (simp add: is_name_def)
  show ?thesis
    unfolding plain_stmt_def runs_and_then
    using declare_node_good [OF ident]
    by (intro runs_pair_mono [OF runs_look [OF st]])
       (auto intro!: runs_pair_mono [OF optional] semicolon_delivers)
qed

lemma runs_default:
  assumes "delivers st (attr_tokens kvs @ TSymbol '';'' # ts)" "good_attrs kvs"
    and "(kw, s) \<in> {(''graph'', GraphAttrs kvs), (''node'', NodeDefaults kvs), (''edge'', EdgeDefaults kvs)}"
  shows "runs (default_stmt fuel kw g scs st)
    (\<lambda>(g', scs', st'). (g', scs') = exec_stmt s (g, scs) \<and> delivers st' ts)"
  unfolding default_stmt_def runs_and_then
  using assms(3)
  by (intro runs_pair_mono [OF runs_block [OF assms(1,2)]]) (auto simp: Let_def intro!: semicolon_delivers)

text \<open>What the parser has after the statements of a block, in front of its closing brace.\<close>

definition after_block :: "stmt list \<Rightarrow> reading \<Rightarrow> reading" where
  "after_block ss r = (case exec_stmts ss r of (g, scs) \<Rightarrow>
     (if length scs > 1 then applySubgraphLabelClass (hd scs) g else g, scs))"

lemma after_block_Nil: "after_block [] (g, scs) = (if length scs > 1 then applySubgraphLabelClass (hd scs) g else g, scs)"
  by (simp add: after_block_def)

lemma after_block_Cons: "after_block (s # ss) r = after_block ss (exec_stmt s r)"
  by (simp add: after_block_def)

lemma exec_subgraph:
  "scs \<noteq> [] \<Longrightarrow> exec_stmt (Subgraph ss) (g, scs) =
    (case after_block ss (g, newScope scs # scs) of (g', scs') \<Rightarrow> (applySubgraphLabelClass (hd scs') g', tl scs'))"
  using exec_length(2) [of ss "(g, newScope scs # scs)"]
  by (cases "exec_stmts ss (g, newScope scs # scs)") (auto simp: after_block_def)

lemma runs_first_name:
  assumes "delivers st (TIdent i # us)"
    and "\<And>st2. delivers st2 us \<Longrightarrow> runs (
      if i \<in> {''graph'', ''node'', ''edge''} then
        and_then (default_stmt fuel i g scs st2) (\<lambda>(g', scs', st3). parseStatements fuel g' scs' st3)
      else if i = ''subgraph'' then
        and_then (subgraph_head st2) (\<lambda>st3.
        and_then (parseStatements fuel g (newScope scs # scs) st3) (\<lambda>(g', scs', st4).
        and_then (expectSymbol ''}'' st4) (\<lambda>st5.
          parseStatements fuel (applySubgraphLabelClass (hd scs') g') (tl scs') st5)))
      else and_then (plain_stmt fuel i g scs st2) (\<lambda>(g', scs', st3). parseStatements fuel g' scs' st3)) Q"
  shows "runs (parseStatements (Suc fuel) g scs st) Q"
  unfolding parseStatements.simps runs_and_then
proof (rule runs_pair_mono [OF runs_look [OF assms(1)]], elim conjE)
  fix t st1
  assume "t = TIdent i" and st1: "delivers st1 (TIdent i # us)"
  then show "runs (case (t, st1) of (t, st1) \<Rightarrow>
     if t = TEOF then Inl UnexpectedEOF
     else if t = TSymbol ''}'' then
       Inr (if length scs > 1 then applySubgraphLabelClass (hd scs) g else g, scs, st1)
     else and_then (ident ''identifier'' st1) (\<lambda>(i, st2).
       if i \<in> {''graph'', ''node'', ''edge''} then
         and_then (default_stmt fuel i g scs st2) (\<lambda>(g', scs', st3). parseStatements fuel g' scs' st3)
       else if i = ''subgraph'' then
         and_then (subgraph_head st2) (\<lambda>st3.
         and_then (parseStatements fuel g (newScope scs # scs) st3) (\<lambda>(g', scs', st4).
         and_then (expectSymbol ''}'' st4) (\<lambda>st5.
           parseStatements fuel (applySubgraphLabelClass (hd scs') g') (tl scs') st5)))
       else
         and_then (plain_stmt fuel i g scs st2) (\<lambda>(g', scs', st3). parseStatements fuel g' scs' st3))) Q"
    using runs_pair_mono [OF runs_ident [OF st1]] assms(2) by (simp add: runs_pair_mono [OF runs_ident [OF st1]])
qed

lemma runs_statements:
  assumes "delivers st (stmts_tokens ss @ TSymbol ''}'' # ts)" "list_all good_stmt ss" "scs \<noteq> []"
  shows "runs (parseStatements fuel g scs st)
    (\<lambda>(g', scs', st'). (g', scs') = after_block ss (g, scs) \<and> delivers st' (TSymbol ''}'' # ts))"
  using assms
proof (induction fuel arbitrary: ss g scs st ts)
  case (Suc fuel)
  show ?case
  proof (cases ss)
    case Nil
    with Suc.prems(1) show ?thesis
      by (auto simp: after_block_Nil intro!: runs_pair_mono [OF runs_look])
  next
    case (Cons s rest)
    note good = Suc.prems(2) [unfolded Cons]
    have go: "runs (parseStatements fuel g' scs' st')
        (\<lambda>(g', scs', st'). (g', scs') = after_block ss (g, scs) \<and> delivers st' (TSymbol ''}'' # ts))"
      if "(g', scs') = exec_stmt s (g, scs)" "delivers st' (stmts_tokens rest @ TSymbol ''}'' # ts)" for g' scs' st'
    proof -
      have "length scs' = length scs" using exec_length(1) [of s "(g, scs)"] that(1) by (metis snd_conv)
      then have "scs' \<noteq> []" using Suc.prems(3) by auto
      from Suc.IH [OF that(2) _ this] good show ?thesis
        by (simp add: Cons after_block_Cons that(1) [symmetric])
    qed
    note st = Suc.prems(1) [unfolded Cons stmts_tokens.simps]
    note defaults = runs_pair_mono [OF runs_default [where s = s]]
    show ?thesis
    proof (cases s)
      case (GraphAttrs kvs)
      with st good show ?thesis
        by (intro runs_first_name [of st "''graph''"]) (auto intro!: defaults go)
    next
      case (NodeDefaults kvs)
      with st good show ?thesis
        by (intro runs_first_name [of st "''node''"]) (auto intro!: defaults go)
    next
      case (EdgeDefaults kvs)
      with st good show ?thesis
        by (intro runs_first_name [of st "''edge''"]) (auto intro!: defaults go)
    next
      case (Assign k v)
      with st good show ?thesis
        by (intro runs_first_name [of st k])
           (auto simp: is_name_def simp del: exec_stmt.simps intro!: runs_pair_mono [OF runs_plain_assign] go)
    next
      case (EdgeStmt a b cs kvs)
      with st good show ?thesis
        by (intro runs_first_name [of st a])
           (auto simp: is_name_def simp del: exec_stmt.simps intro!: runs_pair_mono [OF runs_plain_edge] go)
    next
      case (NodeStmt i kvs)
      with st good show ?thesis
        by (intro runs_first_name [of st i])
           (auto simp: is_name_def simp del: exec_stmt.simps intro!: runs_pair_mono [OF runs_plain_node] go)
    next
      case (Subgraph body)
      have inner: "runs (parseStatements fuel g (newScope scs # scs) st')
          (\<lambda>(g', scs', st'). (g', scs') = after_block body (g, newScope scs # scs) \<and>
             delivers st' (TSymbol ''}'' # stmts_tokens rest @ TSymbol ''}'' # ts))"
        if "delivers st' (stmts_tokens body @ TSymbol ''}'' # stmts_tokens rest @ TSymbol ''}'' # ts)" for st'
        using Suc.IH [OF that] good Subgraph by simp
      have head: "runs (subgraph_head st') (\<lambda>st'. delivers st' us)" if "delivers st' (TSymbol ''{'' # us)" for st' us
        using that unfolding subgraph_head_def runs_and_then
        by (auto intro!: runs_pair_mono [OF runs_look] runs_expectSymbol)
      have onward: "runs (parseStatements fuel (applySubgraphLabelClass (hd scs1) g1) (tl scs1) st')
          (\<lambda>(g', scs', st'). (g', scs') = after_block ss (g, scs) \<and> delivers st' (TSymbol ''}'' # ts))"
        if "(g1, scs1) = after_block body (g, newScope scs # scs)"
          and "delivers st' (stmts_tokens rest @ TSymbol ''}'' # ts)" for g1 scs1 st'
        using go [OF _ that(2)] exec_subgraph [OF Suc.prems(3), of body g] that(1) Subgraph
        by (metis (no_types, lifting) case_prod_conv)
      from st Subgraph show ?thesis
        by (intro runs_first_name [of st "''subgraph''"])
           (auto intro!: runs_mono [OF head] runs_pair_mono [OF inner] runs_mono [OF runs_expectSymbol] onward)
    qed
  qed
qed simp

section \<open>The printed graph\<close>

lemma good_tokens_graph:
  assumes "is_ident name" "list_all good_stmt ss"
  shows "list_all good_token (graph_tokens name ss)"
proof -
  have sub: "is_ident s" if "s \<in> {''digraph'', ''graph'', ''node'', ''edge'', ''subgraph''}" for s
  proof -
    have "list_all is_ident [''digraph'', ''graph'', ''node'', ''edge'', ''subgraph'']" by code_simp
    with that show ?thesis by auto
  qed
  have keys: "list_all good_token (key_tokens k)" if "k \<noteq> []" "list_all is_ident k" for k
    using that by (cases k) (auto simp: key_tokens_def good_token_def list_all_iff)
  have items: "list_all good_token (item_tokens kvs)" if "good_attrs kvs" for kvs
    using that keys by (induction kvs rule: item_tokens.induct) (auto simp: good_attrs_def good_token_def)
  have arrows: "list_all good_token (arrow_tokens cs)" if "list_all is_ident cs" for cs
    using that by (induction cs) (auto simp: arrow_tokens_def good_token_def)
  have "good_stmt s \<Longrightarrow> list_all good_token (stmt_tokens s)"
    "list_all good_stmt us \<Longrightarrow> list_all good_token (stmts_tokens us)" for s us
    by (induction s and us rule: stmt_tokens_stmts_tokens.induct)
       (use sub items arrows in \<open>auto simp: attr_tokens_def good_token_def is_name_def\<close>)
  then show ?thesis
    using assms sub by (simp add: graph_tokens_def) (simp add: good_token_def)
qed

definition emit :: "string \<Rightarrow> dot_error + string \<Rightarrow> dot_error + string" where
  "emit u r = (case r of Inl e \<Rightarrow> Inl e | Inr s \<Rightarrow> Inr (u @ s))"

lemma out_byte_emit: "out_byte c (emit u r) = emit (c # u) r" "emit [] r = r" "emit u (emit v r) = emit (u @ v) r"
  by (auto simp: out_byte_def emit_def split: sum.split)

lemma strip_plain: "list_all (\<lambda>c. c \<noteq> quote_char \<and> c \<noteq> CHR ''/'') u \<Longrightarrow>
    strip False False (u @ r) = emit u (strip False False r)"
  by (induction u) (auto simp: out_byte_emit)

lemma strip_string: "strip True False (escape s @ quote_char # r) = emit (escape s @ [quote_char]) (strip False False r)"
proof (induction s)
  case Nil
  have "quote_char \<noteq> backslash" by (simp add: dot_chars)
  then show ?case by (auto simp: escape_def emit_def out_byte_def split: sum.split)
next
  case (Cons c s)
  have "quote_char \<noteq> backslash" by (simp add: dot_chars)
  with Cons show ?case by (auto simp: escape_def escape_char_def out_byte_emit)
qed

lemma strip_token: "good_token t \<Longrightarrow> strip False False (print_token t @ r) = emit (print_token t) (strip False False r)"
proof -
  have space: "CHR '' '' \<noteq> quote_char" "CHR '' '' \<noteq> CHR ''/''" by (simp_all add: dot_chars)
  have ident: "list_all (\<lambda>c. c \<noteq> quote_char \<and> c \<noteq> CHR ''/'') s" if "is_ident s" for s
  proof -
    have "c \<noteq> quote_char \<and> c \<noteq> CHR ''/''" if "isIdentContinue c" for c
      using that ident_start_plain(4,5) [of c] by (auto simp: isIdentContinue_def isDigit_def in_range_def dot_chars)
    with that show ?thesis by (auto simp: is_ident_def list_all_iff)
  qed
  assume "good_token t"
  then show ?thesis
  proof (cases t)
    case (TString s)
    have "strip False False (CHR '' '' # r) = emit '' '' (strip False False r)"
      using strip_plain [of "'' ''" r] space by simp
    then show ?thesis
      by (simp add: TString strip_string out_byte_emit)
  next
    case (TSymbol s)
    with \<open>good_token t\<close> show ?thesis
      using strip_plain [of "s @ '' ''" r] by (auto simp: good_token_def dot_chars)
  qed (use ident space strip_plain [of "_ @ '' ''" r] in \<open>auto simp: good_token_def\<close>)
qed

lemma strip_tokens: "list_all good_token ts \<Longrightarrow> strip False False (print_tokens ts) = Inr (print_tokens ts)"
  by (induction ts) (auto simp: print_tokens_def strip_token emit_def)

lemma exec_root_scopes: "length (snd (exec_stmts ss (NewGraph name, [newScope []]))) = 1"
  by simp

lemma runs_Parse:
  assumes "is_ident name" "list_all good_stmt ss"
  shows "runs (Parse (print_graph name ss)) (\<lambda>g. g = fst (exec_stmts ss (NewGraph name, [newScope []])))"
proof -
  let ?src = "print_graph name ss"
  note good = good_tokens_graph [OF assms]
  have clean: "stripComments ?src = Inr ?src"
    unfolding stripComments_def print_graph_def by (rule strip_tokens [OF good])
  have st: "delivers \<lparr>p_rest = ?src, p_peek = None\<rparr> (graph_tokens name ss)"
    using good by (simp add: delivers_def Let_def print_graph_def)
  have body: "runs (parseStatements fuel (NewGraph name) [newScope []] st3)
      (\<lambda>(g, scs, st4). g = fst (exec_stmts ss (NewGraph name, [newScope []])) \<and> delivers st4 [TSymbol ''}''])"
    if "delivers st3 (stmts_tokens ss @ [TSymbol ''}''])" for st3 fuel
    using runs_statements [OF that assms(2), of "[newScope []]" fuel "NewGraph name"] exec_root_scopes [of ss name]
    by (cases "exec_stmts ss (NewGraph name, [newScope []])") (auto simp: after_block_def elim!: runs_mono)
  have last_brace: "runs (look (consumeOptionalSemicolon st5)) (\<lambda>(t, _). t = TEOF)" if "delivers st5 []" for st5
    by (rule runs_look_end [OF semicolon_end [OF that]])
  have graph: "runs (parseGraph fuel st1) (\<lambda>g. g = fst (exec_stmts ss (NewGraph name, [newScope []])))"
    if "delivers st1 (graph_tokens name ss)" for st1 fuel
    unfolding parseGraph_def runs_and_then
    using that
    by (auto simp: graph_tokens_def intro!: runs_mono [OF runs_expectIdent] runs_pair_mono [OF runs_ident]
        runs_mono [OF runs_expectSymbol] runs_mono [OF body] runs_pair_mono [OF last_brace])
  show ?thesis
    unfolding Parse_def clean and_then.simps Let_def runs_and_then
    using runs_look [OF st [unfolded graph_tokens_def append.simps]] 
    by (rule runs_pair_mono) (auto intro!: graph simp: graph_tokens_def)
qed

lemma Parse_run:
  assumes "is_ident name" "list_all good_stmt ss"
  shows "Parse (print_graph name ss) = Inr (fst (exec_stmts ss (NewGraph name, [newScope []])))"
  using runs_Parse [OF assms] fine_Parse [of "print_graph name ss"]
  by (cases "Parse (print_graph name ss)") auto

section \<open>Properties\<close>

text \<open>
  C35: the parser returns for every source text, with an error or with a graph whose indexes, edge
  numbers and node identifiers are consistent.
\<close>

theorem Parse_total_wf:
  "case Parse src of Inl e \<Rightarrow> e \<noteq> OutOfFuel | Inr g \<Rightarrow> wf_graph g"
  using fine_Parse [of src] by (simp add: fine_def)

text \<open>
  C36: parsing the printed form of a graph runs its statements in their order: attributes merge into
  the graph or into the defaults of the innermost scope, nodes and edges take the defaults in force
  where they stand, chains become one edge for each arrow, and subgraphs class their nodes.
\<close>

theorem Parse_print:
  assumes "is_ident name" "list_all good_stmt ss"
  shows "Parse (print_graph name ss) = Inr (fst (exec_stmts ss (NewGraph name, [newScope []])))"
  by (rule Parse_run [OF assms])

theorem Parse_print_witness:
  "Parse (print_graph ''g'' [NodeDefaults [([''shape''], ''box'')], EdgeStmt ''a'' ''b'' [''c''] [([''label''], ''a\"b'')],
     Subgraph [Assign ''label'' ''Loop A'', NodeStmt ''d'' [([''retry'', ''max''], ''3'')]]]) =
   Inr (fst (exec_stmts [NodeDefaults [([''shape''], ''box'')], EdgeStmt ''a'' ''b'' [''c''] [([''label''], ''a\"b'')],
     Subgraph [Assign ''label'' ''Loop A'', NodeStmt ''d'' [([''retry'', ''max''], ''3'')]]] (NewGraph ''g'', [newScope []])))"
proof (rule Parse_print)
  show "is_ident ''g''" by code_simp
  show "list_all good_stmt [NodeDefaults [([''shape''], ''box'')], EdgeStmt ''a'' ''b'' [''c''] [([''label''], ''a\"b'')],
     Subgraph [Assign ''label'' ''Loop A'', NodeStmt ''d'' [([''retry'', ''max''], ''3'')]]]"
    by code_simp
qed

text \<open>Defaults are those of the scope a statement stands in.\<close>

lemma exec_tail:
  "scs \<noteq> [] \<Longrightarrow> map sc_node_defaults (tl (snd (exec_stmt s (g, scs)))) = map sc_node_defaults (tl scs) \<and>
     map sc_edge_defaults (tl (snd (exec_stmt s (g, scs)))) = map sc_edge_defaults (tl scs)"
  "scs \<noteq> [] \<Longrightarrow> map sc_node_defaults (tl (snd (exec_stmts ss (g, scs)))) = map sc_node_defaults (tl scs) \<and>
     map sc_edge_defaults (tl (snd (exec_stmts ss (g, scs)))) = map sc_edge_defaults (tl scs)"
proof (induction s "(g, scs)" and ss "(g, scs)" arbitrary: g scs and g scs rule: exec_stmt_exec_stmts.induct)
  case (7 ss g scs)
  then show ?case by (cases "exec_stmts ss (g, newScope scs # scs)") (auto simp: map_tl)
next
  case (9 s ss g scs)
  obtain g' scs' where e: "exec_stmt s (g, scs) = (g', scs')" by fastforce
  have "scs' \<noteq> []" using exec_length(1) [of s "(g, scs)"] 9(3) e by auto
  with 9 e show ?case by simp
qed (auto simp: set_defaults_def set_attr_stmt_def recordNode_def map_tl comp_def split: list.split)

lemma exec_subgraph_defaults:
  assumes "scs \<noteq> []"
  shows "map sc_node_defaults (snd (exec_stmt (Subgraph ss) (g, scs))) = map sc_node_defaults scs"
    "map sc_edge_defaults (snd (exec_stmt (Subgraph ss) (g, scs))) = map sc_edge_defaults scs"
  using exec_tail(2) [of "newScope scs # scs" ss g]
  by (cases "exec_stmts ss (g, newScope scs # scs)"; simp)+

text \<open>
  defaults that a subgraph sets end with it: a node declared behind a subgraph has the defaults
  in force in front of the subgraph, updated by its own attributes.
\<close>

theorem subgraph_defaults_local:
  assumes "is_ident name" "list_all good_stmt (pre @ [Subgraph body, NodeStmt i kvs])"
    and "exec_stmts pre (NewGraph name, [newScope []]) = (g0, scs0)"
    and "g_nodes (fst (exec_stmt (Subgraph body) (g0, scs0))) i = None"
  shows "\<exists>g n. Parse (print_graph name (pre @ [Subgraph body, NodeStmt i kvs])) = Inr g \<and>
    g_nodes g i = Some n \<and> node_attrs n = sc_node_defaults (hd scs0) ++ attr_map kvs"
proof -
  obtain g1 scs1 where e: "exec_stmt (Subgraph body) (g0, scs0) = (g1, scs1)" by fastforce
  have ne: "scs0 \<noteq> []" "scs1 \<noteq> []"
    using exec_length(2) [of pre "(NewGraph name, [newScope []])"] exec_length(1) [of "Subgraph body" "(g0, scs0)"] assms(3) e
    by auto
  have "map sc_node_defaults scs1 = map sc_node_defaults scs0"
    using exec_subgraph_defaults(1) [OF ne(1), of body g0] e by simp
  then have "sc_node_defaults (hd scs1) = sc_node_defaults (hd scs0)"
    using ne by (cases scs0; cases scs1) auto
  moreover have "exec_stmts (pre @ us) r = exec_stmts us (exec_stmts pre r)" for us r
    by (induction pre arbitrary: r) simp_all
  moreover have "i \<noteq> ''''" using assms(2) by (simp add: is_name_def is_ident_def)
  ultimately show ?thesis
    using Parse_run [OF assms(1,2)] assms(3,4) e
    by (simp add: add_nodes_def AddNode_def NewNode_def del: exec_stmt.simps(7))
qed

theorem subgraph_defaults_local_witness:
  "\<exists>g n. Parse (print_graph ''g'' ([NodeDefaults [([''shape''], ''box'')]] @
      [Subgraph [NodeDefaults [([''shape''], ''diamond'')], NodeStmt ''a'' []], NodeStmt ''b'' []])) = Inr g \<and>
    g_nodes g ''b'' = Some n \<and>
    node_attrs n = sc_node_defaults (hd (snd (exec_stmts [NodeDefaults [([''shape''], ''box'')]]
      (NewGraph ''g'', [newScope []])))) ++ attr_map []"
proof (rule subgraph_defaults_local [OF _ _ surjective_pairing])
  show "is_ident ''g''" by code_simp
  show "list_all good_stmt ([NodeDefaults [([''shape''], ''box'')]] @
      [Subgraph [NodeDefaults [([''shape''], ''diamond'')], NodeStmt ''a'' []], NodeStmt ''b'' []])"
    by code_simp
  show "g_nodes (fst (exec_stmt (Subgraph [NodeDefaults [([''shape''], ''diamond'')], NodeStmt ''a'' []])
      (fst (exec_stmts [NodeDefaults [([''shape''], ''box'')]] (NewGraph ''g'', [newScope []])),
       snd (exec_stmts [NodeDefaults [([''shape''], ''box'')]] (NewGraph ''g'', [newScope []]))))) ''b'' = None"
    unfolding Option.is_none_def [symmetric] by code_simp
qed

section \<open>Where the reader departs from DOT\<close>

text \<open>What a reading has: the names of the nodes in the order of their declaration.\<close>

definition read_nodes :: "string \<Rightarrow> string list \<Rightarrow> (dot_error + bool list) " where
  "read_nodes src names = (case Parse src of Inl e \<Rightarrow> Inl e
     | Inr g \<Rightarrow> Inr (map (\<lambda>i. \<not> Option.is_none (g_nodes g i)) names))"

text \<open>A comment between two names joins them, since nothing is left in its place.\<close>

lemma comment_joins_names:
  "read_nodes ''digraph g { a/* x */b }'' [''a'', ''b'', ''ab''] = Inr [False, False, True]"
  by code_simp

text \<open>A semicolon behind a subgraph is refused.\<close>

lemma semicolon_after_subgraph:
  "read_nodes ''digraph g { subgraph s { a }; }'' [''a''] = Inl (Expected ''identifier'' '';'')"
  by code_simp

text \<open>A number without digits behind its point is skipped behind a statement.\<close>

lemma malformed_number_skipped:
  "read_nodes ''digraph g { a [x=1] 5. b }'' [''a'', ''b''] = Inr [True, True]"
  by code_simp

definition read_attr :: "string \<Rightarrow> string \<Rightarrow> string \<Rightarrow> dot_error + string" where
  "read_attr src i k = (case Parse src of Inl e \<Rightarrow> Inl e | Inr g \<Rightarrow> Inr (node_Attr (g_nodes g i) k ''''))"

text \<open>
  Two slashes in an unquoted value start a comment, although such a value may hold colons and slashes.
\<close>

lemma url_value_is_cut:
  "read_attr (''digraph g { a [u=http://x'' @ [newline] @ ''] }'') ''a'' ''u'' = Inr ''http:''"
  by code_simp

end
