(* ===== verification/BranchNames.thy ===== *)
theory BranchNames
  imports DotRoundtrip
begin

text \<open>
  The names of the git branches of a run and of its parallel branches,
  \<^verbatim>\<open>internal/attractor/engine/branch_names.go\<close>, and the keys of parallel branches
  (\<^verbatim>\<open>sanitizeRefComponent\<close> and the start of \<^verbatim>\<open>runBranch\<close> in
  \<^verbatim>\<open>parallel_handlers.go\<close>), for ASCII names: Go replaces a whole character by one hyphen
  where the model replaces each of its bytes.
\<close>

section \<open>Names\<close>

definition ref_char :: "char \<Rightarrow> bool" where
  "ref_char c \<longleftrightarrow> in_range (CHR ''a'') (CHR ''z'') c \<or> isDigit c \<or> c \<in> {CHR ''-'', CHR ''_'', CHR ''.''}"

definition sanitizeRefComponent :: "string \<Rightarrow> string" where
  "sanitizeRefComponent s0 =
     (let s = to_lower (trim_space s0) in
      if s = '''' then ''''
      else trim_by (\<lambda>c. c = CHR ''-'') (map (\<lambda>c. if ref_char c then c else CHR ''-'') s))"

definition branch_key_of :: "nat \<Rightarrow> string \<Rightarrow> string" where
  "branch_key_of idx to =
     (let key = sanitizeRefComponent to in if key = '''' then ''branch-'' @ int_to_dec (int idx + 1) else key)"

definition trim_slashes :: "string \<Rightarrow> string" where
  "trim_slashes s = trim_by (\<lambda>c. c = CHR ''/'') (trim_space s)"

definition buildRunBranch :: "string \<Rightarrow> string \<Rightarrow> string" where
  "buildRunBranch prefix runID =
     (let p = trim_slashes prefix; r = trim_slashes runID in
      if p = '''' then r else if r = '''' then p else p @ ''/'' @ r)"

definition buildParallelBranch :: "string \<Rightarrow> string \<Rightarrow> string \<Rightarrow> int \<Rightarrow> string \<Rightarrow> string" where
  "buildParallelBranch prefix runID fanNodeID passNum childNodeID =
     (let parts = filter (\<lambda>p. trim_space p \<noteq> '''')
            [trim_slashes runID, sanitizeRefComponent fanNodeID, ''pass'' @ int_to_dec passNum, sanitizeRefComponent childNodeID]
      in buildRunBranch prefix (join_with ''/'' (''parallel'' # parts)))"

section \<open>Names of nodes\<close>

definition solid :: "string \<Rightarrow> bool" where
  "solid w \<longleftrightarrow> w \<noteq> '''' \<and> (\<forall>c \<in> set w. \<not> is_space c \<and> c \<noteq> CHR ''/'')"

lemma char_bounds: "c = CHR ''/'' \<longleftrightarrow> (of_char c :: nat) = 47" "c = CHR ''-'' \<longleftrightarrow> (of_char c :: nat) = 45"
  "c = CHR ''_'' \<longleftrightarrow> (of_char c :: nat) = 95"
  by (simp_all flip: of_char_eq_iff [where 'a = nat])

lemma space_bound: "is_space c \<Longrightarrow> (of_char c :: nat) \<le> 32"
  by (auto simp: is_space_def)

lemma lower_ident_char:
  assumes "isIdentContinue c"
  shows "ref_char (to_lower_char c)" "to_lower_char c \<noteq> CHR ''-''" "to_lower_char c \<noteq> CHR ''/''"
    "\<not> is_space (to_lower_char c)" "\<not> is_space c"
proof -
  let ?n = "of_char c :: nat" and ?l = "of_char (to_lower_char c) :: nat"
  have n: "?n = 95 \<or> 65 \<le> ?n \<and> ?n \<le> 90 \<or> 97 \<le> ?n \<and> ?n \<le> 122 \<or> 48 \<le> ?n \<and> ?n \<le> 57"
    using assms by (auto simp: isIdentContinue_def isIdentStart_def isAlpha_def isDigit_def in_range_def char_bounds)
  have "?l = (if 65 \<le> ?n \<and> ?n \<le> 90 then ?n + 32 else ?n)"
    by (auto simp: to_lower_char_def)
  with n have l: "?l = 95 \<or> 97 \<le> ?l \<and> ?l \<le> 122 \<or> 48 \<le> ?l \<and> ?l \<le> 57" by auto
  then show "ref_char (to_lower_char c)" "to_lower_char c \<noteq> CHR ''-''" "to_lower_char c \<noteq> CHR ''/''"
    by (auto simp: ref_char_def in_range_def isDigit_def char_bounds)
  show "\<not> is_space (to_lower_char c)" "\<not> is_space c"
    using l n space_bound [of c] space_bound [of "to_lower_char c"] by auto
qed

lemma sanitize_ident:
  assumes "is_ident i"
  shows "sanitizeRefComponent i = to_lower i" "solid (to_lower i)"
proof -
  have chars: "\<forall>c \<in> set i. isIdentContinue c" and ne: "i \<noteq> ''''"
    using assms by (auto simp: is_ident_def list_all_iff)
  have trim: "trim_space i = i"
    unfolding trim_space_def using chars lower_ident_char(5) by (intro trim_by_none) auto
  have "map (\<lambda>c. if ref_char c then c else CHR ''-'') (to_lower i) = to_lower i"
    using chars lower_ident_char(1) by (auto simp: to_lower_def)
  moreover have "trim_by (\<lambda>c. c = CHR ''-'') (to_lower i) = to_lower i"
    using chars lower_ident_char(2) by (intro trim_by_none) (auto simp: to_lower_def)
  ultimately show "sanitizeRefComponent i = to_lower i"
    using ne trim by (simp add: sanitizeRefComponent_def)
  show "solid (to_lower i)"
    using chars ne lower_ident_char(3,4) by (auto simp: solid_def to_lower_def)
qed

lemma solid_trim: "solid w \<Longrightarrow> trim_space w = w" "solid w \<Longrightarrow> w \<noteq> ''''"
  by (auto simp: solid_def trim_space_def intro!: trim_by_none)

lemma solid_pass: "solid (''pass'' @ int_to_dec n)"
proof -
  have "\<not> is_space c \<and> c \<noteq> CHR ''/''" if "is_digit c" for c
    using that space_bound [of c] by (auto simp: is_digit_def char_bounds)
  then have "\<forall>c \<in> set (nat_to_dec k). \<not> is_space c \<and> c \<noteq> CHR ''/''" for k
    using nat_to_dec_value [of k] by (auto simp: list_all_iff)
  moreover have "\<not> is_space (CHR ''-'')" by (simp add: is_space_def)
  moreover have "\<forall>c \<in> set ''pass''. \<not> is_space c \<and> c \<noteq> CHR ''/''" by (simp add: is_space_def)
  ultimately show ?thesis by (auto simp: solid_def int_to_dec_def)
qed

lemma int_to_dec_inj: "int_to_dec m = int_to_dec n \<longleftrightarrow> m = n"
proof -
  have "CHR ''-'' \<notin> set (nat_to_dec k)" for k
    using nat_to_dec_value [of k] by (auto simp: list_all_iff is_digit_def)
  then have "nat_to_dec k \<noteq> CHR ''-'' # s" for k s by (metis list.set_intros(1))
  moreover from this have "CHR ''-'' # s \<noteq> nat_to_dec k" for k s by metis
  ultimately show ?thesis
    by (auto simp: int_to_dec_def nat_to_dec_inj)
qed

section \<open>Names of branches\<close>

lemma join_solid_inj:
  assumes "\<forall>w \<in> set us. solid w" "\<forall>w \<in> set vs. solid w" "us \<noteq> []" "vs \<noteq> []"
  shows "join_with ''/'' us = join_with ''/'' vs \<longleftrightarrow> us = vs"
proof -
  have "split_char (CHR ''/'') (join_with [CHR ''/''] ws) = ws" if "\<forall>w \<in> set ws. solid w" "ws \<noteq> []" for ws
    using that by (intro split_join_with) (auto simp: solid_def)
  with assms show ?thesis by metis
qed

lemma trim_by_ends:
  assumes "s \<noteq> []" "\<not> P (hd s)" "\<not> P (last s)"
  shows "trim_by P s = s"
proof -
  have "dropWhile P s = s" using assms(1,2) by (cases s) auto
  moreover have "dropWhile P (rev s) = rev s" using assms(1,3) by (cases "rev s") (auto simp: last_rev hd_rev [symmetric])
  ultimately show ?thesis by (simp add: trim_by_def)
qed

lemma parallel_branch_shape:
  "\<exists>pre. \<forall>f' n' c'. is_ident f' \<longrightarrow> is_ident c' \<longrightarrow>
    buildParallelBranch prefix runID f' n' c' = pre @ join_with ''/'' [to_lower f', ''pass'' @ int_to_dec n', to_lower c']"
proof -
  let ?x = "trim_slashes runID" and ?p = "trim_slashes prefix"
  let ?base = "''parallel'' # (if trim_space ?x \<noteq> '''' then [?x] else [])"
  have base: "\<forall>w \<in> set ?base. w \<noteq> ''''" by auto
  have "buildParallelBranch prefix runID f' n' c' =
      (if ?p = '''' then '''' else ?p @ ''/'') @ join_with ''/'' ?base @ ''/'' @ join_with ''/'' [to_lower f', ''pass'' @ int_to_dec n', to_lower c']"
    if f': "is_ident f'" and c': "is_ident c'" for f' n' c'
  proof -
    let ?ws = "[to_lower f', ''pass'' @ int_to_dec n', to_lower c']"
    let ?J = "join_with ''/'' (?base @ ?ws)"
    have solid: "\<forall>w \<in> set ?ws. solid w"
      using sanitize_ident(2) [OF f'] sanitize_ident(2) [OF c'] solid_pass [of n'] by simp
    have parts: "filter (\<lambda>p. trim_space p \<noteq> '''')
        [?x, sanitizeRefComponent f', ''pass'' @ int_to_dec n', sanitizeRefComponent c'] =
        (if trim_space ?x \<noteq> '''' then [?x] else []) @ ?ws"
      using solid solid_trim f' c' by (auto simp: sanitize_ident(1) is_ident_def)
    have "last (to_lower c') \<in> set (to_lower c')" using solid by (auto simp: solid_def)
    then have last_ok: "\<not> is_space (last (to_lower c'))" "last (to_lower c') \<noteq> CHR ''/''"
      using solid by (auto simp: solid_def)
    have ends: "?J \<noteq> ''''" "hd ?J = CHR ''p''" "last ?J = last (to_lower c')"
    proof -
      have ne: "\<forall>w \<in> set (?base @ ?ws). w \<noteq> ''''"
        using base solid solid_trim(2) unfolding set_append by blast
      have "hd (hd (?base @ ?ws)) = CHR ''p''" "last (last (?base @ ?ws)) = last (to_lower c')" by simp_all
      with join_ends [OF _ ne, of "''/''"] show "?J \<noteq> ''''" "hd ?J = CHR ''p''" "last ?J = last (to_lower c')"
        by simp_all
    qed
    then have "trim_space ?J = ?J" using last_ok unfolding trim_space_def by (intro trim_by_ends) (auto simp: is_space_def)
    moreover have "trim_by (\<lambda>c. c = CHR ''/'') ?J = ?J" using ends last_ok by (intro trim_by_ends) auto
    ultimately have "trim_slashes ?J = ?J" by (simp add: trim_slashes_def)
    moreover have "buildParallelBranch prefix runID f' n' c' = buildRunBranch prefix ?J"
      unfolding buildParallelBranch_def Let_def parts by simp
    ultimately have "buildParallelBranch prefix runID f' n' c' = (if ?p = '''' then '''' else ?p @ ''/'') @ ?J"
      using ends(1) by (simp add: buildRunBranch_def Let_def del: join_with.simps)
    also have "?J = join_with ''/'' ?base @ ''/'' @ join_with ''/'' ?ws" by (rule join_with_append) simp_all
    finally show ?thesis by simp
  qed
  then show ?thesis by (intro exI [of _ "(if ?p = '''' then '''' else ?p @ ''/'') @ join_with ''/'' ?base @ ''/''"]) simp
qed

section \<open>Properties\<close>

text \<open>
  in one run, the git branches of two parallel branches have the same name exactly when the pass
  is the same and the names of the fan-out and of the start node differ at most in case.
\<close>

theorem parallel_branch_names:
  assumes "is_ident f" "is_ident c" "is_ident f'" "is_ident c'"
  shows "buildParallelBranch prefix runID f n c = buildParallelBranch prefix runID f' n' c' \<longleftrightarrow>
    to_lower f = to_lower f' \<and> n = n' \<and> to_lower c = to_lower c'"
proof -
  obtain pre where pre: "\<forall>f' n' c'. is_ident f' \<longrightarrow> is_ident c' \<longrightarrow>
      buildParallelBranch prefix runID f' n' c' = pre @ join_with ''/'' [to_lower f', ''pass'' @ int_to_dec n', to_lower c']"
    using parallel_branch_shape by blast
  have solid: "\<forall>w \<in> set [to_lower f, ''pass'' @ int_to_dec n, to_lower c]. solid w"
    "\<forall>w \<in> set [to_lower f', ''pass'' @ int_to_dec n', to_lower c']. solid w"
    using assms sanitize_ident(2) solid_pass by simp_all
  have "buildParallelBranch prefix runID f n c = buildParallelBranch prefix runID f' n' c' \<longleftrightarrow>
      join_with ''/'' [to_lower f, ''pass'' @ int_to_dec n, to_lower c] =
      join_with ''/'' [to_lower f', ''pass'' @ int_to_dec n', to_lower c']"
    using pre assms by (simp del: join_with.simps)
  also have "\<dots> \<longleftrightarrow> [to_lower f, ''pass'' @ int_to_dec n, to_lower c] = [to_lower f', ''pass'' @ int_to_dec n', to_lower c']"
    by (rule join_solid_inj [OF solid]) simp_all
  finally show ?thesis by (simp add: int_to_dec_inj)
qed

theorem parallel_branch_names_witness:
  "buildParallelBranch ''attractor/run'' ''r1'' ''Fan'' 1 ''A'' = buildParallelBranch ''attractor/run'' ''r1'' ''Fan'' 1 ''a'' \<and>
   buildParallelBranch ''attractor/run'' ''r1'' ''Fan'' 1 ''A'' \<noteq> buildParallelBranch ''attractor/run'' ''r1'' ''Fan'' 2 ''A''"
proof -
  have idents: "is_ident ''Fan''" "is_ident ''A''" "is_ident ''a''" by code_simp+
  have "to_lower ''A'' = to_lower ''a''" by code_simp
  then show ?thesis
    using parallel_branch_names [OF idents(1,2,1,3)] parallel_branch_names [OF idents(1,2,1,2)] by simp
qed

end
