(* ===== verification/Stylesheet.thy ===== *)
theory Stylesheet
  imports EdgeSelection DotRoundtrip
begin

text \<open>
  Model stylesheets, \<^verbatim>\<open>internal/attractor/style/stylesheet.go\<close>: the parser, a function of
  the rest of the source, and the application of rules to the nodes of a graph.  Positions and the
  text of error messages are not modelled.
\<close>

section \<open>Rules\<close>

datatype SelectorKind = SelectorUniversal | SelectorShape | SelectorClass | SelectorID

record rule =
  Kind :: SelectorKind
  Value :: string
  Specificity :: int
  Order :: int
  Decls :: "string \<rightharpoonup> string"

datatype style_error =
    ExpectedOpenBrace
  | UnknownProperty string
  | ExpectedColon
  | ExpectedIdentifier
  | ExpectedClassName
  | ExpectedValue
  | StringUnterminated
  | EscapeUnterminated

definition style_props :: "string list" where
  "style_props = [''llm_model'', ''llm_provider'', ''reasoning_effort'', ''max_tokens'']"

section \<open>Parser\<close>

definition is_style_blank :: "char \<Rightarrow> bool" where
  "is_style_blank c \<longleftrightarrow> c \<in> {CHR '' '', newline, CHR 0x0D, CHR 0x09}"

definition style_skip :: "string \<Rightarrow> string" where
  "style_skip s = dropWhile is_style_blank s"

type_synonym 'a style_result = "style_error + 'a \<times> string"

definition style_ident :: "string \<Rightarrow> string style_result" where
  "style_ident s0 = (case style_skip s0 of
      [] \<Rightarrow> Inl ExpectedIdentifier
    | c # s \<Rightarrow> if \<not> isIdentStart c then Inl ExpectedIdentifier
        else Inr (c # takeWhile isIdentContinue s, dropWhile isIdentContinue s))"

definition is_class_char :: "char \<Rightarrow> bool" where
  "is_class_char c \<longleftrightarrow> in_range (CHR ''a'') (CHR ''z'') c \<or> isDigit c \<or> c = CHR ''-''"

definition style_class :: "string \<Rightarrow> string style_result" where
  "style_class s0 = (let s = style_skip s0; name = takeWhile is_class_char s in
     if name = '''' then Inl ExpectedClassName else Inr (name, dropWhile is_class_char s))"

definition is_shape_char :: "char \<Rightarrow> bool" where
  "is_shape_char c \<longleftrightarrow> isAlpha c \<or> isDigit c \<or> c \<in> {CHR ''_'', CHR ''-'', CHR ''.''}"

definition style_shape :: "string \<Rightarrow> string style_result" where
  "style_shape s0 = (let s = style_skip s0; name = takeWhile is_shape_char s in
     if name = '''' then Inl ExpectedIdentifier else Inr (trim_space name, dropWhile is_shape_char s))"

definition style_selector :: "string \<Rightarrow> (SelectorKind \<times> string \<times> int) style_result" where
  "style_selector s =
     (if has_prefix ''*'' s then Inr ((SelectorUniversal, '''', 0), tl s)
      else if has_prefix ''#'' s then
        (case style_ident (tl s) of Inl e \<Rightarrow> Inl e | Inr (i, r) \<Rightarrow> Inr ((SelectorID, i, 3), r))
      else if has_prefix ''.'' s then
        (case style_class (tl s) of Inl e \<Rightarrow> Inl e | Inr (c, r) \<Rightarrow> Inr ((SelectorClass, c, 2), r))
      else (case style_shape s of Inl e \<Rightarrow> Inl e | Inr (sh, r) \<Rightarrow> Inr ((SelectorShape, sh, 1), r)))"

text \<open>The body of a string, behind its opening quote.\<close>

fun style_string :: "string \<Rightarrow> string \<Rightarrow> string style_result" where
  "style_string b [] = Inl StringUnterminated"
| "style_string b [ch] =
     (if ch = quote_char then Inr (b, [])
      else if ch = backslash then Inl EscapeUnterminated
      else Inl StringUnterminated)"
| "style_string b (ch # esc # s) =
     (if ch = quote_char then Inr (b, esc # s)
      else if ch = backslash then
        style_string (b @ (if esc = CHR ''n'' then [newline] else if esc = CHR ''t'' then [CHR 0x09]
          else if esc = backslash then [backslash] else if esc = quote_char then [quote_char]
          else [backslash, esc])) s
      else style_string (b @ [ch]) (esc # s))"

definition style_value :: "string \<Rightarrow> string style_result" where
  "style_value s = (case s of
      [] \<Rightarrow> Inl ExpectedValue
    | c # r \<Rightarrow> if c = quote_char then style_string [] r
        else (let stop = (\<lambda>c. c \<noteq> CHR '';'' \<and> c \<noteq> CHR ''}'')
              in Inr (trim_space (takeWhile stop s), dropWhile stop s)))"

lemma style_skip_length: "length (style_skip s) \<le> length s"
  by (simp add: style_skip_def length_dropWhile_le)

lemma style_ident_length: "style_ident s = Inr (i, r) \<Longrightarrow> length r < length s"
proof -
  assume h: "style_ident s = Inr (i, r)"
  then obtain c u where cu: "style_skip s = c # u" "r = dropWhile isIdentContinue u"
    by (auto simp: style_ident_def split: list.splits if_splits)
  then have "length r < length (style_skip s)" using length_dropWhile_le [of isIdentContinue u] by simp
  then show ?thesis using style_skip_length [of s] by simp
qed

lemma style_string_length: "style_string b s = Inr (v, r) \<Longrightarrow> length r \<le> length s"
  by (induction b s rule: style_string.induct) (fastforce split: if_splits)+

lemma style_value_length: "style_value s = Inr (v, r) \<Longrightarrow> length r \<le> length s"
proof (cases s)
  case (Cons c u)
  assume h: "style_value s = Inr (v, r)"
  show ?thesis
  proof (cases "c = quote_char")
    case True
    with h Cons style_string_length [of "[]" u v r] show ?thesis by (simp add: style_value_def)
  next
    case False
    with h Cons length_dropWhile_le [of "\<lambda>c. c \<noteq> CHR '';'' \<and> c \<noteq> CHR ''}''" s] show ?thesis
      by (auto simp: style_value_def Let_def)
  qed
qed (simp add: style_value_def)

definition optional_semicolon :: "string \<Rightarrow> string" where
  "optional_semicolon s = (if has_prefix '';'' s then tl s else s)"

lemma optional_semicolon_length: "length (optional_semicolon s) \<le> length s"
  by (simp add: optional_semicolon_def)

text \<open>One declaration.\<close>

definition style_decl :: "string \<Rightarrow> (string \<times> string) style_result" where
  "style_decl s = (case style_ident s of
      Inl e \<Rightarrow> Inl e
    | Inr (prop, s2) \<Rightarrow>
        if prop \<notin> set style_props then Inl (UnknownProperty prop)
        else if \<not> has_prefix '':'' (style_skip s2) then Inl ExpectedColon
        else (case style_value (style_skip (tl (style_skip s2))) of
            Inl e \<Rightarrow> Inl e
          | Inr (val, s4) \<Rightarrow> Inr ((prop, val), optional_semicolon (style_skip s4))))"

lemma style_decl_length: "style_decl s = Inr (kv, r) \<Longrightarrow> length r < length s"
proof -
  assume h: "style_decl s = Inr (kv, r)"
  then obtain k s2 val s4 where p: "style_ident s = Inr (k, s2)"
      and v: "style_value (style_skip (tl (style_skip s2))) = Inr (val, s4)"
      and r: "r = optional_semicolon (style_skip s4)"
    by (auto simp: style_decl_def split: sum.splits if_splits)
  have "length r \<le> length s4" using r optional_semicolon_length [of "style_skip s4"] style_skip_length [of s4] by simp
  also have "\<dots> \<le> length s2"
    using style_value_length [OF v] style_skip_length [of "tl (style_skip s2)"] style_skip_length [of s2] by simp
  also have "\<dots> < length s" by (rule style_ident_length [OF p])
  finally show ?thesis .
qed

function style_decls :: "(string \<rightharpoonup> string) \<Rightarrow> string \<Rightarrow> (string \<rightharpoonup> string) style_result" where
  "style_decls decls s =
     (if has_prefix ''}'' (style_skip s) then Inr (decls, tl (style_skip s))
      else (case style_decl (style_skip s) of
          Inl e \<Rightarrow> Inl e
        | Inr ((prop, val), r) \<Rightarrow> style_decls (decls(prop \<mapsto> val)) r))"
  by pat_completeness auto
termination
  by (relation "measure (\<lambda>(decls, s). length s)")
     (auto dest!: style_decl_length simp: less_le_trans [OF _ style_skip_length])

declare style_decls.simps [simp del]

definition style_rule :: "string \<Rightarrow> rule style_result" where
  "style_rule s = (case style_selector s of
      Inl e \<Rightarrow> Inl e
    | Inr ((kind, val, spec), s1) \<Rightarrow>
        if \<not> has_prefix ''{'' (style_skip s1) then Inl ExpectedOpenBrace
        else (case style_decls Map.empty (tl (style_skip s1)) of
            Inl e \<Rightarrow> Inl e
          | Inr (decls, s2) \<Rightarrow> Inr (\<lparr>Kind = kind, Value = val, Specificity = spec, Order = 0, Decls = decls\<rparr>, s2)))"

lemma style_selector_length: "style_selector s = Inr (sel, r) \<Longrightarrow> length r \<le> length s"
proof -
  have cls: "style_class u = Inr (c, r) \<Longrightarrow> length r \<le> length u" for u c
    using style_skip_length [of u] length_dropWhile_le [of is_class_char "style_skip u"]
    by (auto simp: style_class_def Let_def split: if_splits)
  have shp: "style_shape u = Inr (c, r) \<Longrightarrow> length r \<le> length u" for u c
    using style_skip_length [of u] length_dropWhile_le [of is_shape_char "style_skip u"]
    by (auto simp: style_shape_def Let_def split: if_splits)
  assume "style_selector s = Inr (sel, r)"
  then show ?thesis
    using cls [of "tl s"] shp [of s] style_ident_length [of "tl s" _ r]
    by (fastforce simp: style_selector_def split: if_splits sum.splits)
qed

lemma style_decls_length: "style_decls d s = Inr (m, r) \<Longrightarrow> length r < length s"
proof (induction d s rule: style_decls.induct)
  case (1 d s)
  have skip: "length (style_skip s) \<le> length s" by (rule style_skip_length)
  show ?case
  proof (cases "has_prefix ''}'' (style_skip s)")
    case True
    with 1(2) have "r = tl (style_skip s)" "style_skip s \<noteq> []"
      by (auto simp: style_decls.simps [of d s])
    then have "length r < length (style_skip s)" by simp
    with skip show ?thesis by simp
  next
    case False
    with 1(2) obtain k v u where d: "style_decl (style_skip s) = Inr ((k, v), u)" "style_decls (d(k \<mapsto> v)) u = Inr (m, r)"
      by (auto simp: style_decls.simps [of d s] split: sum.splits)
    have "length r < length u" by (rule 1(1) [OF False d(1) refl refl d(2)])
    with style_decl_length [OF d(1)] skip show ?thesis by simp
  qed
qed

lemma style_rule_length: "style_rule s = Inr (rl, r) \<Longrightarrow> length r < length s"
proof -
  assume "style_rule s = Inr (rl, r)"
  then obtain sel s1 m where s1: "style_selector s = Inr (sel, s1)"
      and m: "style_decls Map.empty (tl (style_skip s1)) = Inr (m, r)"
    by (auto simp: style_rule_def split: sum.splits if_splits)
  show ?thesis
    using style_selector_length [OF s1] style_skip_length [of s1] style_decls_length [OF m] by simp
qed

function style_rules :: "nat \<Rightarrow> string \<Rightarrow> style_error + rule list" where
  "style_rules n s =
     (if style_skip s = [] then Inr []
      else (case style_rule (style_skip s) of
          Inl e \<Rightarrow> Inl e
        | Inr (r, rest) \<Rightarrow> (case style_rules (Suc n) rest of
            Inl e \<Rightarrow> Inl e
          | Inr rs \<Rightarrow> Inr (r\<lparr>Order := int n\<rparr> # rs))))"
  by pat_completeness auto
termination
  by (relation "measure (\<lambda>(n, s). length s)")
     (auto dest!: style_rule_length simp: less_le_trans [OF _ style_skip_length])

declare style_rules.simps [simp del]

definition ParseStylesheet :: "string \<Rightarrow> style_error + rule list" where
  "ParseStylesheet src = style_rules 0 src"

section \<open>Application\<close>

definition ruleMatchesNode :: "rule \<Rightarrow> node \<Rightarrow> bool" where
  "ruleMatchesNode r n = (case Kind r of
      SelectorUniversal \<Rightarrow> True
    | SelectorID \<Rightarrow> node_id n = Value r
    | SelectorClass \<Rightarrow> Value r \<in> set (node_ClassList n)
    | SelectorShape \<Rightarrow> node_Shape n = Value r)"

text \<open>The best rule so far, by specificity and then by order.\<close>

definition better_rule :: "node \<Rightarrow> string \<Rightarrow> rule \<Rightarrow> int \<times> int \<times> string \<Rightarrow> int \<times> int \<times> string" where
  "better_rule n prop r best = (case best of (bestSpec, bestOrder, bestVal) \<Rightarrow>
     if \<not> ruleMatchesNode r n then best
     else (case Decls r prop of
         None \<Rightarrow> best
       | Some v \<Rightarrow> if Specificity r > bestSpec \<or> Specificity r = bestSpec \<and> Order r > bestOrder
           then (Specificity r, Order r, v) else best))"

definition apply_prop :: "graph option \<Rightarrow> rule list \<Rightarrow> string \<Rightarrow> node \<Rightarrow> node" where
  "apply_prop gr rules prop n =
     (if node_attrs n prop \<noteq> None then n
      else (case fold (better_rule n prop) rules (- 1, - 1, '''') of (bestSpec, bestOrder, bestVal) \<Rightarrow>
        if bestSpec \<ge> 0 then n\<lparr>node_attrs := (node_attrs n)(prop \<mapsto> bestVal)\<rparr>
        else (case gr of
            None \<Rightarrow> n
          | Some g \<Rightarrow> (case g_attrs g prop of
              None \<Rightarrow> n
            | Some v \<Rightarrow> if trim_space v \<noteq> '''' then n\<lparr>node_attrs := (node_attrs n)(prop \<mapsto> v)\<rparr> else n))))"

definition applyToNode :: "graph option \<Rightarrow> rule list \<Rightarrow> node \<Rightarrow> node" where
  "applyToNode gr rules n = fold (apply_prop gr rules) style_props n"

definition ApplyStylesheet :: "graph option \<Rightarrow> rule list \<Rightarrow> string + graph" where
  "ApplyStylesheet gr rules = (case gr of
      None \<Rightarrow> Inl ''graph is nil''
    | Some g \<Rightarrow> if rules = [] then Inr g
        else Inr (g\<lparr>g_nodes := (\<lambda>i. map_option (applyToNode gr rules) (g_nodes g i))\<rparr>))"

section \<open>The choice of a rule\<close>

text \<open>The rules that set a property of a node, and their rank, least first.\<close>

definition setting_rules :: "node \<times> string \<times> rule list \<Rightarrow> rule list" where
  "setting_rules s = (case s of (n, p, rules) \<Rightarrow>
     filter (\<lambda>r. ruleMatchesNode r n \<and> Decls r p \<noteq> None \<and> Specificity r \<ge> 0) rules)"

definition rule_key :: "rule \<Rightarrow> int \<times> int" where
  "rule_key r = (- Specificity r, - Order r)"

definition chosen_rule :: "node \<times> string \<times> rule list \<Rightarrow> rule option" where
  "chosen_rule s = (case s of (n, p, rules) \<Rightarrow>
     (case fold (better_rule n p) rules (- 1, - 1, '''') of (bestSpec, bestOrder, _) \<Rightarrow>
        if bestSpec \<ge> 0 then find (\<lambda>r. rule_key r = (- bestSpec, - bestOrder)) (setting_rules s) else None))"

lemma find_append: "find P (xs @ ys) = (case find P xs of None \<Rightarrow> find P ys | Some x \<Rightarrow> Some x)"
  by (induction xs) auto

lemma fold_choice:
  "case fold (better_rule n p) rules (- 1, - 1, '''') of (bestSpec, bestOrder, bestVal) \<Rightarrow>
     if setting_rules (n, p, rules) = [] then bestSpec < 0
     else bestSpec \<ge> 0 \<and> (\<exists>r. find (\<lambda>r. rule_key r = (- bestSpec, - bestOrder)) (setting_rules (n, p, rules)) = Some r \<and>
       Decls r p = Some bestVal \<and> (\<forall>r' \<in> set (setting_rules (n, p, rules)). rule_key r \<le> rule_key r'))"
proof (induction rules rule: rev_induct)
  case (snoc x rules)
  obtain bs bo bv where f: "fold (better_rule n p) rules (- 1, - 1, '''') = (bs, bo, bv)"
    by (metis prod_cases3)
  have keys: "rule_key r = (- bs, - bo)" if "find (\<lambda>r. rule_key r = (- bs, - bo)) (setting_rules (n, p, rules)) = Some r" for r
    using that by (auto simp: find_Some_iff)
  consider (no) "setting_rules (n, p, rules @ [x]) = setting_rules (n, p, rules)"
      "\<not> ruleMatchesNode x n \<or> Decls x p = None \<or> Specificity x < 0"
    | (yes) v where "setting_rules (n, p, rules @ [x]) = setting_rules (n, p, rules) @ [x]" "ruleMatchesNode x n"
      "Decls x p = Some v" "Specificity x \<ge> 0"
    by (cases "ruleMatchesNode x n \<and> Decls x p \<noteq> None \<and> Specificity x \<ge> 0") (auto simp: setting_rules_def)
  then show ?case
  proof cases
    case no
    with snoc f show ?thesis
      by (auto simp: better_rule_def split: option.splits if_splits)
  next
    case yes
    show ?thesis
    proof (cases "Specificity x > bs \<or> Specificity x = bs \<and> Order x > bo")
      case True
      have less: "rule_key x < rule_key r'" if "r' \<in> set (setting_rules (n, p, rules))" for r'
      proof -
        from that snoc f obtain r where r: "find (\<lambda>r. rule_key r = (- bs, - bo)) (setting_rules (n, p, rules)) = Some r"
            "rule_key r \<le> rule_key r'" by (auto split: if_splits)
        with keys [OF r(1)] True show ?thesis by (auto simp: rule_key_def less_prod_def less_eq_prod_def)
      qed
      have "\<forall>r' \<in> set (setting_rules (n, p, rules)). rule_key r' \<noteq> rule_key x" using less by fastforce
      then have "find (\<lambda>r. rule_key r = rule_key x) (setting_rules (n, p, rules)) = None"
        by (simp add: find_None_iff)
      then have first: "find (\<lambda>r. rule_key r = (- Specificity x, - Order x)) (setting_rules (n, p, rules @ [x])) = Some x"
        unfolding yes(1) by (simp add: find_append rule_key_def)
      have "\<forall>r' \<in> set (setting_rules (n, p, rules @ [x])). rule_key x \<le> rule_key r'"
        unfolding yes(1) using less by (auto intro: less_imp_le)
      moreover have "fold (better_rule n p) (rules @ [x]) (- 1, - 1, '''') = (Specificity x, Order x, v)"
        using f True yes(2,3) by (simp add: better_rule_def)
      ultimately show ?thesis
        using first yes(1,3,4) by simp
    next
      case False
      then have ne: "setting_rules (n, p, rules) \<noteq> []" using snoc f yes(4) by auto
      with snoc f obtain r where r: "find (\<lambda>r. rule_key r = (- bs, - bo)) (setting_rules (n, p, rules)) = Some r"
          "Decls r p = Some bv" "\<forall>r' \<in> set (setting_rules (n, p, rules)). rule_key r \<le> rule_key r'" "bs \<ge> 0"
        by auto
      have "rule_key r \<le> rule_key x" using keys [OF r(1)] False by (auto simp: rule_key_def)
      moreover have "fold (better_rule n p) (rules @ [x]) (- 1, - 1, '''') = (bs, bo, bv)"
        using f False yes(2,3) by (simp add: better_rule_def)
      ultimately show ?thesis
        using yes(1) r by (auto simp: find_append)
    qed
  qed
qed (simp add: setting_rules_def)

interpretation styling: ranked_choice setting_rules "\<lambda>_. rule_key" chosen_rule
proof unfold_locales
  fix s :: "node \<times> string \<times> rule list" and r
  obtain n p rules where s: "s = (n, p, rules)" by (cases s)
  obtain bs bo bv where f: "fold (better_rule n p) rules (- 1, - 1, '''') = (bs, bo, bv)"
    by (metis prod_cases3)
  note choice = fold_choice [of n p rules, unfolded f]
  show "chosen_rule s = None \<longleftrightarrow> setting_rules s = []"
    using choice f s by (auto simp: chosen_rule_def split: if_splits)
  show "r \<in> set (setting_rules s) \<and> (\<forall>r' \<in> set (setting_rules s). rule_key r \<le> rule_key r')" if "chosen_rule s = Some r"
    using choice f s that by (auto simp: chosen_rule_def find_Some_iff split: if_splits)
qed

section \<open>What application changes\<close>

text \<open>The value a property of a node ends up with.\<close>

definition styled_value :: "graph option \<Rightarrow> rule list \<Rightarrow> string \<Rightarrow> node \<Rightarrow> string option" where
  "styled_value gr rules p n = (case node_attrs n p of
      Some v \<Rightarrow> Some v
    | None \<Rightarrow> (case chosen_rule (n, p, rules) of
        Some r \<Rightarrow> Decls r p
      | None \<Rightarrow> (case gr of
          None \<Rightarrow> None
        | Some g \<Rightarrow> (case g_attrs g p of
            None \<Rightarrow> None
          | Some v \<Rightarrow> if trim_space v \<noteq> '''' then Some v else None))))"

lemma apply_prop_eq: "apply_prop gr rules p n = n\<lparr>node_attrs := (node_attrs n)(p := styled_value gr rules p n)\<rparr>"
proof (cases "node_attrs n p")
  case None
  obtain bs bo bv where f: "fold (better_rule n p) rules (- 1, - 1, '''') = (bs, bo, bv)"
    by (metis prod_cases3)
  show ?thesis
  proof (cases "bs \<ge> 0")
    case True
    with fold_choice [of n p rules] f obtain r where "chosen_rule (n, p, rules) = Some r" "Decls r p = Some bv"
      by (auto simp: chosen_rule_def split: if_splits)
    with True None f show ?thesis by (simp add: apply_prop_def styled_value_def)
  next
    case False
    then have "chosen_rule (n, p, rules) = None" using f by (simp add: chosen_rule_def)
    with False None f show ?thesis
      by (auto simp: apply_prop_def styled_value_def fun_upd_idem split: option.split)
  qed
qed (simp add: apply_prop_def styled_value_def fun_upd_idem)

text \<open>The properties are not what selectors look at.\<close>

lemma matches_update: "p \<in> set style_props \<Longrightarrow>
    ruleMatchesNode r (n\<lparr>node_attrs := (node_attrs n)(p := v)\<rparr>) = ruleMatchesNode r n"
  by (auto simp: ruleMatchesNode_def node_ClassList_def node_Shape_def node_Attr_def Let_def style_props_def split: SelectorKind.split)

lemma better_rule_cong: "(\<And>r. ruleMatchesNode r n = ruleMatchesNode r n') \<Longrightarrow> better_rule n p = better_rule n' p"
  by (auto simp: better_rule_def fun_eq_iff)

lemma chosen_rule_cong: "(\<And>r. ruleMatchesNode r n = ruleMatchesNode r n') \<Longrightarrow> chosen_rule (n, p, rules) = chosen_rule (n', p, rules)"
proof -
  assume m: "\<And>r. ruleMatchesNode r n = ruleMatchesNode r n'"
  then have "setting_rules (n, p, rules) = setting_rules (n', p, rules)" by (simp add: setting_rules_def)
  with better_rule_cong [OF m] show ?thesis by (simp add: chosen_rule_def split_beta)
qed

lemma styled_value_update: "q \<in> set style_props \<Longrightarrow> p \<noteq> q \<Longrightarrow>
    styled_value gr rules p (n\<lparr>node_attrs := (node_attrs n)(q := v)\<rparr>) = styled_value gr rules p n"
  using chosen_rule_cong [of "n\<lparr>node_attrs := (node_attrs n)(q := v)\<rparr>" n p rules] matches_update [of q _ n v]
  by (auto simp: styled_value_def split: option.split)

lemma fold_apply_prop:
  "distinct ps \<Longrightarrow> set ps \<subseteq> set style_props \<Longrightarrow> fold (apply_prop gr rules) ps n =
     n\<lparr>node_attrs := (\<lambda>p. if p \<in> set ps then styled_value gr rules p n else node_attrs n p)\<rparr>"
proof (induction ps arbitrary: n)
  case (Cons q ps)
  let ?n = "apply_prop gr rules q n"
  have "styled_value gr rules p ?n = styled_value gr rules p n" if "p \<in> set ps" for p
    unfolding apply_prop_eq using that Cons.prems by (intro styled_value_update) auto
  with Cons show ?case
    by (auto simp: apply_prop_eq fun_eq_iff)
qed simp

lemma applyToNode_eq: "applyToNode gr rules n =
    n\<lparr>node_attrs := (\<lambda>p. if p \<in> set style_props then styled_value gr rules p n else node_attrs n p)\<rparr>"
proof -
  have "distinct style_props" by code_simp
  then show ?thesis unfolding applyToNode_def by (rule fold_apply_prop) simp
qed

lemma matches_applied: "ruleMatchesNode r (applyToNode gr rules n) = ruleMatchesNode r n"
  by (auto simp: applyToNode_eq ruleMatchesNode_def node_ClassList_def node_Shape_def node_Attr_def Let_def style_props_def
      split: SelectorKind.split)

lemma styled_again:
  "p \<in> set style_props \<Longrightarrow> styled_value gr rules p (applyToNode gr rules n) = node_attrs (applyToNode gr rules n) p"
  using chosen_rule_cong [of "applyToNode gr rules n" n p rules] matches_applied
  by (auto simp: applyToNode_eq styled_value_def split: option.splits)

lemma apply_again: "applyToNode gr rules (applyToNode gr rules n) = applyToNode gr rules n"
proof -
  let ?n = "applyToNode gr rules n"
  have "(\<lambda>p. if p \<in> set style_props then styled_value gr rules p ?n else node_attrs ?n p) = node_attrs ?n"
    by (auto simp: styled_again)
  then show ?thesis by (subst applyToNode_eq) simp
qed

section \<open>Printed stylesheets\<close>

type_synonym style_block = "SelectorKind \<times> string \<times> (string \<times> string) list"

fun print_selector :: "SelectorKind \<Rightarrow> string \<Rightarrow> string" where
  "print_selector SelectorUniversal v = ''*''"
| "print_selector SelectorID v = CHR ''#'' # v"
| "print_selector SelectorClass v = CHR ''.'' # v"
| "print_selector SelectorShape v = v"

fun specificity_of :: "SelectorKind \<Rightarrow> int" where
  "specificity_of SelectorUniversal = 0"
| "specificity_of SelectorShape = 1"
| "specificity_of SelectorClass = 2"
| "specificity_of SelectorID = 3"

definition print_decl :: "string \<times> string \<Rightarrow> string" where
  "print_decl kv = fst kv @ CHR '':'' # quote_char # escape (snd kv) @ [quote_char, CHR '';'']"

definition print_block :: "style_block \<Rightarrow> string" where
  "print_block b = (case b of (k, v, ds) \<Rightarrow> print_selector k v @ CHR ''{'' # concat (map print_decl ds) @ ''}'')"

definition add_decl :: "string \<times> string \<Rightarrow> (string \<rightharpoonup> string) \<Rightarrow> (string \<rightharpoonup> string)" where
  "add_decl kv m = m(fst kv \<mapsto> snd kv)"

lemma add_decl_pair: "add_decl (k, v) m = m(k \<mapsto> v)"
  by (simp add: add_decl_def)

definition block_rule :: "nat \<Rightarrow> style_block \<Rightarrow> rule" where
  "block_rule i b = (case b of (k, v, ds) \<Rightarrow> \<lparr>Kind = k, Value = (if k = SelectorUniversal then '''' else v),
     Specificity = specificity_of k, Order = int i, Decls = fold add_decl ds Map.empty\<rparr>)"

fun good_selector :: "SelectorKind \<Rightarrow> string \<Rightarrow> bool" where
  "good_selector SelectorUniversal v = True"
| "good_selector SelectorID v = is_ident v"
| "good_selector SelectorClass v = (v \<noteq> '''' \<and> list_all is_class_char v)"
| "good_selector SelectorShape v = (v \<noteq> '''' \<and> list_all is_shape_char v \<and> hd v \<noteq> CHR ''.'')"

definition good_block :: "style_block \<Rightarrow> bool" where
  "good_block b = (case b of (k, v, ds) \<Rightarrow> good_selector k v \<and> list_all (\<lambda>(p, _). p \<in> set style_props) ds)"

lemma style_string_quote: "style_string b (quote_char # r) = Inr (b, r)"
  by (cases r) auto

lemma style_string_escape: "style_string b (escape s @ quote_char # r) = Inr (b @ s, r)"
proof (induction s arbitrary: b)
  case (Cons c s)
  obtain d u where du: "escape s @ quote_char # r = d # u" by (cases "escape s @ quote_char # r") auto
  have "style_string b (escape (c # s) @ quote_char # r) = style_string (b @ [c]) (escape s @ quote_char # r)"
  proof (cases "c = quote_char \<or> c = backslash")
    case True
    then show ?thesis by (auto simp: escape_def escape_char_def dot_chars)
  next
    case False
    with du show ?thesis by (simp add: escape_def escape_char_def)
  qed
  with Cons show ?case by simp
qed (simp add: escape_def style_string_quote)

lemma no_skip: "\<not> is_style_blank c \<Longrightarrow> style_skip (c # s) = c # s"
  by (simp add: style_skip_def)

lemma blank_free:
  "isIdentStart c \<Longrightarrow> \<not> is_style_blank c" "is_class_char c \<Longrightarrow> \<not> is_style_blank c" "is_shape_char c \<Longrightarrow> \<not> is_style_blank c"
  "\<not> is_style_blank (CHR ''{'')" "\<not> is_style_blank (CHR ''}'')" "\<not> is_style_blank (CHR '':'')" "\<not> is_style_blank (CHR '';'')"
  "\<not> is_style_blank quote_char" "\<not> is_style_blank (CHR ''*'')" "\<not> is_style_blank (CHR ''#'')" "\<not> is_style_blank (CHR ''.'')"
  by (auto simp: is_style_blank_def isIdentStart_def isAlpha_def isDigit_def in_range_def is_class_char_def is_shape_char_def dot_chars)

lemma style_ident_word:
  assumes "is_ident i" "\<not> isIdentContinue c"
  shows "style_ident (i @ c # r) = Inr (i, c # r)"
proof -
  obtain d u where i: "i = d # u" and d: "isIdentStart d" and u: "list_all isIdentContinue u"
    using assms(1) by (cases i) (auto simp: is_ident_def)
  show ?thesis
    using takeWhile_ident [OF u assms(2), of r] d blank_free(1) [OF d]
    by (simp add: style_ident_def i no_skip)
qed

lemma style_decl_print:
  assumes "p \<in> set style_props"
  shows "style_decl (print_decl (p, v) @ r) = Inr ((p, v), r)"
proof -
  have "list_all is_ident style_props" by code_simp
  then have "is_ident p" using assms by (auto simp: list_all_iff)
  moreover have "\<not> isIdentContinue (CHR '':'')" by code_simp
  ultimately have "style_ident (print_decl (p, v) @ r) =
      Inr (p, CHR '':'' # quote_char # escape v @ quote_char # CHR '';'' # r)"
    by (simp add: print_decl_def style_ident_word)
  then show ?thesis
    using assms blank_free
    by (simp add: style_decl_def no_skip style_value_def style_string_escape optional_semicolon_def)
qed

lemma print_decl_start: "p \<in> set style_props \<Longrightarrow> \<exists>c u. print_decl (p, v) @ r = c # u \<and> isIdentStart c"
proof -
  assume "p \<in> set style_props"
  moreover have "list_all (\<lambda>p. p \<noteq> '''' \<and> isIdentStart (hd p)) style_props" by code_simp
  ultimately have "p \<noteq> ''''" "isIdentStart (hd p)" by (auto simp only: list_all_iff)
  then show ?thesis by (cases p) (auto simp: print_decl_def)
qed

lemma style_decls_print:
  "list_all (\<lambda>(p, _). p \<in> set style_props) ds \<Longrightarrow>
   style_decls m (concat (map print_decl ds) @ CHR ''}'' # r) = Inr (fold add_decl ds m, r)"
proof (induction ds arbitrary: m)
  case Nil
  then show ?case by (subst style_decls.simps) (simp add: no_skip blank_free)
next
  case (Cons kv ds)
  obtain k v where kv: "kv = (k, v)" by fastforce
  with Cons.prems have k: "k \<in> set style_props" by simp
  let ?rest = "concat (map print_decl ds) @ CHR ''}'' # r"
  obtain c u where cu: "print_decl (k, v) @ ?rest = c # u" "isIdentStart c"
    using print_decl_start [OF k] by blast
  have skip: "style_skip (print_decl (k, v) @ ?rest) = print_decl (k, v) @ ?rest"
    using cu blank_free(1) by (simp add: no_skip)
  have "c \<noteq> CHR ''}''" using cu(2) by (auto simp: isIdentStart_def isAlpha_def in_range_def)
  then have brace: "\<not> has_prefix ''}'' (print_decl (k, v) @ ?rest)" using cu(1) by simp
  show ?case
    using Cons style_decl_print [OF k, of v ?rest] skip brace
    by (subst style_decls.simps) (simp add: kv add_decl_pair)
qed

lemma word_class:
  assumes "v \<noteq> ''''" "list_all P v" "\<not> P c" "\<And>c. P c \<Longrightarrow> \<not> is_style_blank c"
  shows "style_skip (v @ c # r) = v @ c # r" "takeWhile P (v @ c # r) = v" "dropWhile P (v @ c # r) = c # r"
  using assms takeWhile_ident [OF assms(2,3), of r] by (cases v; simp add: no_skip)+

lemma style_selector_print:
  assumes "good_selector k v"
  shows "style_selector (print_selector k v @ CHR ''{'' # r) =
    Inr ((k, if k = SelectorUniversal then '''' else v, specificity_of k), CHR ''{'' # r)"
proof -
  have open_brace: "\<not> is_class_char (CHR ''{'')" "\<not> is_shape_char (CHR ''{'')" "\<not> isIdentContinue (CHR ''{'')" by code_simp+
  show ?thesis
  proof (cases k)
    case SelectorID
    with assms style_ident_word [OF _ open_brace(3), of v r] show ?thesis by (simp add: style_selector_def)
  next
    case SelectorClass
    with assms have v: "v \<noteq> ''''" "list_all is_class_char v" by simp_all
    with SelectorClass word_class [OF v open_brace(1) blank_free(2), of r] show ?thesis
      by (simp add: style_selector_def style_class_def Let_def)
  next
    case SelectorShape
    with assms have v: "v \<noteq> ''''" "list_all is_shape_char v" "hd v \<noteq> CHR ''.''" by simp_all
    have trim: "trim_space v = v"
    proof -
      have "\<not> is_space c" if "is_shape_char c" for c
        using that by (auto simp: is_space_def is_shape_char_def isAlpha_def isDigit_def in_range_def)
      then have "\<forall>c \<in> set v. \<not> is_space c" using v(2) by (auto simp: list_all_iff)
      then show ?thesis by (simp add: trim_space_def trim_by_none)
    qed
    obtain c u where c: "v = c # u" "is_shape_char c" using v by (cases v) auto
    then have "c \<noteq> CHR ''*''" "c \<noteq> CHR ''#''" "c \<noteq> CHR ''.''"
      using v(3) by (auto simp: is_shape_char_def isAlpha_def isDigit_def in_range_def)
    then have "\<not> has_prefix ''*'' (v @ CHR ''{'' # r)" "\<not> has_prefix ''#'' (v @ CHR ''{'' # r)"
      "\<not> has_prefix ''.'' (v @ CHR ''{'' # r)" using c(1) by simp_all
    with SelectorShape word_class [OF v(1,2) open_brace(2) blank_free(3), of r] v(1) trim show ?thesis
      by (simp add: style_selector_def style_shape_def Let_def)
  qed (simp add: style_selector_def)
qed

lemma print_block_start:
  assumes "good_block b"
  shows "\<exists>c u. print_block b @ r = c # u \<and> \<not> is_style_blank c"
proof -
  obtain k v ds where b: "b = (k, v, ds)" by (cases b)
  show ?thesis
  proof (cases k)
    case SelectorShape
    with assms b obtain c u where "v = c # u" "is_shape_char c" by (cases v) (auto simp: good_block_def)
    with SelectorShape b blank_free(3) show ?thesis by (auto simp: print_block_def)
  qed (use b blank_free in \<open>auto simp: print_block_def\<close>)
qed

lemma style_rule_print:
  assumes "good_block b"
  shows "style_rule (print_block b @ r) = Inr (block_rule 0 b, r)"
proof -
  obtain k v ds where b: "b = (k, v, ds)" by (cases b)
  with assms style_selector_print [of k v] style_decls_print [of ds Map.empty r] show ?thesis
    by (simp add: style_rule_def print_block_def block_rule_def good_block_def no_skip blank_free)
qed

lemma style_rules_print:
  "list_all good_block bs \<Longrightarrow> style_rules i (concat (map print_block bs)) =
    Inr (map (\<lambda>(j, b). block_rule j b) (enumerate i bs))"
proof (induction bs arbitrary: i)
  case Nil
  then show ?case by (subst style_rules.simps) (simp add: style_skip_def)
next
  case (Cons b bs)
  let ?rest = "concat (map print_block bs)"
  obtain c u where cu: "print_block b @ ?rest = c # u" "\<not> is_style_blank c"
    using print_block_start Cons.prems by (metis list.pred_inject(2))
  have "block_rule 0 b\<lparr>Order := int i\<rparr> = block_rule i b" by (simp add: block_rule_def split: prod.split)
  with Cons style_rule_print [of b ?rest] cu show ?case
    by (subst style_rules.simps) (simp add: no_skip)
qed

section \<open>Parsed rules\<close>

lemma style_rule_specificity: "style_rule s = Inr (r, rest) \<Longrightarrow> 0 \<le> Specificity r"
  by (auto simp: style_rule_def style_selector_def split: sum.splits if_splits)

lemma parsed_rules:
  "style_rules n s = Inr rs \<Longrightarrow> list_all (\<lambda>r. 0 \<le> Specificity r) rs \<and> map Order rs = map int [n..<n + length rs]"
proof (induction n s arbitrary: rs rule: style_rules.induct)
  case (1 n s)
  show ?case
  proof (cases "style_skip s = []")
    case True
    with 1(2) show ?thesis by (simp add: style_rules.simps [of n s])
  next
    case False
    with 1(2) obtain r rest rs' where r: "style_rule (style_skip s) = Inr (r, rest)" "style_rules (Suc n) rest = Inr rs'"
        "rs = r\<lparr>Order := int n\<rparr> # rs'"
      by (auto simp: style_rules.simps [of n s] split: sum.splits)
    have "list_all (\<lambda>r. 0 \<le> Specificity r) rs' \<and> map Order rs' = map int [Suc n..<Suc n + length rs']"
      by (rule 1(1) [OF False r(1) refl r(2)])
    moreover have "map int [n..<n + length rs] = int n # map int [Suc n..<Suc n + length rs']"
      using r(3) by (simp add: upt_conv_Cons del: upt_Suc)
    ultimately show ?thesis
      using style_rule_specificity [OF r(1)] r(3) by simp
  qed
qed

section \<open>Properties\<close>

text \<open>
  C38: parsing a printed stylesheet gives its rules in their order, each with the specificity of its
  selector (universal, shape, class, identifier) and with values that may hold any bytes.
\<close>

theorem ParseStylesheet_print:
  assumes "list_all good_block bs"
  shows "ParseStylesheet (concat (map print_block bs)) = Inr (map (\<lambda>(j, b). block_rule j b) (enumerate 0 bs))"
  unfolding ParseStylesheet_def by (rule style_rules_print [OF assms])

theorem ParseStylesheet_print_witness:
  "ParseStylesheet (concat (map print_block [(SelectorUniversal, '''', [(''llm_model'', ''a;b'')]),
      (SelectorClass, ''hard'', [(''llm_model'', ''big''), (''reasoning_effort'', ''high'')]),
      (SelectorShape, ''box'', []), (SelectorID, ''review'', [(''max_tokens'', ''100'')])])) =
   Inr (map (\<lambda>(j, b). block_rule j b) (enumerate 0 [(SelectorUniversal, '''', [(''llm_model'', ''a;b'')]),
      (SelectorClass, ''hard'', [(''llm_model'', ''big''), (''reasoning_effort'', ''high'')]),
      (SelectorShape, ''box'', []), (SelectorID, ''review'', [(''max_tokens'', ''100'')])]))"
  by (rule ParseStylesheet_print) code_simp

text \<open>
  the cascade of a stylesheet: a node without a value of its own for one of the four properties
  gets it from the rule of greatest specificity, and among equals from the last one, of those rules
  that match the node and set the property.
\<close>

theorem stylesheet_cascade:
  assumes "ParseStylesheet src = Inr rules" and "ApplyStylesheet (Some g) rules = Inr g'"
    and "g_nodes g i = Some n" and "p \<in> set style_props" and "node_attrs n p = None"
    and "r \<in> set rules" and "ruleMatchesNode r n" and "Decls r p = Some v"
    and "\<And>r'. r' \<in> set rules \<Longrightarrow> ruleMatchesNode r' n \<Longrightarrow> Decls r' p \<noteq> None \<Longrightarrow>
      Specificity r' < Specificity r \<or> Specificity r' = Specificity r \<and> Order r' \<le> Order r"
  shows "\<exists>n'. g_nodes g' i = Some n' \<and> node_attrs n' p = Some v"
proof -
  have parsed: "list_all (\<lambda>r. 0 \<le> Specificity r) rules" "map Order rules = map int [0..<length rules]"
    using parsed_rules [of 0 src rules] assms(1) by (simp_all add: ParseStylesheet_def)
  have "distinct (map Order rules)" using parsed(2) by (simp add: distinct_map)
  then have inj: "inj_on rule_key (set (setting_rules (n, p, rules)))"
    by (auto simp: inj_on_def rule_key_def setting_rules_def distinct_map)
  have "r \<in> set (setting_rules (n, p, rules))"
    using assms(6-8) parsed(1) by (auto simp: setting_rules_def list_all_iff)
  moreover have "\<forall>r' \<in> set (setting_rules (n, p, rules)). rule_key r \<le> rule_key r'"
    using assms(9) by (fastforce simp: setting_rules_def rule_key_def)
  ultimately have "chosen_rule (n, p, rules) = Some r"
    using styling.pick_unique inj by blast
  moreover have "rules \<noteq> []" using assms(6) by auto
  ultimately show ?thesis
    using assms(2-5,8) by (auto simp: ApplyStylesheet_def applyToNode_eq styled_value_def)
qed

definition sample_style :: string where
  "sample_style = concat (map print_block [(SelectorID, ''review'', [(''llm_model'', ''big'')]), (SelectorUniversal, '''', [(''llm_model'', ''small'')])])"

theorem stylesheet_cascade_witness:
  "case ParseStylesheet sample_style of
     Inr [r1, r2] \<Rightarrow> (case ApplyStylesheet (Some (add_nodes [NewNode ''review''] (NewGraph ''g''))) [r1, r2] of
        Inr g' \<Rightarrow> (\<exists>n'. g_nodes g' ''review'' = Some n' \<and> node_attrs n' ''llm_model'' = Some ''big'')
      | Inl _ \<Rightarrow> False)
   | _ \<Rightarrow> False"
proof -
  let ?g = "add_nodes [NewNode ''review''] (NewGraph ''g'')"
  let ?ok = "\<lambda>r1 r2. ruleMatchesNode r1 (NewNode ''review'') \<and> Decls r1 ''llm_model'' = Some ''big'' \<and> Specificity r2 < Specificity r1"
  have "case ParseStylesheet sample_style of Inr [r1, r2] \<Rightarrow> ?ok r1 r2 | _ \<Rightarrow> False"
    by code_simp
  then obtain r1 r2 where rules: "ParseStylesheet sample_style = Inr [r1, r2]" and ok: "?ok r1 r2"
    by (auto split: sum.splits list.splits)
  obtain g' where g': "ApplyStylesheet (Some ?g) [r1, r2] = Inr g'" by (auto simp: ApplyStylesheet_def)
  have n: "g_nodes ?g ''review'' = Some (NewNode ''review'')" "node_attrs (NewNode ''review'') ''llm_model'' = None"
    by (simp_all add: add_nodes_def AddNode_def NewGraph_def NewNode_def)
  have "\<exists>n'. g_nodes g' ''review'' = Some n' \<and> node_attrs n' ''llm_model'' = Some ''big''"
    by (rule stylesheet_cascade [OF rules g' n(1) _ n(2), of r1]) (use ok in \<open>auto simp: style_props_def\<close>)
  with rules g' show ?thesis by simp
qed

text \<open>
  applying a stylesheet never changes a value a node has, nor anything but the four properties,
  keeps the graph consistent, and has no further effect when it is repeated.
\<close>

theorem stylesheet_conservative:
  assumes "ApplyStylesheet (Some g) rules = Inr g'"
  shows "(\<forall>i n. g_nodes g i = Some n \<longrightarrow> (\<exists>n'. g_nodes g' i = Some n' \<and> node_id n' = node_id n \<and>
      node_classes n' = node_classes n \<and> node_order n' = node_order n \<and> node_attrs n \<subseteq>\<^sub>m node_attrs n' \<and>
      (\<forall>p. p \<notin> set style_props \<longrightarrow> node_attrs n' p = node_attrs n p))) \<and>
    g_edges g' = g_edges g \<and> (wf_graph g \<longrightarrow> wf_graph g') \<and> ApplyStylesheet (Some g') rules = Inr g'"
proof (cases "rules = []")
  case True
  with assms show ?thesis by (auto simp: ApplyStylesheet_def)
next
  case False
  with assms have g': "g' = g\<lparr>g_nodes := (\<lambda>i. map_option (applyToNode (Some g) rules) (g_nodes g i))\<rparr>"
    by (simp add: ApplyStylesheet_def)
  have same_graph: "styled_value (Some g') rules = styled_value (Some g) rules"
    by (rule ext, rule ext) (simp add: styled_value_def g' split: option.split)
  have "applyToNode (Some g') rules m = applyToNode (Some g) rules m" for m
    by (simp only: applyToNode_eq same_graph)
  then have "applyToNode (Some g') rules (applyToNode (Some g) rules n) = applyToNode (Some g) rules n" for n
    by (simp add: apply_again)
  then have "map_option (applyToNode (Some g') rules) (g_nodes g' i) = g_nodes g' i" for i
    by (simp add: g' option.map_comp comp_def)
  then have again: "ApplyStylesheet (Some g') rules = Inr g'"
    using False by (simp add: ApplyStylesheet_def)
  have node: "node_id n' = node_id n \<and> node_classes n' = node_classes n \<and> node_order n' = node_order n \<and>
      node_attrs n \<subseteq>\<^sub>m node_attrs n' \<and> (\<forall>p. p \<notin> set style_props \<longrightarrow> node_attrs n' p = node_attrs n p)"
    if "n' = applyToNode (Some g) rules n" for n n'
    using that by (auto simp: applyToNode_eq map_le_def styled_value_def)
  have nodes: "g_nodes g' i = map_option (applyToNode (Some g) rules) (g_nodes g i)" for i by (simp add: g')
  have "\<exists>n'. g_nodes g' i = Some n' \<and> node_id n' = node_id n \<and>
      node_classes n' = node_classes n \<and> node_order n' = node_order n \<and> node_attrs n \<subseteq>\<^sub>m node_attrs n' \<and>
      (\<forall>p. p \<notin> set style_props \<longrightarrow> node_attrs n' p = node_attrs n p)" if "g_nodes g i = Some n" for i n
    using that node [OF refl, of n] by (simp add: nodes)
  moreover have "wf_graph g'" if wf: "wf_graph g"
  proof -
    have dom: "dom (g_nodes g') = dom (g_nodes g)" by (auto simp: nodes)
    have ids: "\<forall>i n. g_nodes g' i = Some n \<longrightarrow> node_id n = i"
      using wf node [OF refl] by (auto simp: nodes wf_graph_def)
    have "g_nodes g' '''' = None" using wf by (simp add: nodes wf_graph_def)
    moreover have "g_edges g' = g_edges g" "g_outgoing g' = g_outgoing g" "g_incoming g' = g_incoming g"
      by (simp_all add: g')
    ultimately show ?thesis using wf dom ids unfolding wf_graph_def by metis
  qed
  moreover have "g_edges g' = g_edges g" by (simp add: g')
  ultimately show ?thesis using again by blast
qed

theorem stylesheet_conservative_witness:
  "case ParseStylesheet sample_style of
     Inr rules \<Rightarrow> (case ApplyStylesheet (Some (add_nodes [NewNode ''review''] (NewGraph ''g''))) rules of
        Inr g' \<Rightarrow> wf_graph g' \<and> ApplyStylesheet (Some g') rules = Inr g'
      | Inl _ \<Rightarrow> False)
   | _ \<Rightarrow> False"
proof -
  have "case ParseStylesheet sample_style of Inr rules \<Rightarrow> length rules = 2 | _ \<Rightarrow> False" by code_simp
  then obtain rules where rules: "ParseStylesheet sample_style = Inr rules" by (auto split: sum.splits)
  let ?g = "add_nodes [NewNode ''review''] (NewGraph ''g'')"
  obtain g' where g': "ApplyStylesheet (Some ?g) rules = Inr g'"
    by (cases "rules = []") (auto simp: ApplyStylesheet_def)
  have "wf_graph ?g" by (intro built_wf built_add_nodes built_graph.new)
  with stylesheet_conservative [OF g'] rules g' show ?thesis by simp
qed

section \<open>Values without quotes\<close>

definition read_decl :: "string \<Rightarrow> string \<Rightarrow> style_error + string option list" where
  "read_decl src p = (case ParseStylesheet src of Inl e \<Rightarrow> Inl e | Inr rules \<Rightarrow> Inr (map (\<lambda>r. Decls r p) rules))"

text \<open>An empty value is accepted, and a declaration without its semicolon is part of the value before it.\<close>

lemma empty_value_accepted: "read_decl ''* { llm_model: ; }'' ''llm_model'' = Inr [Some '''']"
  by code_simp

lemma missing_semicolon_joins:
  "read_decl ''* { llm_model: a llm_provider: b; }'' ''llm_model'' = Inr [Some ''a llm_provider: b'']"
  by code_simp

end
