(* ===== verification/Concurrent.thy ===== *)
theory Concurrent
  imports RunLoop
begin

text \<open>
  Concurrent regions, \<^verbatim>\<open>internal/attractor/engine/concurrent.go\<close>: branches that share the
  context, the retry counts and the outcomes of the run, from a split node to its paired join.

  The goroutines are a schedule, a list that says which branch makes its next pass with which input;
  one pass of \<^verbatim>\<open>runBranchUntilJoin\<close> is one step.  A finer interleaving inside the stages of
  two branches is covered as far as the input of a pass (the attempts of its stage) may be anything.
  Progress events, databases and git are left out.
\<close>

section \<open>The split and its join\<close>

record conc_spec =
  ConcurrentID :: string
  SplitNode :: string
  JoinNode :: string
  AllowPartial :: bool

definition concurrent_id_of :: "node \<Rightarrow> string \<Rightarrow> string" where
  "concurrent_id_of n i = (let l = trim_space (node_Attr (Some n) ''concurrent_id'' '''') in if l = '''' then i else l)"

definition parseConcurrentSpecFromNode :: "node option \<Rightarrow> conc_spec option" where
  "parseConcurrentSpecFromNode nd = (case nd of
      None \<Rightarrow> None
    | Some n \<Rightarrow> Some \<lparr>ConcurrentID = concurrent_id_of n (node_id n), SplitNode = node_id n, JoinNode = '''',
        AllowPartial = equal_fold (trim_space (node_Attr (Some n) ''allow_partial'' '''')) ''true''\<rparr>)"

text \<open>The nodes of the graph in the order in which the map is ranged over.\<close>

definition findConcurrentJoinForSplit :: "string list \<Rightarrow> graph option \<Rightarrow> node option \<Rightarrow> node option" where
  "findConcurrentJoinForSplit order gr nd = (case (gr, nd) of
      (Some g, Some split) \<Rightarrow>
        first_node (\<lambda>i n. shapeToType (node_Shape n) = ''concurrent.join'' \<and>
          concurrent_id_of n i = concurrent_id_of split (node_id split)) g order
    | _ \<Rightarrow> None)"

section \<open>Branches\<close>

datatype conc_error =
    ConcCancelled string
  | ConcMissingNode string
  | NestedRegion string
  | NestedLoop string
  | StageFailedWith string string
  | ConcCondition cond_error
  | JoinNotReached string string

record conc_result =
  StartNode :: string
  LastNode :: string
  CompletedNodes :: "string list"
  Err :: "conc_error option"
  FailedNode :: string
  FailedReason :: string

datatype conc_pos = AtNode string | Ended

record conc_branch =
  cb_pos :: conc_pos
  cb_result :: conc_result

record conc_state =
  cs_context :: run_context
  cs_retries :: "string \<Rightarrow> int"
  cs_outcomes :: "string \<rightharpoonup> outcome"
  cs_cancelled :: bool
  cs_branches :: "conc_branch list"

record conc_env =
  ce_cancel :: "string option"
  ce_attempts :: "int \<Rightarrow> attempt_env"
  ce_prior_json :: "outcome option"

definition ended :: "conc_result \<Rightarrow> conc_branch" where
  "ended res = \<lparr>cb_pos = Ended, cb_result = res\<rparr>"

definition failed_at :: "conc_result \<Rightarrow> conc_error \<Rightarrow> string \<Rightarrow> conc_branch" where
  "failed_at res err i = ended (res\<lparr>Err := Some err, FailedNode := i\<rparr>)"

text \<open>The stage of a branch and the way out of it.\<close>

definition branch_stage ::
  "string list \<Rightarrow> graph \<Rightarrow> string \<Rightarrow> conc_env \<Rightarrow> node \<Rightarrow> conc_result \<Rightarrow> conc_state \<Rightarrow> conc_state \<times> conc_branch" where
  "branch_stage registered g stop ev n res st =
     (case executeWithRetry registered g (ce_attempts ev) n (cs_retries st) (cs_context st) (ce_prior_json ev) of
        (out, rs) \<Rightarrow>
          (let st1 = st\<lparr>cs_retries := rs_retries rs, cs_context := rs_context rs,
                   cs_outcomes := (cs_outcomes st)(node_id n \<mapsto> out)\<rparr>;
               res1 = res\<lparr>CompletedNodes := CompletedNodes res @ [node_id n], LastNode := node_id n\<rparr>
           in if Status out = StatusFail then
                (st1, failed_at (res1\<lparr>FailedReason := FailureReason out\<rparr>)
                   (StageFailedWith (node_id n) (FailureReason out)) (node_id n))
              else (case resolveNextHop (Some g) (node_id n) out (Some (cs_context st1)) (classifyFailureClass out) of
                  Inl err \<Rightarrow> (st1, failed_at res1 (ConcCondition err) (node_id n))
                | Inr None \<Rightarrow> (st1, failed_at res1 (JoinNotReached (StartNode res) stop) (node_id n))
                | Inr (Some hop) \<Rightarrow> (st1, \<lparr>cb_pos = AtNode (edge_to (hop_edge hop)), cb_result = res1\<rparr>))))"

text \<open>One pass of the loop of a branch that stands at \<^verbatim>\<open>current\<close>.\<close>

definition branch_pass ::
  "string list \<Rightarrow> graph \<Rightarrow> string \<Rightarrow> conc_env \<Rightarrow> string \<Rightarrow> conc_result \<Rightarrow> conc_state \<Rightarrow> conc_state \<times> conc_branch" where
  "branch_pass registered g stop ev current res st =
     (if cs_cancelled st then (st, ended (res\<lparr>Err := Some (ConcCancelled ''context canceled'')\<rparr>))
      else case ce_cancel ev of
        Some cause \<Rightarrow> (st, ended (res\<lparr>Err := Some (ConcCancelled cause)\<rparr>))
      | None \<Rightarrow>
          if current = stop then (st, ended (res\<lparr>LastNode := current\<rparr>))
          else (case g_nodes g current of
              None \<Rightarrow> (st, failed_at res (ConcMissingNode current) current)
            | Some n \<Rightarrow>
                (let handlerType = shapeToType (node_Shape n) in
                 if handlerType = ''concurrent.split'' \<or> handlerType = ''concurrent.join'' then
                   (st, failed_at res (NestedRegion current) current)
                 else if handlerType = ''loop.begin'' \<or> handlerType = ''loop.end'' then
                   (st, failed_at res (NestedLoop current) current)
                 else branch_stage registered g stop ev n res st)))"

section \<open>The region\<close>

text \<open>A pass of one branch; its error cancels the others unless partial results are allowed.\<close>

definition region_step ::
  "string list \<Rightarrow> graph \<Rightarrow> conc_spec \<Rightarrow> nat \<times> conc_env \<Rightarrow> conc_state \<Rightarrow> conc_state" where
  "region_step registered g spec step st = (case step of (idx, ev) \<Rightarrow>
     if idx < length (cs_branches st) then
       (let b = cs_branches st ! idx in
        case cb_pos b of
          Ended \<Rightarrow> st
        | AtNode current \<Rightarrow>
            (case branch_pass registered g (JoinNode spec) ev current (cb_result b) st of (st1, b1) \<Rightarrow>
               st1\<lparr>cs_branches := (cs_branches st1)[idx := b1],
                   cs_cancelled := cs_cancelled st1 \<or>
                     cb_pos b1 = Ended \<and> Err (cb_result b1) \<noteq> None \<and> \<not> AllowPartial spec\<rparr>))
     else st)"

definition region_run ::
  "string list \<Rightarrow> graph \<Rightarrow> conc_spec \<Rightarrow> (nat \<times> conc_env) list \<Rightarrow> conc_state \<Rightarrow> conc_state" where
  "region_run registered g spec schedule st = fold (region_step registered g spec) schedule st"

definition zero_conc_result :: "string \<Rightarrow> conc_result" where
  "zero_conc_result start = \<lparr>StartNode = start, LastNode = '''', CompletedNodes = [], Err = None, FailedNode = '''',
     FailedReason = ''''\<rparr>"

definition region_start :: "edge list \<Rightarrow> (string \<Rightarrow> int) \<Rightarrow> (string \<rightharpoonup> outcome) \<Rightarrow> run_context \<Rightarrow> conc_state" where
  "region_start branchEdges retries outcomes ctx =
     \<lparr>cs_context = ctx, cs_retries = retries, cs_outcomes = outcomes, cs_cancelled = False,
      cs_branches = map (\<lambda>e. \<lparr>cb_pos = AtNode (edge_to e), cb_result = zero_conc_result (edge_to e)\<rparr>) branchEdges\<rparr>"

definition all_ended :: "conc_state \<Rightarrow> bool" where
  "all_ended st \<longleftrightarrow> list_all (\<lambda>b. cb_pos b = Ended) (cs_branches st)"

definition first_error :: "conc_state \<Rightarrow> conc_error option" where
  "first_error st = (case filter (\<lambda>b. Err (cb_result b) \<noteq> None) (cs_branches st) of
      [] \<Rightarrow> None | b # _ \<Rightarrow> Err (cb_result b))"

definition region_completed :: "conc_state \<Rightarrow> string list" where
  "region_completed st = concat (map (\<lambda>b. CompletedNodes (cb_result b)) (cs_branches st))"

datatype region_error = NoPairedJoin string | FewBranches string nat | RegionFailedWith string conc_error

text \<open>
  The region under a schedule: the join and what the branches leave behind, and the error if there is
  one; no result as long as a branch has not ended.
\<close>

definition runConcurrentRegion ::
  "string list \<Rightarrow> graph \<Rightarrow> string list \<Rightarrow> node \<Rightarrow> (nat \<times> conc_env) list \<Rightarrow> (string \<Rightarrow> int) \<Rightarrow>
   (string \<rightharpoonup> outcome) \<Rightarrow> run_context \<Rightarrow> (string \<times> conc_state option \<times> region_error option) option" where
  "runConcurrentRegion registered g order split schedule retries outcomes ctx =
     (case (parseConcurrentSpecFromNode (Some split), findConcurrentJoinForSplit order (Some g) (Some split)) of
        (Some spec0, Some join) \<Rightarrow>
          (let spec = spec0\<lparr>JoinNode := node_id join\<rparr>;
               branchEdges = filter (\<lambda>e. edge_from e = node_id split) (g_edges g)
           in if length branchEdges < 2 then
                Some ('''', None, Some (FewBranches (node_id split) (length branchEdges)))
              else (let st = region_run registered g spec schedule (region_start branchEdges retries outcomes ctx)
                    in if \<not> all_ended st then None
                       else Some (JoinNode spec, Some st,
                         (case first_error st of
                            None \<Rightarrow> None
                          | Some err \<Rightarrow> if AllowPartial spec then None
                              else Some (RegionFailedWith (ConcurrentID spec) err)))))
      | _ \<Rightarrow> Some ('''', None, Some (NoPairedJoin (node_id split))))"

section \<open>One pass\<close>

lemma pass_keeps:
  assumes "branch_pass registered g stop ev current res st = (st1, b1)"
  shows "cs_branches st1 = cs_branches st" "cs_cancelled st1 = cs_cancelled st"
  using assms
  by (auto simp: branch_pass_def branch_stage_def Let_def split: if_splits option.splits prod.splits sum.splits)

text \<open>How a pass can end: at the join, with an error, or at the next node behind a stage that did not fail.\<close>

lemma pass_cases:
  assumes "branch_pass registered g stop ev current res st = (st1, b1)" "Err res = None"
  obtains (joined) "st1 = st" "b1 = ended (res\<lparr>LastNode := stop\<rparr>)" "current = stop"
  | (failed) "cb_pos b1 = Ended" "Err (cb_result b1) \<noteq> None"
  | (moved) n out hop where "g_nodes g current = Some n" "\<not> cs_cancelled st" "ce_cancel ev = None" "current \<noteq> stop"
      "cs_outcomes st1 = (cs_outcomes st)(node_id n \<mapsto> out)" "Status out \<noteq> StatusFail"
      "resolveNextHop (Some g) (node_id n) out (Some (cs_context st1)) (classifyFailureClass out) = Inr (Some hop)"
      "b1 = \<lparr>cb_pos = AtNode (edge_to (hop_edge hop)),
         cb_result = res\<lparr>CompletedNodes := CompletedNodes res @ [node_id n], LastNode := node_id n\<rparr>\<rparr>"
proof -
  have "(st1 = st \<and> b1 = ended (res\<lparr>LastNode := stop\<rparr>) \<and> current = stop) \<or>
    (cb_pos b1 = Ended \<and> Err (cb_result b1) \<noteq> None) \<or>
    (\<exists>n out hop. g_nodes g current = Some n \<and> \<not> cs_cancelled st \<and> ce_cancel ev = None \<and> current \<noteq> stop \<and>
      cs_outcomes st1 = (cs_outcomes st)(node_id n \<mapsto> out) \<and> Status out \<noteq> StatusFail \<and>
      resolveNextHop (Some g) (node_id n) out (Some (cs_context st1)) (classifyFailureClass out) = Inr (Some hop) \<and>
      b1 = \<lparr>cb_pos = AtNode (edge_to (hop_edge hop)),
         cb_result = res\<lparr>CompletedNodes := CompletedNodes res @ [node_id n], LastNode := node_id n\<rparr>\<rparr>)"
    using assms(1)
    by (auto simp: branch_pass_def branch_stage_def failed_at_def ended_def Let_def
        split: if_splits option.splits prod.splits sum.splits)
  with joined failed moved show thesis by blast
qed

text \<open>Induction over a schedule.\<close>

lemma region_run_invariant:
  assumes "P st" "\<And>s x. P s \<Longrightarrow> P (region_step registered g spec x s)"
  shows "P (region_run registered g spec schedule st)"
  using assms(1) unfolding region_run_def by (induction schedule arbitrary: st) (auto simp: assms(2))

lemma region_step_cases:
  obtains (idle) "region_step registered g spec (idx, ev) st = st"
  | (pass) current st1 b1 where "idx < length (cs_branches st)" "cb_pos (cs_branches st ! idx) = AtNode current"
      "branch_pass registered g (JoinNode spec) ev current (cb_result (cs_branches st ! idx)) st = (st1, b1)"
      "region_step registered g spec (idx, ev) st = st1\<lparr>cs_branches := (cs_branches st)[idx := b1],
         cs_cancelled := cs_cancelled st \<or> cb_pos b1 = Ended \<and> Err (cb_result b1) \<noteq> None \<and> \<not> AllowPartial spec\<rparr>"
proof (cases "idx < length (cs_branches st)")
  case True
  show thesis
  proof (cases "cb_pos (cs_branches st ! idx)")
    case (AtNode current)
    obtain st1 b1 where p: "branch_pass registered g (JoinNode spec) ev current (cb_result (cs_branches st ! idx)) st = (st1, b1)"
      by fastforce
    show thesis
      by (rule pass [OF True AtNode p]) (use True AtNode p pass_keeps [OF p] in \<open>simp add: region_step_def\<close>)
  qed (use idle in \<open>auto simp: region_step_def Let_def\<close>)
qed (use idle in \<open>auto simp: region_step_def\<close>)

section \<open>What a region leaves behind\<close>

text \<open>A branch under way has no error; one that ended without error stands at the join.\<close>

definition branch_ok :: "string \<Rightarrow> conc_branch \<Rightarrow> bool" where
  "branch_ok stop b \<longleftrightarrow> (case cb_pos b of
      AtNode _ \<Rightarrow> Err (cb_result b) = None
    | Ended \<Rightarrow> Err (cb_result b) = None \<longrightarrow> LastNode (cb_result b) = stop)"

definition no_errors :: "conc_state \<Rightarrow> bool" where
  "no_errors st \<longleftrightarrow> (\<forall>b \<in> set (cs_branches st). Err (cb_result b) = None)"

definition did_not_fail :: "conc_state \<Rightarrow> string \<Rightarrow> bool" where
  "did_not_fail st i \<longleftrightarrow> (case cs_outcomes st i of None \<Rightarrow> False | Some out \<Rightarrow> Status out \<noteq> StatusFail)"

definition region_inv :: "string \<Rightarrow> conc_state \<Rightarrow> bool" where
  "region_inv stop st \<longleftrightarrow> (\<forall>b \<in> set (cs_branches st). branch_ok stop b) \<and>
     (no_errors st \<longrightarrow> (\<forall>b \<in> set (cs_branches st). \<forall>i \<in> set (CompletedNodes (cb_result b)). did_not_fail st i))"

lemma branch_ok_running: "branch_ok stop b \<Longrightarrow> cb_pos b = AtNode i \<Longrightarrow> Err (cb_result b) = None"
  by (simp add: branch_ok_def)

text \<open>Replacing a branch without an error by its successor.\<close>

lemma region_inv_update:
  assumes inv: "region_inv stop st" and idx: "idx < length (cs_branches st)"
    and err: "Err (cb_result (cs_branches st ! idx)) = None" and ok: "branch_ok stop b1"
    and good: "Err (cb_result b1) = None \<Longrightarrow>
      (\<forall>i \<in> set (CompletedNodes (cb_result b1)).
         i \<in> set (CompletedNodes (cb_result (cs_branches st ! idx))) \<or> did_not_fail st1 i) \<and>
      (\<forall>i. did_not_fail st i \<longrightarrow> did_not_fail st1 i)"
  shows "region_inv stop (st1\<lparr>cs_branches := (cs_branches st)[idx := b1], cs_cancelled := c\<rparr>)" (is "region_inv stop ?st")
proof -
  have mem: "b' = b1 \<or> b' \<in> set (cs_branches st)" if "b' \<in> set ((cs_branches st)[idx := b1])" for b'
    using set_update_subset_insert [of "cs_branches st" idx b1] that by auto
  have b1: "b1 \<in> set ((cs_branches st)[idx := b1])" using idx by (rule set_update_memI)
  have fails: "did_not_fail ?st i = did_not_fail st1 i" for i by (simp add: did_not_fail_def)
  have old: "did_not_fail st1 i"
    if "no_errors ?st" "b' \<in> set ((cs_branches st)[idx := b1])" "i \<in> set (CompletedNodes (cb_result b'))" for b' i
  proof -
    have e1: "Err (cb_result b1) = None" using that(1) b1 by (simp add: no_errors_def)
    have "no_errors st"
      unfolding no_errors_def
    proof
      fix b'' assume "b'' \<in> set (cs_branches st)"
      then obtain j where j: "j < length (cs_branches st)" "b'' = cs_branches st ! j" by (metis in_set_conv_nth)
      show "Err (cb_result b'') = None"
      proof (cases "j = idx")
        case False
        then have "b'' \<in> set ((cs_branches st)[idx := b1])"
          using j by (metis length_list_update nth_list_update_neq nth_mem)
        with that(1) show ?thesis by (simp add: no_errors_def)
      qed (use j err in simp)
    qed
    with inv have kept: "b'' \<in> set (cs_branches st) \<Longrightarrow> i \<in> set (CompletedNodes (cb_result b'')) \<Longrightarrow> did_not_fail st i" for b''
      by (auto simp: region_inv_def)
    from mem [OF that(2)] show ?thesis
    proof
      assume "b' = b1"
      with good [OF e1] that(3) kept [OF nth_mem [OF idx]] show ?thesis by blast
    qed (use good [OF e1] kept that(3) in blast)
  qed
  show ?thesis
    unfolding region_inv_def fails
    using mem inv ok old by (auto simp: region_inv_def)
qed

lemma region_inv_step: "region_inv (JoinNode spec) st \<Longrightarrow> region_inv (JoinNode spec) (region_step registered g spec x st)"
proof (cases x)
  case (Pair idx ev)
  assume inv: "region_inv (JoinNode spec) st"
  show ?thesis
    unfolding Pair
  proof (cases rule: region_step_cases [of registered g spec idx ev st])
    case (pass current st1 b1)
    let ?b = "cs_branches st ! idx"
    have b: "?b \<in> set (cs_branches st)" using pass(1) by simp
    have err: "Err (cb_result ?b) = None"
      using inv b pass(2) branch_ok_running unfolding region_inv_def by blast
    show "region_inv (JoinNode spec) (region_step registered g spec (idx, ev) st)"
      unfolding pass(4)
    proof (rule region_inv_update [OF inv pass(1) err])
      show "branch_ok (JoinNode spec) b1"
        using pass(3) err by (cases rule: pass_cases) (auto simp: branch_ok_def ended_def err)
      show "(\<forall>i \<in> set (CompletedNodes (cb_result b1)). i \<in> set (CompletedNodes (cb_result ?b)) \<or> did_not_fail st1 i) \<and>
          (\<forall>i. did_not_fail st i \<longrightarrow> did_not_fail st1 i)" if "Err (cb_result b1) = None"
        using pass(3) err that
        by (cases rule: pass_cases) (auto simp: ended_def did_not_fail_def)
    qed
  qed (use inv in simp)
qed

lemma region_inv_start: "region_inv stop (region_start es retries outcomes ctx)"
  by (auto simp: region_inv_def region_start_def branch_ok_def zero_conc_result_def)

lemma region_inv_run:
  "region_inv (JoinNode spec) (region_run registered g spec schedule (region_start es retries outcomes ctx))"
  by (rule region_run_invariant [OF region_inv_start region_inv_step])

lemma region_run_branches [simp]: "length (cs_branches (region_run registered g spec schedule st)) = length (cs_branches st)"
proof -
  have "length (cs_branches (region_step registered g spec x s)) = length (cs_branches s)" for x s
    by (cases x) (cases rule: region_step_cases [of registered g spec "fst x" "snd x" s]; simp)
  then show ?thesis
    unfolding region_run_def by (induction schedule arbitrary: st) simp_all
qed

lemma first_error_None: "first_error st = None \<longleftrightarrow> no_errors st"
proof (cases "filter (\<lambda>b. Err (cb_result b) \<noteq> None) (cs_branches st)")
  case Nil
  then show ?thesis by (simp add: first_error_def no_errors_def filter_empty_conv)
next
  case (Cons b bs)
  then have "b \<in> set (filter (\<lambda>b. Err (cb_result b) \<noteq> None) (cs_branches st))" by simp
  then have "\<not> no_errors st" "Err (cb_result b) \<noteq> None" by (auto simp: no_errors_def)
  with Cons show ?thesis by (simp add: first_error_def)
qed

section \<open>Branches of an acyclic region end\<close>

text \<open>Outside a fan-in the next hop is an outgoing edge.\<close>

lemma hop_outgoing:
  assumes "resolveNextHop (Some g) i out ctx cls = Inr (Some hop)" "trim_space i = i" "\<not> isFanInFailureLike g i (Status out)"
  shows "hop_edge hop \<in> set (Outgoing g i)"
proof -
  obtain meta where sel: "selectNextEdgeWithMeta g i out ctx = Inr (selected_edge (g, i, out, ctx), meta)"
    using select_eq_selected_edge by blast
  with assms have "selected_edge (g, i, out, ctx) = Some (hop_edge hop)"
    by (auto simp: resolveNextHop_def Let_def split: if_splits option.splits)
  from route.pick_least [OF this] show ?thesis by simp
qed

definition region_graph :: "(string \<Rightarrow> nat) \<Rightarrow> graph \<Rightarrow> bool" where
  "region_graph rank g \<longleftrightarrow> wf_graph g \<and> (\<forall>i \<in> dom (g_nodes g). trim_space i = i \<and> \<not> isFanInFailureLike g i StatusRetry) \<and>
     (\<forall>e \<in> set (g_edges g). rank (edge_to e) < rank (edge_from e))"

definition pos_rank :: "(string \<Rightarrow> nat) \<Rightarrow> conc_branch \<Rightarrow> nat" where
  "pos_rank rank b = (case cb_pos b of Ended \<Rightarrow> 0 | AtNode i \<Rightarrow> Suc (rank i))"

lemma pass_rank:
  assumes g: "region_graph rank g"
    and pass: "branch_pass registered g stop ev current res st = (st1, b1)" "Err res = None"
  shows "pos_rank rank b1 \<le> rank current"
  using pass
proof (cases rule: pass_cases)
  case (moved n out hop)
  then have i: "node_id n = current" "trim_space current = current" "\<not> isFanInFailureLike g current StatusRetry"
    using g by (auto simp: region_graph_def wf_graph_def)
  have "\<not> isFanInFailureLike g current (Status out)"
    using i(3) moved(6) by (auto simp: isFanInFailureLike_def split: if_splits)
  with hop_outgoing moved(7) i have "hop_edge hop \<in> set (Outgoing g current)" by metis
  then have "rank (edge_to (hop_edge hop)) < rank current"
    using g Outgoing_filter [of g current] by (auto simp: region_graph_def)
  with moved(8) show ?thesis by (simp add: pos_rank_def)
qed (simp_all add: pos_rank_def ended_def)

text \<open>Every pass of a branch takes it down by at least one; the passes of others leave it alone.\<close>

lemma region_step_rank:
  assumes g: "region_graph rank g" and inv: "region_inv (JoinNode spec) st" and i: "i < length (cs_branches st)"
  shows "pos_rank rank (cs_branches (region_step registered g spec (idx, ev) st) ! i) + (if idx = i then 1 else 0) \<le>
    max (pos_rank rank (cs_branches st ! i)) (if idx = i then 1 else 0)"
proof (cases rule: region_step_cases [of registered g spec idx ev st])
  case idle
  have "cb_pos (cs_branches st ! i) = Ended" if "idx = i"
  proof (rule ccontr)
    assume "cb_pos (cs_branches st ! i) \<noteq> Ended"
    then obtain c where "cb_pos (cs_branches st ! i) = AtNode c" by (cases "cb_pos (cs_branches st ! i)") auto
    moreover from this have "Err (cb_result (cs_branches st ! i)) = None"
      using inv i by (auto simp: region_inv_def intro: branch_ok_running)
    moreover obtain st1 b1 where
      p: "branch_pass registered g (JoinNode spec) ev c (cb_result (cs_branches st ! i)) st = (st1, b1)" by fastforce
    ultimately have "pos_rank rank b1 \<le> rank c" "cs_branches (region_step registered g spec (idx, ev) st) ! i = b1"
      using pass_rank [OF g p] that i pass_keeps [OF p] by (auto simp: region_step_def)
    with idle \<open>cb_pos (cs_branches st ! i) = AtNode c\<close> show False by (simp add: pos_rank_def)
  qed
  then show ?thesis using idle by (auto simp: pos_rank_def)
next
  case (pass current st1 b1)
  have "Err (cb_result (cs_branches st ! idx)) = None"
    using inv pass(1,2) by (auto simp: region_inv_def intro: branch_ok_running)
  with pass_rank [OF g pass(3)] pass(1,2,4) show ?thesis
    by (cases "idx = i") (auto simp: pos_rank_def)
qed

lemma region_run_rank:
  assumes g: "region_graph rank g"
  shows "region_inv (JoinNode spec) st \<Longrightarrow> i < length (cs_branches st) \<Longrightarrow>
    pos_rank rank (cs_branches (region_run registered g spec schedule st) ! i) \<le>
    pos_rank rank (cs_branches st ! i) - count_list (map fst schedule) i"
proof (induction schedule arbitrary: st)
  case (Cons x schedule)
  obtain idx ev where x: "x = (idx, ev)" by fastforce
  let ?st = "region_step registered g spec x st"
  have len: "length (cs_branches ?st) = length (cs_branches st)"
    using region_run_branches [of registered g spec "[x]" st] by (simp add: region_run_def)
  have "pos_rank rank (cs_branches (region_run registered g spec schedule ?st) ! i) \<le>
      pos_rank rank (cs_branches ?st ! i) - count_list (map fst schedule) i"
    using Cons.IH [OF region_inv_step [OF Cons.prems(1)]] Cons.prems(2) len by simp
  moreover have "pos_rank rank (cs_branches ?st ! i) + (if idx = i then 1 else 0) \<le>
      max (pos_rank rank (cs_branches st ! i)) (if idx = i then 1 else 0)"
    unfolding x by (rule region_step_rank [OF g Cons.prems])
  ultimately show ?case by (cases "idx = i") (auto simp: region_run_def x)
qed (simp add: region_run_def)

lemma region_run_ended:
  assumes "region_graph rank g"
    and "\<And>i. i < length es \<Longrightarrow> rank (edge_to (es ! i)) < count_list (map fst schedule) i"
  shows "all_ended (region_run registered g spec schedule (region_start es retries outcomes ctx))"
proof -
  let ?st = "region_start es retries outcomes ctx" and ?run = "region_run registered g spec schedule"
  have "cb_pos (cs_branches (?run ?st) ! i) = Ended" if "i < length (cs_branches (?run ?st))" for i
  proof -
    have i: "i < length es" using that by (simp add: region_start_def)
    have "pos_rank rank (cs_branches ?st ! i) = Suc (rank (edge_to (es ! i)))"
      using i by (simp add: region_start_def pos_rank_def)
    then have "pos_rank rank (cs_branches (?run ?st) ! i) = 0"
      using region_run_rank [OF assms(1) region_inv_start, of i es retries outcomes ctx registered spec schedule]
        assms(2) [OF i] i by (simp add: region_start_def)
    then show ?thesis by (cases "cb_pos (cs_branches (?run ?st) ! i)") (auto simp: pos_rank_def)
  qed
  then show ?thesis by (auto simp: all_ended_def list_all_length)
qed

section \<open>Cancellation\<close>

lemma running_no_error:
  "region_inv stop st \<Longrightarrow> idx < length (cs_branches st) \<Longrightarrow> cb_pos (cs_branches st ! idx) = AtNode current \<Longrightarrow>
   Err (cb_result (cs_branches st ! idx)) = None"
  using branch_ok_running nth_mem unfolding region_inv_def by blast

definition cancel_inv :: "conc_spec \<Rightarrow> conc_state \<Rightarrow> bool" where
  "cancel_inv spec st \<longleftrightarrow> region_inv (JoinNode spec) st \<and> (cs_cancelled st \<longleftrightarrow> \<not> AllowPartial spec \<and> \<not> no_errors st)"

lemma cancel_inv_step: "cancel_inv spec st \<Longrightarrow> cancel_inv spec (region_step registered g spec x st)"
proof (cases x)
  case (Pair idx ev)
  assume inv: "cancel_inv spec st"
  show ?thesis
    unfolding Pair
  proof (cases rule: region_step_cases [of registered g spec idx ev st])
    case (pass current st1 b1)
    let ?st = "region_step registered g spec (idx, ev) st"
    have err: "Err (cb_result (cs_branches st ! idx)) = None"
      using inv pass(1,2) running_no_error unfolding cancel_inv_def by blast
    have ended: "Err (cb_result b1) \<noteq> None \<Longrightarrow> cb_pos b1 = Ended"
      using pass(3) err by (cases rule: pass_cases) (auto simp: ended_def err)
    have "no_errors ?st \<longleftrightarrow> no_errors st \<and> Err (cb_result b1) = None"
    proof -
      have "no_errors ?st \<longleftrightarrow> (\<forall>j < length (cs_branches st). Err (cb_result ((cs_branches st)[idx := b1] ! j)) = None)"
        unfolding pass(4) no_errors_def by (simp add: all_set_conv_all_nth)
      also have "\<dots> \<longleftrightarrow> (\<forall>j < length (cs_branches st). Err (cb_result (cs_branches st ! j)) = None) \<and> Err (cb_result b1) = None"
        using pass(1) err by (metis nth_list_update_eq nth_list_update_neq)
      also have "(\<forall>j < length (cs_branches st). Err (cb_result (cs_branches st ! j)) = None) \<longleftrightarrow> no_errors st"
        by (simp add: no_errors_def all_set_conv_all_nth)
      finally show ?thesis .
    qed
    moreover have "region_inv (JoinNode spec) ?st"
      using inv region_inv_step unfolding cancel_inv_def by blast
    ultimately show "cancel_inv spec ?st"
      using inv ended unfolding cancel_inv_def pass(4) by auto
  qed (use inv in simp)
qed

lemma cancel_inv_run: "cancel_inv spec (region_run registered g spec schedule (region_start es retries outcomes ctx))"
proof (rule region_run_invariant [where P = "cancel_inv spec"])
  show "cancel_inv spec (region_start es retries outcomes ctx)"
    using region_inv_start by (auto simp: cancel_inv_def) (auto simp: region_start_def no_errors_def zero_conc_result_def)
qed (rule cancel_inv_step)

lemma cancelled_step:
  assumes "cs_cancelled st"
  shows "cs_cancelled (region_step registered g spec (idx, ev) st)"
    "idx < length (cs_branches st) \<Longrightarrow> cb_pos (cs_branches (region_step registered g spec (idx, ev) st) ! idx) = Ended"
    "cb_pos (cs_branches st ! j) = Ended \<Longrightarrow> cb_pos (cs_branches (region_step registered g spec (idx, ev) st) ! j) = Ended"
  using assms
  by (auto simp: region_step_def branch_pass_def ended_def Let_def nth_list_update split: conc_pos.split)

lemma cancelled_run:
  "cs_cancelled st \<Longrightarrow> j < length (cs_branches st) \<Longrightarrow>
   j \<in> set (map fst schedule) \<or> cb_pos (cs_branches st ! j) = Ended \<Longrightarrow>
   cb_pos (cs_branches (region_run registered g spec schedule st) ! j) = Ended"
proof (induction schedule arbitrary: st)
  case (Cons x schedule)
  obtain idx ev where x: "x = (idx, ev)" by fastforce
  have len: "length (cs_branches (region_step registered g spec x st)) = length (cs_branches st)"
    using region_run_branches [of registered g spec "[x]" st] by (simp add: region_run_def)
  have "cb_pos (cs_branches (region_run registered g spec schedule (region_step registered g spec x st)) ! j) = Ended"
    using Cons.prems len cancelled_step [OF Cons.prems(1)] unfolding x
    by (intro Cons.IH) auto
  then show ?case by (simp add: region_run_def)
qed (simp add: region_run_def)

section \<open>An example\<close>

text \<open>A small region, and stages that succeed.\<close>

definition fork_graph :: "edge list \<Rightarrow> graph" where
  "fork_graph extra = add_edges ([NewEdge ''s'' ''a'', NewEdge ''s'' ''b'', NewEdge ''b'' ''j''] @ extra)
     (add_nodes [(NewNode ''s'')\<lparr>node_attrs := [''shape'' \<mapsto> ''pentagon'']\<rparr>,
        (NewNode ''a'')\<lparr>node_attrs := [''shape'' \<mapsto> ''diamond'']\<rparr>, (NewNode ''b'')\<lparr>node_attrs := [''shape'' \<mapsto> ''diamond'']\<rparr>,
        (NewNode ''j'')\<lparr>node_attrs := [''shape'' \<mapsto> ''cylinder'', ''concurrent_id'' \<mapsto> ''s'']\<rparr>]
       ((NewGraph ''g'')\<lparr>g_attrs := [''max_node_visits'' \<mapsto> ''2'']\<rparr>))"

definition split_node :: node where
  "split_node = (NewNode ''s'')\<lparr>node_attrs := [''shape'' \<mapsto> ''pentagon'']\<rparr>"

definition ok_run :: node_run where
  "ok_run = panicking_run\<lparr>nr_handler := Returned (zero_outcome\<lparr>Status := StatusSuccess\<rparr>) None\<rparr>"

definition ok_pass :: conc_env where
  "ok_pass = \<lparr>ce_cancel = None, ce_attempts = (\<lambda>a. const_env ok_run), ce_prior_json = None\<rparr>"

definition fork_rank :: "string \<Rightarrow> nat" where
  "fork_rank i = (if i = ''s'' then 2 else if i = ''j'' then 0 else 1)"

lemma fork_nodes: "dom (g_nodes (fork_graph extra)) = {''s'', ''a'', ''b'', ''j''}"
  by (auto simp: fork_graph_def dom_add_nodes NewNode_def NewGraph_def)

lemma wf_fork: "wf_graph (fork_graph extra)"
proof -
  have "built_graph (fork_graph extra)"
    unfolding fork_graph_def by (intro built_add_edges built_add_nodes built_graph.attrs built_graph.new)
  then show ?thesis by (rule built_wf)
qed

lemma region_fork: "region_graph fork_rank (fork_graph [NewEdge ''a'' ''j''])"
proof -
  have "list_all (\<lambda>e. fork_rank (edge_to e) < fork_rank (edge_from e)) (g_edges (fork_graph [NewEdge ''a'' ''j'']))"
    by code_simp
  moreover have "list_all (\<lambda>i. trim_space i = i \<and> \<not> isFanInFailureLike (fork_graph [NewEdge ''a'' ''j'']) i StatusRetry)
      [''s'', ''a'', ''b'', ''j'']" by code_simp
  ultimately show ?thesis
    using wf_fork unfolding region_graph_def fork_nodes by (auto simp: list_all_iff)
qed

abbreviation fork_schedule :: "(nat \<times> conc_env) list" where
  "fork_schedule \<equiv> [(1, ok_pass), (0, ok_pass), (0, ok_pass), (1, ok_pass)]"

lemma region_outcome:
  assumes "runConcurrentRegion registered g order split schedule retries outcomes ctx = Some (j, Some st, err)"
  shows "(err = None \<longleftrightarrow> equal_fold (trim_space (node_Attr (Some split) ''allow_partial'' '''')) ''true'' \<or> no_errors st) \<and>
    (no_errors st \<longrightarrow> (\<forall>b \<in> set (cs_branches st). LastNode (cb_result b) = j \<and>
       (\<forall>i \<in> set (CompletedNodes (cb_result b)). did_not_fail st i)))"
proof -
  obtain spec join es where run: "st = region_run registered g spec schedule (region_start es retries outcomes ctx)"
      "all_ended st" "JoinNode spec = j" "AllowPartial spec = equal_fold (trim_space (node_Attr (Some split) ''allow_partial'' '''')) ''true''"
      "err = (case first_error st of None \<Rightarrow> None | Some e \<Rightarrow> if AllowPartial spec then None
         else Some (RegionFailedWith (ConcurrentID spec) e))"
    using assms by (auto simp: runConcurrentRegion_def parseConcurrentSpecFromNode_def Let_def split: option.splits if_splits)
  have inv: "region_inv j st" using region_inv_run run(1,3) by metis
  have "LastNode (cb_result b) = j" if "no_errors st" "b \<in> set (cs_branches st)" for b
    using that inv run(2) by (auto simp: region_inv_def branch_ok_def no_errors_def all_ended_def list_all_iff)
  moreover have "err = None \<longleftrightarrow> AllowPartial spec \<or> no_errors st"
    using run(5) first_error_None [of st] by (auto split: option.splits)
  ultimately show ?thesis using inv run(4) by (auto simp: region_inv_def)
qed

section \<open>Properties\<close>

text \<open>A branch that leads back to itself.\<close>

abbreviation spin_graph :: graph where
  "spin_graph \<equiv> fork_graph [NewEdge ''a'' ''a'']"

lemma ok_stage:
  assumes "SkipRetry (Resolve core_types (Some n))"
  shows "Status (fst (executeWithRetry core_types g (\<lambda>a. const_env ok_run) n retries ctx None)) = StatusSuccess"
proof -
  have "Status (fst (executeNode ok_run None)) = StatusSuccess" by code_simp
  with assms show ?thesis
    by (simp add: executeWithRetry_def run_attempt_def const_env_def split_beta)
qed

lemma hop_exists:
  assumes "trim_space i = i" "i \<noteq> ''''" "\<not> isFanInFailureLike g i (Status out)" "Outgoing g i \<noteq> []"
  shows "\<exists>hop. resolveNextHop (Some g) i out ctx cls = Inr (Some hop) \<and> hop_edge hop \<in> set (Outgoing g i)"
proof -
  obtain meta where sel: "selectNextEdgeWithMeta g i out ctx = Inr (selected_edge (g, i, out, ctx), meta)"
    using select_eq_selected_edge by blast
  obtain e where e: "selected_edge (g, i, out, ctx) = Some e"
    using route.pick_Some [of "(g, i, out, ctx)"] assms(4) by auto
  with route.pick_least [OF this] sel assms(1-3) show ?thesis
    by (auto simp: resolveNextHop_def Let_def)
qed

lemma spin_nodes:
  assumes "i = ''a'' \<or> i = ''b''"
  obtains n where "g_nodes spin_graph i = Some n" "node_id n = i" "shapeToType (node_Shape n) = ''conditional''"
    "SkipRetry (Resolve core_types (Some n))" "Outgoing spin_graph i \<noteq> []"
    "\<And>e. e \<in> set (Outgoing spin_graph i) \<Longrightarrow> edge_to e = (if i = ''a'' then ''a'' else ''j'')"
proof -
  have "list_all (\<lambda>i. case g_nodes spin_graph i of None \<Rightarrow> False | Some n \<Rightarrow> node_id n = i \<and>
      shapeToType (node_Shape n) = ''conditional'' \<and> SkipRetry (Resolve core_types (Some n)) \<and> Outgoing spin_graph i \<noteq> [] \<and>
      list_all (\<lambda>e. edge_to e = (if i = ''a'' then ''a'' else ''j'')) (Outgoing spin_graph i)) [''a'', ''b'']"
    by code_simp
  with assms that show thesis by (fastforce simp: list_all_iff split: option.splits)
qed

lemma spin_pass:
  assumes "i = ''a'' \<or> i = ''b''" "\<not> cs_cancelled st"
  shows "\<exists>st1 res1. branch_pass core_types spin_graph ''j'' ok_pass i res st =
    (st1, \<lparr>cb_pos = AtNode (if i = ''a'' then ''a'' else ''j''), cb_result = res1\<rparr>) \<and> Err res1 = Err res"
proof -
  obtain n where n: "g_nodes spin_graph i = Some n" "node_id n = i" "shapeToType (node_Shape n) = ''conditional''"
    "SkipRetry (Resolve core_types (Some n))" "Outgoing spin_graph i \<noteq> []"
    "\<And>e. e \<in> set (Outgoing spin_graph i) \<Longrightarrow> edge_to e = (if i = ''a'' then ''a'' else ''j'')"
    using spin_nodes [OF assms(1)] by blast
  obtain out rs where run: "executeWithRetry core_types spin_graph (\<lambda>a. const_env ok_run) n (cs_retries st) (cs_context st) None = (out, rs)"
    by fastforce
  have out: "Status out = StatusSuccess"
    using ok_stage [OF n(4), of spin_graph "cs_retries st" "cs_context st"] run by simp
  then have fail: "Status out \<noteq> StatusFail" "\<not> isFanInFailureLike spin_graph i (Status out)"
    by (auto simp: isFanInFailureLike_def status_defs)
  have "trim_space i = i" "i \<noteq> ''''" "i \<noteq> ''j''" using assms(1) by (auto, code_simp+)
  then obtain hop where hop: "resolveNextHop (Some spin_graph) i out (Some (rs_context rs)) (classifyFailureClass out) = Inr (Some hop)"
      "hop_edge hop \<in> set (Outgoing spin_graph i)"
    using hop_exists [OF _ _ fail(2) n(5)] by blast
  then show ?thesis
    using n(1-3) n(6) [OF hop(2)] assms(2) run fail(1) \<open>i \<noteq> ''j''\<close>
    by (auto simp: branch_pass_def branch_stage_def ok_pass_def Let_def)
qed

text \<open>The first branch never leaves its stage, the second never has an error.\<close>

definition spinning :: "conc_state \<Rightarrow> bool" where
  "spinning st \<longleftrightarrow> \<not> cs_cancelled st \<and> (\<exists>b0 b1. cs_branches st = [b0, b1] \<and> cb_pos b0 = AtNode ''a'' \<and>
     Err (cb_result b0) = None \<and> cb_pos b1 \<in> {AtNode ''b'', AtNode ''j'', Ended} \<and> Err (cb_result b1) = None)"

lemma spinning_step:
  assumes "spinning st" "JoinNode spec = ''j''"
  shows "spinning (region_step core_types spin_graph spec (idx, ok_pass) st)"
proof (cases rule: region_step_cases [of core_types spin_graph spec idx ok_pass st])
  case (pass current st1 c1)
  obtain b0 b1 where b: "cs_branches st = [b0, b1]" "cb_pos b0 = AtNode ''a''" "Err (cb_result b0) = None"
      "cb_pos b1 \<in> {AtNode ''b'', AtNode ''j'', Ended}" "Err (cb_result b1) = None" and nc: "\<not> cs_cancelled st"
    using assms(1) by (auto simp: spinning_def)
  have idx: "idx = 0 \<or> idx = 1" using pass(1) b(1) by auto
  show ?thesis
  proof (cases "current = ''j''")
    case True
    with pass idx b assms(2) nc have "idx = 1" "c1 = ended ((cb_result b1)\<lparr>LastNode := ''j''\<rparr>)"
      by (auto simp: branch_pass_def ok_pass_def)
    with pass(4) b nc show ?thesis by (auto simp: spinning_def ended_def)
  next
    case False
    then have i: "current = ''a'' \<and> idx = 0 \<or> current = ''b'' \<and> idx = 1" using pass(2) idx b by auto
    with spin_pass [OF _ nc, of current "cb_result (cs_branches st ! idx)"] pass(3) assms(2) b
    have "cb_pos c1 = AtNode (if current = ''a'' then ''a'' else ''j'')" "Err (cb_result c1) = None" by auto
    with i pass(4) b nc show ?thesis by (auto simp: spinning_def)
  qed
qed (use assms in simp)



text \<open>
  in a region whose edges go down in some ranking, every schedule that lets each branch make as
  many passes as the rank of the split ends the region.
\<close>

theorem region_terminates:
  assumes "region_graph rank g"
    and "\<And>i. i < length (filter (\<lambda>e. edge_from e = node_id split) (g_edges g)) \<Longrightarrow>
      rank (node_id split) \<le> count_list (map fst schedule) i"
  shows "runConcurrentRegion registered g order split schedule retries outcomes ctx \<noteq> None"
proof -
  let ?es = "filter (\<lambda>e. edge_from e = node_id split) (g_edges g)"
  have "all_ended (region_run registered g spec schedule (region_start ?es retries outcomes ctx))" for spec
  proof (rule region_run_ended [OF assms(1)])
    fix i assume i: "i < length ?es"
    then have "?es ! i \<in> set ?es" by (rule nth_mem)
    then have "rank (edge_to (?es ! i)) < rank (node_id split)"
      using assms(1) by (auto simp: region_graph_def)
    with assms(2) [OF i] show "rank (edge_to (?es ! i)) < count_list (map fst schedule) i" by simp
  qed
  then show ?thesis
    by (auto simp: runConcurrentRegion_def parseConcurrentSpecFromNode_def Let_def split: option.split)
qed

theorem region_terminates_witness:
  "runConcurrentRegion core_types (fork_graph [NewEdge ''a'' ''j'']) [''j'', ''s''] split_node fork_schedule
     (\<lambda>i. 0) Map.empty NewContext \<noteq> None"
proof (rule region_terminates [OF region_fork])
  fix i assume i: "i < length (filter (\<lambda>e. edge_from e = node_id split_node) (g_edges (fork_graph [NewEdge ''a'' ''j''])))"
  have "length (filter (\<lambda>e. edge_from e = node_id split_node) (g_edges (fork_graph [NewEdge ''a'' ''j'']))) = 2"
    by code_simp
  with i have "i \<in> {0, 1}" by auto
  moreover have "list_all (\<lambda>i. fork_rank (node_id split_node) \<le> count_list (map fst fork_schedule) i) [0, 1]" by code_simp
  ultimately show "fork_rank (node_id split_node) \<le> count_list (map fst fork_schedule) i" by auto
qed

text \<open>
  without partial results, the first error of a branch ends all others as soon as each has made
  one more pass.
\<close>

theorem fail_fast_ends_siblings:
  assumes "\<not> AllowPartial spec"
    and "\<not> no_errors (region_run registered g spec before (region_start es retries outcomes ctx))"
    and "{..<length es} \<subseteq> set (map fst after)"
  shows "all_ended (region_run registered g spec (before @ after) (region_start es retries outcomes ctx))"
proof -
  let ?st = "region_run registered g spec before (region_start es retries outcomes ctx)"
  have "cs_cancelled ?st"
    using cancel_inv_run [of spec registered g before es retries outcomes ctx] assms(1,2) by (simp add: cancel_inv_def)
  then have "cb_pos (cs_branches (region_run registered g spec after ?st) ! j) = Ended" if "j < length es" for j
    using that assms(3) by (intro cancelled_run) (auto simp: region_start_def)
  moreover have "region_run registered g spec (before @ after) s = region_run registered g spec after (region_run registered g spec before s)" for s
    by (simp add: region_run_def)
  ultimately show ?thesis
    by (auto simp: all_ended_def list_all_length region_start_def)
qed

theorem fail_fast_ends_siblings_witness:
  "all_ended (region_run core_types (fork_graph [])
     \<lparr>ConcurrentID = ''s'', SplitNode = ''s'', JoinNode = ''j'', AllowPartial = False\<rparr>
     ([(0, ok_pass)] @ [(0, ok_pass), (1, ok_pass)])
     (region_start [NewEdge ''s'' ''a'', NewEdge ''s'' ''b''] (\<lambda>i. 0) Map.empty NewContext))"
proof (rule fail_fast_ends_siblings)
  show "\<not> no_errors (region_run core_types (fork_graph [])
     \<lparr>ConcurrentID = ''s'', SplitNode = ''s'', JoinNode = ''j'', AllowPartial = False\<rparr> [(0, ok_pass)]
     (region_start [NewEdge ''s'' ''a'', NewEdge ''s'' ''b''] (\<lambda>i. 0) Map.empty NewContext))"
    by code_simp
  show "{..<length [NewEdge ''s'' ''a'', NewEdge ''s'' ''b'']} \<subseteq> set (map fst [(0, ok_pass), (1, ok_pass)])"
    by (auto simp: less_Suc_eq)
qed simp

text \<open>
  inside a region the limit max_node_visits does not count: with a limit of two visits, a branch
  whose stage succeeds and leads back to itself goes on for any number of passes, so that no
  schedule of successful passes ends the region.
\<close>

theorem region_ignores_visit_limit:
  "maxNodeVisits (Some (fork_graph [NewEdge ''a'' ''a''])) = 2 \<and>
   runConcurrentRegion core_types (fork_graph [NewEdge ''a'' ''a'']) [''j'', ''s''] split_node
     (map (\<lambda>i. (i, ok_pass)) schedule) (\<lambda>i. 0) Map.empty NewContext = None"
proof
  show "maxNodeVisits (Some spin_graph) = 2" by code_simp
  have "spinning (region_run core_types spin_graph spec (map (\<lambda>i. (i, ok_pass)) schedule) st)"
    if "spinning st" "JoinNode spec = ''j''" for st spec
    using that unfolding region_run_def by (induction schedule arbitrary: st) (simp_all add: spinning_step)
  then have not_ended: "\<not> all_ended (region_run core_types spin_graph spec (map (\<lambda>i. (i, ok_pass)) schedule) st)"
    if "spinning st" "JoinNode spec = ''j''" for st spec
    using that by (fastforce simp: spinning_def all_ended_def)
  have "list_all2 (\<lambda>e i. edge_to e = i) (filter (\<lambda>e. edge_from e = node_id split_node) (g_edges spin_graph)) [''a'', ''b'']"
    by code_simp
  then obtain e0 e1 where edges: "filter (\<lambda>e. edge_from e = node_id split_node) (g_edges spin_graph) = [e0, e1]"
      "edge_to e0 = ''a''" "edge_to e1 = ''b''"
    by (auto simp: list_all2_Cons2)
  have join: "case findConcurrentJoinForSplit [''j'', ''s''] (Some spin_graph) (Some split_node) of
      None \<Rightarrow> False | Some n \<Rightarrow> node_id n = ''j''"
    by code_simp
  have "spinning (region_start [e0, e1] (\<lambda>i. 0) Map.empty NewContext)"
    using edges by (simp add: spinning_def region_start_def zero_conc_result_def)
  from not_ended [OF this] join show "runConcurrentRegion core_types spin_graph [''j'', ''s''] split_node
     (map (\<lambda>i. (i, ok_pass)) schedule) (\<lambda>i. 0) Map.empty NewContext = None"
    by (auto simp: runConcurrentRegion_def parseConcurrentSpecFromNode_def edges(1) Let_def split: option.splits)
qed

text \<open>The region inside the run: what it leaves behind for the pass of the main loop at its split.\<close>

definition region_left :: "(region_error \<Rightarrow> string) \<Rightarrow> conc_state \<Rightarrow> region_error option \<Rightarrow> region_result" where
  "region_left txt st err = \<lparr>rg_completed = region_completed st, rg_retries = cs_retries st, rg_outcomes = cs_outcomes st,
     rg_context = cs_context st, rg_error = map_option txt err\<rparr>"

text \<open>
  when the region at a split returns, the run goes on at the join, or ends in the error of the
  region; where it goes on without partial results, no stage of the region has failed.
\<close>

theorem run_resumes_behind_region:
  assumes "runConcurrentRegion (rc_registered cfg) (rc_run_graph cfg) (se_order ev) n schedule
      (r_retries st) (r_outcomes st) (r_context st) = Some (j, Some cst, err)"
    and "se_region ev = region_left txt cst err" and "shapeToType (node_Shape n) = ''concurrent.split''"
  shows "case after_stage cfg ev n out cls st of
      Stop r st' \<Rightarrow> (\<exists>e. err = Some e \<and> r = RunFailed (RegionFailed (txt e)))
    | Goto st' \<Rightarrow> r_current st' = j \<and> r_completed st' = r_completed st @ region_completed cst \<and> r_outcomes st' = cs_outcomes cst \<and>
        (equal_fold (trim_space (node_Attr (Some n) ''allow_partial'' '''')) ''true'' \<or>
         (\<forall>i \<in> set (region_completed cst). did_not_fail cst i))"
proof -
  have some: "\<exists>join. findConcurrentJoinForSplit (se_order ev) (Some (rc_run_graph cfg)) (Some n) = Some join \<and> j = node_id join \<and>
      \<not> length (filter (\<lambda>e. edge_from e = node_id n) (g_edges (rc_run_graph cfg))) < 2"
    using assms(1) by (auto simp: runConcurrentRegion_def parseConcurrentSpecFromNode_def Let_def split: option.splits if_splits)
  then obtain join where join: "findConcurrentJoinForSplit (se_order ev) (Some (rc_run_graph cfg)) (Some n) = Some join" "j = node_id join"
      "\<not> length (filter (\<lambda>e. edge_from e = node_id n) (g_edges (rc_run_graph cfg))) < 2"
    by blast
  have clean: "err = None \<Longrightarrow> equal_fold (trim_space (node_Attr (Some n) ''allow_partial'' '''')) ''true'' \<or>
      (\<forall>i \<in> set (region_completed cst). did_not_fail cst i)"
    using region_outcome [OF assms(1)] by (auto simp: region_completed_def)
  show ?thesis
    using assms(2,3) join clean
    by (auto simp: after_stage_def findConcurrentJoinForSplit_def concurrent_id_of_def region_left_def goto_node_def Let_def
        split: option.split)
qed

definition fork_cfg :: run_cfg where
  "fork_cfg = \<lparr>rc_run_graph = fork_graph [NewEdge ''a'' ''j''], rc_registered = core_types, rc_base_logs_root = '''', rc_base_sha = ''''\<rparr>"

definition fork_env :: "conc_state \<Rightarrow> region_error option \<Rightarrow> step_env" where
  "fork_env cst err = \<lparr>se_cancel = None, se_attempts = (\<lambda>a. const_env ok_run), se_prior_json = None, se_exit_run = ok_run,
     se_cancel_after = None, se_dossier = [], se_checkpoint_error = None, se_region = region_left (\<lambda>_. ''region'') cst err,
     se_branches = Inl '''', se_completed_error = None, se_restart_error = None, se_order = [''j'', ''s''], se_files = (\<lambda>_. None)\<rparr>"

theorem run_resumes_behind_region_witness:
  "case runConcurrentRegion core_types (fork_graph [NewEdge ''a'' ''j'']) [''j'', ''s''] split_node fork_schedule
     (\<lambda>i. 0) Map.empty NewContext of
     Some (j, Some cst, err) \<Rightarrow>
       (case after_stage fork_cfg (fork_env cst err) split_node zero_outcome '''' (initial_state ''s'' NewContext) of
          Stop r st' \<Rightarrow> (\<exists>e. err = Some e \<and> r = RunFailed (RegionFailed ''region''))
        | Goto st' \<Rightarrow> r_current st' = j \<and>
            r_completed st' = r_completed (initial_state ''s'' NewContext) @ region_completed cst \<and>
            r_outcomes st' = cs_outcomes cst \<and>
            (equal_fold (trim_space (node_Attr (Some split_node) ''allow_partial'' '''')) ''true'' \<or>
             (\<forall>i \<in> set (region_completed cst). did_not_fail cst i)))
   | _ \<Rightarrow> False"
proof -
  let ?r = "runConcurrentRegion core_types (fork_graph [NewEdge ''a'' ''j'']) [''j'', ''s''] split_node fork_schedule
     (\<lambda>i. 0) Map.empty NewContext"
  have "case ?r of Some (j, Some st, err) \<Rightarrow> no_errors st \<and> err = None | _ \<Rightarrow> False" by code_simp
  then obtain j cst err where r: "?r = Some (j, Some cst, err)" by (auto split: option.splits)
  have region: "runConcurrentRegion (rc_registered fork_cfg) (rc_run_graph fork_cfg) (se_order (fork_env cst err)) split_node
      fork_schedule (r_retries (initial_state ''s'' NewContext)) (r_outcomes (initial_state ''s'' NewContext))
      (r_context (initial_state ''s'' NewContext)) = Some (j, Some cst, err)"
    using r by (simp add: fork_cfg_def fork_env_def initial_state_def)
  have shape: "shapeToType (node_Shape split_node) = ''concurrent.split''" by code_simp
  have left: "se_region (fork_env cst err) = region_left (\<lambda>_. ''region'') cst err" by (simp add: fork_env_def)
  show ?thesis
    using run_resumes_behind_region [OF region left shape] r by simp
qed

end
