(* ===== verification/Validate.thy ===== *)
theory Validate
  imports RunLoop Stylesheet
begin

text \<open>
  The lint rules a pipeline has to pass before it runs, \<^verbatim>\<open>internal/attractor/validate\<close>:
  the rules on the structure of the graph, its edges, conditions, goal gates, retry targets, restarts,
  concurrent regions and terminal nodes (\<^verbatim>\<open>validate.go\<close>,
  \<^verbatim>\<open>lint_concurrent_loop_nesting.go\<close>, \<^verbatim>\<open>terminal_condition.go\<close>).  The rules on the
  wording of prompts and commands are in PromptRules.

  A diagnostic has its rule, its severity and its place; the texts of the message and of the fix are
  not modelled.  Go ranges over the nodes in an arbitrary order, which is the argument
  \<^verbatim>\<open>order\<close> of the rules, a list of the keys of the map of nodes.
\<close>

section \<open>Diagnostics\<close>

datatype severity = SeverityError | SeverityWarning | SeverityInfo

record diagnostic =
  d_rule :: string
  d_severity :: severity
  d_node :: string
  d_edge_from :: string
  d_edge_to :: string

definition graph_diag :: "string \<Rightarrow> severity \<Rightarrow> diagnostic" where
  "graph_diag r s = \<lparr>d_rule = r, d_severity = s, d_node = '''', d_edge_from = '''', d_edge_to = ''''\<rparr>"

definition node_diag :: "string \<Rightarrow> severity \<Rightarrow> string \<Rightarrow> diagnostic" where
  "node_diag r s i = (graph_diag r s)\<lparr>d_node := i\<rparr>"

definition edge_diag :: "string \<Rightarrow> severity \<Rightarrow> edge \<Rightarrow> diagnostic" where
  "edge_diag r s e = (graph_diag r s)\<lparr>d_edge_from := edge_from e, d_edge_to := edge_to e\<rparr>"

text \<open>
  The two shapes of most rules: a diagnostic for every node, in the order of the map, or for every
  edge, in declaration order, that the rule refuses.
\<close>

definition ranged :: "string list \<Rightarrow> graph \<Rightarrow> (string \<times> node) list" where
  "ranged order g = List.map_filter (\<lambda>i. map_option (Pair i) (g_nodes g i)) order"

definition node_rule ::
  "string \<Rightarrow> severity \<Rightarrow> (string \<Rightarrow> node \<Rightarrow> bool) \<Rightarrow> string list \<Rightarrow> graph \<Rightarrow> diagnostic list" where
  "node_rule r s bad order g = map (\<lambda>(i, n). node_diag r s i) (filter (\<lambda>(i, n). bad i n) (ranged order g))"

definition edge_rule :: "string \<Rightarrow> severity \<Rightarrow> (edge \<Rightarrow> bool) \<Rightarrow> graph \<Rightarrow> diagnostic list" where
  "edge_rule r s bad g = map (edge_diag r s) (filter bad (g_edges g))"

definition node_trim :: "node \<Rightarrow> string \<Rightarrow> string" where
  "node_trim n key = trim_space (node_Attr (Some n) key '''')"

section \<open>Start and exit nodes\<close>

definition start_shape :: "node \<Rightarrow> bool" where
  "start_shape n \<longleftrightarrow> node_Shape n = ''Mdiamond'' \<or> node_Shape n = ''circle''"

definition exit_shape :: "node \<Rightarrow> bool" where
  "exit_shape n \<longleftrightarrow> node_Shape n = ''Msquare'' \<or> node_Shape n = ''doublecircle''"

definition exit_name :: "string \<Rightarrow> bool" where
  "exit_name i \<longleftrightarrow> equal_fold i ''exit'' \<or> equal_fold i ''end''"

definition lintStartNode :: "string list \<Rightarrow> graph \<Rightarrow> diagnostic list" where
  "lintStartNode order g =
     (if length (filter (\<lambda>(i, n). start_shape n \<or> equal_fold i ''start'') (ranged order g)) \<noteq> 1
      then [graph_diag ''start_node'' SeverityError] else [])"

definition lintExitNode :: "string list \<Rightarrow> graph \<Rightarrow> diagnostic list" where
  "lintExitNode order g =
     (if filter (\<lambda>(i, n). exit_shape n \<or> exit_name i) (ranged order g) = []
      then [graph_diag ''terminal_node'' SeverityError] else [])"

definition lintEdgeTargetsExist :: "graph \<Rightarrow> diagnostic list" where
  "lintEdgeTargetsExist g = concat (map (\<lambda>e.
     (if g_nodes g (edge_from e) = None then [edge_diag ''edge_target_exists'' SeverityError e] else []) @
     (if g_nodes g (edge_to e) = None then [edge_diag ''edge_target_exists'' SeverityError e] else [])) (g_edges g))"

definition findAllStartNodeIDs :: "string list \<Rightarrow> graph \<Rightarrow> string list" where
  "findAllStartNodeIDs order g =
     (let shaped = map fst (filter (\<lambda>(i, n). start_shape n) (ranged order g)) in
      shaped @ map fst (filter (\<lambda>(i, n). equal_fold i ''start'' \<and> i \<notin> set shaped) (ranged order g)))"

definition findAllExitNodeIDs :: "string list \<Rightarrow> graph \<Rightarrow> string list" where
  "findAllExitNodeIDs order g =
     (let shaped = map fst (filter (\<lambda>(i, n). exit_shape n) (ranged order g)) in
      shaped @ map fst (filter (\<lambda>(i, n). exit_name i \<and> i \<notin> set shaped) (ranged order g)))"

text \<open>The start node is found as the engine finds it (\<^verbatim>\<open>findStartNodeID\<close> of RunLoop).\<close>

definition lintStartNoIncoming :: "string list \<Rightarrow> graph \<Rightarrow> diagnostic list" where
  "lintStartNoIncoming order g =
     (let start = findStartNodeID order g in
      if start = '''' then []
      else if Incoming g start \<noteq> [] then [node_diag ''start_no_incoming'' SeverityError start] else [])"

definition lintExitNoOutgoing :: "string list \<Rightarrow> graph \<Rightarrow> diagnostic list" where
  "lintExitNoOutgoing order g =
     map (node_diag ''exit_no_outgoing'' SeverityError)
       (filter (\<lambda>i. Outgoing g i \<noteq> []) (findAllExitNodeIDs order g))"

section \<open>Reachability\<close>

fun push_new :: "string list \<Rightarrow> string list \<Rightarrow> string list \<Rightarrow> string list \<times> string list" where
  "push_new [] queue seen = (queue, seen)"
| "push_new (y # ys) queue seen =
     (if y \<in> set seen then push_new ys queue seen else push_new ys (queue @ [y]) (y # seen))"

text \<open>Fuel counts the dequeued nodes; running out of it is \<^verbatim>\<open>None\<close>, and one for each edge and the start is enough.\<close>

fun reach_loop :: "nat \<Rightarrow> graph \<Rightarrow> string list \<Rightarrow> string list \<Rightarrow> string list option" where
  "reach_loop fuel g [] seen = Some seen"
| "reach_loop 0 g (x # queue) seen = None"
| "reach_loop (Suc fuel) g (x # queue) seen =
     (case push_new (succs g x) queue seen of (queue', seen') \<Rightarrow> reach_loop fuel g queue' seen')"

definition reached :: "graph \<Rightarrow> string \<Rightarrow> string list option" where
  "reached g start = reach_loop (length (g_edges g) + 1) g [start] [start]"

definition lintReachability :: "string list \<Rightarrow> graph \<Rightarrow> diagnostic list option" where
  "lintReachability order g =
     (let start = findStartNodeID order g in
      if start = '''' then Some []
      else map_option (\<lambda>seen. node_rule ''reachability'' SeverityError (\<lambda>i n. i \<notin> set seen) order g)
        (reached g start))"

section \<open>Conditions\<close>

datatype cond_syntax_error = BadOperator string | EmptyKey | BadKey string | BadClause string | MissingLiteral string

definition isAlphaUnderscore :: "char \<Rightarrow> bool" where
  "isAlphaUnderscore c \<longleftrightarrow> CHR ''A'' \<le> c \<and> c \<le> CHR ''Z'' \<or> CHR ''a'' \<le> c \<and> c \<le> CHR ''z'' \<or> c = CHR ''_''"

definition isAlnumUnderscore :: "char \<Rightarrow> bool" where
  "isAlnumUnderscore c \<longleftrightarrow> isAlphaUnderscore c \<or> CHR ''0'' \<le> c \<and> c \<le> CHR ''9''"

fun key_part :: "string \<Rightarrow> bool" where
  "key_part [] = False"
| "key_part (c # cs) = (isAlphaUnderscore c \<and> list_all isAlnumUnderscore cs)"

definition trim_prefix :: "string \<Rightarrow> string \<Rightarrow> string" where
  "trim_prefix p s = (if has_prefix p s then drop (length p) s else s)"

definition validateCondKey :: "string \<Rightarrow> cond_syntax_error option" where
  "validateCondKey key =
     (if key = '''' then Some EmptyKey
      else if key = ''outcome'' \<or> key = ''preferred_label'' then None
      else (let rest = trim_prefix ''context.'' key in
            if list_all key_part (split_char CHR ''.'' rest) then None else Some (BadKey rest)))"

definition validate_clause :: "string \<Rightarrow> cond_syntax_error option" where
  "validate_clause clause =
     (if list_ex (\<lambda>c. c \<in> {CHR ''<'', CHR ''>'', CHR ''|''}) clause then Some (BadOperator clause)
      else if contains_sub ''!='' clause then
        (case cut_at ''!='' clause of
           None \<Rightarrow> Some (BadClause clause)
         | Some (k, v) \<Rightarrow> (case validateCondKey (trim_space k) of
             Some err \<Rightarrow> Some err
           | None \<Rightarrow> if trim_space v = '''' then Some (MissingLiteral clause) else None))
      else if contains_sub ''='' clause then
        (case cut_at ''='' clause of
           None \<Rightarrow> Some (BadClause clause)
         | Some (k, v) \<Rightarrow> (case validateCondKey (trim_space k) of
             Some err \<Rightarrow> Some err
           | None \<Rightarrow> if trim_space v = '''' then Some (MissingLiteral clause) else None))
      else validateCondKey (trim_space clause))"

fun validate_clauses :: "string list \<Rightarrow> cond_syntax_error option" where
  "validate_clauses [] = None"
| "validate_clauses (c # cs) =
     (let clause = trim_space c in
      if clause = '''' then validate_clauses cs
      else (case validate_clause clause of Some err \<Rightarrow> Some err | None \<Rightarrow> validate_clauses cs))"

definition validateConditionSyntax :: "string \<Rightarrow> cond_syntax_error option" where
  "validateConditionSyntax condExpr = validate_clauses (split_on ''&&'' condExpr)"

definition edge_cond :: "edge \<Rightarrow> string" where
  "edge_cond e = trim_space (edge_Condition e)"

text \<open>The evaluator is tried on a successful outcome and an empty context.\<close>

definition lintConditionSyntax :: "graph \<Rightarrow> diagnostic list" where
  "lintConditionSyntax g = edge_rule ''condition_syntax'' SeverityError (\<lambda>e.
     let c = edge_cond e in
     c \<noteq> '''' \<and> (case validateConditionSyntax c of
        Some err \<Rightarrow> True
      | None \<Rightarrow> (case Evaluate c (zero_outcome\<lparr>Status := StatusSuccess\<rparr>) (Some NewContext) of
          Inl err \<Rightarrow> True | Inr ok \<Rightarrow> False))) g"

definition lintStylesheetSyntax :: "graph \<Rightarrow> diagnostic list" where
  "lintStylesheetSyntax g =
     (let raw = trim_space (graph_attr g ''model_stylesheet'') in
      if raw = '''' then []
      else (case ParseStylesheet raw of
          Inl err \<Rightarrow> [graph_diag ''stylesheet_syntax'' SeverityError] | Inr rules \<Rightarrow> []))"

section \<open>Retry targets and goal gates\<close>

definition lintRetryTargetsExist :: "string list \<Rightarrow> graph \<Rightarrow> diagnostic list" where
  "lintRetryTargetsExist order g = concat (map (\<lambda>(i, n).
     concat (map (\<lambda>k. let t = node_trim n k in
        if t \<noteq> '''' \<and> g_nodes g t = None then [node_diag ''retry_target_exists'' SeverityWarning i] else [])
       [''retry_target'', ''fallback_retry_target''])) (ranged order g))"

definition lintGoalGateHasRetry :: "string list \<Rightarrow> graph \<Rightarrow> diagnostic list" where
  "lintGoalGateHasRetry order g = node_rule ''goal_gate_has_retry'' SeverityWarning (\<lambda>i n.
     is_goal_gate n \<and> node_trim n ''retry_target'' = '''' \<and> node_trim n ''fallback_retry_target'' = '''' \<and>
     trim_space (graph_attr g ''retry_target'') = '''' \<and>
     trim_space (graph_attr g ''fallback_retry_target'') = '''') order g"

definition lintGoalGateMissingNodeRetryTarget :: "string list \<Rightarrow> graph \<Rightarrow> diagnostic list" where
  "lintGoalGateMissingNodeRetryTarget order g =
     node_rule ''goal_gate_missing_node_retry_target'' SeverityWarning (\<lambda>i n.
       is_goal_gate n \<and> node_trim n ''retry_target'' = '''' \<and> node_trim n ''fallback_retry_target'' = '''') order g"

definition trim_quotes :: "string \<Rightarrow> string" where
  "trim_quotes s = trim_by (\<lambda>c. c = CHR 0x22 \<or> c = CHR 0x27) s"

text \<open>The literals that the equations of a condition compare the outcome with.\<close>

definition outcome_literal :: "string \<Rightarrow> string option" where
  "outcome_literal clause =
     (if contains_sub ''!='' clause \<or> \<not> contains_sub ''='' clause then None
      else (case cut_at ''='' clause of
          None \<Rightarrow> None
        | Some (k, v) \<Rightarrow> if trim_space k \<noteq> ''outcome'' then None else Some (trim_quotes (trim_space v))))"

definition outcomeEqualsStatuses :: "string \<Rightarrow> stage_status list" where
  "outcomeEqualsStatuses condExpr = List.map_filter (\<lambda>c.
     let clause = trim_space c in
     if clause = '''' \<or> contains_sub ''=='' clause then None
     else (case outcome_literal clause of
         None \<Rightarrow> None
       | Some raw \<Rightarrow> (case ParseStageStatus raw of Inl err \<Rightarrow> None | Inr status \<Rightarrow> Some status)))
     (split_on ''&&'' condExpr)"

definition violates_gate_contract :: "edge \<Rightarrow> bool" where
  "violates_gate_contract e \<longleftrightarrow>
     list_ex (\<lambda>s. s \<noteq> StatusSuccess \<and> s \<noteq> StatusPartialSuccess) (outcomeEqualsStatuses (edge_cond e))"

definition lintGoalGateExitStatusContract :: "string list \<Rightarrow> graph \<Rightarrow> diagnostic list" where
  "lintGoalGateExitStatusContract order g = concat (map (\<lambda>(i, n).
     if \<not> is_goal_gate n then []
     else map (edge_diag ''goal_gate_exit_status_contract'' SeverityError)
       (filter (\<lambda>e. edge_to e \<in> set (findAllExitNodeIDs order g) \<and> violates_gate_contract e) (Outgoing g i)))
     (ranged order g))"

definition fidelities :: "string list" where
  "fidelities = [''full'', ''truncate'', ''compact'', ''summary:low'', ''summary:medium'', ''summary:high'']"

definition lintFidelityValid :: "string list \<Rightarrow> graph \<Rightarrow> diagnostic list" where
  "lintFidelityValid order g =
     node_rule ''fidelity_valid'' SeverityWarning (\<lambda>i n.
       node_trim n ''fidelity'' \<noteq> '''' \<and> node_trim n ''fidelity'' \<notin> set fidelities) order g @
     edge_rule ''fidelity_valid'' SeverityWarning (\<lambda>e.
       let f = trim_space (edge_Attr (Some e) ''fidelity'' '''') in f \<noteq> '''' \<and> f \<notin> set fidelities) g"

section \<open>Restarts and failure loops\<close>

text \<open>
  The four readers of a condition's clauses: each looks for one clause with a key and a literal,
  which is lowercased and stripped of quotes.
\<close>

definition clause_literal :: "string \<Rightarrow> string" where
  "clause_literal v = trim_quotes (to_lower (trim_space v))"

definition clause_mentions_failure :: "string \<Rightarrow> bool" where
  "clause_mentions_failure clause =
     (if contains_sub ''!='' clause then
        (case cut_at ''!='' clause of None \<Rightarrow> False
         | Some (k, v) \<Rightarrow> trim_space k = ''outcome'' \<and> clause_literal v = ''success'')
      else if contains_sub ''='' clause then
        (case cut_at ''='' clause of None \<Rightarrow> False
         | Some (k, v) \<Rightarrow> trim_space k = ''outcome'' \<and> clause_literal v \<in> {''fail'', ''retry'', ''partial_success''})
      else False)"

definition conditionMentionsFailureOutcome :: "string \<Rightarrow> bool" where
  "conditionMentionsFailureOutcome condExpr =
     list_ex (\<lambda>c. trim_space c \<noteq> '''' \<and> clause_mentions_failure (trim_space c)) (split_on ''&&'' condExpr)"

definition clause_routes_fail :: "string \<Rightarrow> bool" where
  "clause_routes_fail clause =
     (if contains_sub ''!='' clause then
        (case cut_at ''!='' clause of None \<Rightarrow> False
         | Some (k, v) \<Rightarrow> trim_space k = ''outcome'' \<and> clause_literal v = ''success'')
      else if contains_sub ''='' clause then
        (case cut_at ''='' clause of None \<Rightarrow> False
         | Some (k, v) \<Rightarrow> trim_space k = ''outcome'' \<and> clause_literal v = ''fail'')
      else False)"

definition conditionRoutesFailOutcome :: "string \<Rightarrow> bool" where
  "conditionRoutesFailOutcome condExpr =
     list_ex (\<lambda>c. trim_space c \<noteq> '''' \<and> clause_routes_fail (trim_space c)) (split_on ''&&'' condExpr)"

definition failure_class_key :: "string \<Rightarrow> bool" where
  "failure_class_key k \<longleftrightarrow> k = ''context.failure_class'' \<or> k = ''failure_class''"

definition conditionHasTransientInfraGuard :: "string \<Rightarrow> bool" where
  "conditionHasTransientInfraGuard condExpr = list_ex (\<lambda>c. let clause = trim_space c in
     contains_sub ''='' clause \<and> \<not> contains_sub ''!='' clause \<and>
     (case cut_at ''='' clause of None \<Rightarrow> False
      | Some (k, v) \<Rightarrow> failure_class_key (trim_space k) \<and> clause_literal v = ''transient_infra''))
     (split_on ''&&'' condExpr)"

definition conditionReferencesFailureClass :: "string \<Rightarrow> bool" where
  "conditionReferencesFailureClass condExpr = list_ex (\<lambda>c. let clause = trim_space c in
     clause \<noteq> '''' \<and>
     (case cut_at (if contains_sub ''!='' clause then ''!='' else ''='') clause of None \<Rightarrow> False
      | Some (k, v) \<Rightarrow> failure_class_key (trim_space k))) (split_on ''&&'' condExpr)"

definition restart_edge :: "edge \<Rightarrow> bool" where
  "restart_edge e \<longleftrightarrow> equal_fold (trim_space (edge_Attr (Some e) ''loop_restart'' ''false'')) ''true''"

definition failure_restart :: "edge \<Rightarrow> bool" where
  "failure_restart e \<longleftrightarrow> restart_edge e \<and>
     (edge_cond e = '''' \<or> conditionMentionsFailureOutcome (edge_cond e))"

text \<open>
  The second pass ranges over the sources of guarded restart edges, a set; they are listed in the
  order of their first edge.
\<close>

definition lintLoopRestartFailureClassGuard :: "graph \<Rightarrow> diagnostic list" where
  "lintLoopRestartFailureClassGuard g =
     edge_rule ''loop_restart_failure_class_guard'' SeverityWarning
       (\<lambda>e. failure_restart e \<and> \<not> conditionHasTransientInfraGuard (edge_cond e)) g @
     map (\<lambda>i. (graph_diag ''loop_restart_failure_class_guard'' SeverityWarning)\<lparr>d_edge_from := i\<rparr>)
       (filter (\<lambda>i. \<not> list_ex (\<lambda>e. edge_from e = i \<and> \<not> restart_edge e \<and>
            conditionRoutesFailOutcome (edge_cond e) \<and> \<not> conditionHasTransientInfraGuard (edge_cond e)) (g_edges g))
         (dedupeStable (map edge_from (filter (\<lambda>e. failure_restart e \<and>
            conditionHasTransientInfraGuard (edge_cond e)) (g_edges g)))))"

text \<open>
  A breadth-first search that stops at its target.  Nodes are marked when they leave the queue; fuel
  counts these, and running out of it is \<^verbatim>\<open>None\<close>.
\<close>

fun target_loop :: "nat \<Rightarrow> graph \<Rightarrow> string \<Rightarrow> string list \<Rightarrow> string list \<Rightarrow> bool option" where
  "target_loop fuel g target [] seen = Some False"
| "target_loop 0 g target (x # queue) seen = None"
| "target_loop (Suc fuel) g target (x # queue) seen =
     (if x \<in> set seen then target_loop fuel g target queue seen
      else (let next = filter (\<lambda>y. y \<noteq> '''') (map (\<lambda>e. trim_space (edge_to e)) (Outgoing g x)) in
            if target \<in> set next then Some True
            else target_loop fuel g target (queue @ filter (\<lambda>y. y \<notin> set (x # seen)) next) (x # seen)))"

definition graphReachable :: "graph option \<Rightarrow> string \<Rightarrow> string \<Rightarrow> bool option" where
  "graphReachable gr fromID targetID = (case gr of
      None \<Rightarrow> Some False
    | Some g \<Rightarrow>
       (let a = trim_space fromID; b = trim_space targetID in
        if a = '''' \<or> b = '''' then Some False
        else if a = b then Some True
        else target_loop (length (g_edges g) + 1) g b [a] []))"

definition lintFailLoopFailureClassGuard :: "graph \<Rightarrow> diagnostic list" where
  "lintFailLoopFailureClassGuard g = edge_rule ''fail_loop_failure_class_guard'' SeverityWarning (\<lambda>e.
     (case g_nodes g (edge_from e) of None \<Rightarrow> False | Some n \<Rightarrow> node_Shape n = ''diamond'') \<and>
     conditionMentionsFailureOutcome (edge_cond e) \<and>
     graphReachable (Some g) (edge_to e) (edge_from e) = Some True \<and>
     \<not> conditionReferencesFailureClass (edge_cond e)) g"

section \<open>Routing\<close>

definition outgoing_of :: "graph \<Rightarrow> string \<Rightarrow> edge list" where
  "outgoing_of g i = filter (\<lambda>e. edge_from e = i) (g_edges g)"

text \<open>
  The values of equations and of inequations of the outcome that make up a whole condition; the
  first prefix that fits is cut, and a condition with none of them adds nothing.
\<close>

definition cut_prefix :: "string \<Rightarrow> string \<Rightarrow> string option" where
  "cut_prefix p s = (if has_prefix p s then Some (drop (length p) s) else None)"

definition positive_value :: "string \<Rightarrow> string option" where
  "positive_value c =
     (if c = '''' \<or> has_prefix ''outcome!='' c then None
      else (case cut_prefix ''outcome ='' c of
          Some v \<Rightarrow> Some (trim_space v)
        | None \<Rightarrow> map_option trim_space (cut_prefix ''outcome='' c)))"

definition negative_value :: "string \<Rightarrow> string option" where
  "negative_value c = map_option trim_space (cut_prefix ''outcome!='' c)"

definition hasExhaustiveOutcomePair :: "edge list \<Rightarrow> bool" where
  "hasExhaustiveOutcomePair es \<longleftrightarrow>
     list_ex (\<lambda>v. v \<in> set (List.map_filter (\<lambda>e. negative_value (edge_cond e)) es))
       (List.map_filter (\<lambda>e. positive_value (edge_cond e)) es)"

definition lintAllConditionalEdges :: "string list \<Rightarrow> graph \<Rightarrow> diagnostic list" where
  "lintAllConditionalEdges order g =
     (let exits = findAllExitNodeIDs order g; starts = findAllStartNodeIDs order g in
      node_rule ''all_conditional_edges'' SeverityError (\<lambda>i n.
        let es = outgoing_of g i in
        i \<notin> set exits \<and> i \<notin> set starts \<and> es \<noteq> [] \<and> list_all (\<lambda>e. edge_cond e \<noteq> '''') es \<and>
        \<not> list_all (\<lambda>e. trim_space (edge_to e) \<in> set exits) es \<and> \<not> hasExhaustiveOutcomePair es) order g)"

text \<open>A clause that compares the outcome with a value that is not one of the canonical ones.\<close>

definition edgeHasCustomOutcomeCondition :: "string \<Rightarrow> bool" where
  "edgeHasCustomOutcomeCondition condExpr = list_ex (\<lambda>c. let clause = trim_space c in
     clause \<noteq> '''' \<and> (case outcome_literal clause of
        None \<Rightarrow> False
      | Some val \<Rightarrow> (case ParseStageStatus val of Inl err \<Rightarrow> True | Inr status \<Rightarrow> \<not> IsCanonical status)))
     (split_on ''&&'' condExpr)"

definition lintOrphanCustomOutcomeHint :: "string list \<Rightarrow> graph \<Rightarrow> diagnostic list" where
  "lintOrphanCustomOutcomeHint order g = node_rule ''orphan_custom_outcome_hint'' SeverityWarning (\<lambda>i n.
     list_ex (\<lambda>e. edge_cond e \<noteq> '''' \<and> edgeHasCustomOutcomeCondition (edge_cond e)) (outgoing_of g i) \<and>
     \<not> list_ex (\<lambda>e. edge_cond e = '''') (outgoing_of g i)) order g"

definition lintTemplatePostmortemRecoveryRouting :: "graph \<Rightarrow> diagnostic list" where
  "lintTemplatePostmortemRecoveryRouting g =
     (if trim_space (graph_attr g ''provenance_version'') = '''' \<or> g_nodes g ''postmortem'' = None then []
      else (let es = Outgoing g ''postmortem'';
                replan = (\<lambda>e. edge_cond e = ''outcome=needs_replan'');
                at = (\<lambda>r e. (edge_diag r SeverityWarning e)\<lparr>d_node := ''postmortem''\<rparr>)
            in concat (map (\<lambda>e.
                 (if replan e \<and> trim_space (edge_to e) \<noteq> ''plan_fanout''
                  then [at ''template_postmortem_replan_entry'' e] else []) @
                 (if edge_cond e = '''' \<and> trim_space (edge_to e) = ''check_toolchain''
                  then [at ''template_postmortem_broad_rollback'' e] else [])) es) @
               (if list_ex replan es then []
                else [node_diag ''template_postmortem_replan_entry'' SeverityWarning ''postmortem''])))"

definition reserved_keywords :: "string list" where
  "reserved_keywords = [''graph'', ''digraph'', ''subgraph'', ''node'', ''edge'', ''strict'', ''if'']"

definition lintReservedKeywordNodeID :: "string list \<Rightarrow> graph \<Rightarrow> diagnostic list" where
  "lintReservedKeywordNodeID order g = node_rule ''reserved_keyword_node_id'' SeverityWarning
     (\<lambda>i n. to_lower i \<in> set reserved_keywords) order g"

section \<open>Terminal nodes\<close>

definition isSuccessOnlyPredecessor :: "node \<Rightarrow> string \<Rightarrow> bool" where
  "isSuccessOnlyPredecessor n i \<longleftrightarrow>
     node_Shape n \<in> {''Mdiamond'', ''circle'', ''diamond'', ''trapezium'', ''invtrapezium'', ''pentagon'', ''cylinder''} \<or>
     equal_fold i ''start''"

definition lintTerminalConditionEdge :: "string list \<Rightarrow> graph \<Rightarrow> diagnostic list" where
  "lintTerminalConditionEdge order g =
     (let exits = findAllExitNodeIDs order g in
      edge_rule ''terminal_condition_edge'' SeverityError (\<lambda>e.
        edge_to e \<in> set exits \<and> edge_cond e = '''' \<and>
        (case g_nodes g (edge_from e) of
           None \<Rightarrow> False | Some n \<Rightarrow> \<not> isSuccessOnlyPredecessor n (edge_from e))) g)"

section \<open>Concurrent regions\<close>

definition isConcurrentSplit :: "string \<Rightarrow> bool" where
  "isConcurrentSplit shape \<longleftrightarrow> shape = ''pentagon''"

definition isConcurrentJoin :: "string \<Rightarrow> bool" where
  "isConcurrentJoin shape \<longleftrightarrow> shape = ''cylinder''"

definition isLoopBeginShape :: "string \<Rightarrow> bool" where
  "isLoopBeginShape shape \<longleftrightarrow> shape = ''trapezium''"

definition isLoopEndShape :: "string \<Rightarrow> bool" where
  "isLoopEndShape shape \<longleftrightarrow> shape = ''invtrapezium''"

definition region_key :: "node \<Rightarrow> string \<Rightarrow> string" where
  "region_key n i = (let k = node_Attr (Some n) ''concurrent_id'' '''' in if k = '''' then i else k)"

definition findPairedConcurrentJoinID :: "string list \<Rightarrow> graph \<Rightarrow> string \<Rightarrow> string" where
  "findPairedConcurrentJoinID order g splitID = (case g_nodes g splitID of
      None \<Rightarrow> ''''
    | Some s \<Rightarrow> (case find (\<lambda>(i, n). isConcurrentJoin (node_Shape n) \<and> region_key n i = region_key s splitID)
          (ranged order g) of None \<Rightarrow> '''' | Some (i, n) \<Rightarrow> i))"

text \<open>
  The walk of nodesBetween, with the pending calls as a stack: a call returns at once at the stop
  node and at a visited one, and otherwise calls itself for every outgoing edge.
\<close>

definition targets :: "graph \<Rightarrow> string \<Rightarrow> string list" where
  "targets g x = map edge_to (filter (\<lambda>e. edge_from e = x) (g_edges g))"

function walk_between :: "graph \<Rightarrow> string \<Rightarrow> string list \<Rightarrow> string list \<Rightarrow> string list" where
  "walk_between g stop [] visited = visited"
| "walk_between g stop (x # pending) visited =
     (if x = stop \<or> x \<in> set visited then walk_between g stop pending visited
      else walk_between g stop (targets g x @ pending) (x # visited))"
  by pat_completeness auto
termination
proof (relation "measures [\<lambda>(g, stop, pending, visited). card (edge_from ` set (g_edges g) - set visited),
    \<lambda>(g, stop, pending, visited). length pending]", goal_cases)
  case (3 g stop x pending visited)
  then show ?case
  proof (cases "x \<in> edge_from ` set (g_edges g)")
    case True
    with 3 have "edge_from ` set (g_edges g) - set (x # visited) \<subset> edge_from ` set (g_edges g) - set visited"
      by auto
    then show ?thesis by (simp add: psubset_card_mono del: set_simps)
  next
    case False
    then have "targets g x = []" "edge_from ` set (g_edges g) - insert x (set visited) = edge_from ` set (g_edges g) - set visited"
      by (auto simp: targets_def filter_empty_conv)
    then show ?thesis by simp
  qed
qed auto

definition nodesBetween :: "graph \<Rightarrow> string \<Rightarrow> string \<Rightarrow> string list" where
  "nodesBetween g startID stopID = walk_between g stopID (targets g startID) []"

text \<open>The nodes inside the region of a split, the split and its join left out.\<close>

definition inner_nodes :: "string list \<Rightarrow> graph \<Rightarrow> string \<Rightarrow> string list" where
  "inner_nodes order g i =
     (let join = findPairedConcurrentJoinID order g i in
      if join = '''' then [] else filter (\<lambda>r. r \<noteq> i \<and> r \<noteq> join) (nodesBetween g i join))"

definition region_rule :: "string \<Rightarrow> (string \<Rightarrow> bool) \<Rightarrow> string list \<Rightarrow> graph \<Rightarrow> diagnostic list" where
  "region_rule r bad order g = concat (map (\<lambda>(i, n).
     if isConcurrentSplit (node_Shape n) then
       map (node_diag r SeverityError)
         (filter (\<lambda>j. case g_nodes g j of None \<Rightarrow> False | Some m \<Rightarrow> bad (node_Shape m)) (inner_nodes order g i))
     else []) (ranged order g))"

definition lintNoNestedConcurrentRegions :: "string list \<Rightarrow> graph \<Rightarrow> diagnostic list" where
  "lintNoNestedConcurrentRegions order g =
     region_rule ''no_nested_concurrent_regions'' isConcurrentSplit order g"

definition lintNoLoopsInConcurrentRegions :: "string list \<Rightarrow> graph \<Rightarrow> diagnostic list" where
  "lintNoLoopsInConcurrentRegions order g =
     region_rule ''no_loops_in_concurrent_regions'' (\<lambda>s. isLoopBeginShape s \<or> isLoopEndShape s) order g"

definition lintConcurrentSplitMinBranches :: "string list \<Rightarrow> graph \<Rightarrow> diagnostic list" where
  "lintConcurrentSplitMinBranches order g = node_rule ''concurrent_split_min_branches'' SeverityError (\<lambda>i n.
     isConcurrentSplit (node_Shape n) \<and> length (outgoing_of g i) < 2) order g"

definition lintConcurrentSplitHasJoin :: "string list \<Rightarrow> graph \<Rightarrow> diagnostic list" where
  "lintConcurrentSplitHasJoin order g = node_rule ''concurrent_split_requires_join'' SeverityError (\<lambda>i n.
     isConcurrentSplit (node_Shape n) \<and> findPairedConcurrentJoinID order g i = '''') order g"

end
