(* ===== verification/PromptRules.thy ===== *)
theory PromptRules
  imports Validate
begin

text \<open>
  The lint rules on the wording of prompts, commands and models, and Validate itself,
  \<^verbatim>\<open>internal/attractor/validate/validate.go\<close>.

  The regular expressions of these rules are written out as matchers at a position of the text: the
  character before it, for a word boundary, and the text from there on.  The case folding of
  characters beyond ASCII and the width of such characters in a bounded repetition are not modelled.
\<close>

section \<open>Regular expressions\<close>

definition is_re_space :: "char \<Rightarrow> bool" where
  "is_re_space c \<longleftrightarrow> c \<in> {CHR '' '', CHR 0x09, CHR 0x0A, CHR 0x0C, CHR 0x0D}"

definition is_quote :: "char \<Rightarrow> bool" where
  "is_quote c \<longleftrightarrow> c = CHR 0x22 \<or> c = CHR 0x27"

definition is_status_char :: "char \<Rightarrow> bool" where
  "is_status_char c \<longleftrightarrow> isAlnumUnderscore c \<or> c = CHR ''-''"

definition word_before :: "char option \<Rightarrow> bool" where
  "word_before prev = (case prev of None \<Rightarrow> False | Some c \<Rightarrow> isAlnumUnderscore c)"

definition word_after :: "string \<Rightarrow> bool" where
  "word_after s = (case s of [] \<Rightarrow> False | c # cs \<Rightarrow> isAlnumUnderscore c)"

definition skip_quote :: "string \<Rightarrow> string" where
  "skip_quote s = (case s of [] \<Rightarrow> [] | c # cs \<Rightarrow> if is_quote c then cs else s)"

definition prefix_fold :: "string \<Rightarrow> string \<Rightarrow> bool" where
  "prefix_fold p s = has_prefix p (to_lower s)"

text \<open>Whether an expression matches somewhere, and the first groups of all its matches.\<close>

fun search :: "(char option \<Rightarrow> string \<Rightarrow> bool) \<Rightarrow> char option \<Rightarrow> string \<Rightarrow> bool" where
  "search m prev [] = m prev []"
| "search m prev (c # cs) = (m prev (c # cs) \<or> search m (Some c) cs)"

text \<open>A match gives its group and the number of characters it takes behind the first one.\<close>

function find_all :: "(char option \<Rightarrow> string \<Rightarrow> (string \<times> nat) option) \<Rightarrow> char option \<Rightarrow> string \<Rightarrow> string list" where
  "find_all m prev [] = []"
| "find_all m prev (c # cs) = (case m prev (c # cs) of
      None \<Rightarrow> find_all m (Some c) cs
    | Some (v, n) \<Rightarrow> v # find_all m (Some (last (c # take n cs))) (drop n cs))"
  by pat_completeness auto
termination
  by (relation "measure (\<lambda>(m, prev, s). length s)") auto

text \<open>\<^verbatim>\<open>(?i)\boutcome\s*=\s*['"]?([a-z0-9_-]+)['"]?\<close>\<close>

definition match_outcome :: "char option \<Rightarrow> string \<Rightarrow> (string \<times> nat) option" where
  "match_outcome prev s =
     (if word_before prev \<or> \<not> prefix_fold ''outcome'' s then None
      else (case dropWhile is_re_space (drop (length ''outcome'') s) of
          [] \<Rightarrow> None
        | c # cs \<Rightarrow>
            if c \<noteq> CHR ''='' then None
            else (let t = skip_quote (dropWhile is_re_space cs);
                      v = takeWhile is_status_char t;
                      rest = skip_quote (drop (length v) t)
                  in if v = '''' then None else Some (v, length s - length rest - 1))))"

text \<open>\<^verbatim>\<open>["']status["']\s*:\s*["']([a-zA-Z0-9_-]+)["']\<close>\<close>

definition starts_quote :: "string \<Rightarrow> bool" where
  "starts_quote s = (case s of [] \<Rightarrow> False | c # cs \<Rightarrow> is_quote c)"

definition match_status_write :: "char option \<Rightarrow> string \<Rightarrow> (string \<times> nat) option" where
  "match_status_write prev s =
     (let a = drop 1 s; b = drop (length ''status'') a; c = dropWhile is_re_space (drop 1 b);
          d = dropWhile is_re_space (drop 1 c); v = takeWhile is_status_char (drop 1 d);
          e = drop (length v) (drop 1 d)
      in if starts_quote s \<and> has_prefix ''status'' a \<and> starts_quote b \<and> has_prefix '':'' c \<and> starts_quote d \<and>
           v \<noteq> '''' \<and> starts_quote e
         then Some (v, length s - length (drop 1 e) - 1) else None)"

text \<open>\<^verbatim>\<open>cd\s+/\<close>\<close>

definition match_cd_root :: "char option \<Rightarrow> string \<Rightarrow> bool" where
  "match_cd_root prev s \<longleftrightarrow> has_prefix ''cd'' s \<and>
     (let r = drop 2 s; t = dropWhile is_re_space r in t \<noteq> r \<and> has_prefix ''/'' t)"

text \<open>\<^verbatim>\<open>\bsh\s+scripts/validate-[^\s"']+\.sh\b\<close>\<close>

definition match_validate_script :: "char option \<Rightarrow> string \<Rightarrow> bool" where
  "match_validate_script prev s \<longleftrightarrow> \<not> word_before prev \<and> has_prefix ''sh'' s \<and>
     (let r = drop 2 s; t = dropWhile is_re_space r; u = drop (length ''scripts/validate-'') t;
          w = takeWhile (\<lambda>c. \<not> is_re_space c \<and> \<not> is_quote c) u
      in t \<noteq> r \<and> has_prefix ''scripts/validate-'' t \<and>
         list_ex (\<lambda>n. has_prefix ''.sh'' (drop n w) \<and> \<not> word_after (drop (n + 3) u)) [1..<length w])"

text \<open>
  \<^verbatim>\<open>(?i)["']?status["']?\s*:\s*["']?(?:success|fail|retry|skipped|partial_success)["']?[^}]{0,80}["']?outcome["']?\s*:\<close>
\<close>

definition match_field_confusion :: "char option \<Rightarrow> string \<Rightarrow> bool" where
  "match_field_confusion prev s \<longleftrightarrow> prefix_fold ''status'' s \<and>
     (let c = dropWhile is_re_space (skip_quote (drop (length ''status'') s));
          d = skip_quote (dropWhile is_re_space (drop 1 c))
      in has_prefix '':'' c \<and>
         list_ex (\<lambda>word. prefix_fold word d \<and>
           list_ex (\<lambda>e.
             list_ex (\<lambda>n. list_all (\<lambda>x. x \<noteq> CHR ''}'') (take n e) \<and>
               list_ex (\<lambda>f. prefix_fold ''outcome'' f \<and>
                   has_prefix '':'' (dropWhile is_re_space (skip_quote (drop (length ''outcome'') f))))
                 [drop n e, skip_quote (drop n e)]) [0..<min 80 (length e) + 1])
             [drop (length word) d, skip_quote (drop (length word) d)])
           [''success'', ''fail'', ''retry'', ''skipped'', ''partial_success''])"

section \<open>Prompts\<close>

definition lintPromptOnAgentNodes :: "string list \<Rightarrow> graph \<Rightarrow> diagnostic list" where
  "lintPromptOnAgentNodes order g = node_rule ''prompt_on_llm_nodes'' SeverityWarning (\<lambda>i n.
     node_Shape n = ''box'' \<and> trim_space (node_Prompt n) = '''') order g"

definition lintStatusContractInPrompt :: "string list \<Rightarrow> graph \<Rightarrow> diagnostic list" where
  "lintStatusContractInPrompt order g = node_rule ''status_contract_in_prompt'' SeverityWarning (\<lambda>i n.
     node_Shape n = ''box'' \<and> trim_space (node_Prompt n) \<noteq> '''' \<and>
     \<not> contains_sub ''KILROY_STAGE_STATUS_PATH'' (node_Prompt n) \<and>
     \<not> contains_sub ''KILROY_STAGE_STATUS_FALLBACK_PATH'' (node_Prompt n)) order g"

definition lintPromptOnConditionalNodes :: "string list \<Rightarrow> graph \<Rightarrow> diagnostic list" where
  "lintPromptOnConditionalNodes order g = node_rule ''prompt_on_conditional_node'' SeverityWarning (\<lambda>i n.
     node_Shape n = ''diamond'' \<and> trim_space (node_Prompt n) \<noteq> '''') order g"

definition lintPromptFileConflict :: "string list \<Rightarrow> graph \<Rightarrow> diagnostic list" where
  "lintPromptFileConflict order g = node_rule ''prompt_file_conflict'' SeverityError (\<lambda>i n.
     node_trim n ''prompt_file'' \<noteq> '''' \<and>
     (node_trim n ''prompt'' \<noteq> '''' \<or> node_trim n ''llm_prompt'' \<noteq> '''')) order g"

definition lintStatusFallbackInPrompt :: "string list \<Rightarrow> graph \<Rightarrow> diagnostic list" where
  "lintStatusFallbackInPrompt order g = node_rule ''status_fallback_in_prompt'' SeverityWarning (\<lambda>i n.
     node_Shape n = ''box'' \<and>
     \<not> equal_fold (trim_space (node_Attr (Some n) ''auto_status'' ''false'')) ''true'' \<and>
     contains_sub ''KILROY_STAGE_STATUS_PATH'' (node_Prompt n) \<and>
     \<not> contains_sub ''KILROY_STAGE_STATUS_FALLBACK_PATH'' (node_Prompt n)) order g"

definition lintStatusOutcomeFieldConfusion :: "string list \<Rightarrow> graph \<Rightarrow> diagnostic list" where
  "lintStatusOutcomeFieldConfusion order g = node_rule ''status_outcome_field_confusion'' SeverityError (\<lambda>i n.
     node_Shape n = ''box'' \<and> search match_field_confusion None (node_Prompt n)) order g"

text \<open>The first custom outcome of a prompt that names no canonical success.\<close>

definition firstPromptCustomOutcomeWithoutCanonicalSuccess :: "string \<Rightarrow> string option" where
  "firstPromptCustomOutcomeWithoutCanonicalSuccess prompt =
     (let statuses = List.map_filter (\<lambda>v. case ParseStageStatus v of Inl err \<Rightarrow> None | Inr s \<Rightarrow> Some s)
            (find_all match_outcome None prompt);
          custom = filter (\<lambda>s. \<not> IsCanonical s) statuses
      in if list_ex (\<lambda>s. s = StatusSuccess \<or> s = StatusPartialSuccess) statuses \<or> custom = [] then None
         else Some (hd custom))"

definition lintGoalGatePromptStatusHint :: "string list \<Rightarrow> graph \<Rightarrow> diagnostic list" where
  "lintGoalGatePromptStatusHint order g = node_rule ''goal_gate_prompt_status_hint'' SeverityWarning (\<lambda>i n.
     is_goal_gate n \<and> firstPromptCustomOutcomeWithoutCanonicalSuccess (node_Prompt n) \<noteq> None) order g"

definition required_outcomes :: "graph \<Rightarrow> string \<Rightarrow> string list" where
  "required_outcomes g i = dedupeStable (concat (map (\<lambda>e.
     if edge_cond e = '''' then []
     else List.map_filter (\<lambda>c. case outcome_literal (trim_space c) of
         None \<Rightarrow> None
       | Some val \<Rightarrow> (case ParseStageStatus val of
           Inl err \<Rightarrow> Some val | Inr s \<Rightarrow> if IsCanonical s then None else Some val))
       (split_on ''&&'' (edge_cond e))) (outgoing_of g i)))"

definition lintCustomOutcomeCoverage :: "string list \<Rightarrow> graph \<Rightarrow> diagnostic list" where
  "lintCustomOutcomeCoverage order g = concat (map (\<lambda>(i, n).
     if node_Shape n \<noteq> ''box'' \<or> trim_space (node_Prompt n) = '''' then []
     else (let written = map to_lower (find_all match_status_write None (node_Prompt n)) in
           map (\<lambda>val. node_diag ''custom_outcome_coverage'' SeverityWarning i)
             (filter (\<lambda>val. to_lower val \<notin> set written) (required_outcomes g i)))) (ranged order g))"

section \<open>Tools, models and handler types\<close>

definition nodeResolvesToTool :: "node \<Rightarrow> bool" where
  "nodeResolvesToTool n \<longleftrightarrow>
     (if node_trim n ''type'' \<noteq> '''' then node_trim n ''type'' = ''tool'' else node_Shape n = ''parallelogram'')"

definition lintToolCommandRequired :: "string list \<Rightarrow> graph \<Rightarrow> diagnostic list" where
  "lintToolCommandRequired order g = node_rule ''tool_command_required'' SeverityError (\<lambda>i n.
     nodeResolvesToTool n \<and> node_trim n ''tool_command'' = '''') order g"

definition lintValidateScriptFailureContract :: "string list \<Rightarrow> graph \<Rightarrow> diagnostic list" where
  "lintValidateScriptFailureContract order g =
     node_rule ''validate_script_failure_contract'' SeverityWarning (\<lambda>i n.
       let cmd = node_Attr (Some n) ''tool_command'' '''' in
       nodeResolvesToTool n \<and> search match_validate_script None cmd \<and>
       \<not> contains_sub ''KILROY_VALIDATE_FAILURE'' cmd) order g"

definition lintToolCommandAbsPath :: "string list \<Rightarrow> graph \<Rightarrow> diagnostic list" where
  "lintToolCommandAbsPath order g = node_rule ''tool_command_abs_path'' SeverityWarning (\<lambda>i n.
     nodeResolvesToTool n \<and> node_trim n ''tool_command'' \<noteq> '''' \<and>
     search match_cd_root None (node_trim n ''tool_command'')) order g"

definition lintLLMProviderPresent :: "string list \<Rightarrow> graph \<Rightarrow> diagnostic list" where
  "lintLLMProviderPresent order g = node_rule ''llm_provider_required'' SeverityError (\<lambda>i n.
     node_Shape n = ''box'' \<and> node_trim n ''llm_provider'' = '''') order g"

definition escalation_faults :: "string \<Rightarrow> nat" where
  "escalation_faults entry = (case cut_at '':'' entry of
      None \<Rightarrow> 1
    | Some (p, m) \<Rightarrow> (if to_lower (trim_space p) = '''' then 1 else 0) + (if trim_space m = '''' then 1 else 0))"

definition lintEscalationModelsSyntax :: "string list \<Rightarrow> graph \<Rightarrow> diagnostic list" where
  "lintEscalationModelsSyntax order g = concat (map (\<lambda>(i, n).
     concat (map (\<lambda>entry. replicate (escalation_faults entry)
         (node_diag ''escalation_models_syntax'' SeverityWarning i))
       (comma_names (node_trim n ''escalation_models'')))) (ranged order g))"

definition type_known_rule :: "string list \<Rightarrow> string list \<Rightarrow> graph \<Rightarrow> diagnostic list" where
  "type_known_rule knownTypes order g = node_rule ''type_known'' SeverityWarning (\<lambda>i n.
     node_trim n ''type'' \<noteq> '''' \<and> node_trim n ''type'' \<notin> set knownTypes) order g"

section \<open>Validate\<close>

text \<open>
  All rules in their order, and then the rules of the caller.  The argument \<^verbatim>\<open>ord\<close> gives the
  order in which each rule sees the map of nodes.  The check of model names against a catalog is left
  out: runs validate without a catalog, and it is skipped then.  \<^verbatim>\<open>None\<close> is a search without
  fuel, which no well-formed graph gives.
\<close>

definition ValidateWithOptions ::
  "(string \<Rightarrow> string list) \<Rightarrow> (graph \<Rightarrow> diagnostic list) list \<Rightarrow> graph option \<Rightarrow> diagnostic list option" where
  "ValidateWithOptions ord extraRules gr = (case gr of
      None \<Rightarrow> Some [graph_diag ''graph_nil'' SeverityError]
    | Some g \<Rightarrow> map_option (\<lambda>unreached.
        lintStartNode (ord ''start_node'') g @
        lintExitNode (ord ''terminal_node'') g @
        lintEdgeTargetsExist g @
        lintStartNoIncoming (ord ''start_no_incoming'') g @
        lintExitNoOutgoing (ord ''exit_no_outgoing'') g @
        unreached @
        lintConditionSyntax g @
        lintStylesheetSyntax g @
        lintRetryTargetsExist (ord ''retry_target_exists'') g @
        lintGoalGateHasRetry (ord ''goal_gate_has_retry'') g @
        lintGoalGateMissingNodeRetryTarget (ord ''goal_gate_missing_node_retry_target'') g @
        lintGoalGateExitStatusContract (ord ''goal_gate_exit_status_contract'') g @
        lintGoalGatePromptStatusHint (ord ''goal_gate_prompt_status_hint'') g @
        lintFidelityValid (ord ''fidelity_valid'') g @
        lintPromptOnAgentNodes (ord ''prompt_on_llm_nodes'') g @
        lintStatusContractInPrompt (ord ''status_contract_in_prompt'') g @
        lintPromptOnConditionalNodes (ord ''prompt_on_conditional_node'') g @
        lintPromptFileConflict (ord ''prompt_file_conflict'') g @
        lintToolCommandRequired (ord ''tool_command_required'') g @
        lintValidateScriptFailureContract (ord ''validate_script_failure_contract'') g @
        lintLLMProviderPresent (ord ''llm_provider_required'') g @
        lintLoopRestartFailureClassGuard g @
        lintFailLoopFailureClassGuard g @
        lintEscalationModelsSyntax (ord ''escalation_models_syntax'') g @
        lintAllConditionalEdges (ord ''all_conditional_edges'') g @
        lintStatusFallbackInPrompt (ord ''status_fallback_in_prompt'') g @
        lintTemplatePostmortemRecoveryRouting g @
        lintOrphanCustomOutcomeHint (ord ''orphan_custom_outcome_hint'') g @
        lintStatusOutcomeFieldConfusion (ord ''status_outcome_field_confusion'') g @
        lintCustomOutcomeCoverage (ord ''custom_outcome_coverage'') g @
        lintReservedKeywordNodeID (ord ''reserved_keyword_node_id'') g @
        lintToolCommandAbsPath (ord ''tool_command_abs_path'') g @
        lintConcurrentSplitMinBranches (ord ''concurrent_split_min_branches'') g @
        lintConcurrentSplitHasJoin (ord ''concurrent_split_requires_join'') g @
        lintNoNestedConcurrentRegions (ord ''no_nested_concurrent_regions'') g @
        lintNoLoopsInConcurrentRegions (ord ''no_loops_in_concurrent_regions'') g @
        lintTerminalConditionEdge (ord ''terminal_condition_edge'') g @
        concat (map (\<lambda>rule. rule g) extraRules))
      (lintReachability (ord ''reachability'') g))"

definition is_error :: "diagnostic \<Rightarrow> bool" where
  "is_error d \<longleftrightarrow> d_severity d = SeverityError"

end
