(* ===== verification/ValidateFacts.thy ===== *)
theory ValidateFacts
  imports PromptRules
begin

text \<open>
  What the lint rules decide: reachability from the start, the inside of a concurrent region, pairs
  of conditions that cover every outcome, conditions in the grammar, and the contract of goal gates.
\<close>

section \<open>Ranges over the nodes\<close>

lemma set_ranged [simp]: "set (ranged order g) = {(i, n). i \<in> set order \<and> g_nodes g i = Some n}"
  by (force simp: ranged_def List.map_filter_def image_iff)

lemma node_rule_empty: "node_rule r s bad order g = [] \<longleftrightarrow> (\<forall>i n. i \<in> set order \<longrightarrow> g_nodes g i = Some n \<longrightarrow> \<not> bad i n)"
  by (auto simp: node_rule_def filter_empty_conv)

lemma node_rule_mem: "d \<in> set (node_rule r s bad order g) \<longleftrightarrow>
    (\<exists>i n. i \<in> set order \<and> g_nodes g i = Some n \<and> bad i n \<and> d = node_diag r s i)"
  by (auto simp: node_rule_def)

lemma node_rule_ids: "(\<exists>d \<in> set (node_rule r s bad order g). d_node d = i) \<longleftrightarrow>
    i \<in> set order \<and> (\<exists>n. g_nodes g i = Some n \<and> bad i n)"
  by (force simp: node_rule_def node_diag_def image_iff)

lemma edge_rule_empty: "edge_rule r s bad g = [] \<longleftrightarrow> (\<forall>e \<in> set (g_edges g). \<not> bad e)"
  by (auto simp: edge_rule_def filter_empty_conv)

lemma node_diag_fields [simp]: "d_rule (node_diag r s i) = r" "d_severity (node_diag r s i) = s" "d_node (node_diag r s i) = i"
  by (simp_all add: node_diag_def graph_diag_def)

lemma edge_diag_fields [simp]: "d_rule (edge_diag r s e) = r" "d_severity (edge_diag r s e) = s"
  by (simp_all add: edge_diag_def graph_diag_def)

lemma graph_diag_fields [simp]: "d_rule (graph_diag r s) = r" "d_severity (graph_diag r s) = s"
  by (simp_all add: graph_diag_def)

lemma set_exit_ids: "i \<in> set (findAllExitNodeIDs order g) \<longleftrightarrow>
    (\<exists>n. i \<in> set order \<and> g_nodes g i = Some n \<and> (exit_shape n \<or> exit_name i))"
  by (auto simp: findAllExitNodeIDs_def Let_def image_iff)

section \<open>Reachability\<close>

text \<open>
  The search is the breadth-first search of the join search without its distances, so it enters what
  that one enters.
\<close>

lemma push_new_enqueue:
  "enqueue ys d queue seen = (q, s) \<Longrightarrow> push_new ys (map fst queue) seen = (map fst q, s)"
  by (induction ys d queue seen rule: enqueue.induct) (auto split: if_splits)

lemma reach_loop_bfs:
  assumes "bfs_loop fuel g (\<lambda>_. True) queue seen out = Some res" "bfs_inv g a past queue seen" "out = past"
  shows "\<exists>s. reach_loop fuel g (map fst queue) seen = Some s \<and> set s = fst ` set res"
  using assms
proof (induction fuel g "\<lambda>_ :: string. True" queue seen out arbitrary: past rule: bfs_loop.induct)
  case (1 fuel g seen out)
  then show ?case by (auto simp: bfs_inv_def)
next
  case (2 g it queue seen out)
  then show ?case by simp
next
  case (3 fuel g y k queue seen out)
  obtain queue' seen' where enq: "enqueue (succs g y) (k + 1) queue seen = (queue', seen')" by fastforce
  have "y \<notin> fst ` set past" using 3(3) by (simp add: bfs_inv_def)
  with 3(4) have "map_of out y = None" by (auto simp: map_of_eq_None_iff)
  with 3 enq bfs_inv_step [OF 3(3) enq] show ?case
    by (auto simp: push_new_enqueue split: if_splits)
qed

definition path :: "graph \<Rightarrow> string \<Rightarrow> string \<Rightarrow> bool" where
  "path g a x \<longleftrightarrow> (\<exists>k. x \<in> level g a k)"

lemma reached_total:
  assumes "wf_graph g"
  shows "\<exists>s. reached g a = Some s \<and> set s = {x. path g a x}"
proof -
  obtain res where res: "bfs g (\<lambda>_. True) a = Some res" "distinct (map fst res)"
      "\<And>x d. map_of res x = Some d \<longleftrightarrow> shortest g a x d"
    using bfs_total [OF assms, of "\<lambda>_. True" a] by auto
  from res(1) have "bfs_loop (length (g_edges g) + 1) g (\<lambda>_. True) [(a, 0)] [a] [] = Some res"
    by (simp add: bfs_def)
  from reach_loop_bfs [OF this bfs_inv_start refl] obtain s
    where s: "reached g a = Some s" "set s = fst ` set res"
    by (auto simp: reached_def)
  have "x \<in> fst ` set res \<longleftrightarrow> path g a x" for x
  proof -
    have "x \<in> fst ` set res \<longleftrightarrow> (\<exists>d. map_of res x = Some d)"
      by (metis map_of_eq_None_iff not_Some_eq)
    also have "\<dots> \<longleftrightarrow> path g a x"
      using shortest_exists [of x g a] by (auto simp: res(3) path_def) (auto simp: shortest_def)
    finally show ?thesis .
  qed
  with s show ?thesis by auto
qed

lemma path_start: "path g a a"
  by (auto simp: path_def intro: exI [of _ 0])

lemma path_step: "path g a x \<Longrightarrow> y \<in> set (succs g x) \<Longrightarrow> path g a y"
proof -
  assume "path g a x" "y \<in> set (succs g x)"
  then obtain k where "x \<in> level g a k" by (auto simp: path_def)
  with \<open>y \<in> set (succs g x)\<close> have "y \<in> level g a (Suc k)" by auto
  then show ?thesis unfolding path_def by blast
qed

section \<open>The inside of a region\<close>

text \<open>The nodes that a walk from a split can come to without passing its join.\<close>

inductive between :: "graph \<Rightarrow> string \<Rightarrow> string \<Rightarrow> string \<Rightarrow> bool" for g a stop where
  first: "y \<in> set (targets g a) \<Longrightarrow> y \<noteq> stop \<Longrightarrow> between g a stop y"
| further: "between g a stop x \<Longrightarrow> y \<in> set (targets g x) \<Longrightarrow> y \<noteq> stop \<Longrightarrow> between g a stop y"

lemma walk_sound:
  "\<forall>x \<in> set pending. x \<noteq> stop \<longrightarrow> between g a stop x \<Longrightarrow> \<forall>x \<in> set visited. between g a stop x \<Longrightarrow>
   z \<in> set (walk_between g stop pending visited) \<Longrightarrow> between g a stop z"
proof (induction g stop pending visited rule: walk_between.induct)
  case (2 g stop x pending visited)
  show ?case
  proof (cases "x = stop \<or> x \<in> set visited")
    case True
    with 2 show ?thesis by simp
  next
    case False
    with 2(3) have x: "between g a stop x" by simp
    then have "\<forall>y \<in> set (targets g x @ pending). y \<noteq> stop \<longrightarrow> between g a stop y"
      using 2(3) by (auto intro: between.further)
    moreover have "\<forall>y \<in> set (x # visited). between g a stop y" using x 2(4) by simp
    ultimately show ?thesis using 2(2) [OF False] 2(5) False by simp
  qed
qed simp

lemma walk_closed:
  assumes "\<forall>x \<in> set visited. \<forall>y \<in> set (targets g x). y \<noteq> stop \<longrightarrow> y \<in> set visited \<union> set pending"
  shows "set visited \<union> (set pending - {stop}) \<subseteq> set (walk_between g stop pending visited) \<and>
    (\<forall>x \<in> set (walk_between g stop pending visited). \<forall>y \<in> set (targets g x).
       y \<noteq> stop \<longrightarrow> y \<in> set (walk_between g stop pending visited))"
  using assms
proof (induction g stop pending visited rule: walk_between.induct)
  case (1 g stop visited)
  then show ?case by auto
next
  case (2 g stop x pending visited)
  show ?case
  proof (cases "x = stop \<or> x \<in> set visited")
    case True
    then have "\<forall>x \<in> set visited. \<forall>y \<in> set (targets g x). y \<noteq> stop \<longrightarrow> y \<in> set visited \<union> set pending"
      using 2(3) by fastforce
    from 2(1) [OF True this] True show ?thesis by auto
  next
    case False
    then have "\<forall>z \<in> set (x # visited). \<forall>y \<in> set (targets g z). y \<noteq> stop \<longrightarrow>
        y \<in> set (x # visited) \<union> set (targets g x @ pending)"
      using 2(3) by fastforce
    from 2(2) [OF False this] False show ?thesis by auto
  qed
qed

lemma nodesBetween_exact: "x \<in> set (nodesBetween g a stop) \<longleftrightarrow> between g a stop x"
proof
  show "x \<in> set (nodesBetween g a stop) \<Longrightarrow> between g a stop x"
    unfolding nodesBetween_def by (rule walk_sound [rotated 2]) (auto intro: between.first)
  have closed: "set (targets g a) - {stop} \<subseteq> set (nodesBetween g a stop)"
      "\<forall>x \<in> set (nodesBetween g a stop). \<forall>y \<in> set (targets g x). y \<noteq> stop \<longrightarrow> y \<in> set (nodesBetween g a stop)"
    using walk_closed [of "[]" g stop "targets g a"] by (auto simp: nodesBetween_def)
  show "between g a stop x \<Longrightarrow> x \<in> set (nodesBetween g a stop)"
    by (induction rule: between.induct) (use closed in auto)
qed

section \<open>Reading a condition\<close>

definition clause_of :: "string \<Rightarrow> clause" where
  "clause_of c =
     (if contains_sub ''!='' c then
        (case cut_at ''!='' c of None \<Rightarrow> Truthy c | Some (k, v) \<Rightarrow> Differs (trim_space k) (trim_space v))
      else (case cut_at ''='' c of
          None \<Rightarrow> Truthy (trim_space c) | Some (k, v) \<Rightarrow> Equals (trim_space k) (trim_space v)))"

definition read_condition :: "string \<Rightarrow> clause list" where
  "read_condition c = map clause_of (filter (\<lambda>s. s \<noteq> '''') (map trim_space (split_on ''&&'' c)))"

lemma evalClause_reads: "evalClause c out ctx = Inr (holds out ctx (clause_of c))"
  using cut_at_None_iff [of "''!=''" c] cut_at_None_iff [of "''=''" c]
  by (auto simp: evalClause_def clause_of_def Let_def split: option.splits)

lemma evalClauses_reads:
  "evalClauses cs out ctx = Inr (list_all (holds out ctx) (map clause_of (filter (\<lambda>s. s \<noteq> '''') (map trim_space cs))))"
  by (induction cs) (auto simp: evalClause_reads Let_def)

lemma Evaluate_reads: "Evaluate c out ctx = Inr (list_all (holds out ctx) (read_condition (trim_space c)))"
proof (cases "trim_space c = ''''")
  case True
  then show ?thesis by (simp add: Evaluate_def read_condition_def split_on.simps)
next
  case False
  then show ?thesis by (simp add: Evaluate_def evalClauses_reads read_condition_def)
qed

lemma cond_holds_reads: "cond_holds out ctx e \<longleftrightarrow> edge_cond e \<noteq> '''' \<and> list_all (holds out ctx) (read_condition (edge_cond e))"
  by (simp add: cond_holds_def conditional_edge_def edge_cond_def Evaluate_reads)

text \<open>Keys and literals that the syntax rule lets pass.\<close>

fun clause_key :: "clause \<Rightarrow> string" where
  "clause_key (Equals k v) = k"
| "clause_key (Differs k v) = k"
| "clause_key (Truthy k) = k"

fun clause_value :: "clause \<Rightarrow> string option" where
  "clause_value (Equals k v) = Some v"
| "clause_value (Differs k v) = Some v"
| "clause_value (Truthy k) = None"

definition is_key_char :: "char \<Rightarrow> bool" where
  "is_key_char c \<longleftrightarrow> isAlnumUnderscore c \<or> c = CHR ''.''"

definition accepted_clause :: "clause \<Rightarrow> bool" where
  "accepted_clause cl \<longleftrightarrow> clause_key cl \<noteq> '''' \<and> isAlphaUnderscore (hd (clause_key cl)) \<and>
     list_all is_key_char (clause_key cl) \<and> clause_value cl \<noteq> Some ''''"

lemma key_part_chars: "key_part p \<Longrightarrow> p \<noteq> '''' \<and> isAlphaUnderscore (hd p) \<and> list_all is_key_char p"
  by (cases p) (auto simp: is_key_char_def isAlnumUnderscore_def list_all_iff)

lemma dotted_chars:
  assumes "list_all key_part (split_char CHR ''.'' s)"
  shows "s \<noteq> '''' \<and> isAlphaUnderscore (hd s) \<and> list_all is_key_char s"
proof -
  let ?ws = "split_char CHR ''.'' s"
  have parts: "\<forall>w \<in> set ?ws. w \<noteq> '''' \<and> isAlphaUnderscore (hd w) \<and> list_all is_key_char w"
    using assms key_part_chars by (auto simp: list_all_iff)
  have s: "join_with ''.'' ?ws = s" by (rule join_split_char)
  have "list_all is_key_char (join_with ''.'' ws)" if "\<forall>w \<in> set ws. list_all is_key_char w" for ws
    using that by (induction "''.''" ws rule: join_with.induct) (auto simp: is_key_char_def)
  with parts s have "list_all is_key_char s" by metis
  moreover have "s \<noteq> '''' \<and> hd s = hd (hd ?ws)"
    using join_ends [of ?ws "''.''"] parts s by simp
  moreover have "hd ?ws \<in> set ?ws" by simp
  ultimately show ?thesis using parts by metis
qed

lemma validateCondKey_chars:
  assumes "validateCondKey k = None"
  shows "k \<noteq> '''' \<and> isAlphaUnderscore (hd k) \<and> list_all is_key_char k"
proof (cases "k = ''outcome'' \<or> k = ''preferred_label''")
  case True
  then show ?thesis by (auto simp: is_key_char_def isAlnumUnderscore_def isAlphaUnderscore_def)
next
  case False
  with assms have "list_all key_part (split_char CHR ''.'' (trim_prefix ''context.'' k))" "k \<noteq> ''''"
    by (auto simp: validateCondKey_def Let_def split: if_splits)
  from dotted_chars [OF this(1)] this(2) show ?thesis
    by (auto simp: trim_prefix_def has_prefix_append_iff is_key_char_def isAlnumUnderscore_def
        isAlphaUnderscore_def split: if_splits)
qed

lemma validate_clause_accepts:
  assumes "validate_clause c = None" "c \<noteq> ''''"
  shows "accepted_clause (clause_of c)"
  using assms cut_at_None_iff [of "''!=''" c] cut_at_None_iff [of "''=''" c]
  by (auto simp: validate_clause_def clause_of_def accepted_clause_def split: if_splits option.splits
      dest: validateCondKey_chars)

lemma validate_clauses_accepts:
  "validate_clauses cs = None \<Longrightarrow>
   \<forall>cl \<in> set (map clause_of (filter (\<lambda>s. s \<noteq> '''') (map trim_space cs))). accepted_clause cl"
  by (induction cs) (auto simp: Let_def validate_clause_accepts split: if_splits option.splits)

lemma accepted_condition_reads:
  "validateConditionSyntax c = None \<Longrightarrow> \<forall>cl \<in> set (read_condition c). accepted_clause cl"
  using validate_clauses_accepts [of "split_on ''&&'' c"]
  by (simp add: validateConditionSyntax_def read_condition_def)

section \<open>Single clauses on the outcome\<close>

lemma read_single: "\<not> contains_sub ''&&'' c \<Longrightarrow> trim_space c = c \<Longrightarrow> c \<noteq> '''' \<Longrightarrow> read_condition c = [clause_of c]"
  by (simp add: read_condition_def split_on_none)

lemma clause_of_equals:
  "\<not> contains_sub ''!='' (k @ ''='' @ v) \<Longrightarrow> CHR ''='' \<notin> set k \<Longrightarrow>
   clause_of (k @ ''='' @ v) = Equals (trim_space k) (trim_space v)"
proof -
  assume "\<not> contains_sub ''!='' (k @ ''='' @ v)" and k: "CHR ''='' \<notin> set k"
  moreover from k have "\<not> contains_sub ''='' (k @ butlast ''='')" by (auto simp: contains_sub_iff)
  then have "cut_at ''='' (k @ ''='' @ v) = Some (k, v)" by (rule cut_at_append) simp
  ultimately show ?thesis by (simp add: clause_of_def)
qed

lemma clause_of_differs:
  "\<not> contains_sub ''!='' (k @ ''!'') \<Longrightarrow> clause_of (k @ ''!='' @ v) = Differs (trim_space k) (trim_space v)"
  using cut_at_append [of "''!=''" k v] by (auto simp: clause_of_def contains_sub_iff)

lemma trim_edge_cond [simp]: "trim_space (edge_cond e) = edge_cond e"
  by (simp add: edge_cond_def)

lemma positive_reads:
  assumes "positive_value c = Some v" "\<not> contains_sub ''!='' c" "\<not> contains_sub ''&&'' c" "trim_space c = c"
  shows "read_condition c = [Equals ''outcome'' v]"
proof -
  have "c = ''outcome='' @ drop (length ''outcome='') c \<or> c = ''outcome ='' @ drop (length ''outcome ='') c" "c \<noteq> ''''"
    using assms(1) by (auto simp: positive_value_def cut_prefix_def has_prefix_append_iff split: if_splits)
  then have "\<exists>k w. c = k @ ''='' @ w \<and> (k = ''outcome'' \<or> k = ''outcome '')"
    by (elim disjE) (metis append_Cons append_Nil)+
  then obtain k w where c: "c = k @ ''='' @ w" "k = ''outcome'' \<or> k = ''outcome ''" by blast
  have "trim_space w = v"
    using assms(1) c by (auto simp: positive_value_def cut_prefix_def)
  moreover have "trim_space k = ''outcome''" "CHR ''='' \<notin> set k" using c(2) by (auto; code_simp)+
  ultimately show ?thesis
    using read_single [of c] clause_of_equals [of k w] assms(2-4) c by auto
qed

lemma negative_reads:
  assumes "negative_value c = Some v" "\<not> contains_sub ''&&'' c" "trim_space c = c"
  shows "read_condition c = [Differs ''outcome'' v]"
proof -
  from assms(1) have c: "c = ''outcome'' @ ''!='' @ drop (length ''outcome!='') c"
    and v: "v = trim_space (drop (length ''outcome!='') c)"
    by (auto simp: negative_value_def cut_prefix_def has_prefix_append_iff split: if_splits)
  have "trim_space ''outcome'' = ''outcome''" by code_simp
  then have "clause_of c = Differs ''outcome'' v"
    using clause_of_differs [of "''outcome''" "drop (length ''outcome!='') c"] c v by simp
  moreover have "c \<noteq> ''''" using c by auto
  ultimately show ?thesis using read_single [of c] assms(2,3) by simp
qed

lemma set_trim_by: "set (trim_by P s) \<subseteq> set s"
  by (auto simp: trim_by_def dest!: set_dropWhileD)

lemma set_split_on: "w \<in> set (split_on sep s) \<Longrightarrow> set w \<subseteq> set s"
proof -
  have "w \<in> set ws \<Longrightarrow> set w \<subseteq> set (join_with sep ws)" for ws
    by (induction sep ws rule: join_with.induct) auto
  then show "w \<in> set (split_on sep s) \<Longrightarrow> set w \<subseteq> set s" by (metis join_split_on)
qed

text \<open>An unquoted literal that an equation compares the outcome with is the canonical outcome.\<close>

lemma outcome_equation_decides:
  assumes "s \<in> set (outcomeEqualsStatuses c)" "list_all (\<lambda>c. \<not> is_quote c) c"
    and "list_all (holds out ctx) (read_condition c)"
  shows "resolveKey ''outcome'' out ctx = s"
proof -
  obtain d where d: "d \<in> set (split_on ''&&'' c)" "trim_space d \<noteq> ''''"
      and lit: "\<exists>raw. outcome_literal (trim_space d) = Some raw \<and> ParseStageStatus raw = Inr s"
    using assms(1)
    by (fastforce simp: outcomeEqualsStatuses_def List.map_filter_def Let_def split: if_splits option.splits sum.splits)
  obtain k v where kv: "\<not> contains_sub ''!='' (trim_space d)" "cut_at ''='' (trim_space d) = Some (k, v)"
      "trim_space k = ''outcome''" "ParseStageStatus (trim_quotes (trim_space v)) = Inr s"
    using lit by (auto simp: outcome_literal_def split: if_splits option.splits)
  have "set (trim_space v) \<subseteq> set c"
    using set_split_on [OF d(1)] set_trim_by [of is_space d] set_trim_by [of is_space v] cut_at_SomeD [OF kv(2)]
    by (auto simp: trim_space_def)
  with assms(2) have "\<forall>c \<in> set (trim_space v). \<not> is_quote c" by (auto simp: list_all_iff)
  then have "trim_quotes (trim_space v) = trim_space v"
    unfolding trim_quotes_def is_quote_def by (rule trim_by_none)
  moreover have "clause_of (trim_space d) \<in> set (read_condition c)" using d by (auto simp: read_condition_def)
  with assms(3) have "holds out ctx (clause_of (trim_space d))" by (simp add: list_all_iff)
  ultimately show ?thesis using kv by (simp add: clause_of_def canonicalizeCompareValue_def)
qed

section \<open>Regions\<close>

text \<open>
  In a graph that passes the two nesting rules, every node that a branch of a concurrent region can
  come to by following edges before the join is neither a split nor the begin or end of a loop.
\<close>

lemma region_inside_plain:
  assumes "lintNoNestedConcurrentRegions order g = []" and "lintNoLoopsInConcurrentRegions order g = []"
    and "a \<in> set order" "g_nodes g a = Some n" "isConcurrentSplit (node_Shape n)"
    and "findPairedConcurrentJoinID order g a = stop" "stop \<noteq> ''''"
    and "between g a stop x" "x \<noteq> a" "g_nodes g x = Some m"
  shows "shapeToType (node_Shape m) \<notin> {''concurrent.split'', ''loop.begin'', ''loop.end''}"
proof -
  have "x \<noteq> stop" using assms(8) by (cases rule: between.cases) auto
  with assms(6-9) have "x \<in> set (inner_nodes order g a)"
    by (simp add: inner_nodes_def Let_def nodesBetween_exact)
  with assms(1-5,10) have "\<not> isConcurrentSplit (node_Shape m)" "\<not> isLoopBeginShape (node_Shape m)"
      "\<not> isLoopEndShape (node_Shape m)"
    by (fastforce simp: lintNoNestedConcurrentRegions_def lintNoLoopsInConcurrentRegions_def region_rule_def
        filter_empty_conv)+
  then show ?thesis
    by (auto simp: shapeToType_def isConcurrentSplit_def isLoopBeginShape_def isLoopEndShape_def)
qed

section \<open>Properties\<close>

text \<open>
  C39: the reachability rule reports exactly the nodes that no path of edges leads to from the start
  node, for every graph, and its search ends.
\<close>

theorem reachability_exact:
  assumes "wf_graph g" and "dom (g_nodes g) \<subseteq> set order"
  shows "case lintReachability order g of
      None \<Rightarrow> False
    | Some ds \<Rightarrow> (\<exists>d \<in> set ds. d_node d = i) \<longleftrightarrow>
        findStartNodeID order g \<noteq> '''' \<and> g_nodes g i \<noteq> None \<and> \<not> path g (findStartNodeID order g) i"
proof -
  obtain s where s: "reached g (findStartNodeID order g) = Some s"
      "set s = {x. path g (findStartNodeID order g) x}"
    using reached_total [OF assms(1)] by blast
  have "\<And>n. g_nodes g i = Some n \<Longrightarrow> i \<in> set order" using assms(2) by auto
  with s show ?thesis
    by (auto simp: lintReachability_def Let_def node_rule_ids)
qed

definition lint_graph :: graph where
  "lint_graph = add_edges [NewEdge ''start'' ''work'', (NewEdge ''work'' ''exit'')\<lparr>edge_attrs := [''condition'' \<mapsto> ''outcome=success'']\<rparr>]
     (add_nodes [(NewNode ''start'')\<lparr>node_attrs := [''shape'' \<mapsto> ''Mdiamond'']\<rparr>,
        (NewNode ''work'')\<lparr>node_attrs := [''llm_provider'' \<mapsto> ''openai'', ''prompt'' \<mapsto> ''Do it'', ''goal_gate'' \<mapsto> ''true'']\<rparr>,
        (NewNode ''exit'')\<lparr>node_attrs := [''shape'' \<mapsto> ''Msquare'']\<rparr>, NewNode ''island''] (NewGraph ''g''))"

definition lint_order :: "string list" where
  "lint_order = [''work'', ''island'', ''exit'', ''start'']"

lemma wf_lint_graph: "wf_graph lint_graph"
  unfolding lint_graph_def by (intro built_wf built_add_edges built_add_nodes built_graph.new)

lemma lint_nodes: "dom (g_nodes lint_graph) = set lint_order"
  by (auto simp: lint_graph_def dom_add_nodes NewNode_def NewGraph_def lint_order_def)

theorem reachability_exact_witness:
  "case lintReachability lint_order lint_graph of
      None \<Rightarrow> False | Some ds \<Rightarrow> (\<exists>d \<in> set ds. d_node d = ''island'') \<and> \<not> path lint_graph ''start'' ''island''"
proof -
  have start: "findStartNodeID lint_order lint_graph = ''start''" by code_simp
  have "case lintReachability lint_order lint_graph of
      None \<Rightarrow> False | Some ds \<Rightarrow> list_ex (\<lambda>d. d_node d = ''island'') ds"
    by code_simp
  with reachability_exact [OF wf_lint_graph, of lint_order "''island''"] lint_nodes start show ?thesis
    by (auto simp: list_ex_iff split: option.splits)
qed

text \<open>
  what the condition rule accepts is in the language of conditions, up to the literals: the
  condition is a conjunction of clauses whose keys are dotted identifiers and whose literals are not
  empty, and it holds exactly when all its clauses do.
\<close>

theorem accepted_condition_meaning:
  assumes "validateConditionSyntax (trim_space c) = None"
  shows "\<exists>cls. list_all accepted_clause cls \<and> (\<forall>out ctx. Evaluate c out ctx = Inr (list_all (holds out ctx) cls))"
proof (intro exI conjI allI)
  show "list_all accepted_clause (read_condition (trim_space c))"
    using accepted_condition_reads [OF assms] by (auto simp: list_all_iff)
qed (rule Evaluate_reads)

theorem accepted_condition_meaning_witness:
  "\<exists>cls. list_all accepted_clause cls \<and>
     (\<forall>out ctx. Evaluate ''outcome = fail && context.a.b != 2'' out ctx = Inr (list_all (holds out ctx) cls))"
proof (rule accepted_condition_meaning)
  show "validateConditionSyntax (trim_space ''outcome = fail && context.a.b != 2'') = None"
    unfolding Option.is_none_def [symmetric] by code_simp
qed

text \<open>A doubled equality sign is accepted and compares the outcome with a literal that starts with one.\<close>

lemma double_equals_accepted:
  "validateConditionSyntax ''outcome==success'' = None"
  "Evaluate ''outcome==success'' (zero_outcome\<lparr>Status := StatusSuccess\<rparr>) None = Inr False"
proof -
  show "validateConditionSyntax ''outcome==success'' = None"
    unfolding Option.is_none_def [symmetric] by code_simp
  show "Evaluate ''outcome==success'' (zero_outcome\<lparr>Status := StatusSuccess\<rparr>) None = Inr False" by code_simp
qed

text \<open>
  where the exhaustive-pair exemption of the all_conditional_edges rule applies to edges with one
  clause each, some condition holds whatever the stage returns, so the routing has no gap.
\<close>

theorem exhaustive_pair_covers:
  assumes "hasExhaustiveOutcomePair es"
    and "\<forall>e \<in> set es. \<not> contains_sub ''&&'' (edge_cond e) \<and>
      (has_prefix ''outcome!='' (edge_cond e) \<or> \<not> contains_sub ''!='' (edge_cond e))"
  shows "\<exists>e \<in> set es. cond_holds out ctx e"
proof -
  obtain e f v where e: "e \<in> set es" "positive_value (edge_cond e) = Some v"
      and f: "f \<in> set es" "negative_value (edge_cond f) = Some v"
    using assms(1) by (auto simp: hasExhaustiveOutcomePair_def list_ex_iff List.map_filter_def)
  have nonempty: "edge_cond e \<noteq> ''''" "edge_cond f \<noteq> ''''" "\<not> has_prefix ''outcome!='' (edge_cond e)"
    using e(2) f(2) by (auto simp: positive_value_def negative_value_def cut_prefix_def split: if_splits)
  with assms(2) e(1) have "\<not> contains_sub ''!='' (edge_cond e)" by blast
  with positive_reads [OF e(2)] negative_reads [OF f(2)] assms(2) e(1) f(1)
  have "read_condition (edge_cond e) = [Equals ''outcome'' v]" "read_condition (edge_cond f) = [Differs ''outcome'' v]"
    by simp_all
  with e(1) f(1) nonempty show ?thesis by (cases "holds out ctx (Equals ''outcome'' v)") (auto simp: cond_holds_reads)
qed

definition cond_edge :: "string \<Rightarrow> string \<Rightarrow> string \<Rightarrow> edge" where
  "cond_edge a b c = (NewEdge a b)\<lparr>edge_attrs := [''condition'' \<mapsto> c]\<rparr>"

theorem exhaustive_pair_covers_witness:
  "\<exists>e \<in> set [cond_edge ''a'' ''b'' ''outcome=ready'', cond_edge ''a'' ''c'' ''outcome!=ready''].
     cond_holds (zero_outcome\<lparr>Status := ''needs_work''\<rparr>) None e"
proof (rule exhaustive_pair_covers)
  show "hasExhaustiveOutcomePair [cond_edge ''a'' ''b'' ''outcome=ready'', cond_edge ''a'' ''c'' ''outcome!=ready'']"
    by code_simp
  show "\<forall>e \<in> set [cond_edge ''a'' ''b'' ''outcome=ready'', cond_edge ''a'' ''c'' ''outcome!=ready''].
      \<not> contains_sub ''&&'' (edge_cond e) \<and>
      (has_prefix ''outcome!='' (edge_cond e) \<or> \<not> contains_sub ''!='' (edge_cond e))"
    by code_simp
qed

text \<open>Conditions of several clauses are compared as one value, and their pair leaves a gap.\<close>

lemma exhaustive_pair_gap:
  "let es = [cond_edge ''a'' ''b'' ''outcome=ready && context.go=1'', cond_edge ''a'' ''c'' ''outcome!=ready && context.go=1''] in
   hasExhaustiveOutcomePair es \<and> list_all (\<lambda>e. \<not> cond_holds zero_outcome None e) es"
  by code_simp

text \<open>
  where the goal-gate contract rule reports nothing, a condition on an edge from a goal gate to an
  exit that compares the outcome with an unquoted literal lets no stage pass that did not succeed.
\<close>

theorem gate_exit_contract:
  assumes "lintGoalGateExitStatusContract order g = []"
    and "i \<in> set order" "g_nodes g i = Some n" "is_goal_gate n"
    and "e \<in> set (Outgoing g i)" "edge_to e \<in> set (findAllExitNodeIDs order g)"
    and "outcomeEqualsStatuses (edge_cond e) \<noteq> []" "list_all (\<lambda>c. \<not> is_quote c) (edge_cond e)"
    and "cond_holds out ctx e"
  shows "case Canonicalize out of Inl err \<Rightarrow> False | Inr co \<Rightarrow> Status co = StatusSuccess \<or> Status co = StatusPartialSuccess"
proof -
  have ok: "\<forall>s \<in> set (outcomeEqualsStatuses (edge_cond e)). s = StatusSuccess \<or> s = StatusPartialSuccess"
    using assms(1-6) by (fastforce simp: lintGoalGateExitStatusContract_def violates_gate_contract_def
        filter_empty_conv list_ex_iff)
  obtain s where s: "s \<in> set (outcomeEqualsStatuses (edge_cond e))"
    using assms(7) by (meson last_in_set)
  from outcome_equation_decides [OF s assms(8)] assms(9) have "resolveKey ''outcome'' out ctx = s"
    by (simp add: cond_holds_reads)
  moreover from s ok have "IsCanonical s" "s = StatusSuccess \<or> s = StatusPartialSuccess"
    by (auto simp: IsCanonical_def)
  ultimately show ?thesis
    using ParseStageStatus_canonical [of s]
    by (auto simp: resolveKey_def Canonicalize_def split: sum.splits)
qed

lemma lint_gate_edge:
  "length (lintGoalGateExitStatusContract lint_order lint_graph) = 0" "''work'' \<in> set lint_order"
  "length (Outgoing lint_graph ''work'') = 1"
  "edge_to (hd (Outgoing lint_graph ''work'')) \<in> set (findAllExitNodeIDs lint_order lint_graph)"
  "length (outcomeEqualsStatuses (edge_cond (hd (Outgoing lint_graph ''work'')))) = 1"
  "list_all (\<lambda>c. \<not> is_quote c) (edge_cond (hd (Outgoing lint_graph ''work'')))"
  "cond_holds (zero_outcome\<lparr>Status := ''OK''\<rparr>) None (hd (Outgoing lint_graph ''work''))"
  "case g_nodes lint_graph ''work'' of None \<Rightarrow> False | Some n \<Rightarrow> is_goal_gate n"
  by code_simp+

theorem gate_exit_contract_witness:
  "case Canonicalize (zero_outcome\<lparr>Status := ''OK''\<rparr>) of
     Inl err \<Rightarrow> False | Inr co \<Rightarrow> Status co = StatusSuccess \<or> Status co = StatusPartialSuccess"
proof -
  obtain n where n: "g_nodes lint_graph ''work'' = Some n" "is_goal_gate n"
    using lint_gate_edge(8) by (cases "g_nodes lint_graph ''work''") simp_all
  have "lintGoalGateExitStatusContract lint_order lint_graph = []" "Outgoing lint_graph ''work'' \<noteq> []"
      "outcomeEqualsStatuses (edge_cond (hd (Outgoing lint_graph ''work''))) \<noteq> []"
    using lint_gate_edge(1,3,5) by auto
  from gate_exit_contract [OF this(1) lint_gate_edge(2) n hd_in_set [OF this(2)] lint_gate_edge(4) this(3)
      lint_gate_edge(6,7)]
  show ?thesis .
qed

text \<open>
  A quoted literal is read as success by the rule and never matches a success in the evaluator; and
  the rule refuses degraded success, which the engine counts as satisfying a gate.
\<close>

lemma quoted_literal_misread:
  "outcomeEqualsStatuses ''outcome=\"success\"'' = [StatusSuccess]"
  "Evaluate ''outcome=\"success\"'' (zero_outcome\<lparr>Status := StatusSuccess\<rparr>) None = Inr False"
  by code_simp+

lemma degraded_gate_refused:
  "violates_gate_contract (cond_edge ''gate'' ''exit'' ''outcome=degraded_success'')"
  "gate_satisfied (zero_outcome\<lparr>Status := StatusDegradedSuccess\<rparr>)"
  by code_simp+

end
