(* ===== verification/Preparation.thy ===== *)
theory Preparation
  imports PromptRules DotRoundtrip
begin

text \<open>
  From the source text of a pipeline to the first pass of its run:
  PrepareWithOptions with its transforms (\<^verbatim>\<open>engine/engine.go\<close>,
  \<^verbatim>\<open>engine/transforms.go\<close>), the expansion of the placeholders of a prompt
  (\<^verbatim>\<open>engine/input_contract.go\<close>), and the state in which the main loop starts.

  The file system is the argument \<^verbatim>\<open>read\<close>, from the base directory and the path of a prompt
  file to its content; the transforms of the caller are functions on graphs.  Not modelled: git, the
  directories and files a run sets up, its setup commands, and the run and context databases.
\<close>

section \<open>Replacing text\<close>

text \<open>\<^verbatim>\<open>strings.ReplaceAll\<close> for a text that is not empty.\<close>

definition replace_all :: "string \<Rightarrow> string \<Rightarrow> string \<Rightarrow> string" where
  "replace_all old new s = join_with new (split_on old s)"

definition attr_of :: "node \<Rightarrow> string \<Rightarrow> string" where
  "attr_of n key = node_Attr (Some n) key ''''"

text \<open>Replacing a placeholder in one attribute, which is written only if it contains it.\<close>

definition expand_attr :: "string \<Rightarrow> string \<Rightarrow> string \<Rightarrow> node \<Rightarrow> node" where
  "expand_attr placeholder val key n =
     (if contains_sub placeholder (attr_of n key)
      then n\<lparr>node_attrs := (node_attrs n)(key \<mapsto> replace_all placeholder val (attr_of n key))\<rparr> else n)"

definition expand_prompts :: "string \<Rightarrow> string \<Rightarrow> node \<Rightarrow> node" where
  "expand_prompts placeholder val n =
     expand_attr placeholder val ''llm_prompt'' (expand_attr placeholder val ''prompt'' n)"

definition map_nodes :: "(node \<Rightarrow> node) \<Rightarrow> graph \<Rightarrow> graph" where
  "map_nodes f g = g\<lparr>g_nodes := (\<lambda>i. map_option f (g_nodes g i))\<rparr>"

definition expandGoal :: "graph \<Rightarrow> graph" where
  "expandGoal g = (let goal = graph_attr g ''goal'' in
     if goal = '''' then g else map_nodes (expand_prompts ''$goal'' goal) g)"

definition expandBaseSHA :: "string \<Rightarrow> graph \<Rightarrow> graph" where
  "expandBaseSHA sha g = (if sha = '''' then g else map_nodes (expand_prompts ''$base_sha'' sha) g)"

text \<open>
  The inputs of a run, a map listed in the order in which Go ranges over it for the prompt at hand;
  a prompt that is not empty is written back.
\<close>

definition expand_inputs :: "(string \<times> goval) list \<Rightarrow> string \<Rightarrow> string" where
  "expand_inputs vals p = fold (\<lambda>(k, v) p.
     if contains_sub (''$input.'' @ k) p then replace_all (''$input.'' @ k) (sprint v) p else p) vals p"

definition expand_input_attr :: "(string \<times> goval) list \<Rightarrow> string \<Rightarrow> node \<Rightarrow> node" where
  "expand_input_attr vals key n =
     (if attr_of n key = '''' then n
      else n\<lparr>node_attrs := (node_attrs n)(key \<mapsto> expand_inputs vals (attr_of n key))\<rparr>)"

definition ExpandInputVariables ::
  "(string \<Rightarrow> string \<Rightarrow> (string \<times> goval) list) \<Rightarrow> (string \<times> goval) list \<Rightarrow> graph \<Rightarrow> graph" where
  "ExpandInputVariables in_order vals g =
     (if vals = [] then g
      else map_nodes (\<lambda>n. expand_input_attr (in_order (node_id n) ''llm_prompt'') ''llm_prompt''
        (expand_input_attr (in_order (node_id n) ''prompt'') ''prompt'' n)) g)"

section \<open>Prompt files\<close>

datatype prepare_error =
    DotError dot_error
  | PromptFileConflict string
  | PromptFileUnreadable string string
  | StylesheetError style_error "diagnostic list"
  | TransformError string
  | ValidationFailed graph "diagnostic list"
  | SearchOutOfFuel

definition expand_prompt_file :: "(string \<Rightarrow> string option) \<Rightarrow> string \<Rightarrow> graph \<Rightarrow> prepare_error + graph" where
  "expand_prompt_file read i g = (case g_nodes g i of
      None \<Rightarrow> Inr g
    | Some n \<Rightarrow>
        (let pf = node_trim n ''prompt_file'' in
         if pf = '''' then Inr g
         else if node_trim n ''prompt'' \<noteq> '''' \<or> node_trim n ''llm_prompt'' \<noteq> '''' then
           Inl (PromptFileConflict (node_id n))
         else (case read pf of
             None \<Rightarrow> Inl (PromptFileUnreadable (node_id n) pf)
           | Some text \<Rightarrow> Inr (g\<lparr>g_nodes := (g_nodes g)(i \<mapsto>
               n\<lparr>node_attrs := (node_attrs n)(''prompt'' \<mapsto> text, ''prompt_file'' := None)\<rparr>)\<rparr>))))"

fun expand_prompt_files :: "(string \<Rightarrow> string option) \<Rightarrow> string list \<Rightarrow> graph \<Rightarrow> prepare_error + graph" where
  "expand_prompt_files read [] g = Inr g"
| "expand_prompt_files read (i # is) g = (case expand_prompt_file read i g of
      Inl err \<Rightarrow> Inl err
    | Inr g' \<Rightarrow> expand_prompt_files read is g')"

definition expandPromptFiles ::
  "(string \<Rightarrow> string \<Rightarrow> string option) \<Rightarrow> string list \<Rightarrow> graph \<Rightarrow> string \<Rightarrow> prepare_error + graph" where
  "expandPromptFiles read order g repoPath =
     (if repoPath = '''' then Inr g else expand_prompt_files (read repoPath) order g)"

section \<open>Prepare\<close>

record prepare_options =
  po_transforms :: "(graph \<Rightarrow> string + graph) option list"
  po_repo_path :: string
  po_graph_dir :: string
  po_known_types :: "string list"

text \<open>What the environment contributes: file contents and the orders of ranges over maps.\<close>

record prepare_env =
  pe_read :: "string \<Rightarrow> string \<Rightarrow> string option"
  pe_file_order :: "string list"
  pe_rule_order :: "string \<Rightarrow> string list"

fun apply_transforms :: "(graph \<Rightarrow> string + graph) option list \<Rightarrow> graph \<Rightarrow> prepare_error + graph" where
  "apply_transforms [] g = Inr g"
| "apply_transforms (None # ts) g = apply_transforms ts g"
| "apply_transforms (Some t # ts) g = (case t g of
      Inl err \<Rightarrow> Inl (TransformError err) | Inr g' \<Rightarrow> apply_transforms ts g')"

definition apply_model_stylesheet :: "graph \<Rightarrow> prepare_error + graph" where
  "apply_model_stylesheet g =
     (let raw = trim_space (graph_attr g ''model_stylesheet'') in
      if raw = '''' then Inr g
      else (case ParseStylesheet raw of
          Inl err \<Rightarrow> Inl (StylesheetError err [graph_diag ''stylesheet_syntax'' SeverityError])
        | Inr rules \<Rightarrow> (case ApplyStylesheet (Some g) rules of Inl err \<Rightarrow> Inr g | Inr g' \<Rightarrow> Inr g')))"

definition validate_prepared :: "prepare_env \<Rightarrow> string list \<Rightarrow> graph \<Rightarrow> prepare_error + graph \<times> diagnostic list" where
  "validate_prepared pe knownTypes g =
     (let extra = (if knownTypes = [] then [] else [type_known_rule knownTypes (pe_rule_order pe ''type_known'')]) in
      case ValidateWithOptions (pe_rule_order pe) extra (Some g) of
        None \<Rightarrow> Inl SearchOutOfFuel
      | Some diags \<Rightarrow> if list_ex is_error diags then Inl (ValidationFailed g diags) else Inr (g, diags))"

text \<open>The built-in transforms in their order: prompt files, stylesheet, goal.\<close>

definition transform_graph :: "prepare_env \<Rightarrow> prepare_options \<Rightarrow> graph \<Rightarrow> prepare_error + graph" where
  "transform_graph pe opts g =
     (let base = (if po_graph_dir opts = '''' then po_repo_path opts else po_graph_dir opts) in
      case (if base \<noteq> '''' then expandPromptFiles (pe_read pe) (pe_file_order pe) g base else Inr g) of
        Inl err \<Rightarrow> Inl err
      | Inr g1 \<Rightarrow> (case apply_model_stylesheet g1 of
          Inl err \<Rightarrow> Inl err
        | Inr g2 \<Rightarrow> apply_transforms (po_transforms opts) (expandGoal g2)))"

definition PrepareWithOptions ::
  "prepare_env \<Rightarrow> prepare_options \<Rightarrow> string \<Rightarrow> prepare_error + graph \<times> diagnostic list" where
  "PrepareWithOptions pe opts src = (case Parse src of
      Inl err \<Rightarrow> Inl (DotError err)
    | Inr g \<Rightarrow> (case transform_graph pe opts g of
        Inl err \<Rightarrow> Inl err
      | Inr g' \<Rightarrow> validate_prepared pe (po_known_types opts) g'))"

section \<open>The start of a run\<close>

definition InjectInputsIntoContext :: "run_context \<Rightarrow> (string \<times> goval) list \<Rightarrow> run_context" where
  "InjectInputsIntoContext c vals =
     (if vals = [] then c
      else ctx_Set (fold (\<lambda>(k, v) c. ctx_Set c (''input.'' @ k) v) vals c) ''inputs'' (VMap vals))"

text \<open>The graph attributes mirrored into the context, the goal and the base commit; then the inputs.\<close>

definition run_context_start :: "graph \<Rightarrow> string \<Rightarrow> (string \<times> goval) list \<Rightarrow> run_context" where
  "run_context_start g sha vals =
     (let attrs = (\<lambda>k. if has_prefix ''graph.'' k then map_option VStr (g_attrs g (drop 6 k)) else None);
          c1 = NewContext\<lparr>ctx_values := attrs\<rparr>;
          c2 = ctx_Set c1 ''graph.goal'' (VStr (graph_attr g ''goal''));
          c3 = ctx_Set c2 ''base_sha'' (VStr sha)
      in InjectInputsIntoContext c3 vals)"

definition run_graph ::
  "(string \<Rightarrow> string \<Rightarrow> (string \<times> goval) list) \<Rightarrow> (string \<times> goval) list \<Rightarrow> string \<Rightarrow> graph \<Rightarrow> graph" where
  "run_graph in_order vals sha g = expandBaseSHA sha (ExpandInputVariables in_order vals g)"

text \<open>The start node and the state of the first pass, or no start node.\<close>

definition start_run :: "string list \<Rightarrow> graph \<Rightarrow> string \<Rightarrow> (string \<times> goval) list \<Rightarrow> run_state option" where
  "start_run order g sha vals =
     (let start = findStartNodeID order g in
      if start = '''' then None else Some (initial_state start (run_context_start g sha vals)))"

end
