(* ===== verification/PreparationFacts.thy ===== *)
theory PreparationFacts
  imports Preparation
begin

text \<open>
  What the preparation of a pipeline does to its text and to its graph: the expansion of placeholders,
  the parts of the graph that every transform leaves alone, and well-formedness from the source text
  to the graph of the run.
\<close>

section \<open>Replacement\<close>

lemma split_on_Cons:
  assumes "sep \<noteq> []" "\<not> has_prefix sep (x # s)"
  shows "\<exists>w ws. split_on sep s = w # ws \<and> split_on sep (x # s) = (x # w) # ws"
  using assms by (cases "cut_at sep s") (auto simp: split_on.simps [of sep "x # s"] split_on.simps [of sep s] split: prod.splits)

lemma replace_all_Cons:
  "old \<noteq> [] \<Longrightarrow> \<not> has_prefix old (x # s) \<Longrightarrow> replace_all old new (x # s) = x # replace_all old new s"
  by (drule (1) split_on_Cons) (auto simp: replace_all_def join_with_Cons_hd)

lemma has_prefix_hd: "has_prefix (p # ps) (x # s) \<Longrightarrow> p = x"
  by simp

lemma replace_all_text:
  "hd old \<notin> set t \<Longrightarrow> old \<noteq> [] \<Longrightarrow> replace_all old new (t @ s) = t @ replace_all old new s"
proof (induction t)
  case (Cons x t)
  then have "\<not> has_prefix old (x # t @ s)" by (cases old) auto
  with Cons show ?case by (simp add: replace_all_Cons)
qed simp

lemma split_on_nonempty [simp]: "split_on sep s \<noteq> []"
  by (simp add: split_on.simps split: option.split prod.split)

lemma replace_all_found: "old \<noteq> [] \<Longrightarrow> replace_all old new (old @ s) = new @ replace_all old new s"
proof -
  assume "old \<noteq> []"
  then have "split_on old (old @ s) = [] # split_on old s"
    using split_on_append [of old "[]" s] not_contains_short [of "butlast old" old] by simp
  then show ?thesis by (simp add: replace_all_def join_with_Cons)
qed

lemma replace_all_absent: "old \<noteq> [] \<Longrightarrow> \<not> contains_sub old s \<Longrightarrow> replace_all old new s = s"
  by (simp add: replace_all_def split_on_none)

section \<open>Prompts as templates\<close>

text \<open>A prompt as a sequence of literal text and placeholders for inputs.\<close>

datatype piece = Text string | Hole string

fun render :: "piece list \<Rightarrow> string" where
  "render [] = ''''"
| "render (Text t # ps) = t @ render ps"
| "render (Hole k # ps) = ''$input.'' @ k @ render ps"

fun fill :: "(string \<rightharpoonup> goval) \<Rightarrow> piece list \<Rightarrow> piece list" where
  "fill vals [] = []"
| "fill vals (Text t # ps) = Text t # fill vals ps"
| "fill vals (Hole k # ps) = (case vals k of Some v \<Rightarrow> Text (sprint v) | None \<Rightarrow> Hole k) # fill vals ps"

fun hole_keys :: "piece list \<Rightarrow> string set" where
  "hole_keys [] = {}"
| "hole_keys (Text t # ps) = hole_keys ps"
| "hole_keys (Hole k # ps) = insert k (hole_keys ps)"

definition plain_piece :: "piece \<Rightarrow> bool" where
  "plain_piece p \<longleftrightarrow> CHR ''$'' \<notin> set (case p of Text t \<Rightarrow> t | Hole k \<Rightarrow> k)"

definition prefix_free :: "string set \<Rightarrow> bool" where
  "prefix_free ks \<longleftrightarrow> (\<forall>k \<in> ks. \<forall>k' \<in> ks. has_prefix k k' \<longrightarrow> k = k')"

lemma prefix_free_subset: "prefix_free ks \<Longrightarrow> ks' \<subseteq> ks \<Longrightarrow> prefix_free ks'"
  unfolding prefix_free_def by blast

lemma prefix_of_append:
  "has_prefix k (k' @ s) \<Longrightarrow> has_prefix k k' \<or> has_prefix k' k"
  by (auto simp: has_prefix_append_iff append_eq_append_conv2)

lemma replace_hole:
  assumes "prefix_free (insert k (hole_keys ps))" "list_all plain_piece ps"
  shows "replace_all (''$input.'' @ k) (sprint v) (render ps) = render (fill [k \<mapsto> v] ps)"
  using assms
proof (induction ps rule: render.induct)
  case 1
  then show ?case by (simp add: replace_all_absent)
next
  case (2 t ps)
  then show ?case by (simp add: plain_piece_def replace_all_text [of "''$input.'' @ k", simplified])
next
  case (3 k' ps)
  have "prefix_free (insert k (hole_keys ps))" by (rule prefix_free_subset [OF 3(2)]) auto
  with 3 have IH: "replace_all (''$input.'' @ k) (sprint v) (render ps) = render (fill [k \<mapsto> v] ps)"
    by (simp del: fun_upd_apply)
  show ?case
  proof (cases "k' = k")
    case True
    moreover have "[k \<mapsto> v] k = Some v" by simp
    ultimately show ?thesis using replace_all_found [of "''$input.'' @ k" "sprint v" "render ps"] IH
      by (simp del: fun_upd_apply)
  next
    case False
    with 3(2) have "\<not> has_prefix k k'" "\<not> has_prefix k' k" by (auto simp: prefix_free_def)
    then have "\<not> has_prefix (''$input.'' @ k) (CHR ''$'' # ''input.'' @ k' @ render ps)"
      using prefix_of_append by auto
    moreover have "CHR ''$'' \<notin> set (''input.'' @ k')" using 3(3) by (simp add: plain_piece_def)
    moreover have "[k \<mapsto> v] k' = None" using False by simp
    ultimately show ?thesis
      using False IH replace_all_text [of "''$input.'' @ k" "''input.'' @ k'" "sprint v" "render ps"]
        replace_all_Cons [of "''$input.'' @ k" "CHR ''$''" "''input.'' @ k' @ render ps" "sprint v"]
      by (simp del: fun_upd_apply)
  qed
qed

lemma fill_fill: "fill m (fill [k \<mapsto> v] ps) = fill (m(k \<mapsto> v)) ps"
  by (induction "[k \<mapsto> v]" ps rule: fill.induct) auto

lemma fill_plain:
  "list_all plain_piece ps \<Longrightarrow> CHR ''$'' \<notin> set (sprint v) \<Longrightarrow> list_all plain_piece (fill [k \<mapsto> v] ps)"
  by (induction "[k \<mapsto> v]" ps rule: fill.induct) (auto simp: plain_piece_def)

lemma hole_keys_fill: "hole_keys (fill m ps) \<subseteq> hole_keys ps"
  by (induction m ps rule: fill.induct) (auto split: option.splits)

lemma expand_inputs_fill:
  assumes "prefix_free (fst ` set vals \<union> hole_keys ps)" "list_all plain_piece ps"
    and "\<forall>(k, v) \<in> set vals. CHR ''$'' \<notin> set (sprint v)"
  shows "expand_inputs vals (render ps) = render (fill (map_of vals) ps)"
  using assms
proof (induction vals arbitrary: ps)
  case Nil
  have "fill Map.empty ps = ps" by (induction "Map.empty :: string \<rightharpoonup> goval" ps rule: fill.induct) auto
  then show ?case by (simp add: expand_inputs_def)
next
  case (Cons kv vals)
  obtain k v where kv: "kv = (k, v)" by (cases kv)
  let ?p = "''$input.'' @ k"
  have "(if contains_sub ?p (render ps) then replace_all ?p (sprint v) (render ps) else render ps) =
      replace_all ?p (sprint v) (render ps)"
    using replace_all_absent [of ?p "render ps" "sprint v"] by simp
  also have "\<dots> = render (fill [k \<mapsto> v] ps)"
    using Cons.prems(2) prefix_free_subset [OF Cons.prems(1), of "insert k (hole_keys ps)"] kv
    by (intro replace_hole) auto
  finally have "expand_inputs (kv # vals) (render ps) = expand_inputs vals (render (fill [k \<mapsto> v] ps))"
    by (simp add: expand_inputs_def kv)
  also have "\<dots> = render (fill (map_of vals) (fill [k \<mapsto> v] ps))"
    using Cons.prems(2,3) kv hole_keys_fill [of "[k \<mapsto> v]" ps]
      prefix_free_subset [OF Cons.prems(1), of "fst ` set vals \<union> hole_keys (fill [k \<mapsto> v] ps)"]
    by (intro Cons.IH fill_plain) auto
  finally show ?case by (simp add: fill_fill kv del: fun_upd_apply)
qed

section \<open>What transforms leave alone\<close>

text \<open>
  Two graphs with the same edges and attributes, and with the same nodes up to the prompts.
\<close>

definition same_but_prompts :: "node \<Rightarrow> node \<Rightarrow> bool" where
  "same_but_prompts n m \<longleftrightarrow> node_id m = node_id n \<and> node_classes m = node_classes n \<and>
     (\<forall>key. key \<noteq> ''prompt'' \<longrightarrow> key \<noteq> ''llm_prompt'' \<longrightarrow> node_attrs m key = node_attrs n key)"

definition same_structure :: "graph \<Rightarrow> graph \<Rightarrow> bool" where
  "same_structure g h \<longleftrightarrow> g_attrs h = g_attrs g \<and> g_edges h = g_edges g \<and> g_outgoing h = g_outgoing g \<and>
     g_incoming h = g_incoming g \<and> (\<forall>i. rel_option same_but_prompts (g_nodes g i) (g_nodes h i))"

lemma same_but_prompts_refl [simp]: "same_but_prompts n n"
  by (simp add: same_but_prompts_def)

lemma same_structure_refl [simp]: "same_structure g g"
  by (auto simp: same_structure_def option.rel_refl)

lemma same_structure_trans [trans]: "same_structure g h \<Longrightarrow> same_structure h k \<Longrightarrow> same_structure g k"
proof -
  have "rel_option same_but_prompts x z" if "rel_option same_but_prompts x y" "rel_option same_but_prompts y z" for x y z
    using that by (cases x; cases y; cases z) (auto simp: same_but_prompts_def)
  then show "same_structure g h \<Longrightarrow> same_structure h k \<Longrightarrow> same_structure g k"
    unfolding same_structure_def by metis
qed

lemma map_nodes_structure: "(\<And>n. same_but_prompts n (f n)) \<Longrightarrow> same_structure g (map_nodes f g)"
  by (simp add: same_structure_def map_nodes_def option.rel_map option.rel_refl)

lemma expand_prompts_same: "same_but_prompts n (expand_prompts placeholder val n)"
  by (simp add: expand_prompts_def expand_attr_def same_but_prompts_def)

lemma expand_input_same:
  "same_but_prompts n (expand_input_attr vals ''llm_prompt'' (expand_input_attr vals' ''prompt'' n))"
  by (simp add: expand_input_attr_def same_but_prompts_def)

lemma expandGoal_structure: "same_structure g (expandGoal g)"
  by (simp add: expandGoal_def Let_def map_nodes_structure expand_prompts_same)

lemma run_graph_structure: "same_structure g (run_graph in_order vals sha g)"
proof -
  have "same_structure g (ExpandInputVariables in_order vals g)"
    by (simp add: ExpandInputVariables_def map_nodes_structure expand_input_same)
  also have "same_structure \<dots> (expandBaseSHA sha \<dots>)"
    by (simp add: expandBaseSHA_def map_nodes_structure expand_prompts_same)
  finally show ?thesis by (simp add: run_graph_def)
qed

lemma same_structure_None: "same_structure g h \<Longrightarrow> g_nodes h i = None \<longleftrightarrow> g_nodes g i = None"
  unfolding same_structure_def by (metis option.rel_distinct(1,2) option.exhaust)

lemma same_structure_Some:
  "same_structure g h \<Longrightarrow> g_nodes h i = Some m \<Longrightarrow> \<exists>n. g_nodes g i = Some n \<and> same_but_prompts n m"
  unfolding same_structure_def by (metis option_rel_Some2)

lemma same_but_prompts_Attr:
  "same_but_prompts n m \<Longrightarrow> key \<noteq> ''prompt'' \<Longrightarrow> key \<noteq> ''llm_prompt'' \<Longrightarrow> node_Attr (Some m) key d = node_Attr (Some n) key d"
  by (simp add: same_but_prompts_def node_Attr_def)

lemma wf_same_structure: "wf_graph g \<Longrightarrow> same_structure g h \<Longrightarrow> wf_graph h"
proof -
  assume wf: "wf_graph g" and same: "same_structure g h"
  have "dom (g_nodes h) = dom (g_nodes g)" using same_structure_None [OF same] by (simp add: dom_def)
  moreover have "g_nodes h i = Some n \<Longrightarrow> node_id n = i" for i n
    using same_structure_Some [OF same] wf by (fastforce simp: wf_graph_def same_but_prompts_def)
  moreover have "g_nodes h '''' = None" using same_structure_None [OF same] wf by (simp add: wf_graph_def)
  ultimately show ?thesis using wf same by (auto simp: wf_graph_def same_structure_def)
qed

section \<open>Well-formedness\<close>

lemma wf_expand_prompt_file: "wf_graph g \<Longrightarrow> expand_prompt_file read i g = Inr g' \<Longrightarrow> wf_graph g'"
  by (auto simp: expand_prompt_file_def wf_graph_def Let_def split: option.splits if_splits)

lemma wf_expand_prompt_files: "wf_graph g \<Longrightarrow> expand_prompt_files read is g = Inr g' \<Longrightarrow> wf_graph g'"
  by (induction "read" "is" g rule: expand_prompt_files.induct) (auto split: sum.splits dest: wf_expand_prompt_file)

lemma applyToNode_id: "node_id (applyToNode gr rules n) = node_id n"
proof -
  have "node_id (fold (apply_prop gr rules) ps n) = node_id n" for ps
    by (induction ps arbitrary: n) (auto simp: apply_prop_def split: prod.splits option.splits if_splits)
  then show ?thesis by (simp add: applyToNode_def)
qed

lemma wf_ApplyStylesheet: "wf_graph g \<Longrightarrow> ApplyStylesheet (Some g) rules = Inr g' \<Longrightarrow> wf_graph g'"
  by (auto simp: ApplyStylesheet_def wf_graph_def applyToNode_id dom_def split: if_splits)

lemma wf_apply_model_stylesheet: "wf_graph g \<Longrightarrow> apply_model_stylesheet g = Inr g' \<Longrightarrow> wf_graph g'"
  by (auto simp: apply_model_stylesheet_def Let_def dest: wf_ApplyStylesheet split: if_splits sum.splits)

text \<open>The transforms of a caller keep graphs well-formed; a run has none.\<close>

definition good_transforms :: "prepare_options \<Rightarrow> bool" where
  "good_transforms opts \<longleftrightarrow>
     (\<forall>t g h. Some t \<in> set (po_transforms opts) \<longrightarrow> wf_graph g \<longrightarrow> t g = Inr h \<longrightarrow> wf_graph h)"

lemma wf_apply_transforms:
  assumes "\<And>t g h. Some t \<in> set ts \<Longrightarrow> wf_graph g \<Longrightarrow> t g = Inr h \<Longrightarrow> wf_graph h"
    and "wf_graph g" "apply_transforms ts g = Inr g'"
  shows "wf_graph g'"
  using assms
proof (induction ts g rule: apply_transforms.induct)
  case (3 t ts g)
  show ?case
  proof (cases "t g")
    case (Inr h)
    have h: "wf_graph h" using Inr 3(3) by (intro 3(2) [of t g h]) simp_all
    have rest: "apply_transforms ts h = Inr g'" using 3(4) Inr by simp
    show ?thesis
    proof (rule 3(1) [OF Inr _ h rest])
      show "wf_graph h'" if "Some u \<in> set ts" "wf_graph k" "u k = Inr h'" for u k h'
        using that by (intro 3(2) [of u k h']) simp_all
    qed
  qed (use 3(4) in simp)
qed simp_all

lemma wf_transform_graph:
  assumes "wf_graph g" "good_transforms opts" "transform_graph pe opts g = Inr g'"
  shows "wf_graph g'"
proof -
  obtain g1 g2 where g1: "g1 = g \<or> (\<exists>base. expandPromptFiles (pe_read pe) (pe_file_order pe) g base = Inr g1)"
      and g2: "apply_model_stylesheet g1 = Inr g2" "apply_transforms (po_transforms opts) (expandGoal g2) = Inr g'"
    using assms(3) by (auto simp: transform_graph_def Let_def split: if_splits sum.splits)
  from g1 assms(1) have "wf_graph g1"
    by (auto simp: expandPromptFiles_def split: if_splits dest: wf_expand_prompt_files)
  then have "wf_graph (expandGoal g2)"
    using wf_same_structure [OF _ expandGoal_structure] wf_apply_model_stylesheet g2(1) by blast
  with g2(2) assms(2) show ?thesis
    unfolding good_transforms_def by (blast intro: wf_apply_transforms)
qed

lemma PrepareWithOptions_Inr:
  assumes "PrepareWithOptions pe opts src = Inr (g, diags)" "good_transforms opts"
  shows "wf_graph g" "\<forall>d \<in> set diags. \<not> is_error d"
    "\<exists>extra. ValidateWithOptions (pe_rule_order pe) extra (Some g) = Some diags"
proof -
  obtain g0 where p: "Parse src = Inr g0" "transform_graph pe opts g0 = Inr g"
      and v: "validate_prepared pe (po_known_types opts) g = Inr (g, diags)"
    using assms(1) by (auto simp: PrepareWithOptions_def validate_prepared_def Let_def
        split: sum.splits option.splits if_splits)
  have "wf_graph g0" using fine_Parse [of src] p(1) by (simp add: fine_def)
  then show "wf_graph g" by (rule wf_transform_graph [OF _ assms(2) p(2)])
  from v show "\<forall>d \<in> set diags. \<not> is_error d"
    by (auto simp: validate_prepared_def Let_def list_ex_iff split: option.splits if_splits)
  from v show "\<exists>extra. ValidateWithOptions (pe_rule_order pe) extra (Some g) = Some diags"
    by (auto simp: validate_prepared_def Let_def split: option.splits if_splits)
qed

section \<open>Inputs in prompts\<close>

lemma expand_inputs_empty: "expand_inputs vals '''' = ''''"
  by (induction vals) (auto simp: expand_inputs_def)

lemma attr_expand_input_attr:
  "attr_of (expand_input_attr vals key n) key' =
    (if key = key' then expand_inputs vals (attr_of n key) else attr_of n key')"
  by (auto simp: expand_input_attr_def attr_of_def node_Attr_def expand_inputs_empty split: option.splits)

lemma expand_inputs_any_order:
  assumes "distinct (map fst vals)" "distinct (map fst vals')" "set vals' = set vals"
    and "prefix_free (fst ` set vals \<union> hole_keys ps)" "list_all plain_piece ps"
    and "\<forall>(k, v) \<in> set vals. CHR ''$'' \<notin> set (sprint v)"
  shows "expand_inputs vals' (render ps) = render (fill (map_of vals) ps)"
  using assms expand_inputs_fill [of vals' ps] map_of_eqI [of vals' vals]
  by (metis list.set_map map_of_inject_set)

text \<open>
  where no input name is a prefix of another or of a placeholder, and no value holds a dollar
  sign, every placeholder of a prompt becomes the value of its input and the rest stays, whatever the
  order in which the map of inputs is ranged over.
\<close>

theorem input_expansion_exact:
  assumes "distinct (map fst vals)"
    and "\<forall>i key. distinct (map fst (in_order i key)) \<and> set (in_order i key) = set vals"
    and "prefix_free (fst ` set vals \<union> hole_keys ps)" "list_all plain_piece ps"
    and "\<forall>(k, v) \<in> set vals. CHR ''$'' \<notin> set (sprint v)"
    and "g_nodes g i = Some n" "attr_of n ''prompt'' = render ps"
  shows "\<exists>m. g_nodes (ExpandInputVariables in_order vals g) i = Some m \<and>
    attr_of m ''prompt'' = render (fill (map_of vals) ps)"
proof (cases "vals = []")
  case True
  with expand_inputs_fill [of vals ps] assms show ?thesis
    by (simp add: ExpandInputVariables_def expand_inputs_def)
next
  case False
  with assms expand_inputs_any_order show ?thesis
    by (simp add: ExpandInputVariables_def map_nodes_def attr_expand_input_attr)
qed

theorem input_expansion_exact_witness:
  "\<exists>m. g_nodes (ExpandInputVariables (\<lambda>i k. if i = ''a'' then [(''pr'', VInt 7), (''repo'', VStr ''x'')]
       else [(''repo'', VStr ''x''), (''pr'', VInt 7)]) [(''repo'', VStr ''x''), (''pr'', VInt 7)]
      (add_nodes [(NewNode ''a'')\<lparr>node_attrs := [''prompt'' \<mapsto> ''see $input.pr of $input.repo'']\<rparr>] (NewGraph ''g''))) ''a'' = Some m \<and>
    attr_of m ''prompt'' = ''see 7 of x''"
proof -
  let ?n = "(NewNode ''a'')\<lparr>node_attrs := [''prompt'' \<mapsto> ''see $input.pr of $input.repo'']\<rparr>"
  let ?g = "add_nodes [?n] (NewGraph ''g'')"
  let ?ps = "[Text ''see '', Hole ''pr'', Text '' of '', Hole ''repo'']"
  let ?vals = "[(''repo'', VStr ''x''), (''pr'', VInt 7)]"
  let ?order = "\<lambda>(i::string) (k::string). if i = ''a'' then [(''pr'', VInt 7), (''repo'', VStr ''x'')]
       else [(''repo'', VStr ''x''), (''pr'', VInt 7)]"
  have filled: "render (fill (map_of ?vals) ?ps) = ''see 7 of x''" "list_all plain_piece ?ps" by code_simp+
  have node: "g_nodes ?g ''a'' = Some ?n" by (simp add: add_nodes_def AddNode_def NewNode_def NewGraph_def)
  have "prefix_free (fst ` set ?vals \<union> hole_keys ?ps)" by (simp add: prefix_free_def)
  moreover have "CHR ''$'' \<notin> set (sprint (VInt 7))" by code_simp
  moreover have "attr_of ?n ''prompt'' = render ?ps" by code_simp
  moreover have "\<forall>i key. distinct (map fst (?order i key)) \<and> set (?order i key) = set ?vals" by auto
  ultimately show ?thesis
    using input_expansion_exact [of ?vals ?order ?ps ?g "''a''" ?n] filled node by simp
qed

text \<open>
  With an input that is a prefix of another the prompt depends on the order of the map.
\<close>

lemma input_prefix_clash:
  "expand_inputs [(''pr_number'', VStr ''7''), (''pr'', VStr ''x'')] ''$input.pr_number'' = ''7''"
  "expand_inputs [(''pr'', VStr ''x''), (''pr_number'', VStr ''7'')] ''$input.pr_number'' = ''x_number''"
  by code_simp+

end
