(* ===== verification/ValidatedRuns.thy ===== *)
theory ValidatedRuns
  imports PreparationFacts ValidateFacts RunSafety Concurrent
begin

text \<open>
  What validation buys a run: the nodes the main loop and the branches of a concurrent region can come
  to in a graph that PrepareWithOptions accepts.
\<close>

section \<open>Diagnostics of an accepted graph\<close>

definition edges_closed :: "graph \<Rightarrow> bool" where
  "edges_closed g \<longleftrightarrow> (\<forall>e \<in> set (g_edges g). g_nodes g (edge_from e) \<noteq> None \<and> g_nodes g (edge_to e) \<noteq> None)"

lemma lintEdgeTargets_closed:
  assumes "\<forall>d \<in> set (lintEdgeTargetsExist g). \<not> is_error d"
  shows "edges_closed g"
  unfolding edges_closed_def
proof (intro ballI conjI notI)
  fix e
  assume e: "e \<in> set (g_edges g)"
  let ?d = "edge_diag ''edge_target_exists'' SeverityError e"
  have "is_error ?d" by (simp add: is_error_def)
  moreover have "g_nodes g (edge_from e) = None \<Longrightarrow> ?d \<in> set (lintEdgeTargetsExist g)"
    using e by (auto simp: lintEdgeTargetsExist_def)
  moreover have "g_nodes g (edge_to e) = None \<Longrightarrow> ?d \<in> set (lintEdgeTargetsExist g)"
    using e by (auto simp: lintEdgeTargetsExist_def)
  ultimately show "g_nodes g (edge_from e) = None \<Longrightarrow> False" "g_nodes g (edge_to e) = None \<Longrightarrow> False"
    using assms by blast+
qed

lemma Validate_parts:
  assumes "ValidateWithOptions ord extra (Some g) = Some diags"
  shows "set (lintStartNode (ord ''start_node'') g) \<subseteq> set diags" "set (lintEdgeTargetsExist g) \<subseteq> set diags"
    "set (lintRetryTargetsExist (ord ''retry_target_exists'') g) \<subseteq> set diags"
    "set (lintNoNestedConcurrentRegions (ord ''no_nested_concurrent_regions'') g) \<subseteq> set diags"
    "set (lintNoLoopsInConcurrentRegions (ord ''no_loops_in_concurrent_regions'') g) \<subseteq> set diags"
  using assms by (auto simp: ValidateWithOptions_def)

lemma find_holds: "find P xs = Some x \<Longrightarrow> P x"
  by (induction xs) (auto split: if_splits)

lemma find_in: "find P xs = Some x \<Longrightarrow> x \<in> set xs"
  by (induction xs) (auto split: if_splits)

text \<open>The start node the engine finds is a node of the graph.\<close>

lemma accepted_start:
  assumes "\<forall>d \<in> set (lintStartNode order g). \<not> is_error d" "dom (g_nodes g) \<subseteq> set order'" "wf_graph g"
  shows "findStartNodeID order' g \<noteq> '''' \<and> g_nodes g (findStartNodeID order' g) \<noteq> None"
proof -
  let ?P = "\<lambda>i. case g_nodes g i of None \<Rightarrow> False | Some n \<Rightarrow> node_Shape n \<in> {''Mdiamond'', ''circle''}"
  let ?Q = "\<lambda>i. g_nodes g i \<noteq> None \<and> equal_fold i ''start''"
  have "filter (\<lambda>(i, n). start_shape n \<or> equal_fold i ''start'') (ranged order g) \<noteq> []"
    using assms(1) by (auto simp: lintStartNode_def is_error_def split: if_splits)
  then obtain i n where i: "g_nodes g i = Some n" "start_shape n \<or> equal_fold i ''start''"
    by (auto simp: filter_empty_conv)
  then have "i \<in> set order'" "?P i \<or> ?Q i" using assms(2) by (auto simp: start_shape_def)
  then have found: "find ?P order' \<noteq> None \<or> find ?Q order' \<noteq> None" by (auto simp: find_None_iff)
  have "\<exists>j. findStartNodeID order' g = j \<and> g_nodes g j \<noteq> None"
  proof (cases "find ?P order'")
    case (Some j)
    then have "?P j" by (rule find_holds)
    then have "g_nodes g j \<noteq> None" by (auto split: option.splits)
    with Some show ?thesis by (simp add: findStartNodeID_def)
  next
    case None
    with found obtain j where j: "find ?Q order' = Some j" by auto
    then have "?Q j" by (rule find_holds)
    with None j show ?thesis by (simp add: findStartNodeID_def)
  qed
  then show ?thesis using assms(3) by (auto simp: wf_graph_def)
qed

section \<open>Nodes of a run\<close>

text \<open>Where the main loop may go beside the ends of edges: retry targets and the join of an explicit parallel node.\<close>

definition is_retry_target :: "graph \<Rightarrow> string \<Rightarrow> bool" where
  "is_retry_target g i \<longleftrightarrow> i \<noteq> '''' \<and> (\<exists>j. resolveRetryTarget (Some g) j = i)"

definition has_parallel_node :: "graph \<Rightarrow> bool" where
  "has_parallel_node g \<longleftrightarrow> (\<exists>i n. g_nodes g i = Some n \<and> is_parallel_node n)"

definition good_place :: "graph \<Rightarrow> string \<Rightarrow> bool" where
  "good_place g i \<longleftrightarrow> g_nodes g i \<noteq> None \<or> is_retry_target g i \<or> has_parallel_node g"

lemma outgoing_place:
  "wf_graph g \<Longrightarrow> edges_closed g \<Longrightarrow> e \<in> set (Outgoing g i) \<Longrightarrow> good_place g (edge_to e)"
  by (auto simp: Outgoing_filter edges_closed_def good_place_def)

lemma matching_outgoing:
  assumes "selectMatchingConditionalEdge g i out ctx = Inr (Some e, meta)"
  shows "e \<in> set (Outgoing g i)"
proof -
  let ?m = "filter (cond_holds out ctx) (Outgoing g i)"
  have "?m \<noteq> []" "e = bestEdge ?m"
    using assms by (auto simp: selectMatchingConditionalEdge_def matchedEdges_filter Let_def split: if_splits)
  with bestEdge_least(1) [of ?m] show ?thesis by auto
qed

lemma next_hop_place:
  assumes "wf_graph g" "edges_closed g" "resolveNextHop (Some g) i out ctx cls = Inr (Some hop)"
  shows "good_place g (edge_to (hop_edge hop))"
proof (cases "isFanInFailureLike g (trim_space i) (Status out)")
  case True
  obtain r m where sel: "selectMatchingConditionalEdge g (trim_space i) out ctx = Inr (r, m)"
    using assms(3) True by (auto simp: resolveNextHop_def Let_def split: if_splits sum.splits prod.splits)
  show ?thesis
  proof (cases r)
    case None
    obtain target source where target: "resolveRetryTargetWithSource (Some g) (trim_space i) = (target, source)"
      by fastforce
    with assms(3) True sel None have "edge_to (hop_edge hop) = target" "target \<noteq> ''''"
      by (auto simp: resolveNextHop_def Let_def synthetic_retry_edge_def NewEdge_def split: if_splits)
    moreover have "resolveRetryTarget (Some g) (trim_space i) = target"
      by (simp add: resolveRetryTarget_def target)
    ultimately show ?thesis by (auto simp: good_place_def is_retry_target_def)
  next
    case (Some e)
    with assms(3) True sel have "hop_edge hop = e" by (auto simp: resolveNextHop_def Let_def split: if_splits)
    with Some sel matching_outgoing outgoing_place [OF assms(1,2)] show ?thesis by blast
  qed
next
  case False
  with assms(3) obtain m where "selectNextEdgeWithMeta g (trim_space i) out ctx = Inr (Some (hop_edge hop), m)"
    by (auto simp: resolveNextHop_def Let_def split: if_splits sum.splits prod.splits option.splits)
  with selected_least outgoing_place [OF assms(1,2)] show ?thesis by blast
qed

lemma retry_place: "resolveRetryTarget (Some g) j \<noteq> '''' \<Longrightarrow> good_place g (resolveRetryTarget (Some g) j)"
  by (auto simp: good_place_def is_retry_target_def)

lemma wf_node_id: "wf_graph g \<Longrightarrow> g_nodes g i = Some n \<Longrightarrow> node_id n = i"
  by (simp add: wf_graph_def)

lemma first_node_place:
  assumes "wf_graph g"
  shows "first_node P g order = Some n \<Longrightarrow> g_nodes g (node_id n) = Some n"
  by (induction order) (auto split: option.splits if_splits dest: wf_node_id [OF assms])

lemma loop_back_spec:
  assumes "fst (handleLoopIteration order ws g (Some n) out ls) = LoopBack i"
  shows "\<exists>spec. loop_of_node order g n = Some (spec, i)"
proof (cases "loop_of_node order g n")
  case None
  with assms show ?thesis by (simp add: handleLoopIteration_def)
next
  case (Some sj)
  obtain spec k where sj: "sj = (spec, k)" by (cases sj)
  let ?c = "shouldContinueLoop ws spec (read_iteration (ls_context ls) (loop_key spec) + 1) (Status out)"
  have "fst (handleLoopIteration order ws g (Some n) out ls) =
      (if snd (snd ?c) then LoopFail (fst (snd ?c)) else if \<not> fst ?c then NoLoop else LoopBack k)"
    using Some sj by (cases ?c) (simp add: handleLoopIteration_def Let_def)
  with assms Some sj show ?thesis by (simp split: if_splits)
qed

lemma loop_place:
  assumes "wf_graph g" "g_nodes g j = Some n" "handleLoopIteration order ws g (Some n) out ls = (LoopBack i, ls')"
  shows "g_nodes g i \<noteq> None"
proof -
  have n: "g_nodes g (node_id n) = Some n" using assms(2) wf_node_id [OF assms(1,2)] by simp
  obtain spec where "loop_of_node order g n = Some (spec, i)"
    using loop_back_spec [of order ws g n out ls i] assms(3) by auto
  then have "i = node_id n \<or> (\<exists>b. findLoopBeginForEnd order g n = Some b \<and> i = node_id b)"
    by (simp add: loop_of_node_def Let_def split: if_splits option.splits)
  then show ?thesis
  proof
    assume "\<exists>b. findLoopBeginForEnd order g n = Some b \<and> i = node_id b"
    then obtain b where "findLoopBeginForEnd order g n = Some b" "i = node_id b" by blast
    with first_node_place [OF assms(1)] show ?thesis by (simp add: findLoopBeginForEnd_def)
  qed (use n in simp)
qed

lemma level_place:
  assumes "wf_graph g" "edges_closed g" "g_nodes g a \<noteq> None" "x \<in> level g a k"
  shows "g_nodes g x \<noteq> None"
  using assms(3,4)
  by (induction k arbitrary: x) (use assms(1,2) in \<open>auto simp: succs_def Outgoing_filter edges_closed_def\<close>)

lemma join_place:
  assumes "wf_graph g" "edges_closed g" "set branches \<subseteq> set (g_edges g)" "findJoinNode g branches = Inr j"
  shows "g_nodes g j \<noteq> None"
proof -
  obtain ds where ds: "branches \<noteq> []" "distances g branches j ds"
    using findJoinNode_common [OF assms(1,4)] by blast
  then obtain e d where "e \<in> set branches" "shortest g (edge_to e) j d"
    by (cases branches; cases ds) (auto simp: distances_def)
  with assms(2,3) level_place [OF assms(1,2)] show ?thesis
    unfolding shortest_def edges_closed_def by blast
qed

lemma first_suggested_in: "first_suggested ids es = Some e \<Longrightarrow> e \<in> set es"
  by (induction ids es rule: first_suggested.induct) (auto split: option.splits simp: find_Some_iff)

lemma eligible_outgoing:
  assumes "selectAllEligibleEdgesWithMeta g i out ctx = Inr (es, m)"
  shows "set es \<subseteq> set (Outgoing g i)"
proof -
  have "preferred_edge out (Outgoing g i) = Some e \<Longrightarrow> e \<in> set (Outgoing g i)" for e
    by (auto simp: preferred_edge_find dest!: find_in)
  moreover have "suggested_edge out (Outgoing g i) = Some e \<Longrightarrow> e \<in> set (Outgoing g i)" for e
    by (auto simp: suggested_edge_def sort_declared_key dest!: first_suggested_in)
  ultimately show ?thesis
    using assms by (auto simp: selectAllEligibleEdgesWithMeta_def matchedEdges_filter Let_def
        split: if_splits option.splits)
qed

section \<open>One pass\<close>

lemma loopRestart_place:
  "good_place g target \<Longrightarrow> loopRestart cfg ev target i out cls st = Goto st' \<Longrightarrow> good_place g (r_current st')"
  by (auto simp: loopRestart_def Let_def split: if_splits option.splits prod.splits)

lemma route_place:
  assumes "wf_graph (rc_run_graph cfg)" "edges_closed (rc_run_graph cfg)" "route cfg ev n out cls st = Goto st'"
  shows "good_place (rc_run_graph cfg) (r_current st')"
proof (cases "resolveNextHop (Some (rc_run_graph cfg)) (node_id n) out (Some (r_context st)) cls")
  case (Inl err)
  with assms(3) show ?thesis by (simp add: route_def)
next
  case (Inr h)
  show ?thesis
  proof (cases h)
    case None
    with Inr assms(3) retry_place [of "rc_run_graph cfg" "node_id n"] show ?thesis
      by (auto simp: route_def goto_node_def Let_def split: if_splits option.splits)
  next
    case (Some hop)
    with Inr have hop: "good_place (rc_run_graph cfg) (edge_to (hop_edge hop))"
      using next_hop_place [OF assms(1,2)] by blast
    from Inr Some assms(3)
    have "loopRestart cfg ev (edge_to (hop_edge hop)) (node_id n) out cls st = Goto st' \<or>
        r_current st' = edge_to (hop_edge hop)"
      by (auto simp: route_def goto_node_def Let_def split: if_splits)
    with hop loopRestart_place show ?thesis by auto
  qed
qed

lemma fan_out_place:
  assumes "wf_graph (rc_run_graph cfg)" "edges_closed (rc_run_graph cfg)" "fan_out cfg ev n out cls st = Goto st'"
  shows "good_place (rc_run_graph cfg) (r_current st')"
proof -
  let ?g = "rc_run_graph cfg"
  obtain es m where sel: "selectAllEligibleEdgesWithMeta ?g (node_id n) out (Some (r_context st)) = Inr (es, m)"
    using select_all_total by blast
  have sub: "set es \<subseteq> set (g_edges ?g)"
    using eligible_outgoing [OF sel] assms(1) by (auto simp: Outgoing_filter)
  consider "route cfg ev n out cls st = Goto st'"
    | j where "findJoinNode ?g es = Inr j" "r_current st' = j"
    using assms(3) sel by (auto simp: fan_out_def goto_node_def Let_def split: if_splits sum.splits)
  then show ?thesis
  proof cases
    case 1
    then show ?thesis by (rule route_place [OF assms(1,2)])
  next
    case 2
    with join_place [OF assms(1,2) sub] show ?thesis by (simp add: good_place_def)
  qed
qed

lemma after_stage_place:
  assumes "wf_graph (rc_run_graph cfg)" "edges_closed (rc_run_graph cfg)"
    and "g_nodes (rc_run_graph cfg) j = Some n" "after_stage cfg ev n out cls st = Goto st'"
  shows "good_place (rc_run_graph cfg) (r_current st')"
proof (cases "shapeToType (node_Shape n) = ''concurrent.split''")
  case True
  with assms(4) obtain P join where "first_node P (rc_run_graph cfg) (se_order ev) = Some join" "r_current st' = node_id join"
    by (auto simp: after_stage_def goto_node_def Let_def split: option.splits if_splits)
  with first_node_place [OF assms(1)] show ?thesis by (simp add: good_place_def)
next
  case False
  obtain r ls where h: "handleLoopIteration (se_order ev) (se_files ev) (rc_run_graph cfg) (Some n) out
      \<lparr>ls_context = r_context st, ls_iterations = r_iterations st, ls_active = r_active st\<rparr> = (r, ls)"
    by fastforce
  show ?thesis
  proof (cases r)
    case (LoopBack i)
    with assms(4) False h loop_place [OF assms(1,3)] show ?thesis
      by (auto simp: after_stage_def goto_node_def good_place_def Let_def)
  next
    case (LoopFail reason)
    with assms(4) False h show ?thesis by (simp add: after_stage_def Let_def)
  next
    case NoLoop
    show ?thesis
    proof (cases "is_parallel_node n")
      case True
      with assms(3) show ?thesis by (auto simp: good_place_def has_parallel_node_def)
    next
      case no_parallel: False
      with assms(4) False h NoLoop fan_out_place [OF assms(1,2)] show ?thesis by (simp add: after_stage_def Let_def)
    qed
  qed
qed

lemma run_step_place:
  assumes "wf_graph (rc_run_graph cfg)" "edges_closed (rc_run_graph cfg)" "run_step cfg ev st = Goto st'"
  shows "good_place (rc_run_graph cfg) (r_current st')"
proof -
  from assms(3) obtain n st2 where n: "g_nodes (rc_run_graph cfg) (r_current st) = Some n"
    and step: "terminal_step cfg ev n st2 = Goto st' \<or> stage_step cfg ev n st2 = Goto st'"
    by (auto simp: run_step_def Let_def split: option.splits if_splits)
  from step show ?thesis
  proof
    assume "terminal_step cfg ev n st2 = Goto st'"
    then show ?thesis using retry_place
      by (auto simp: terminal_step_def Let_def split: prod.splits if_splits option.splits)
  next
    assume "stage_step cfg ev n st2 = Goto st'"
    then obtain out cls st3 where "after_stage cfg ev n out cls st3 = Goto st'"
      by (auto simp: stage_step_def Let_def split: prod.splits option.splits)
    with after_stage_place [OF assms(1,2) n] show ?thesis by blast
  qed
qed

text \<open>Only the entry of a pass can end a run with a missing node.\<close>

lemma loopRestart_not_missing: "loopRestart cfg ev target i out cls st \<noteq> Stop (RunFailed (MissingNode j)) st'"
  by (auto simp: loopRestart_def restart_guard_def Let_def split: if_splits option.splits prod.splits)

lemma route_not_missing: "route cfg ev n out cls st \<noteq> Stop (RunFailed (MissingNode j)) st'"
  by (auto simp: route_def goto_node_def loopRestart_not_missing Let_def split: if_splits option.splits sum.splits)

lemma fan_out_not_missing: "fan_out cfg ev n out cls st \<noteq> Stop (RunFailed (MissingNode j)) st'"
  by (auto simp: fan_out_def goto_node_def route_not_missing Let_def split: if_splits option.splits sum.splits prod.splits)

lemma after_stage_not_missing: "after_stage cfg ev n out cls st \<noteq> Stop (RunFailed (MissingNode j)) st'"
  by (auto simp: after_stage_def goto_node_def fan_out_not_missing Let_def
      split: if_splits option.splits prod.splits loop_result.splits)

lemma stage_step_not_missing: "stage_step cfg ev n st \<noteq> Stop (RunFailed (MissingNode j)) st'"
  by (auto simp: stage_step_def cycle_check_def after_stage_not_missing Let_def
      split: if_splits option.splits prod.splits)

lemma terminal_step_not_missing: "terminal_step cfg ev n st \<noteq> Stop (RunFailed (MissingNode j)) st'"
  by (auto simp: terminal_step_def Let_def split: if_splits option.splits prod.splits)

lemma run_step_missing:
  "run_step cfg ev st = Stop (RunFailed (MissingNode i)) st' \<Longrightarrow> i = r_current st \<and> g_nodes (rc_run_graph cfg) i = None"
  by (auto simp: run_step_def stage_step_not_missing terminal_step_not_missing Let_def split: if_splits option.splits)

lemma missing_only_at_entry:
  assumes "wf_graph (rc_run_graph cfg)" "edges_closed (rc_run_graph cfg)" "good_place (rc_run_graph cfg) (r_current st)"
    and "run_loop cfg env t fuel st = Some (RunFailed (MissingNode i), st')"
  shows "good_place (rc_run_graph cfg) i \<and> g_nodes (rc_run_graph cfg) i = None"
  using assms(3,4)
proof (induction fuel arbitrary: t st)
  case (Suc fuel)
  show ?case
  proof (cases "run_step cfg (env t) st")
    case (Goto st1)
    with Suc.prems(2) have "run_loop cfg env (Suc t) fuel st1 = Some (RunFailed (MissingNode i), st')" by simp
    then show ?thesis by (rule Suc.IH [OF run_step_place [OF assms(1,2) Goto]])
  next
    case (Stop r st1)
    with Suc.prems have "run_step cfg (env t) st = Stop (RunFailed (MissingNode i)) st1" by simp
    from run_step_missing [OF this] Suc.prems(1) show ?thesis by auto
  qed
qed simp

section \<open>Regions of linted graphs\<close>

definition plain_ids :: "graph \<Rightarrow> bool" where
  "plain_ids g \<longleftrightarrow> (\<forall>i \<in> dom (g_nodes g). trim_space i = i \<and> \<not> isFanInFailureLike g i StatusRetry)"

text \<open>A branch stands inside the region or at its join, and its nesting errors are met inside.\<close>

definition inside_branch :: "graph \<Rightarrow> string \<Rightarrow> string \<Rightarrow> conc_branch \<Rightarrow> bool" where
  "inside_branch g a stop b \<longleftrightarrow>
     (\<forall>x. cb_pos b = AtNode x \<longrightarrow> x = stop \<or> between g a stop x) \<and>
     (\<forall>i. Err (cb_result b) = Some (NestedLoop i) \<longrightarrow> between g a stop i \<and>
        (\<exists>m. g_nodes g i = Some m \<and> shapeToType (node_Shape m) \<in> {''loop.begin'', ''loop.end''})) \<and>
     (\<forall>i. Err (cb_result b) = Some (NestedRegion i) \<longrightarrow> between g a stop i \<and>
        (\<exists>m. g_nodes g i = Some m \<and> shapeToType (node_Shape m) \<in> {''concurrent.split'', ''concurrent.join''}))"

lemma targets_outgoing: "wf_graph g \<Longrightarrow> set (targets g x) = edge_to ` set (Outgoing g x)"
  by (simp add: targets_def Outgoing_filter)

lemma pass_inside:
  assumes g: "wf_graph g" "plain_ids g" and pos: "current = stop \<or> between g a stop current"
    and pass: "branch_pass registered g stop ev current res st = (st1, b1)" "Err res = None"
  shows "inside_branch g a stop b1"
proof -
  have next_inside: "x = stop \<or> between g a stop x" if "cb_pos b1 = AtNode x" for x
    using pass
  proof (cases rule: pass_cases)
    case (moved n out hop)
    have i: "node_id n = current" using moved(1) wf_node_id [OF g(1)] by blast
    have c: "trim_space current = current" "\<not> isFanInFailureLike g current StatusRetry"
      using g(2) moved(1) by (auto simp: plain_ids_def)
    have "\<not> isFanInFailureLike g current (Status out)"
      using c(2) moved(6) by (auto simp: isFanInFailureLike_def split: if_splits)
    with hop_outgoing moved(7) i c have "hop_edge hop \<in> set (Outgoing g current)" by metis
    then have "edge_to (hop_edge hop) \<in> set (targets g current)" using targets_outgoing [OF g(1)] by auto
    with moved(4,8) that pos show ?thesis by (auto intro: between.further)
  qed (use that in \<open>auto simp: ended_def\<close>)
  have "current \<noteq> stop \<and> i = current \<and>
      (\<exists>m. g_nodes g current = Some m \<and> shapeToType (node_Shape m) \<in> {''loop.begin'', ''loop.end''})"
    if "Err (cb_result b1) = Some (NestedLoop i)" for i
    using pass that by (auto simp: branch_pass_def branch_stage_def failed_at_def ended_def Let_def
        split: if_splits option.splits prod.splits sum.splits)
  moreover have "current \<noteq> stop \<and> i = current \<and>
      (\<exists>m. g_nodes g current = Some m \<and> shapeToType (node_Shape m) \<in> {''concurrent.split'', ''concurrent.join''})"
    if "Err (cb_result b1) = Some (NestedRegion i)" for i
    using pass that by (auto simp: branch_pass_def branch_stage_def failed_at_def ended_def Let_def
        split: if_splits option.splits prod.splits sum.splits)
  ultimately show ?thesis using next_inside pos unfolding inside_branch_def by blast
qed

lemma inside_step:
  assumes g: "wf_graph g" "plain_ids g" and inv: "region_inv (JoinNode spec) st" "\<forall>b \<in> set (cs_branches st). inside_branch g a (JoinNode spec) b"
  shows "\<forall>b \<in> set (cs_branches (region_step registered g spec (idx, ev) st)). inside_branch g a (JoinNode spec) b"
proof (cases rule: region_step_cases [of registered g spec idx ev st])
  case idle
  with inv(2) show ?thesis by simp
next
  case (pass current st1 b1)
  let ?b = "cs_branches st ! idx"
  have "?b \<in> set (cs_branches st)" using pass(1) by simp
  then have "Err (cb_result ?b) = None" "current = JoinNode spec \<or> between g a (JoinNode spec) current"
    using inv pass(2) by (auto simp: region_inv_def inside_branch_def intro: branch_ok_running)
  from pass_inside [OF g this(2) pass(3) this(1)] inv(2) pass(4) show ?thesis
    using set_update_subset_insert [of "cs_branches st" idx b1] by auto
qed

lemma inside_run:
  assumes g: "wf_graph g" "plain_ids g" and es: "\<forall>e \<in> set es. edge_from e = a \<and> e \<in> set (g_edges g)"
  shows "\<forall>b \<in> set (cs_branches (region_run registered g spec schedule (region_start es retries outcomes ctx))).
    inside_branch g a (JoinNode spec) b"
proof -
  let ?P = "\<lambda>s. region_inv (JoinNode spec) s \<and> (\<forall>b \<in> set (cs_branches s). inside_branch g a (JoinNode spec) b)"
  have "edge_to e \<in> set (targets g a)" if "e \<in> set es" for e
    using es that by (auto simp: targets_def)
  then have "?P (region_start es retries outcomes ctx)"
    using region_inv_start [of "JoinNode spec" es retries outcomes ctx]
    by (auto simp: region_start_def inside_branch_def zero_conc_result_def intro: between.first)
  then have "?P (region_run registered g spec schedule (region_start es retries outcomes ctx))"
  proof (rule region_run_invariant)
    show "?P (region_step registered g spec x s)" if "?P s" for s x
      using that inside_step [OF g, of spec s a registered "fst x" "snd x"] region_inv_step [of spec] by auto
  qed
  then show ?thesis by blast
qed

section \<open>Accepted graphs and their run graphs\<close>

lemma same_Attr:
  assumes "same_structure g h" "key \<noteq> ''prompt''" "key \<noteq> ''llm_prompt''"
  shows "node_Attr (g_nodes h i) key d = node_Attr (g_nodes g i) key d"
proof (cases "g_nodes h i")
  case None
  with same_structure_None [OF assms(1), of i] show ?thesis by simp
next
  case (Some m)
  with same_structure_Some [OF assms(1)] obtain n where "g_nodes g i = Some n" "same_but_prompts n m" by blast
  with Some same_but_prompts_Attr [OF _ assms(2,3)] show ?thesis by simp
qed

lemma same_shape: "same_but_prompts n m \<Longrightarrow> node_Shape m = node_Shape n"
  using same_but_prompts_Attr [of n m "''shape''"] by (simp add: node_Shape_def)

lemma same_start: "same_structure g h \<Longrightarrow> findStartNodeID order h = findStartNodeID order g"
proof -
  assume s: "same_structure g h"
  have "(case g_nodes h i of None \<Rightarrow> False | Some n \<Rightarrow> node_Shape n \<in> {''Mdiamond'', ''circle''}) =
      (case g_nodes g i of None \<Rightarrow> False | Some n \<Rightarrow> node_Shape n \<in> {''Mdiamond'', ''circle''})" for i
    using same_structure_None [OF s, of i] same_structure_Some [OF s, of i] same_shape
    by (cases "g_nodes h i") (fastforce split: option.split)+
  moreover have "(g_nodes h i \<noteq> None \<and> equal_fold i ''start'') = (g_nodes g i \<noteq> None \<and> equal_fold i ''start'')" for i
    using same_structure_None [OF s, of i] by simp
  ultimately show ?thesis unfolding findStartNodeID_def by presburger
qed

lemma same_edges_closed: "same_structure g h \<Longrightarrow> edges_closed g \<Longrightarrow> edges_closed h"
  by (simp add: edges_closed_def same_structure_None) (simp add: same_structure_def)

lemma same_parallel: "same_structure g h \<Longrightarrow> has_parallel_node h \<Longrightarrow> has_parallel_node g"
proof -
  assume s: "same_structure g h" and "has_parallel_node h"
  then obtain i m where m: "g_nodes h i = Some m" "is_parallel_node m" by (auto simp: has_parallel_node_def)
  with same_structure_Some [OF s] obtain n where n: "g_nodes g i = Some n" "same_but_prompts n m" by blast
  then have "is_parallel_node n"
    using m(2) same_shape [OF n(2)] same_but_prompts_Attr [OF n(2), of "''type''"]
    by (simp add: is_parallel_node_def node_TypeOverride_def)
  with n(1) show ?thesis by (auto simp: has_parallel_node_def)
qed

text \<open>
  A retry target is named by a node or by the graph; the rule on retry targets looks at the nodes.
\<close>

lemma retry_target_named:
  assumes "is_retry_target h i" "same_structure g h" "dom (g_nodes g) \<subseteq> set order"
    and "\<forall>d \<in> set (lintRetryTargetsExist order g). d_rule d \<noteq> ''retry_target_exists''" "g_nodes g i = None"
  shows "\<exists>k \<in> {''retry_target'', ''fallback_retry_target''}. trim_space (graph_attr g k) = i"
proof -
  obtain j where j: "resolveRetryTarget (Some h) j = i" "i \<noteq> ''''" using assms(1) by (auto simp: is_retry_target_def)
  have attrs: "graph_attr h k = graph_attr g k" for k using assms(2) by (simp add: graph_attr_def same_structure_def)
  have node: "trim_space (node_Attr (g_nodes h (trim_space j)) k '''') \<noteq> i"
    if k: "k \<in> {''retry_target'', ''fallback_retry_target''}" for k
  proof
    assume eq: "trim_space (node_Attr (g_nodes h (trim_space j)) k '''') = i"
    have "node_Attr (g_nodes h (trim_space j)) k '''' = node_Attr (g_nodes g (trim_space j)) k ''''"
      using k by (intro same_Attr [OF assms(2)]) auto
    with eq j(2) obtain n where n: "g_nodes g (trim_space j) = Some n" "node_trim n k = i"
      by (cases "g_nodes g (trim_space j)") (auto simp: node_Attr_def node_trim_def)
    then have "trim_space j \<in> set order" using assms(3) by auto
    with n k j(2) assms(5) have "node_diag ''retry_target_exists'' SeverityWarning (trim_space j) \<in> set (lintRetryTargetsExist order g)"
      by (force simp: lintRetryTargetsExist_def)
    with assms(4) show False by fastforce
  qed
  then show ?thesis
    using j by (fastforce simp: resolveRetryTarget_def resolveRetryTargetWithSource_def attrs Let_def
        split: option.splits if_splits)
qed

end
