(* ===== verification/VizPage.thy ===== *)
theory VizPage
  imports VizWrapper
begin

text \<open>
  How the two scripts of the dashboard come into a page: the class helpers of
  \<^verbatim>\<open>internal/server/ui/viz.js\<close> (classCallCheck, createClass) and the module headers of
  \<^verbatim>\<open>viz.js\<close> and \<^verbatim>\<open>viz-render.js\<close>, which choose between CommonJS, AMD and the global object.
\<close>

section \<open>Properties with attributes\<close>

datatype 'v js_prop =
    DataProp (prop_value: 'v) (prop_writable: bool) (prop_enumerable: bool) (prop_configurable: bool)
  | AccessorProp (prop_get: 'v) (prop_set: 'v) (prop_enumerable: bool) (prop_configurable: bool)

text \<open>A descriptor: a field that is missing from the descriptor object is \<^verbatim>\<open>None\<close>.\<close>

record 'v descriptor =
  d_key :: string
  d_value :: "'v option"
  d_get :: "'v option"
  d_set :: "'v option"
  d_writable :: "bool option"
  d_enumerable :: "bool option"
  d_configurable :: "bool option"

definition given :: "'a option \<Rightarrow> 'a \<Rightarrow> 'a" where
  "given x d = (case x of None \<Rightarrow> d | Some v \<Rightarrow> v)"

definition conflicts :: "'a option \<Rightarrow> 'a \<Rightarrow> bool" where
  "conflicts x v \<longleftrightarrow> (case x of None \<Rightarrow> False | Some w \<Rightarrow> w \<noteq> v)"

definition accessor_descriptor :: "'v descriptor \<Rightarrow> bool" where
  "accessor_descriptor d \<longleftrightarrow> d_get d \<noteq> None \<or> d_set d \<noteq> None"

definition data_descriptor :: "'v descriptor \<Rightarrow> bool" where
  "data_descriptor d \<longleftrightarrow> d_value d \<noteq> None \<or> d_writable d \<noteq> None"

text \<open>What a property that is not configurable refuses.\<close>

definition refuses :: "'v js_prop \<Rightarrow> 'v descriptor \<Rightarrow> bool" where
  "refuses p d \<longleftrightarrow> \<not> prop_configurable p \<and>
     (d_configurable d = Some True \<or> conflicts (d_enumerable d) (prop_enumerable p) \<or>
      (case p of
         DataProp v w e c \<Rightarrow> accessor_descriptor d \<or> (\<not> w \<and> (d_writable d = Some True \<or> conflicts (d_value d) v))
       | AccessorProp g s e c \<Rightarrow> data_descriptor d \<or> conflicts (d_get d) g \<or> conflicts (d_set d) s))"

text \<open>
  Object.defineProperty on an object that can be extended; \<^verbatim>\<open>undef\<close> is the value undefined.
\<close>

definition updated_prop :: "'v \<Rightarrow> 'v descriptor \<Rightarrow> 'v js_prop option \<Rightarrow> 'v js_prop" where
  "updated_prop undef d cur =
     (let e = given (d_enumerable d) (case cur of None \<Rightarrow> False | Some p \<Rightarrow> prop_enumerable p);
          c = given (d_configurable d) (case cur of None \<Rightarrow> False | Some p \<Rightarrow> prop_configurable p)
      in case cur of
        Some (DataProp v w _ _) \<Rightarrow>
          if accessor_descriptor d then AccessorProp (given (d_get d) undef) (given (d_set d) undef) e c
          else DataProp (given (d_value d) v) (given (d_writable d) w) e c
      | Some (AccessorProp g s _ _) \<Rightarrow>
          if data_descriptor d then DataProp (given (d_value d) undef) (given (d_writable d) False) e c
          else AccessorProp (given (d_get d) g) (given (d_set d) s) e c
      | None \<Rightarrow>
          if accessor_descriptor d then AccessorProp (given (d_get d) undef) (given (d_set d) undef) e c
          else DataProp (given (d_value d) undef) (given (d_writable d) False) e c)"

definition defineProperty ::
  "'v \<Rightarrow> 'v descriptor \<Rightarrow> (string \<rightharpoonup> 'v js_prop) \<Rightarrow> js_error + (string \<rightharpoonup> 'v js_prop)" where
  "defineProperty undef d target =
     (if accessor_descriptor d \<and> data_descriptor d then Inl (TypeError ''Invalid property descriptor'')
      else (case target (d_key d) of
          Some p \<Rightarrow> if refuses p d then Inl (TypeError ''Cannot redefine property'')
            else Inr (target(d_key d \<mapsto> updated_prop undef d (Some p)))
        | None \<Rightarrow> Inr (target(d_key d \<mapsto> updated_prop undef d None))))"

section \<open>Classes\<close>

text \<open>The body of the loop of defineProperties, which writes into the descriptor first.\<close>

definition class_descriptor :: "'v descriptor \<Rightarrow> 'v descriptor" where
  "class_descriptor d = d\<lparr>d_enumerable := Some (given (d_enumerable d) False), d_configurable := Some True,
     d_writable := (if d_value d \<noteq> None then Some True else d_writable d)\<rparr>"

text \<open>The target after the loop, and the exception that ended it early.\<close>

fun defineProperties ::
  "'v \<Rightarrow> 'v descriptor list \<Rightarrow> (string \<rightharpoonup> 'v js_prop) \<Rightarrow> js_error option \<times> (string \<rightharpoonup> 'v js_prop)" where
  "defineProperties undef [] target = (None, target)"
| "defineProperties undef (d # ds) target = (case defineProperty undef (class_descriptor d) target of
      Inl err \<Rightarrow> (Some err, target)
    | Inr target' \<Rightarrow> defineProperties undef ds target')"

record 'v js_class =
  jc_prototype :: "string \<rightharpoonup> 'v js_prop"
  jc_own :: "string \<rightharpoonup> 'v js_prop"

definition createClass ::
  "'v \<Rightarrow> 'v descriptor list option \<Rightarrow> 'v descriptor list option \<Rightarrow> 'v js_class \<Rightarrow> js_error option \<times> 'v js_class" where
  "createClass undef protoProps staticProps c =
     (case defineProperties undef (given protoProps []) (jc_prototype c) of
        (Some err, proto) \<Rightarrow> (Some err, c\<lparr>jc_prototype := proto\<rparr>)
      | (None, proto) \<Rightarrow>
          (case defineProperties undef (given staticProps []) (jc_own c) of
             (err, own) \<Rightarrow> (err, c\<lparr>jc_prototype := proto, jc_own := own\<rparr>)))"

text \<open>
  The instance is \<^verbatim>\<open>None\<close> when \<^verbatim>\<open>this\<close> is no object, as in a call without \<^verbatim>\<open>new\<close>, and
  otherwise its chain of prototypes.
\<close>

definition classCallCheck :: "'o list option \<Rightarrow> 'o \<Rightarrow> js_error option" where
  "classCallCheck instance proto = (case instance of
      None \<Rightarrow> Some (TypeError ''Cannot call a class as a function'')
    | Some chain \<Rightarrow> if proto \<in> set chain then None
        else Some (TypeError ''Cannot call a class as a function''))"

section \<open>Modules\<close>

record umd_env =
  exports_is_object :: bool
  module_defined :: bool
  define_is_function :: bool
  define_amd :: bool

datatype umd_target = ToExports | ToDefine | ToGlobal

definition umd_target :: "umd_env \<Rightarrow> umd_target" where
  "umd_target env =
     (if exports_is_object env \<and> module_defined env then ToExports
      else if define_is_function env \<and> define_amd env then ToDefine else ToGlobal)"

text \<open>
  A page: whether the top-level \<^verbatim>\<open>this\<close> and \<^verbatim>\<open>self\<close> are defined (they are the same object
  when both are), the statics of the global Viz, and how often a script has gone to module.exports or to
  define.
\<close>

record ('k, 'r) page =
  pg_env :: umd_env
  pg_this :: bool
  pg_self :: bool
  pg_viz :: "('k option \<times> 'r option) option"
  pg_exports :: nat
  pg_defines :: nat

definition load_viz :: "('k, 'r) page \<Rightarrow> js_error option \<times> ('k, 'r) page" where
  "load_viz pg = (case umd_target (pg_env pg) of
      ToExports \<Rightarrow> (None, pg\<lparr>pg_exports := Suc (pg_exports pg)\<rparr>)
    | ToDefine \<Rightarrow> (None, pg\<lparr>pg_defines := Suc (pg_defines pg)\<rparr>)
    | ToGlobal \<Rightarrow> if pg_this pg then (None, pg\<lparr>pg_viz := Some (None, None)\<rparr>)
        else (Some (TypeError ''Cannot set property Viz of undefined''), pg))"

definition export_render :: "('k, 'r) page \<Rightarrow> ('k, 'r) page" where
  "export_render pg = (case umd_target (pg_env pg) of
      ToExports \<Rightarrow> pg\<lparr>pg_exports := Suc (pg_exports pg)\<rparr>
    | ToDefine \<Rightarrow> pg\<lparr>pg_defines := Suc (pg_defines pg)\<rparr>
    | ToGlobal \<Rightarrow> pg)"

definition load_render :: "'k \<Rightarrow> 'r \<Rightarrow> ('k, 'r) page \<Rightarrow> js_error option \<times> ('k, 'r) page" where
  "load_render k r pg =
     (let pg1 = export_render pg in
      if \<not> pg_self pg \<and> \<not> pg_this pg then (Some (TypeError ''Cannot read property Viz of undefined''), pg1)
      else (None, pg1\<lparr>pg_viz := map_option (register_module True k r) (pg_viz pg1)\<rparr>))"

text \<open>
  The scripts of a page in their order; a script that throws does not keep the next ones from running.
\<close>

datatype ('k, 'r) script = VizScript | RenderScript 'k 'r

definition load_script :: "('k, 'r) script \<Rightarrow> ('k, 'r) page \<Rightarrow> ('k, 'r) page" where
  "load_script s pg = snd (case s of VizScript \<Rightarrow> load_viz pg | RenderScript k r \<Rightarrow> load_render k r pg)"

definition load_page :: "('k, 'r) script list \<Rightarrow> ('k, 'r) page \<Rightarrow> ('k, 'r) page" where
  "load_page ss pg = fold load_script ss pg"

text \<open>\<^verbatim>\<open>new Viz()\<close> in the page, without options.\<close>

definition new_viz :: "('k, 'r) page \<Rightarrow> js_error + ('w, 'k, 'r) wrapper_choice" where
  "new_viz pg = (case pg_viz pg of
      None \<Rightarrow> Inl (JsError ''Viz is not defined'')
    | Some (m, r) \<Rightarrow> Viz_new \<lparr>opt_workerURL = None, opt_worker = None, opt_Module = None, opt_render = None\<rparr> m r)"

section \<open>What the class helpers leave behind\<close>

definition plain_method :: "'v descriptor \<Rightarrow> bool" where
  "plain_method d \<longleftrightarrow> d_value d \<noteq> None \<and> \<not> accessor_descriptor d \<and> d_enumerable d = None"

definition method_entry :: "'v descriptor \<Rightarrow> string \<times> 'v js_prop" where
  "method_entry d = (d_key d, DataProp (the (d_value d)) True False True)"

definition open_for :: "'v descriptor \<Rightarrow> (string \<rightharpoonup> 'v js_prop) \<Rightarrow> bool" where
  "open_for d target \<longleftrightarrow> (case target (d_key d) of None \<Rightarrow> True | Some p \<Rightarrow> prop_configurable p)"

lemma define_method:
  assumes "plain_method d" "open_for d target"
  shows "defineProperty undef (class_descriptor d) target = Inr (target(d_key d \<mapsto> snd (method_entry d)))"
  using assms
  by (auto simp: defineProperty_def plain_method_def open_for_def class_descriptor_def accessor_descriptor_def
      data_descriptor_def refuses_def updated_prop_def method_entry_def given_def Let_def
      split: option.splits js_prop.splits)

lemma open_after: "open_for d target \<Longrightarrow> open_for d (target(k \<mapsto> snd (method_entry d')))"
  by (simp add: open_for_def method_entry_def)

lemma defineProperties_methods:
  "\<forall>d \<in> set ds. plain_method d \<and> open_for d target \<Longrightarrow>
   defineProperties undef ds target = (None, target ++ map_of (rev (map method_entry ds)))"
proof (induction ds arbitrary: target)
  case Nil
  then show ?case by simp
next
  case (Cons d ds)
  let ?t = "target(d_key d \<mapsto> snd (method_entry d))"
  have "\<forall>d' \<in> set ds. plain_method d' \<and> open_for d' ?t"
    using Cons.prems by (intro ballI conjI open_after) auto
  from Cons.IH [OF this] Cons.prems show ?case
    by (simp add: define_method map_of_append map_add_assoc method_entry_def del: fun_upd_apply)
qed

section \<open>Scripts of a page\<close>

lemma load_script_keeps:
  "pg_env (load_script s pg) = pg_env pg" "pg_this (load_script s pg) = pg_this pg"
  by (cases s; simp add: load_script_def load_viz_def load_render_def export_render_def Let_def split: umd_target.split)+

lemma load_page_keeps:
  "pg_env (load_page ss pg) = pg_env pg" "pg_this (load_page ss pg) = pg_this pg"
  by (induction ss rule: rev_induct) (simp_all add: load_page_def load_script_keeps)

lemma register_module_True [simp]: "register_module True k r = (\<lambda>_. (Some k, Some r))"
  by (simp add: register_module_def fun_eq_iff)

lemma load_script_viz:
  "pg_viz (load_script VizScript pg) =
     (if umd_target (pg_env pg) = ToGlobal \<and> pg_this pg then Some (None, None) else pg_viz pg)"
  "pg_this pg \<Longrightarrow> pg_viz (load_script (RenderScript k r) pg) = map_option (\<lambda>_. (Some k, Some r)) (pg_viz pg)"
  "pg_viz pg = None \<Longrightarrow> pg_viz (load_script (RenderScript k r) pg) = None"
  by (auto simp: load_script_def load_viz_def load_render_def export_render_def Let_def
      split: umd_target.split option.split)

text \<open>The statics of Viz behind the scripts of a page that has neither a module system nor a Viz at first.\<close>

fun page_statics :: "('k, 'r) script list \<Rightarrow> 'k option \<times> 'r option" where
  "page_statics (RenderScript k r # ss) = (Some k, Some r)"
| "page_statics ss = (None, None)"

lemma load_page_viz:
  assumes "pg_viz pg = None"
  shows "pg_viz (load_page ss pg) =
    (if umd_target (pg_env pg) = ToGlobal \<and> pg_this pg \<and> VizScript \<in> set ss
     then Some (page_statics (takeWhile (\<lambda>s. s \<noteq> VizScript) (rev ss))) else None)"
proof (induction ss rule: rev_induct)
  case Nil
  then show ?case by (simp add: load_page_def assms)
next
  case (snoc s ss)
  have "load_page (ss @ [s]) pg = load_script s (load_page ss pg)" by (simp add: load_page_def)
  with snoc show ?case
    by (cases s) (simp_all add: load_script_viz load_page_keeps)
qed

section \<open>Properties\<close>

text \<open>
  createClass defines exactly the given methods: each becomes a writable, configurable property
  that is not enumerated, of equal names the last one wins, and everything else stays.
\<close>

theorem createClass_methods:
  assumes "\<forall>d \<in> set ds. plain_method d \<and> open_for d (jc_prototype c)"
  shows "createClass undef (Some ds) None c =
    (None, c\<lparr>jc_prototype := jc_prototype c ++ map_of (rev (map method_entry ds))\<rparr>)"
  using defineProperties_methods [OF assms] by (simp add: createClass_def given_def)

definition viz_method :: "string \<Rightarrow> string \<Rightarrow> string descriptor" where
  "viz_method k v = \<lparr>d_key = k, d_value = Some v, d_get = None, d_set = None, d_writable = None, d_enumerable = None,
     d_configurable = None\<rparr>"

theorem createClass_methods_witness:
  "createClass ''undefined'' (Some [viz_method ''renderString'' ''f'', viz_method ''renderSVGElement'' ''g'']) None
     \<lparr>jc_prototype = [''constructor'' \<mapsto> DataProp ''Viz'' True False True], jc_own = Map.empty\<rparr> =
   (None, \<lparr>jc_prototype = [''constructor'' \<mapsto> DataProp ''Viz'' True False True,
       ''renderString'' \<mapsto> DataProp ''f'' True False True, ''renderSVGElement'' \<mapsto> DataProp ''g'' True False True],
     jc_own = Map.empty\<rparr>)"
proof -
  let ?ds = "[viz_method ''renderString'' ''f'', viz_method ''renderSVGElement'' ''g'']"
  let ?c = "\<lparr>jc_prototype = [''constructor'' \<mapsto> DataProp ''Viz'' True False True], jc_own = Map.empty\<rparr>"
  have "\<forall>d \<in> set ?ds. plain_method d \<and> open_for d (jc_prototype ?c)"
    by (simp add: plain_method_def open_for_def viz_method_def accessor_descriptor_def)
  from createClass_methods [OF this, of "''undefined''"] show ?thesis
    by (simp add: method_entry_def viz_method_def)
qed

text \<open>
  C40: new Viz() without options works in a page exactly when it has no module system and
  viz-render.js was loaded after the last viz.js; it then uses the module of the last viz-render.js.
\<close>

theorem viz_in_page:
  assumes "pg_viz pg = None"
  shows "new_viz (load_page ss pg) =
    (if umd_target (pg_env pg) = ToGlobal \<and> pg_this pg \<and> VizScript \<in> set ss then
       (case takeWhile (\<lambda>s. s \<noteq> VizScript) (rev ss) of
          RenderScript k r # _ \<Rightarrow> Inr (InPage k r)
        | _ \<Rightarrow> Inl (JsError ''Must specify workerURL or worker option''))
     else Inl (JsError ''Viz is not defined''))"
  unfolding new_viz_def load_page_viz [OF assms]
  by (auto simp: Viz_new_def split: list.split script.split)

theorem viz_in_page_witness:
  "new_viz (load_page [VizScript, RenderScript (1::nat) (2::nat), RenderScript 3 4]
     \<lparr>pg_env = \<lparr>exports_is_object = False, module_defined = False, define_is_function = False, define_amd = False\<rparr>,
      pg_this = True, pg_self = True, pg_viz = None, pg_exports = 0, pg_defines = 0\<rparr>) =
   (Inr (InPage 3 4) :: js_error + (nat, nat, nat) wrapper_choice)"
  by (subst viz_in_page) (simp_all add: umd_target_def)

end
