(* ===== verification/Json.thy ===== *)
theory Json
  imports StageStatus "HOL-Library.AList"
begin

text \<open>
  What encoding/json does to the dynamic values of a run: a value that is written to a file and read
  back, and documents as trees.  The lexical level of JSON is not modelled: a document is a tree or
  a syntax error, strings are ASCII, and a number is given by its reading as an int, if its literal
  is one, and the shortest text of its float64.
\<close>

section \<open>Numbers through JSON\<close>

text \<open>
  The shortest text of a float64 that holds an integer, as fmt.Sprint prints it: without an exponent
  below 10 to the power of 6.  Integers beyond 2 to the power of 53, which a float64 rounds, are not modelled.
\<close>

definition strip_zeros :: "string \<Rightarrow> string" where
  "strip_zeros s = rev (dropWhile (\<lambda>c. c = CHR ''0'') (rev s))"

definition float_text :: "int \<Rightarrow> string" where
  "float_text i =
     (let ds = nat_to_dec (nat \<bar>i\<bar>); e = length ds - 1; m = strip_zeros ds
      in (if i < 0 then ''-'' else '''') @
         (if e < 6 then ds
          else [hd m] @ (if tl m = '''' then '''' else CHR ''.'' # tl m) @ ''e+'' @
            (if e < 10 then ''0'' else '''') @ nat_to_dec e))"

text \<open>The integer a float64 holds, read from its text, if it is one that an int can hold.\<close>

definition float_int :: "string \<Rightarrow> int option" where
  "float_int t =
     (let (neg, u) = (case t of c # cs \<Rightarrow> if c = CHR ''-'' then (True, cs) else (False, t) | [] \<Rightarrow> (False, []));
          (m, x) = (case cut_at ''e'' u of None \<Rightarrow> (u, ''+0'') | Some p \<Rightarrow> p);
          (ip, fp) = (case cut_at ''.'' m of None \<Rightarrow> (m, '''') | Some p \<Rightarrow> p);
          ex = digits_value 0 (tl x);
          v = digits_value 0 (ip @ fp) * 10 ^ nat (ex - int (length fp));
          n = (if neg then - v else v)
      in if ip = '''' \<or> \<not> list_all is_digit (ip @ fp @ tl x) \<or> hd x = CHR ''-'' \<or> ex < int (length fp)
           \<or> n < int64_min \<or> n > int64_max then None else Some n)"

fun json_value :: "goval \<Rightarrow> goval" where
  "json_value (VInt i) = VFloat (float_text i)"
| "json_value (VList vs) = VList (map json_value vs)"
| "json_value (VMap kvs) = VMap (map (\<lambda>(k, v). (k, json_value v)) kvs)"
| "json_value v = v"

text \<open>Values that encoding/json can write.\<close>

fun json_ok :: "goval \<Rightarrow> bool" where
  "json_ok (VFloat t) \<longleftrightarrow> t \<notin> {''NaN'', ''+Inf'', ''-Inf''}"
| "json_ok (VList vs) \<longleftrightarrow> list_all json_ok vs"
| "json_ok (VMap kvs) \<longleftrightarrow> list_all (\<lambda>(k, v). json_ok v) kvs"
| "json_ok v \<longleftrightarrow> True"

section \<open>Documents\<close>

datatype json =
    JNull
  | JBoolean bool
  | JNumber "int option" string
  | JString string
  | JArray "json list"
  | JObject "(string \<times> json) list"

text \<open>The entries of an object as a Go map, listed by key: of equal keys the last one counts.\<close>

definition object_entries :: "(string \<times> 'v) list \<Rightarrow> (string \<times> 'v) list" where
  "object_entries kvs = sort_key fst (fold (\<lambda>(k, v). AList.update k v) kvs [])"

text \<open>Unmarshal into a value of type any, and Marshal of such a value.\<close>

fun to_any :: "json \<Rightarrow> goval" where
  "to_any JNull = VNil"
| "to_any (JBoolean b) = VBool b"
| "to_any (JNumber n t) = VFloat t"
| "to_any (JString s) = VStr s"
| "to_any (JArray js) = VList (map to_any js)"
| "to_any (JObject kvs) = VMap (object_entries (map (\<lambda>(k, j). (k, to_any j)) kvs))"

fun to_json :: "goval \<Rightarrow> json" where
  "to_json VNil = JNull"
| "to_json (VBool b) = JBoolean b"
| "to_json (VInt i) = JNumber (Some i) (float_text i)"
| "to_json (VFloat t) = JNumber (float_int t) t"
| "to_json (VStr s) = JString s"
| "to_json (VList vs) = JArray (map to_json vs)"
| "to_json (VMap kvs) = JObject (map (\<lambda>(k, v). (k, to_json v)) kvs)"

text \<open>Values whose maps are listed by strictly increasing keys, as they are everywhere.\<close>

fun sorted_maps :: "goval \<Rightarrow> bool" where
  "sorted_maps (VList vs) \<longleftrightarrow> list_all sorted_maps vs"
| "sorted_maps (VMap kvs) \<longleftrightarrow> sorted_wrt (<) (map fst kvs) \<and> list_all (\<lambda>(k, v). sorted_maps v) kvs"
| "sorted_maps v \<longleftrightarrow> True"

lemma update_all:
  "distinct (map fst (acc @ kvs)) \<Longrightarrow> fold (\<lambda>(k, v). AList.update k v) kvs acc = acc @ kvs"
proof (induction kvs arbitrary: acc)
  case Nil
  then show ?case by simp
next
  case (Cons kv kvs)
  obtain k v where kv: "kv = (k, v)" by (cases kv)
  have "AList.update k v acc = acc @ [kv]"
    using Cons.prems kv by (induction acc) auto
  with Cons kv show ?case by simp
qed

lemma object_entries_sorted: "sorted_wrt (<) (map fst kvs) \<Longrightarrow> object_entries kvs = kvs"
proof -
  assume s: "sorted_wrt (<) (map fst kvs)"
  then have "sorted (map fst kvs)" "distinct (map fst kvs)"
    using strict_sorted_iff by blast+
  with update_all [of "[]" kvs] show ?thesis by (simp add: object_entries_def sort_key_id_if_sorted)
qed

lemma to_any_to_json: "sorted_maps v \<Longrightarrow> to_any (to_json v) = json_value v"
proof (induction v rule: to_json.induct)
  case (6 vs)
  then show ?case by (auto simp: list_all_iff)
next
  case (7 kvs)
  then have "map (\<lambda>(k, v). (k, to_any (to_json v))) kvs = map (\<lambda>(k, v). (k, json_value v)) kvs"
    by (auto simp: list_all_iff)
  moreover have "sorted_wrt (<) (map fst (map (\<lambda>(k, v). (k, json_value v)) kvs))"
    using 7(2) by (simp add: comp_def split_beta)
  ultimately show ?case by (simp add: comp_def split_beta object_entries_sorted)
qed simp_all

end
