(* ===== verification/Resume.thy ===== *)
theory Resume
  imports RunLoop Json
begin

text \<open>
  Checkpoints and the resumption of a run: checkpoint of \<^verbatim>\<open>engine/engine.go\<close>,
  \<^verbatim>\<open>runtime/checkpoint.go\<close> and resumeFromLogsRoot with its helpers of \<^verbatim>\<open>engine/resume.go\<close>.

  A checkpoint goes through a JSON file, so the numbers of the context come back as float64.  The
  contents of the status.json files are read by DecodeOutcomeJSON, whose result for each node is a
  parameter; the manifest, the configuration, git and the databases are not modelled.
\<close>

section \<open>Integers in the checkpoint\<close>

text \<open>\<^verbatim>\<open>strconv.Atoi\<close>\<close>

definition Atoi :: "string \<Rightarrow> int option" where
  "Atoi s =
     (let (neg, ds) = (case s of
            c # cs \<Rightarrow> if c = CHR ''-'' then (True, cs) else if c = CHR ''+'' then (False, cs) else (False, s)
          | [] \<Rightarrow> (False, []));
          v = (if neg then - digits_value 0 ds else digits_value 0 ds)
      in if ds = '''' \<or> \<not> list_all is_digit ds \<or> v < int64_min \<or> v > int64_max then None else Some v)"

definition non_negative :: "int \<Rightarrow> int option" where
  "non_negative n = (if n \<ge> 0 then Some n else None)"

definition anyToNonNegativeInt :: "goval \<Rightarrow> int option" where
  "anyToNonNegativeInt v = (case v of
      VInt n \<Rightarrow> non_negative n
    | VFloat t \<Rightarrow> Option.bind (float_int t) non_negative
    | VStr s \<Rightarrow> Option.bind (Atoi (trim_space s)) non_negative
    | _ \<Rightarrow> (let s = trim_space (sprint v) in
        if s \<noteq> '''' \<and> s \<noteq> ''<nil>'' then Option.bind (Atoi s) non_negative else None))"

definition anyToStringValue :: "goval \<Rightarrow> string" where
  "anyToStringValue v = (case v of
      VNil \<Rightarrow> ''''
    | VStr s \<Rightarrow> s
    | _ \<Rightarrow> (let s = trim_space (sprint v) in if s = ''<nil>'' then '''' else s))"

section \<open>Checkpoints\<close>

text \<open>The Go map of retries is read with the default 0, so it is a function.\<close>

record checkpoint =
  cp_CurrentNode :: string
  cp_CompletedNodes :: "string list"
  cp_NodeRetries :: "string \<Rightarrow> int"
  cp_ContextValues :: "string \<rightharpoonup> goval"
  cp_Logs :: "string list"
  cp_GitCommitSHA :: string
  cp_Extra :: "string \<rightharpoonup> goval"

text \<open>
  A map of counters as a value of the checkpoint; \<^verbatim>\<open>keys\<close> lists the keys of the Go map in the
  order of the JSON text.
\<close>

definition counters :: "string list \<Rightarrow> (string \<Rightarrow> int) \<Rightarrow> goval" where
  "counters keys f = VMap (map (\<lambda>k. (k, VInt (f k))) keys)"

definition new_checkpoint ::
  "run_cfg \<Rightarrow> string list \<Rightarrow> string list \<Rightarrow> string \<Rightarrow> string \<Rightarrow> run_state \<Rightarrow> checkpoint" where
  "new_checkpoint cfg restartKeys loopKeys nodeID sha st =
     (let extra = [''base_logs_root'' \<mapsto> VStr (rc_base_logs_root cfg), ''restart_count'' \<mapsto> VInt (r_restart_count st)];
          extra1 = (if restartKeys = [] then extra
            else extra(''restart_failure_signatures'' \<mapsto> counters restartKeys (r_restart_sigs st)));
          extra2 = (if loopKeys = [] then extra1
            else extra1(''loop_failure_signatures'' \<mapsto> counters loopKeys (r_loop_sigs st)))
      in \<lparr>cp_CurrentNode = nodeID, cp_CompletedNodes = r_completed st, cp_NodeRetries = r_retries st,
          cp_ContextValues = ctx_SnapshotValues (r_context st), cp_Logs = ctx_SnapshotLogs (r_context st),
          cp_GitCommitSHA = sha, cp_Extra = extra2\<rparr>)"

text \<open>What LoadCheckpoint reads back from the file that Save writes.\<close>

definition reload :: "checkpoint \<Rightarrow> checkpoint" where
  "reload cp = cp\<lparr>cp_ContextValues := (\<lambda>k. map_option json_value (cp_ContextValues cp k)),
     cp_Extra := (\<lambda>k. map_option json_value (cp_Extra cp k))\<rparr>"

section \<open>Restoring the counters\<close>

definition base_name :: "string \<Rightarrow> string" where
  "base_name path = rev (takeWhile (\<lambda>c. c \<noteq> CHR ''/'') (rev path))"

definition dir_name :: "string \<Rightarrow> string" where
  "dir_name path = (let d = rev (drop 1 (dropWhile (\<lambda>c. c \<noteq> CHR ''/'') (rev path))) in if d = '''' then ''/'' else d)"

text \<open>\<^verbatim>\<open>^restart-(\d+)$\<close> on the last element of a clean absolute path, read by Atoi.\<close>

definition restart_suffix :: "string \<Rightarrow> int option" where
  "restart_suffix path =
     (let b = base_name path; ds = drop (length ''restart-'') b
      in if has_prefix ''restart-'' b \<and> ds \<noteq> '''' \<and> list_all is_digit ds then Atoi ds else None)"

definition restoreRestartState :: "string \<Rightarrow> checkpoint \<Rightarrow> string \<times> int" where
  "restoreRestartState logsRoot cp =
     (let base0 = trim_space logsRoot;
          base = (case cp_Extra cp ''base_logs_root'' of None \<Rightarrow> base0
            | Some raw \<Rightarrow> (let v = trim_space (anyToStringValue raw) in if v = '''' then base0 else v));
          restarts = (case cp_Extra cp ''restart_count'' of None \<Rightarrow> 0
            | Some raw \<Rightarrow> (case anyToNonNegativeInt raw of None \<Rightarrow> 0 | Some n \<Rightarrow> n))
      in case restart_suffix logsRoot of
           None \<Rightarrow> (base, restarts)
         | Some n \<Rightarrow> (if base = logsRoot then dir_name logsRoot else base,
             if restarts = 0 \<or> n > restarts then n else restarts))"

definition restore_counters :: "string \<Rightarrow> checkpoint \<Rightarrow> string \<Rightarrow> int" where
  "restore_counters key cp = (case cp_Extra cp key of
      Some (VMap kvs) \<Rightarrow> fold (\<lambda>(k, v) f. if trim_space k = '''' then f
        else (case anyToNonNegativeInt v of None \<Rightarrow> f | Some n \<Rightarrow> f(trim_space k := n))) kvs (\<lambda>_. 0)
    | _ \<Rightarrow> (\<lambda>_. 0))"

definition restoreRestartFailureSignatures :: "checkpoint \<Rightarrow> string \<Rightarrow> int" where
  "restoreRestartFailureSignatures = restore_counters ''restart_failure_signatures''"

definition restoreLoopFailureSignatures :: "checkpoint \<Rightarrow> string \<Rightarrow> int" where
  "restoreLoopFailureSignatures = restore_counters ''loop_failure_signatures''"

section \<open>Resuming\<close>

datatype resume_error =
    RelativeBase string
  | MissingSHA
  | SetupError string
  | MissingCurrentNode
  | StatusUnreadable string
  | ParallelJoinMissing
  | ResumeCondition cond_error
  | ResumeBranches string
  | ResumeStageFailed string

datatype resume_result = ResumeFailed resume_error | ResumeCompleted | ResumeAt run_state

text \<open>
  The environment: the decoded status.json of each node, an error of the setup, and the results of the
  branches of an implicit fan-out.
\<close>

record resume_env =
  rv_status :: "string \<Rightarrow> outcome option"
  rv_setup_error :: "string option"
  rv_branches :: "string + goval"

definition validateAbsoluteResumePaths :: "checkpoint \<Rightarrow> resume_error option" where
  "validateAbsoluteResumePaths cp = (case cp_Extra cp ''base_logs_root'' of
      None \<Rightarrow> None
    | Some raw \<Rightarrow> (let b = trim_space (anyToStringValue raw) in
        if b \<noteq> '''' \<and> \<not> has_prefix ''/'' b then Some (RelativeBase b) else None))"

text \<open>The engine and the arguments of runLoop, before the next node is known.\<close>

definition restored_outcomes :: "(string \<Rightarrow> outcome option) \<Rightarrow> string list \<Rightarrow> (string \<rightharpoonup> outcome)" where
  "restored_outcomes status completed = (\<lambda>i. if i \<noteq> '''' \<and> i \<in> set completed then status i else None)"

definition restored_state :: "string \<Rightarrow> resume_env \<Rightarrow> checkpoint \<Rightarrow> run_state" where
  "restored_state logsRoot env cp =
     (initial_state '''' (ctx_ReplaceSnapshot NewContext (cp_ContextValues cp) (cp_Logs cp)))
       \<lparr>r_completed := cp_CompletedNodes cp, r_retries := cp_NodeRetries cp,
        r_outcomes := restored_outcomes (rv_status env) (cp_CompletedNodes cp),
        r_restart_count := snd (restoreRestartState logsRoot cp),
        r_restart_sigs := restoreRestartFailureSignatures cp,
        r_loop_sigs := restoreLoopFailureSignatures cp\<rparr>"

definition resume_at :: "string \<Rightarrow> edge option \<Rightarrow> run_state \<Rightarrow> resume_result" where
  "resume_at i incoming st = ResumeAt (st\<lparr>r_incoming := incoming, r_current := i\<rparr>)"

definition resume_hop :: "graph \<Rightarrow> string \<Rightarrow> outcome \<Rightarrow> run_state \<Rightarrow> resume_result" where
  "resume_hop g lastNode out st =
     (let cls = classifyFailureClass out in
      case resolveNextHop (Some g) lastNode out (Some (r_context st)) cls of
        Inl err \<Rightarrow> ResumeFailed (ResumeCondition err)
      | Inr None \<Rightarrow>
          if Status out = StatusFail then
            (let fanInDeterministic = (isFanInFailureLike g lastNode (Status out) \<and>
                   normalizedFailureClassOrDefault cls = failureClassDeterministic);
                 retryTarget = resolveRetryTarget (Some g) lastNode
             in if retryTarget \<noteq> '''' \<and> \<not> fanInDeterministic then resume_at retryTarget None st
                else ResumeFailed (ResumeStageFailed (trim_space (FailureReason out))))
          else ResumeCompleted
      | Inr (Some hop) \<Rightarrow> resume_at (edge_to (hop_edge hop)) (Some (hop_edge hop)) st)"

definition resume_fan_out :: "graph \<Rightarrow> resume_env \<Rightarrow> string \<Rightarrow> outcome \<Rightarrow> run_state \<Rightarrow> resume_result" where
  "resume_fan_out g env lastNode out st =
     (case selectAllEligibleEdgesWithMeta g lastNode out (Some (r_context st)) of
        Inl err \<Rightarrow> ResumeFailed (ResumeCondition err)
      | Inr (allEdges, _) \<Rightarrow>
          if length allEdges > 1 then
            (case findJoinNode g allEdges of
               Inl _ \<Rightarrow> resume_hop g lastNode out st
             | Inr joinID \<Rightarrow>
                 if joinID = '''' then resume_hop g lastNode out st
                 else (case rv_branches env of
                     Inl err \<Rightarrow> ResumeFailed (ResumeBranches err)
                   | Inr results \<Rightarrow>
                       resume_at joinID None (st\<lparr>r_context := ctx_ApplyUpdates (r_context st)
                         (Some [''parallel.join_node'' \<mapsto> VStr joinID,
                                ''parallel.merge_mode'' \<mapsto> VStr (classifyJoinMergeMode g joinID),
                                ''parallel.results'' \<mapsto> results])\<rparr>)))
          else resume_hop g lastNode out st)"

definition resume_route :: "graph \<Rightarrow> resume_env \<Rightarrow> string \<Rightarrow> outcome \<Rightarrow> run_state \<Rightarrow> resume_result" where
  "resume_route g env lastNode out st =
     (if (case g_nodes g lastNode of None \<Rightarrow> False | Some n \<Rightarrow> is_parallel_node n) then
        (let join = trim_space (ctx_GetString (r_context st) ''parallel.join_node'' '''') in
         if join = '''' then ResumeFailed ParallelJoinMissing else resume_at join None st)
      else resume_fan_out g env lastNode out st)"

definition resumeFromLogsRoot :: "graph \<Rightarrow> resume_env \<Rightarrow> string \<Rightarrow> checkpoint \<Rightarrow> resume_result" where
  "resumeFromLogsRoot g env logsRoot cp =
     (case validateAbsoluteResumePaths cp of
        Some err \<Rightarrow> ResumeFailed err
      | None \<Rightarrow>
          if trim_space (cp_GitCommitSHA cp) = '''' then ResumeFailed MissingSHA
          else (case rv_setup_error env of
              Some err \<Rightarrow> ResumeFailed (SetupError err)
            | None \<Rightarrow>
                (let lastNode = trim_space (cp_CurrentNode cp) in
                 if lastNode = '''' then ResumeFailed MissingCurrentNode
                 else (case rv_status env lastNode of
                     None \<Rightarrow> ResumeFailed (StatusUnreadable lastNode)
                   | Some out \<Rightarrow> resume_route g env lastNode out (restored_state logsRoot env cp)))))"

end
