(* ===== verification/ResumeFacts.thy ===== *)
theory ResumeFacts
  imports Resume RunSafety
begin

text \<open>
  What a resumed run has in common with the run it continues: it goes on at the same node with the
  same counters of the breakers, on a context that prints the same; and what it loses.
\<close>

section \<open>Values that print the same\<close>

text \<open>Integers whose text as a float64 is that of the int.\<close>

fun small_ints :: "goval \<Rightarrow> bool" where
  "small_ints (VInt i) \<longleftrightarrow> \<bar>i\<bar> < 1000000"
| "small_ints (VList vs) \<longleftrightarrow> list_all small_ints vs"
| "small_ints (VMap kvs) \<longleftrightarrow> list_all (\<lambda>(k, v). small_ints v) kvs"
| "small_ints v \<longleftrightarrow> True"

lemma length_nat_to_dec: "n < 10 ^ k \<Longrightarrow> 0 < k \<Longrightarrow> length (nat_to_dec n) \<le> k"
proof (induction n arbitrary: k rule: nat_to_dec.induct)
  case (1 n)
  show ?case
  proof (cases "n < 10")
    case True
    with 1 show ?thesis by (simp add: nat_to_dec.simps [of n])
  next
    case False
    with 1(2) obtain k' where k: "k = Suc k'" "0 < k'" by (cases k; cases "k - 1") auto
    then have "n div 10 < 10 ^ k'" using 1(2) by auto
    from 1(1) [OF False this k(2)] False k show ?thesis by (simp add: nat_to_dec.simps [of n])
  qed
qed

lemma float_text_small:
  assumes "\<bar>i\<bar> < 1000000"
  shows "float_text i = int_to_dec i"
proof -
  have "nat \<bar>i\<bar> < 10 ^ 6" using assms by simp
  from length_nat_to_dec [OF this] have "length (nat_to_dec (nat \<bar>i\<bar>)) - 1 < 6" by simp
  then show ?thesis by (auto simp: float_text_def int_to_dec_def Let_def)
qed

lemma cut_at_absent: "\<forall>x \<in> set s. x \<noteq> c \<Longrightarrow> cut_at [c] s = None"
  by (induction s) auto

lemma float_int_small:
  assumes "0 \<le> i" "i < 1000000"
  shows "float_int (float_text i) = Some i"
proof -
  let ?ds = "nat_to_dec (nat i)"
  have ds: "digits_value 0 ?ds = i" "list_all is_digit ?ds" "?ds \<noteq> ''''"
    using nat_to_dec_value [of "nat i"] assms(1) by auto
  have no: "\<not> is_digit (CHR ''e'')" "\<not> is_digit (CHR ''.'')" "\<not> is_digit (CHR ''-'')" by code_simp+
  then have "cut_at ''e'' ?ds = None" "cut_at ''.'' ?ds = None"
    using ds(2) by (auto intro!: cut_at_absent simp: list_all_iff)
  moreover have "hd ?ds \<noteq> CHR ''-''" using ds(2,3) no(3) by (cases ?ds) auto
  moreover have "list_all is_digit ''0''" by code_simp
  moreover have "digits_value 0 ''0'' = 0" by code_simp
  ultimately show ?thesis
    using ds assms by (auto simp: float_text_small int_to_dec_def float_int_def Let_def int64_min_def int64_max_def
        split: list.splits)
qed

lemma sprint_json: "small_ints v \<Longrightarrow> sprint (json_value v) = sprint v"
proof (induction v rule: json_value.induct)
  case (1 i)
  then show ?case by (simp add: float_text_small)
next
  case (2 vs)
  then have "map (\<lambda>v. sprint (json_value v)) vs = map sprint vs" by (auto simp: list_all_iff)
  then show ?case by (simp add: comp_def cong: map_cong)
next
  case (3 kvs)
  then have "map (\<lambda>(k, v). k @ '':'' @ sprint (json_value v)) kvs = map (\<lambda>kv. fst kv @ '':'' @ sprint (snd kv)) kvs"
    by (auto simp: list_all_iff)
  then show ?case by (simp add: comp_def split_beta cong: map_cong)
qed simp_all

lemma json_VNil [simp]: "json_value v = VNil \<longleftrightarrow> v = VNil"
  by (cases v) auto

definition alike :: "goval option \<Rightarrow> goval option \<Rightarrow> bool" where
  "alike v w \<longleftrightarrow> (case (v, w) of
      (None, None) \<Rightarrow> True
    | (Some x, Some y) \<Rightarrow> (x = VNil \<longleftrightarrow> y = VNil) \<and> sprint x = sprint y
    | _ \<Rightarrow> False)"

definition ctx_alike :: "run_context \<Rightarrow> run_context \<Rightarrow> bool" where
  "ctx_alike c d \<longleftrightarrow> (\<forall>k. alike (ctx_Get c k) (ctx_Get d k))"

lemma alike_refl [simp]: "alike v v"
  by (auto simp: alike_def split: option.splits)

lemma alike_json: "(\<And>x. v = Some x \<Longrightarrow> small_ints x) \<Longrightarrow> alike v (map_option json_value v)"
  by (cases v) (simp_all add: alike_def sprint_json)

lemma ctx_alike_ApplyUpdates: "ctx_alike c d \<Longrightarrow> ctx_alike (ctx_ApplyUpdates c u) (ctx_ApplyUpdates d u)"
  by (auto simp: ctx_alike_def split: option.splits)

lemma ctx_alike_GetString: "ctx_alike c d \<Longrightarrow> ctx_GetString c k def = ctx_GetString d k def"
  by (auto simp: ctx_alike_def alike_def ctx_GetString_def split: option.splits dest!: spec [of _ k])

lemma ctx_alike_resolveKey:
  assumes "ctx_alike c d"
  shows "resolveKey k out (Some c) = resolveKey k out (Some d)"
proof -
  have "(case ctx_Get c k of None \<Rightarrow> None | Some v \<Rightarrow> if v = VNil then None else Some (sprint v)) =
      (case ctx_Get d k of None \<Rightarrow> None | Some v \<Rightarrow> if v = VNil then None else Some (sprint v))" for k
    using assms unfolding ctx_alike_def alike_def by (auto split: option.splits dest!: spec [of _ k])
  then show ?thesis by (simp add: resolveKey_def Let_def)
qed

lemma ctx_alike_Evaluate:
  assumes "ctx_alike c d"
  shows "Evaluate cnd out (Some c) = Evaluate cnd out (Some d)"
proof -
  have "evalClause cl out (Some c) = evalClause cl out (Some d)" for cl
    by (auto simp: evalClause_def ctx_alike_resolveKey [OF assms] Let_def split: option.split)
  then have "evalClauses cs out (Some c) = evalClauses cs out (Some d)" for cs
    by (induction cs) (auto simp: Let_def split: sum.split)
  then show ?thesis by (simp add: Evaluate_def Let_def cong: if_cong)
qed

lemma ctx_alike_routing:
  assumes "ctx_alike c d"
  shows "selectAllEligibleEdgesWithMeta g i out (Some c) = selectAllEligibleEdgesWithMeta g i out (Some d)"
    "resolveNextHop (Some g) i out (Some c) cls = resolveNextHop (Some g) i out (Some d) cls"
proof -
  have m: "matchedEdges es out (Some c) = matchedEdges es out (Some d)" for es
    by (simp add: matchedEdges_filter cond_holds_def [abs_def] ctx_alike_Evaluate [OF assms])
  then show s: "selectAllEligibleEdgesWithMeta g i out (Some c) = selectAllEligibleEdgesWithMeta g i out (Some d)" for i
    by (simp add: selectAllEligibleEdgesWithMeta_def m Let_def cong: if_cong)
  show "resolveNextHop (Some g) i out (Some c) cls = resolveNextHop (Some g) i out (Some d) cls"
    by (simp add: resolveNextHop_def selectMatchingConditionalEdge_def selectNextEdgeWithMeta_def s m Let_def cong: if_cong)
qed

section \<open>Counters\<close>

lemma restore_counters_reload:
  assumes "cp_Extra cp key = Some (counters keys f)" "distinct keys"
    and "\<forall>k \<in> set keys. trim_space k = k \<and> k \<noteq> '''' \<and> 0 \<le> f k \<and> f k < 1000000" "\<forall>k. k \<notin> set keys \<longrightarrow> f k = 0"
  shows "restore_counters key (reload cp) = f"
proof -
  let ?step = "\<lambda>(k, v) h. if trim_space k = '''' then h
    else (case anyToNonNegativeInt v of None \<Rightarrow> h | Some n \<Rightarrow> h(trim_space k := n))"
  have "fold ?step (map (\<lambda>k. (k, VFloat (float_text (f k)))) ks) h = (\<lambda>k. if k \<in> set ks then f k else h k)"
    if "set ks \<subseteq> set keys" for ks and h :: "string \<Rightarrow> int"
    using that
  proof (induction ks arbitrary: h)
    case Nil
    then show ?case by simp
  next
    case (Cons k ks)
    have k: "trim_space k = k" "k \<noteq> ''''" "0 \<le> f k" "f k < 1000000" using Cons.prems assms(3) by auto
    then have "fold ?step (map (\<lambda>k. (k, VFloat (float_text (f k)))) (k # ks)) h =
        fold ?step (map (\<lambda>k. (k, VFloat (float_text (f k)))) ks) (h(k := f k))"
      by (simp add: anyToNonNegativeInt_def float_int_small non_negative_def)
    also have "\<dots> = (\<lambda>k'. if k' \<in> set ks then f k' else (h(k := f k)) k')"
      using Cons.prems by (intro Cons.IH) simp
    finally show ?case by (auto simp: fun_eq_iff)
  qed
  from this [of keys "\<lambda>_. 0"] assms(1,4) show ?thesis
    by (auto simp: restore_counters_def reload_def counters_def comp_def fun_eq_iff)
qed

text \<open>The lists of keys of a checkpoint are those of the two maps.\<close>

definition counted :: "string list \<Rightarrow> (string \<Rightarrow> int) \<Rightarrow> bool" where
  "counted keys f \<longleftrightarrow> distinct keys \<and> (\<forall>k. k \<notin> set keys \<longrightarrow> f k = 0) \<and>
     (\<forall>k \<in> set keys. trim_space k = k \<and> k \<noteq> '''' \<and> 0 \<le> f k \<and> f k < 1000000)"

lemma restored_counters:
  assumes "counted rkeys (r_restart_sigs st)" "counted lkeys (r_loop_sigs st)"
  shows "restoreRestartFailureSignatures (reload (new_checkpoint cfg rkeys lkeys i sha st)) = r_restart_sigs st"
    "restoreLoopFailureSignatures (reload (new_checkpoint cfg rkeys lkeys i sha st)) = r_loop_sigs st"
proof -
  let ?cp = "new_checkpoint cfg rkeys lkeys i sha st"
  show "restoreRestartFailureSignatures (reload ?cp) = r_restart_sigs st"
  proof (cases "rkeys = []")
    case True
    with assms(1) show ?thesis
      by (auto simp: restoreRestartFailureSignatures_def restore_counters_def reload_def new_checkpoint_def counted_def Let_def)
  next
    case False
    with assms(1) show ?thesis
      unfolding restoreRestartFailureSignatures_def
      by (intro restore_counters_reload [where keys = rkeys]) (auto simp: new_checkpoint_def counted_def Let_def)
  qed
  show "restoreLoopFailureSignatures (reload ?cp) = r_loop_sigs st"
  proof (cases "lkeys = []")
    case True
    with assms(2) show ?thesis
      by (auto simp: restoreLoopFailureSignatures_def restore_counters_def reload_def new_checkpoint_def counted_def Let_def)
  next
    case False
    with assms(2) show ?thesis
      unfolding restoreLoopFailureSignatures_def
      by (intro restore_counters_reload [where keys = lkeys]) (auto simp: new_checkpoint_def counted_def Let_def)
  qed
qed

lemma restored_restarts:
  assumes "0 \<le> r_restart_count st" "r_restart_count st < 1000000"
    and "restart_suffix root = None \<or> restart_suffix root = Some (r_restart_count st)"
  shows "snd (restoreRestartState root (reload (new_checkpoint cfg rkeys lkeys i sha st))) = r_restart_count st"
  using assms
  by (auto simp: restoreRestartState_def reload_def new_checkpoint_def Let_def anyToNonNegativeInt_def float_int_small
      non_negative_def)

section \<open>One step\<close>

text \<open>The result of a resumption next to that of the pass after which the checkpoint was written.\<close>

definition same_progress :: "run_state \<Rightarrow> run_state \<Rightarrow> bool" where
  "same_progress st st' \<longleftrightarrow> r_current st' = r_current st \<and> r_incoming st' = r_incoming st \<and>
     r_completed st' = r_completed st \<and> r_retries st' = r_retries st \<and> r_outcomes st' = r_outcomes st \<and>
     ctx_alike (r_context st) (r_context st') \<and> r_restart_count st' = r_restart_count st \<and>
     r_restart_sigs st' = r_restart_sigs st \<and> r_loop_sigs st' = r_loop_sigs st"

definition continues :: "step_result \<Rightarrow> resume_result \<Rightarrow> bool" where
  "continues r q \<longleftrightarrow> (case r of
      Goto st \<Rightarrow> (case q of ResumeAt st' \<Rightarrow> same_progress st st' | _ \<Rightarrow> False)
    | Stop RunSuccess st \<Rightarrow> q = ResumeCompleted
    | Stop (RunFailed e) st \<Rightarrow> (case e of
        ConditionError err \<Rightarrow> q = ResumeFailed (ResumeCondition err)
      | BranchesFailed err \<Rightarrow> q = ResumeFailed (ResumeBranches err)
      | ParallelWithoutJoin \<Rightarrow> q = ResumeFailed ParallelJoinMissing
      | StageFailed reason \<Rightarrow> q = ResumeFailed (ResumeStageFailed (trim_space reason))
      | _ \<Rightarrow> False))"

definition same_but_place :: "run_state \<Rightarrow> run_state \<Rightarrow> bool" where
  "same_but_place st st' \<longleftrightarrow> r_completed st' = r_completed st \<and> r_retries st' = r_retries st \<and> r_outcomes st' = r_outcomes st \<and>
     ctx_alike (r_context st) (r_context st') \<and> r_restart_count st' = r_restart_count st \<and>
     r_restart_sigs st' = r_restart_sigs st \<and> r_loop_sigs st' = r_loop_sigs st"

lemma continues_goto: "same_but_place st st' \<Longrightarrow> continues (goto_node i e st) (resume_at i e st')"
  by (simp add: continues_def same_but_place_def same_progress_def goto_node_def resume_at_def)

definition no_restart_edge :: "graph \<Rightarrow> string \<Rightarrow> bool" where
  "no_restart_edge g i \<longleftrightarrow>
     (\<forall>e \<in> set (Outgoing g i). \<not> equal_fold (edge_Attr (Some e) ''loop_restart'' ''false'') ''true'')"

lemma hop_no_restart:
  assumes "no_restart_edge g i" "trim_space i = i" "resolveNextHop (Some g) i out ctx cls = Inr (Some hop)"
  shows "\<not> equal_fold (edge_Attr (Some (hop_edge hop)) ''loop_restart'' ''false'') ''true''"
proof (cases "hop_edge hop \<in> set (Outgoing g i)")
  case True
  with assms(1) show ?thesis by (simp add: no_restart_edge_def)
next
  case False
  obtain target source where "hop_edge hop = synthetic_retry_edge i target source"
  proof (cases "isFanInFailureLike g i (Status out)")
    case True
    with False assms(2,3) that show thesis
      by (auto simp: resolveNextHop_def Let_def selectMatchingConditionalEdge_def matchedEdges_filter
          split: if_splits sum.splits prod.splits dest: bestEdge_least(1))
  next
    case fan: False
    with False assms(2,3) selected_least show thesis
      by (fastforce simp: resolveNextHop_def Let_def split: if_splits sum.splits prod.splits option.splits)
  qed
  moreover have "\<not> equal_fold ''false'' ''true''" by code_simp
  ultimately show ?thesis by (simp add: synthetic_retry_edge_def edge_Attr_def NewEdge_def)
qed

lemma continues_hop:
  assumes s: "same_but_place st st'" and n: "trim_space (node_id n) = node_id n"
    and plain: "no_restart_edge (rc_run_graph cfg) (node_id n)" "se_completed_error ev = None"
  shows "continues (route cfg ev n out (classifyFailureClass out) st) (resume_hop (rc_run_graph cfg) (node_id n) out st')"
proof -
  let ?g = "rc_run_graph cfg" and ?cls = "classifyFailureClass out"
  have ctx: "ctx_alike (r_context st) (r_context st')" using s by (simp add: same_but_place_def)
  note same = ctx_alike_routing(2) [OF ctx, of ?g "node_id n" out ?cls, symmetric]
  show ?thesis
  proof (cases "resolveNextHop (Some ?g) (node_id n) out (Some (r_context st)) ?cls")
    case (Inl err)
    then show ?thesis by (simp add: route_def resume_hop_def same Let_def continues_def)
  next
    case (Inr r)
    then show ?thesis
    proof (cases r)
      case None
      with Inr plain(2) show ?thesis
        by (simp add: route_def resume_hop_def same Let_def continues_goto [OF s]) (simp add: continues_def)
    next
      case (Some hop)
      with Inr hop_no_restart [OF plain(1) n, of out "Some (r_context st)" ?cls hop] show ?thesis
        by (simp add: route_def resume_hop_def same Let_def continues_goto [OF s])
    qed
  qed
qed

lemma continues_fan_out:
  assumes s: "same_but_place st st'" and n: "trim_space (node_id n) = node_id n"
    and plain: "no_restart_edge (rc_run_graph cfg) (node_id n)" "se_completed_error ev = None"
    and branches: "rv_branches env = se_branches ev"
  shows "continues (fan_out cfg ev n out (classifyFailureClass out) st)
    (resume_fan_out (rc_run_graph cfg) env (node_id n) out st')"
proof -
  let ?g = "rc_run_graph cfg"
  have ctx: "ctx_alike (r_context st) (r_context st')" using s by (simp add: same_but_place_def)
  note same = ctx_alike_routing(1) [OF ctx, of ?g "node_id n" out, symmetric]
  note hop = continues_hop [OF s n plain, of out]
  have upd: "same_but_place (st\<lparr>r_context := ctx_ApplyUpdates (r_context st) u\<rparr>)
      (st'\<lparr>r_context := ctx_ApplyUpdates (r_context st') u\<rparr>)" for u
    using s by (simp add: same_but_place_def ctx_alike_ApplyUpdates)
  show ?thesis
    using hop continues_goto [OF upd] branches
    by (auto simp: fan_out_def resume_fan_out_def same Let_def continues_def [of "Stop _ _"] split: sum.split prod.split)
qed

text \<open>The state that a resumption starts from.\<close>

definition resumable :: "run_cfg \<Rightarrow> string list \<Rightarrow> string list \<Rightarrow> string \<Rightarrow> resume_env \<Rightarrow> run_state \<Rightarrow> bool" where
  "resumable cfg rkeys lkeys root env st \<longleftrightarrow>
     counted rkeys (r_restart_sigs st) \<and> counted lkeys (r_loop_sigs st) \<and>
     0 \<le> r_restart_count st \<and> r_restart_count st < 1000000 \<and>
     (restart_suffix root = None \<or> restart_suffix root = Some (r_restart_count st)) \<and>
     has_prefix ''/'' (trim_space (rc_base_logs_root cfg)) \<and>
     (\<forall>k v. ctx_Get (r_context st) k = Some v \<longrightarrow> small_ints v) \<and>
     dom (r_outcomes st) \<subseteq> set (r_completed st) - {''''} \<and>
     (\<forall>i \<in> set (r_completed st). rv_status env i = r_outcomes st i)"

lemma restored_same:
  assumes "resumable cfg rkeys lkeys root env st"
  shows "same_but_place st (restored_state root env (reload (new_checkpoint cfg rkeys lkeys i sha st)))"
proof -
  let ?cp = "reload (new_checkpoint cfg rkeys lkeys i sha st)"
  have fields: "cp_CompletedNodes ?cp = r_completed st" "cp_NodeRetries ?cp = r_retries st"
      "cp_ContextValues ?cp = (\<lambda>k. map_option json_value (ctx_values (r_context st) k))"
    by (simp_all add: reload_def new_checkpoint_def Let_def ctx_SnapshotValues_def)
  have "restored_outcomes (rv_status env) (r_completed st) = r_outcomes st"
  proof
    fix i
    show "restored_outcomes (rv_status env) (r_completed st) i = r_outcomes st i"
      using assms by (cases "r_outcomes st i") (auto simp: resumable_def restored_outcomes_def)
  qed
  moreover have "ctx_alike (r_context st) (ctx_ReplaceSnapshot NewContext (cp_ContextValues ?cp) (cp_Logs ?cp))"
    using assms by (auto simp: ctx_alike_def fields ctx_ReplaceSnapshot_def ctx_Get_def resumable_def intro!: alike_json)
  ultimately show ?thesis
    using assms restored_counters restored_restarts
    by (simp add: same_but_place_def restored_state_def fields initial_state_def resumable_def)
qed

lemma json_not_int [simp]: "json_value v \<noteq> VInt n"
  by (cases v) auto

lemma read_reloaded:
  "read_iteration (ctx_ReplaceSnapshot c (\<lambda>k. map_option json_value (m k)) logs) key = 0"
  by (auto simp: read_iteration_def ctx_Get_def ctx_ReplaceSnapshot_def split: option.split goval.split)

lemma resumed_place:
  assumes "resumeFromLogsRoot g env root cp = ResumeAt st'"
  obtains i e u where "st' = (restored_state root env cp)\<lparr>r_incoming := e, r_current := i,
      r_context := ctx_ApplyUpdates (r_context (restored_state root env cp)) u\<rparr>"
    "dom (map_of_nil u) \<subseteq> {''parallel.join_node'', ''parallel.merge_mode'', ''parallel.results''}"
proof -
  let ?st = "restored_state root env cp"
  have none: "ctx_ApplyUpdates c None = c" for c by (simp add: ctx_ApplyUpdates_def map_of_nil_def)
  have "\<exists>i e u. st' = ?st\<lparr>r_incoming := e, r_current := i, r_context := ctx_ApplyUpdates (r_context ?st) u\<rparr> \<and>
      dom (map_of_nil u) \<subseteq> {''parallel.join_node'', ''parallel.merge_mode'', ''parallel.results''}"
  proof -
    have at: ?thesis if "resume_at i e ?st = ResumeAt st'" for i e
      using that by (intro exI [of _ i] exI [of _ e] exI [of _ None]) (auto simp: resume_at_def none map_of_nil_def)
    have hop: ?thesis if "resume_hop g i out ?st = ResumeAt st'" for i out
      using that at by (auto simp: resume_hop_def Let_def split: sum.splits option.splits if_splits)
    have upd: ?thesis if "resume_at i None (?st\<lparr>r_context := ctx_ApplyUpdates (r_context ?st)
        (Some [''parallel.join_node'' \<mapsto> a, ''parallel.merge_mode'' \<mapsto> b, ''parallel.results'' \<mapsto> c])\<rparr>) = ResumeAt st'" for i a b c
      using that
      by (intro exI [of _ i] exI [of _ None] exI [of _ "Some [''parallel.join_node'' \<mapsto> a, ''parallel.merge_mode'' \<mapsto> b, ''parallel.results'' \<mapsto> c]"])
         (auto simp: resume_at_def map_of_nil_def)
    have fan: ?thesis if "resume_fan_out g env i out ?st = ResumeAt st'" for i out
      using that hop upd by (auto simp: resume_fan_out_def split: sum.splits prod.splits if_splits)
    obtain i out where "resume_route g env i out ?st = ResumeAt st'"
      using assms by (auto simp: resumeFromLogsRoot_def Let_def split: option.splits if_splits)
    with fan at show ?thesis by (auto simp: resume_route_def Let_def split: if_splits)
  qed
  with that show thesis by blast
qed

section \<open>Properties\<close>


text \<open>A run of three stages whose second one closes a loop or restarts, as the attributes say.\<close>

definition poll_graph :: "(string \<rightharpoonup> string) \<Rightarrow> (string \<rightharpoonup> string) \<Rightarrow> graph" where
  "poll_graph attrs edge = add_edges [NewEdge ''start'' ''poll'', (NewEdge ''poll'' ''done'')\<lparr>edge_attrs := edge\<rparr>]
     (add_nodes [(NewNode ''start'')\<lparr>node_attrs := [''shape'' \<mapsto> ''Mdiamond'']\<rparr>, (NewNode ''poll'')\<lparr>node_attrs := attrs\<rparr>,
        (NewNode ''done'')\<lparr>node_attrs := [''shape'' \<mapsto> ''Msquare'']\<rparr>] (NewGraph ''g''))"

definition poll_cfg :: "graph \<Rightarrow> run_cfg" where
  "poll_cfg g = \<lparr>rc_run_graph = g, rc_registered = core_types, rc_base_logs_root = ''/runs/r1'', rc_base_sha = ''0''\<rparr>"

definition poll_out :: outcome where
  "poll_out = zero_outcome\<lparr>Status := ''success''\<rparr>"

definition poll_state :: run_state where
  "poll_state = (initial_state ''poll'' (ctx_Set (ctx_Set NewContext ''loop.poll.iteration'' (VInt 1)) ''outcome'' (VStr ''success'')))
     \<lparr>r_completed := [''start'', ''poll''], r_outcomes := [''start'' \<mapsto> poll_out, ''poll'' \<mapsto> poll_out],
      r_loop_sigs := (\<lambda>k. if k = ''sig'' then 2 else 0)\<rparr>"

definition poll_resume :: resume_env where
  "poll_resume = \<lparr>rv_status = [''start'' \<mapsto> poll_out, ''poll'' \<mapsto> poll_out], rv_setup_error = None,
     rv_branches = Inl ''no branches''\<rparr>"

abbreviation poll_checkpoint :: "graph \<Rightarrow> checkpoint" where
  "poll_checkpoint g \<equiv> reload (new_checkpoint (poll_cfg g) [] [''sig''] ''poll'' ''abc'' poll_state)"

definition poll_node_of :: "(string \<rightharpoonup> string) \<Rightarrow> node" where
  "poll_node_of attrs = (NewNode ''poll'')\<lparr>node_attrs := attrs\<rparr>"

lemma poll_resumable: "resumable (poll_cfg g) [] [''sig''] ''/runs/r1'' poll_resume poll_state"
proof -
  have "restart_suffix ''/runs/r1'' = None" unfolding Option.is_none_def [symmetric] by code_simp
  moreover have "has_prefix ''/'' (trim_space ''/runs/r1'')" "trim_space ''sig'' = ''sig''" by code_simp+
  ultimately show ?thesis
    by (auto simp: resumable_def counted_def poll_cfg_def poll_state_def poll_resume_def initial_state_def
        ctx_Get_def ctx_Set_def NewContext_def split: if_splits)
qed


text \<open>
  a resumption forgets what the run has counted outside the checkpoint: every node can be visited
  as often again as max_node_visits allows, and every loop starts to count anew, because its counter
  comes back from the JSON file as a float64 and is only read when it is an int.
\<close>

theorem resume_resets_counts:
  assumes "resumeFromLogsRoot g env root (reload cp) = ResumeAt st'"
  shows "r_visits st' i = 0 \<and> read_iteration (r_context st') (loop_key spec) = 0"
proof -
  let ?st = "restored_state root env (reload cp)"
  obtain j e u where st': "st' = ?st\<lparr>r_incoming := e, r_current := j, r_context := ctx_ApplyUpdates (r_context ?st) u\<rparr>"
      "dom (map_of_nil u) \<subseteq> {''parallel.join_node'', ''parallel.merge_mode'', ''parallel.results''}"
    using resumed_place [OF assms] .
  have "loop_key spec \<notin> {''parallel.join_node'', ''parallel.merge_mode'', ''parallel.results''}" by (auto simp: loop_key_def)
  with st'(2) have "map_of_nil u (loop_key spec) = None" by blast
  then have "ctx_Get (r_context st') (loop_key spec) = ctx_Get (r_context ?st) (loop_key spec)" by (simp add: st'(1))
  moreover have "read_iteration (r_context ?st) (loop_key spec) = 0"
    by (simp add: restored_state_def initial_state_def reload_def read_reloaded)
  ultimately show ?thesis by (simp add: st'(1) restored_state_def initial_state_def read_iteration_def)
qed

theorem resume_resets_counts_witness:
  "\<exists>st'. resumeFromLogsRoot (poll_graph Map.empty Map.empty) poll_resume ''/runs/r1''
      (poll_checkpoint (poll_graph Map.empty Map.empty)) = ResumeAt st' \<and>
    read_iteration (r_context poll_state) (loop_key poll_spec) = 1 \<and> read_iteration (r_context st') (loop_key poll_spec) = 0"
proof -
  let ?g = "poll_graph Map.empty Map.empty"
  let ?r = "resumeFromLogsRoot ?g poll_resume ''/runs/r1'' (poll_checkpoint ?g)"
  have "case ?r of ResumeAt st' \<Rightarrow> True | _ \<Rightarrow> False" by code_simp
  then obtain st' where "?r = ResumeAt st'" by (auto split: resume_result.splits)
  moreover have "read_iteration (r_context poll_state) (loop_key poll_spec) = 1" by code_simp
  ultimately show ?thesis using resume_resets_counts [of ?g poll_resume "''/runs/r1''" _ st' "''poll''" poll_spec] by blast
qed

text \<open>
  Where the theorem does not apply, the run and its resumption differ: a loop is left early, a
  restart of the loop does not happen, and an int of seven digits prints otherwise.
\<close>

lemma resume_leaves_loop:
  "case after_stage (poll_cfg (poll_graph [''loop_count'' \<mapsto> ''5''] Map.empty)) (quiet_env zero_outcome)
      (poll_node_of [''loop_count'' \<mapsto> ''5'']) poll_out '''' poll_state of
     Goto st \<Rightarrow> r_current st = ''poll'' | Stop r st \<Rightarrow> False"
  "case resumeFromLogsRoot (poll_graph [''loop_count'' \<mapsto> ''5''] Map.empty) poll_resume ''/runs/r1''
      (poll_checkpoint (poll_graph [''loop_count'' \<mapsto> ''5''] Map.empty)) of
     ResumeAt st \<Rightarrow> r_current st = ''done'' | _ \<Rightarrow> False"
  by code_simp+

lemma resume_skips_restart:
  "case after_stage (poll_cfg (poll_graph Map.empty [''loop_restart'' \<mapsto> ''true''])) (quiet_env zero_outcome)
      (poll_node_of Map.empty) poll_out '''' poll_state of
     Goto st \<Rightarrow> r_restart_count st = 1 \<and> length (r_completed st) = 0 | Stop r st \<Rightarrow> False"
  "case resumeFromLogsRoot (poll_graph Map.empty [''loop_restart'' \<mapsto> ''true'']) poll_resume ''/runs/r1''
      (poll_checkpoint (poll_graph Map.empty [''loop_restart'' \<mapsto> ''true''])) of
     ResumeAt st \<Rightarrow> r_restart_count st = 0 \<and> length (r_completed st) = 2 | _ \<Rightarrow> False"
  by code_simp+

lemma dec_1234567: "nat_to_dec 1234567 = ''1234567''"
proof -
  have "map dec_digit [1, 2, 3, 4, 5, 6, 7] = ''1234567''" by code_simp
  then show ?thesis by (simp add: nat_to_dec.simps)
qed

lemma resume_reprints_int: "sprint (VInt 1234567) = ''1234567''" "sprint (json_value (VInt 1234567)) = ''1.234567e+06''"
proof -
  have "strip_zeros ''1234567'' = ''1234567''" "nat_to_dec (length ''1234567'' - 1) = ''6''" by code_simp+
  then show "sprint (VInt 1234567) = ''1234567''" "sprint (json_value (VInt 1234567)) = ''1.234567e+06''"
    by (simp_all add: int_to_dec_def float_text_def dec_1234567)
qed

end
