(* ===== verification/OutcomeJson.thy ===== *)
theory OutcomeJson
  imports Json
begin

text \<open>
  The file status.json, \<^verbatim>\<open>runtime/status.go\<close>: how an outcome is written, and
  DecodeOutcomeJSON, which reads it back and accepts an older form.  The field verification is
  checked for its type and not kept; the contents of an array that is given twice in one object are
  not modelled.
\<close>

section \<open>Members of an object\<close>

text \<open>
  A member belongs to the field of its exact name, and to one that differs in case if no field has
  the exact name.
\<close>

definition field_is :: "string list \<Rightarrow> string \<Rightarrow> string \<Rightarrow> bool" where
  "field_is fs f k \<longleftrightarrow> (if k \<in> set fs then k = f else equal_fold k f)"

definition members :: "string list \<Rightarrow> string \<Rightarrow> (string \<times> json) list \<Rightarrow> json list" where
  "members fs f kvs = map snd (filter (\<lambda>(k, j). field_is fs f k) kvs)"

text \<open>The members of a field one after the other: the value, and whether all had the right type.\<close>

definition decode_string :: "json list \<Rightarrow> string \<times> bool" where
  "decode_string js = fold (\<lambda>j (s, ok). case j of
      JString t \<Rightarrow> (t, ok) | JNull \<Rightarrow> (s, ok) | _ \<Rightarrow> (s, False)) js ('''', True)"

definition string_item :: "json \<Rightarrow> string" where
  "string_item j = (case j of JString t \<Rightarrow> t | _ \<Rightarrow> '''')"

definition decode_strings :: "json list \<Rightarrow> string list option \<times> bool" where
  "decode_strings js = fold (\<lambda>j (s, ok). case j of
      JNull \<Rightarrow> (None, ok)
    | JArray xs \<Rightarrow> (Some (map string_item xs),
        ok \<and> list_all (\<lambda>x. case x of JString _ \<Rightarrow> True | JNull \<Rightarrow> True | _ \<Rightarrow> False) xs)
    | _ \<Rightarrow> (s, False)) js (None, True)"

definition any_entries :: "(string \<times> json) list \<Rightarrow> (string \<times> goval) list" where
  "any_entries kvs = object_entries (map (\<lambda>(k, j). (k, to_any j)) kvs)"

definition decode_map :: "json list \<Rightarrow> (string \<rightharpoonup> goval) option \<times> bool" where
  "decode_map js = fold (\<lambda>j (m, ok). case j of
      JNull \<Rightarrow> (None, ok)
    | JObject kvs \<Rightarrow> (Some (map_of_nil m ++ map_of (any_entries kvs)), ok)
    | _ \<Rightarrow> (m, False)) js (None, True)"

definition decode_any :: "json list \<Rightarrow> goval" where
  "decode_any js = fold (\<lambda>j v. to_any j) js VNil"

text \<open>The types of the fields of VerificationResult and VerificationEntry.\<close>

definition decode_int_ok :: "json \<Rightarrow> bool" where
  "decode_int_ok j = (case j of JNumber n t \<Rightarrow> n \<noteq> None | JNull \<Rightarrow> True | _ \<Rightarrow> False)"

definition decode_bool_ok :: "json \<Rightarrow> bool" where
  "decode_bool_ok j = (case j of JBoolean b \<Rightarrow> True | JNull \<Rightarrow> True | _ \<Rightarrow> False)"

definition entry_fields :: "string list" where
  "entry_fields = [''command'', ''exit_code'', ''blocked'', ''reason'']"

definition entry_ok :: "json \<Rightarrow> bool" where
  "entry_ok j = (case j of
      JNull \<Rightarrow> True
    | JObject kvs \<Rightarrow> snd (decode_string (members entry_fields ''command'' kvs)) \<and>
        list_all decode_int_ok (members entry_fields ''exit_code'' kvs) \<and>
        list_all decode_bool_ok (members entry_fields ''blocked'' kvs) \<and>
        snd (decode_string (members entry_fields ''reason'' kvs))
    | _ \<Rightarrow> False)"

definition verification_fields :: "string list" where
  "verification_fields = [''status'', ''blocked_reason'', ''commands'']"

definition verification_ok :: "json \<Rightarrow> bool" where
  "verification_ok j = (case j of
      JNull \<Rightarrow> True
    | JObject kvs \<Rightarrow> snd (decode_string (members verification_fields ''status'' kvs)) \<and>
        snd (decode_string (members verification_fields ''blocked_reason'' kvs)) \<and>
        list_all (\<lambda>c. case c of JNull \<Rightarrow> True | JArray es \<Rightarrow> list_all entry_ok es | _ \<Rightarrow> False)
          (members verification_fields ''commands'' kvs)
    | _ \<Rightarrow> False)"

section \<open>The two forms\<close>

definition outcome_fields :: "string list" where
  "outcome_fields = [''status'', ''preferred_label'', ''suggested_next_ids'', ''context_updates'', ''notes'',
     ''failure_reason'', ''verification'', ''details'', ''meta'']"

definition unmarshal_outcome :: "json \<Rightarrow> outcome \<times> bool" where
  "unmarshal_outcome j = (case j of
      JNull \<Rightarrow> (zero_outcome, True)
    | JObject kvs \<Rightarrow>
        (let f = (\<lambda>k. members outcome_fields k kvs);
             (st, ok1) = decode_string (f ''status''); (label, ok2) = decode_string (f ''preferred_label'');
             (ids, ok3) = decode_strings (f ''suggested_next_ids''); (upd, ok4) = decode_map (f ''context_updates'');
             (nts, ok5) = decode_string (f ''notes''); (reason, ok6) = decode_string (f ''failure_reason'');
             ok7 = list_all verification_ok (f ''verification''); (mt, ok8) = decode_map (f ''meta'')
         in (\<lparr>Status = st, PreferredLabel = label, SuggestedNextIDs = ids, ContextUpdates = upd, Notes = nts,
              FailureReason = reason, Details = decode_any (f ''details''), Meta = mt\<rparr>,
             ok1 \<and> ok2 \<and> ok3 \<and> ok4 \<and> ok5 \<and> ok6 \<and> ok7 \<and> ok8))
    | _ \<Rightarrow> (zero_outcome, False))"

definition legacy_fields :: "string list" where
  "legacy_fields = [''outcome'', ''preferred_next_label'', ''suggested_next_ids'', ''context_updates'', ''notes'',
     ''failure_reason'', ''details'']"

definition unmarshal_legacy :: "json \<Rightarrow> outcome \<times> bool" where
  "unmarshal_legacy j = (case j of
      JNull \<Rightarrow> (zero_outcome, True)
    | JObject kvs \<Rightarrow>
        (let f = (\<lambda>k. members legacy_fields k kvs);
             (st, ok1) = decode_string (f ''outcome''); (label, ok2) = decode_string (f ''preferred_next_label'');
             (ids, ok3) = decode_strings (f ''suggested_next_ids''); (upd, ok4) = decode_map (f ''context_updates'');
             (nts, ok5) = decode_string (f ''notes''); (reason, ok6) = decode_string (f ''failure_reason'')
         in (\<lparr>Status = st, PreferredLabel = label, SuggestedNextIDs = ids, ContextUpdates = upd, Notes = nts,
              FailureReason = reason, Details = decode_any (f ''details''), Meta = None\<rparr>,
             ok1 \<and> ok2 \<and> ok3 \<and> ok4 \<and> ok5 \<and> ok6))
    | _ \<Rightarrow> (zero_outcome, False))"

section \<open>Compact texts of values\<close>

definition hex_digit :: "nat \<Rightarrow> char" where
  "hex_digit n = char_of (if n < 10 then 48 + n else 87 + n)"

definition json_char :: "char \<Rightarrow> string" where
  "json_char c =
     (let n = of_char c :: nat in
      if c = CHR 0x22 \<or> c = CHR 0x5C then [CHR 0x5C, c]
      else if c = CHR 0x0A then [CHR 0x5C, CHR ''n''] else if c = CHR 0x0D then [CHR 0x5C, CHR ''r'']
      else if c = CHR 0x09 then [CHR 0x5C, CHR ''t''] else if c = CHR 0x08 then [CHR 0x5C, CHR ''b'']
      else if c = CHR 0x0C then [CHR 0x5C, CHR ''f'']
      else if n < 32 \<or> c \<in> {CHR ''<'', CHR ''>'', CHR ''&''} then
        CHR 0x5C # ''u00'' @ [hex_digit (n div 16), hex_digit (n mod 16)]
      else [c])"

definition json_quote :: "string \<Rightarrow> string" where
  "json_quote s = [CHR 0x22] @ concat (map json_char s) @ [CHR 0x22]"

text \<open>The number format of encoding/json, from the shortest text: an exponent only below 1e-6 and from 1e21 on.\<close>

definition json_number :: "string \<Rightarrow> string" where
  "json_number t = (case cut_at ''e'' t of
      None \<Rightarrow> t
    | Some (m, x) \<Rightarrow>
        (let (sgn, u) = (if has_prefix ''-'' m then (''-'', tl m) else ('''', m));
             ds = filter (\<lambda>c. c \<noteq> CHR ''.'') u; e = nat (digits_value 0 (tl x))
         in if hd x = CHR ''+'' then
              (if e \<ge> 21 then t
               else if length ds \<le> e + 1 then sgn @ ds @ replicate (e + 1 - length ds) (CHR ''0'')
               else sgn @ take (e + 1) ds @ ''.'' @ drop (e + 1) ds)
            else if e \<le> 6 then sgn @ ''0.'' @ replicate (e - 1) (CHR ''0'') @ ds
            else m @ ''e-'' @ (if has_prefix ''0'' (tl x) then drop 1 (tl x) else tl x)))"

fun json_text :: "goval \<Rightarrow> string" where
  "json_text VNil = ''null''"
| "json_text (VBool b) = (if b then ''true'' else ''false'')"
| "json_text (VInt i) = int_to_dec i"
| "json_text (VFloat t) = json_number t"
| "json_text (VStr s) = json_quote s"
| "json_text (VList vs) = ''['' @ join_with '','' (map json_text vs) @ '']''"
| "json_text (VMap kvs) = ''{'' @ join_with '','' (map (\<lambda>(k, v). json_quote k @ '':'' @ json_text v) kvs) @ ''}''"

section \<open>Decoding\<close>

text \<open>A detail that is worth a word: the printed value, blank for nil and for what prints like it.\<close>

definition printed :: "goval \<Rightarrow> string" where
  "printed v = (let s = trim_space (sprint v) in if s = ''<nil>'' then '''' else s)"

definition entry_of :: "string \<Rightarrow> (string \<times> goval) list \<Rightarrow> goval" where
  "entry_of key kvs = (case map_of kvs key of None \<Rightarrow> VNil | Some v \<Rightarrow> v)"

fun summarizeLegacyDetails :: "goval \<Rightarrow> string" where
  "summarizeLegacyDetails VNil = ''''"
| "summarizeLegacyDetails (VStr s) = trim_space s"
| "summarizeLegacyDetails (VList vs) = join_with ''; '' (filter (\<lambda>s. s \<noteq> '''') (map summarizeLegacyDetails vs))"
| "summarizeLegacyDetails (VMap kvs) =
     (case filter (\<lambda>s. s \<noteq> '''') (map (\<lambda>key. printed (entry_of key kvs))
         [''failure_reason'', ''reason'', ''message'', ''error'', ''details'']) of
        s # _ \<Rightarrow> s
      | [] \<Rightarrow> trim_space (json_text (VMap kvs)))"
| "summarizeLegacyDetails v = printed v"

definition legacyFailureReason :: "stage_status \<Rightarrow> string \<Rightarrow> goval \<Rightarrow> string \<Rightarrow> string" where
  "legacyFailureReason status failureReason details nts =
     (let fr = trim_space failureReason in
      if fr \<noteq> '''' then fr
      else (case ParseStageStatus status of
          Inl err \<Rightarrow> ''''
        | Inr st \<Rightarrow>
            if st \<noteq> StatusFail \<and> st \<noteq> StatusRetry then ''''
            else if summarizeLegacyDetails details \<noteq> '''' then summarizeLegacyDetails details
            else if trim_space nts \<noteq> '''' then trim_space nts
            else ''legacy fail outcome missing failure_reason''))"

datatype decode_error = SyntaxError | TypeMismatch | BadStatus outcome_error

definition canonical_outcome :: "outcome \<Rightarrow> decode_error + outcome" where
  "canonical_outcome out = (case Canonicalize out of Inl e \<Rightarrow> Inl (BadStatus e) | Inr co \<Rightarrow> Inr co)"

text \<open>The members failure_class and failure_signature of the document go into the metadata.\<close>

definition add_hint :: "(string \<times> goval) list \<Rightarrow> string \<Rightarrow> (string \<rightharpoonup> goval) \<Rightarrow> (string \<rightharpoonup> goval)" where
  "add_hint raw key mt = (let s = printed (entry_of key raw) in if s = '''' then mt else mt(key \<mapsto> VStr s))"

definition with_hints :: "json \<Rightarrow> outcome \<Rightarrow> outcome" where
  "with_hints j out = (case j of
      JObject kvs \<Rightarrow> (let raw = any_entries kvs in
        out\<lparr>Meta := Some (add_hint raw ''failure_signature'' (add_hint raw ''failure_class'' (map_of_nil (Meta out))))\<rparr>)
    | _ \<Rightarrow> out)"

definition DecodeOutcomeJSON :: "json option \<Rightarrow> decode_error + outcome" where
  "DecodeOutcomeJSON doc = (case doc of
      None \<Rightarrow> Inl SyntaxError
    | Some j \<Rightarrow> (case unmarshal_outcome j of (out, ok) \<Rightarrow>
        if ok \<and> Status out \<noteq> '''' then canonical_outcome (with_hints j out)
        else (case unmarshal_legacy j of (l, ok) \<Rightarrow>
          if \<not> ok then Inl TypeMismatch
          else canonical_outcome (l\<lparr>FailureReason :=
            legacyFailureReason (Status l) (FailureReason l) (Details l) (Notes l)\<rparr>))))"

section \<open>Writing\<close>

text \<open>
  The document that writeJSON writes for an outcome; the two lists are the keys of its maps in their
  order.  Fields with omitempty are left out when they are empty.
\<close>

definition map_member :: "string \<Rightarrow> string list \<Rightarrow> (string \<rightharpoonup> goval) option \<Rightarrow> (string \<times> json) list" where
  "map_member name keys m = (if keys = [] then []
     else [(name, to_json (VMap (map (\<lambda>k. (k, the (map_of_nil m k))) keys)))])"

definition text_member :: "string \<Rightarrow> string \<Rightarrow> (string \<times> json) list" where
  "text_member name s = (if s = '''' then [] else [(name, JString s)])"

definition outcome_json :: "string list \<Rightarrow> string list \<Rightarrow> outcome \<Rightarrow> json" where
  "outcome_json ukeys mkeys out = JObject ([(''status'', JString (Status out))] @
     text_member ''preferred_label'' (PreferredLabel out) @
     (if slice_of_nil (SuggestedNextIDs out) = [] then []
      else [(''suggested_next_ids'', JArray (map JString (slice_of_nil (SuggestedNextIDs out))))]) @
     map_member ''context_updates'' ukeys (ContextUpdates out) @
     text_member ''notes'' (Notes out) @ text_member ''failure_reason'' (FailureReason out) @
     (if Details out = VNil then [] else [(''details'', to_json (Details out))]) @
     map_member ''meta'' mkeys (Meta out))"

section \<open>What is written is read back\<close>

lemma members_append [simp]: "members fs f (xs @ ys) = members fs f xs @ members fs f ys"
  by (simp add: members_def)

lemma members_Cons [simp]:
  "members fs f ((k, j) # kvs) = (if field_is fs f k then [j] else []) @ members fs f kvs"
  by (simp add: members_def)

lemma members_Nil [simp]: "members fs f [] = []"
  by (simp add: members_def)

lemma field_is_exact: "k \<in> set fs \<Longrightarrow> field_is fs f k \<longleftrightarrow> k = f"
  by (simp add: field_is_def)

lemma decode_string_member [simp]: "decode_string [] = ('''', True)" "decode_string [JString s] = (s, True)"
  by (simp_all add: decode_string_def)

lemma decode_strings_member [simp]:
  "decode_strings [] = (None, True)" "decode_strings [JArray (map JString xs)] = (Some xs, True)"
  by (simp_all add: decode_strings_def string_item_def comp_def list_all_iff)

lemma decode_any_member [simp]: "decode_any [] = VNil" "decode_any [j] = to_any j"
  by (simp_all add: decode_any_def)

definition keys_of :: "string list \<Rightarrow> (string \<rightharpoonup> goval) option \<Rightarrow> bool" where
  "keys_of keys m \<longleftrightarrow> sorted_wrt (<) keys \<and> set keys = dom (map_of_nil m) \<and>
     (\<forall>k v. map_of_nil m k = Some v \<longrightarrow> sorted_maps v)"

lemma any_entries_map:
  assumes "keys_of keys m"
  shows "any_entries (map (\<lambda>k. (k, to_json (the (map_of_nil m k)))) keys) =
    map (\<lambda>k. (k, json_value (the (map_of_nil m k)))) keys"
proof -
  have "map (\<lambda>k. (k, to_any (to_json (the (map_of_nil m k))))) keys = map (\<lambda>k. (k, json_value (the (map_of_nil m k)))) keys"
    using assms by (auto simp: keys_of_def to_any_to_json)
  then show ?thesis
    using assms by (simp add: any_entries_def comp_def keys_of_def object_entries_sorted)
qed

lemma map_of_keys:
  assumes "set keys = dom f"
  shows "map_of (map (\<lambda>k. (k, h (the (f k)))) keys) = (\<lambda>k. map_option h (f k))"
proof
  fix k
  have "map_of (map (\<lambda>k. (k, h (the (f k)))) keys) = (Some \<circ> (\<lambda>k. h (the (f k)))) |` dom f"
    by (simp add: map_of_map_restrict assms)
  then show "map_of (map (\<lambda>k. (k, h (the (f k)))) keys) k = map_option h (f k)"
    by (cases "f k") (auto simp: restrict_map_def)
qed

text \<open>An absent map and an empty one are the same once the outcome is canonical.\<close>

lemma decode_map_member:
  assumes "keys_of keys m" "name \<in> set fs"
  shows "\<exists>m'. decode_map (members fs f (map_member name keys m)) = (m', True) \<and>
    map_of_nil m' = (if name = f then (\<lambda>k. map_option json_value (map_of_nil m k)) else Map.empty)"
proof (cases "keys = [] \<or> name \<noteq> f")
  case True
  then have "members fs f (map_member name keys m) = []"
    using assms(2) by (auto simp: map_member_def field_is_exact)
  moreover have "keys = [] \<Longrightarrow> map_of_nil m = Map.empty" using assms(1) by (auto simp: keys_of_def)
  ultimately show ?thesis using True by (auto simp: decode_map_def map_of_nil_def)
next
  case False
  let ?kvs = "map (\<lambda>k. (k, to_json (the (map_of_nil m k)))) keys"
  have "members fs f (map_member name keys m) = [JObject ?kvs]"
    using False assms(2) by (simp add: map_member_def field_is_exact comp_def)
  moreover have "map_of (any_entries ?kvs) = (\<lambda>k. map_option json_value (map_of_nil m k))"
    unfolding any_entries_map [OF assms(1)] using assms(1) by (intro map_of_keys) (simp add: keys_of_def)
  ultimately show ?thesis using False by (simp add: decode_map_def map_of_nil_def)
qed

lemma members_text:
  "name \<in> set fs \<Longrightarrow> members fs f (text_member name s) = (if name = f \<and> s \<noteq> '''' then [JString s] else [])"
  by (cases "name = f") (auto simp: text_member_def field_is_def)

lemma members_map_other: "name \<in> set fs \<Longrightarrow> name \<noteq> f \<Longrightarrow> members fs f (map_member name keys m) = []"
  by (auto simp: map_member_def field_is_def)

lemma outcome_field_names: "set outcome_fields = {''status'', ''preferred_label'', ''suggested_next_ids'', ''context_updates'',
    ''notes'', ''failure_reason'', ''verification'', ''details'', ''meta''}"
  by (simp add: outcome_fields_def)

lemma unmarshal_written:
  assumes "keys_of ukeys (ContextUpdates out)" "keys_of mkeys (Meta out)" "sorted_maps (Details out)"
  shows "\<exists>u m ids. unmarshal_outcome (outcome_json ukeys mkeys out) =
      (out\<lparr>SuggestedNextIDs := ids, ContextUpdates := u, Details := json_value (Details out), Meta := m\<rparr>, True) \<and>
    slice_of_nil ids = slice_of_nil (SuggestedNextIDs out) \<and>
    map_of_nil u = (\<lambda>k. map_option json_value (map_of_nil (ContextUpdates out) k)) \<and>
    map_of_nil m = (\<lambda>k. map_option json_value (map_of_nil (Meta out) k))"
proof -
  note names = members_text field_is_exact members_map_other outcome_field_names
  obtain u where u: "decode_map (members outcome_fields ''context_updates'' (map_member ''context_updates'' ukeys (ContextUpdates out))) = (u, True)"
      "map_of_nil u = (\<lambda>k. map_option json_value (map_of_nil (ContextUpdates out) k))"
    using decode_map_member [OF assms(1), of "''context_updates''" outcome_fields "''context_updates''"]
    by (auto simp: outcome_field_names)
  obtain m where m: "decode_map (members outcome_fields ''meta'' (map_member ''meta'' mkeys (Meta out))) = (m, True)"
      "map_of_nil m = (\<lambda>k. map_option json_value (map_of_nil (Meta out) k))"
    using decode_map_member [OF assms(2), of "''meta''" outcome_fields "''meta''"] by (auto simp: outcome_field_names)
  have str: "decode_string (if P \<and> s \<noteq> '''' then [JString s] else []) = (if P then s else '''', True)" for P s by simp
  show ?thesis
    using u m assms(3)
    by (intro exI [of _ u] exI [of _ m] exI [of _ "if slice_of_nil (SuggestedNextIDs out) = [] then None
          else Some (slice_of_nil (SuggestedNextIDs out))"])
       (simp add: unmarshal_outcome_def outcome_json_def names str Let_def to_any_to_json slice_of_nil_def)
qed

lemma object_entries_keys: "fst ` set (object_entries kvs) \<subseteq> fst ` set kvs"
proof -
  have "fst ` set (fold (\<lambda>(k, v). AList.update k v) kvs acc) \<subseteq> fst ` set kvs \<union> fst ` set acc"
    for acc :: "(string \<times> 'a) list"
  proof (induction kvs arbitrary: acc)
    case Nil
    then show ?case by simp
  next
    case (Cons kv kvs)
    show ?case
      using Cons.IH [of "AList.update (fst kv) (snd kv) acc"] by (auto simp: split_beta dom_update)
  qed
  from this [of "[]"] show ?thesis by (simp add: object_entries_def)
qed

lemma entry_of_absent: "key \<notin> fst ` set kvs \<Longrightarrow> entry_of key (any_entries kvs) = VNil"
proof -
  assume "key \<notin> fst ` set kvs"
  then have "key \<notin> fst ` set (any_entries kvs)"
    using object_entries_keys [of "map (\<lambda>(k, j). (k, to_any j)) kvs"] by (force simp: any_entries_def)
  then show ?thesis by (force simp: entry_of_def dest: map_of_SomeD split: option.splits)
qed

lemma printed_nil [simp]: "printed VNil = ''''"
  by code_simp

lemma hints_absent:
  assumes "''failure_class'' \<notin> fst ` set kvs" "''failure_signature'' \<notin> fst ` set kvs"
  shows "with_hints (JObject kvs) out = out\<lparr>Meta := Some (map_of_nil (Meta out))\<rparr>"
  using assms by (simp add: with_hints_def add_hint_def entry_of_absent Let_def)

lemma outcome_json_keys:
  "\<exists>kvs. outcome_json ukeys mkeys out = JObject kvs \<and> fst ` set kvs \<subseteq> set outcome_fields"
  by (auto simp: outcome_json_def text_member_def map_member_def outcome_field_names)

section \<open>Reasons of older documents\<close>

definition says_something :: "string \<Rightarrow> bool" where
  "says_something s \<longleftrightarrow> trim_space s \<noteq> ''''"

lemma says_something_join:
  assumes "w \<in> set ws" "says_something w"
  shows "says_something (join_with sep ws)"
proof -
  have "w \<in> set ws \<Longrightarrow> set w \<subseteq> set (join_with sep ws)" for ws
    by (induction sep ws rule: join_with.induct) auto
  then show ?thesis using assms by (auto simp: says_something_def trim_space_eq_Nil)
qed

lemma says_something_printed: "printed v \<noteq> '''' \<Longrightarrow> says_something (printed v)"
  by (auto simp: says_something_def printed_def Let_def split: if_splits)

lemma summary_of_map: "\<exists>v. summarizeLegacyDetails (VMap kvs) = printed v \<and> printed v \<noteq> '''' \<or>
    summarizeLegacyDetails (VMap kvs) = trim_space (json_text (VMap kvs))"
proof (cases "filter (\<lambda>s. s \<noteq> '''') (map (\<lambda>key. printed (entry_of key kvs))
         [''failure_reason'', ''reason'', ''message'', ''error'', ''details''])")
  case Nil
  then show ?thesis by (simp only: summarizeLegacyDetails.simps list.case) blast
next
  case (Cons s ss)
  then have "s \<in> set (filter (\<lambda>s. s \<noteq> '''') (map (\<lambda>key. printed (entry_of key kvs))
         [''failure_reason'', ''reason'', ''message'', ''error'', ''details'']))"
    by (metis list.set_intros(1))
  then obtain key where "s = printed (entry_of key kvs)" "s \<noteq> ''''"
    by (simp only: set_filter set_map) blast
  with Cons show ?thesis by (simp only: summarizeLegacyDetails.simps list.case) blast
qed

lemma summary_says_something:
  "summarizeLegacyDetails v \<noteq> '''' \<Longrightarrow> says_something (summarizeLegacyDetails v)"
proof (induction v)
  case (VList vs)
  then have "filter (\<lambda>s. s \<noteq> '''') (map summarizeLegacyDetails vs) \<noteq> []" by auto
  then obtain v where "v \<in> set vs" "summarizeLegacyDetails v \<noteq> ''''" by (auto simp: filter_empty_conv)
  with VList show ?case
    by (auto intro!: says_something_join [where w = "summarizeLegacyDetails v"])
next
  case (VMap kvs)
  then show ?case
    using summary_of_map [of kvs] by (auto simp del: summarizeLegacyDetails.simps dest: says_something_printed simp: says_something_def)
qed (auto simp: says_something_def dest: says_something_printed [unfolded says_something_def])

lemma fallback_says_something [simp]: "trim_space ''legacy fail outcome missing failure_reason'' \<noteq> ''''"
  by code_simp

lemma reason_says_something:
  assumes "ParseStageStatus status = Inr st" "st = StatusFail \<or> st = StatusRetry"
  shows "says_something (legacyFailureReason status reason details nts)"
  using assms summary_says_something [of details]
  by (auto simp: legacyFailureReason_def Let_def says_something_def)

section \<open>Properties\<close>



text \<open>
  C42.  An outcome in the older form is never decoded to a failure or a retry without a reason: what
  DecodeOutcomeJSON returns for it is valid.
\<close>

theorem legacy_failures_explained:
  assumes "DecodeOutcomeJSON (Some j) = Inr out"
    and "\<not> (snd (unmarshal_outcome j) \<and> Status (fst (unmarshal_outcome j)) \<noteq> '''')"
  shows "Validate out = None"
proof -
  obtain l where "canonical_outcome (l\<lparr>FailureReason :=
      legacyFailureReason (Status l) (FailureReason l) (Details l) (Notes l)\<rparr>) = Inr out"
    using assms by (auto simp: DecodeOutcomeJSON_def split: prod.splits if_splits)
  then have canon: "Canonicalize (l\<lparr>FailureReason :=
      legacyFailureReason (Status l) (FailureReason l) (Details l) (Notes l)\<rparr>) = Inr out"
    by (simp add: canonical_outcome_def split: sum.splits)
  then have "ParseStageStatus (Status l) = Inr (Status out)"
    and reason: "FailureReason out = legacyFailureReason (Status l) (FailureReason l) (Details l) (Notes l)"
    by (auto simp: Canonicalize_def split: sum.splits)
  then have "Status out = StatusFail \<or> Status out = StatusRetry \<Longrightarrow> trim_space (FailureReason out) \<noteq> ''''"
    using reason_says_something by (simp add: says_something_def)
  then show ?thesis
    using Canonicalize_idem [OF canon] by (auto simp: Validate_def)
qed

theorem legacy_failures_explained_witness:
  "\<exists>out. DecodeOutcomeJSON (Some (JObject [(''outcome'', JString ''fail''), (''details'', JArray [JNull])])) = Inr out \<and>
     FailureReason out = ''legacy fail outcome missing failure_reason'' \<and> Validate out = None"
proof -
  let ?j = "JObject [(''outcome'', JString ''fail''), (''details'', JArray [JNull])]"
  obtain out where out: "DecodeOutcomeJSON (Some ?j) = Inr out"
    "FailureReason out = ''legacy fail outcome missing failure_reason''"
  proof -
    have "case DecodeOutcomeJSON (Some ?j) of Inl _ \<Rightarrow> False
      | Inr out \<Rightarrow> FailureReason out = ''legacy fail outcome missing failure_reason''" by code_simp
    then show thesis using that by (auto split: sum.splits)
  qed
  moreover have "\<not> (snd (unmarshal_outcome ?j) \<and> Status (fst (unmarshal_outcome ?j)) \<noteq> '''')" by code_simp
  ultimately show ?thesis using legacy_failures_explained by blast
qed

end
