(* ===== verification/HumanGate.thy ===== *)
theory HumanGate
  imports EdgeSelection
begin

text \<open>
  Gates at which a person chooses the next stage: the handler of
  \<^verbatim>\<open>internal/attractor/workflows/human_gate.go\<close> (the one of \<^verbatim>\<open>engine/handlers.go\<close> is the
  same), the keys of \<^verbatim>\<open>AcceleratorKey\<close>, and the interviewers of
  \<^verbatim>\<open>engine/interviewer_impls.go\<close> that do not wait.  The events for the databases are left out.
\<close>

section \<open>Questions and answers\<close>

text \<open>The fields of a question and of an answer that a gate sets or reads.\<close>

record gate_option =
  opt_key :: string
  opt_label :: string
  opt_to :: string

record question =
  q_text :: string
  q_options :: "gate_option list"
  q_stage :: string

record answer =
  ans_value :: string
  ans_timed_out :: bool
  ans_skipped :: bool

definition no_answer :: answer where
  "no_answer = \<lparr>ans_value = '''', ans_timed_out = False, ans_skipped = False\<rparr>"

definition AutoApprove :: "question \<Rightarrow> answer" where
  "AutoApprove q = no_answer\<lparr>ans_value := (case q_options q of [] \<Rightarrow> ''YES'' | p # ps \<Rightarrow> opt_key p)\<rparr>"

definition queue_ask :: "answer list \<Rightarrow> question \<Rightarrow> answer \<times> answer list" where
  "queue_ask answers q = (case answers of
      [] \<Rightarrow> (no_answer\<lparr>ans_skipped := True\<rparr>, [])
    | a # rest \<Rightarrow> (a, rest))"

definition callback_ask :: "(question \<Rightarrow> answer) option \<Rightarrow> question \<Rightarrow> answer" where
  "callback_ask f q = (case f of None \<Rightarrow> no_answer | Some g \<Rightarrow> g q)"

text \<open>The recording interviewer: what its inner one answers, with the log of pairs.\<close>

definition recording_ask ::
  "(question \<Rightarrow> answer) option \<Rightarrow> (question \<times> answer) list \<Rightarrow> question \<Rightarrow> answer \<times> (question \<times> answer) list" where
  "recording_ask inner recordings q = (case inner of
      None \<Rightarrow> (no_answer, recordings)
    | Some ask \<Rightarrow> (ask q, recordings @ [(q, ask q)]))"

section \<open>Keys\<close>

definition to_upper_char :: "char \<Rightarrow> char" where
  "to_upper_char c = (let n = of_char c :: nat in if 97 \<le> n \<and> n \<le> 122 then char_of (n - 32) else c)"

definition AcceleratorKey :: "string \<Rightarrow> string" where
  "AcceleratorKey label =
     (let s = trim_space label in
      if s = '''' then ''''
      else if length s \<ge> 4 \<and> s ! 0 = CHR ''['' \<and> s ! 2 = CHR '']'' \<and> s ! 3 = CHR '' '' then [to_upper_char (s ! 1)]
      else if length s \<ge> 3 \<and> s ! 1 = CHR '')'' \<and> s ! 2 = CHR '' '' then [to_upper_char (s ! 0)]
      else if length s \<ge> 4 \<and> s ! 1 = CHR '' '' \<and> s ! 2 = CHR ''-'' \<and> s ! 3 = CHR '' '' then [to_upper_char (s ! 0)]
      else [to_upper_char (s ! 0)])"

definition option_label :: "edge \<Rightarrow> string" where
  "option_label e = (let label = trim_space (edge_Label e) in if label = '''' then edge_to e else label)"

text \<open>The options from the i-th edge on; the keys given so far are \<^verbatim>\<open>used\<close>.\<close>

definition next_key :: "nat \<Rightarrow> string list \<Rightarrow> string \<Rightarrow> string" where
  "next_key i used label =
     (let key = AcceleratorKey label in if key = '''' \<or> key \<in> set used then nat_to_dec (i + 1) else key)"

fun options_from :: "nat \<Rightarrow> string list \<Rightarrow> edge list \<Rightarrow> gate_option list" where
  "options_from i used [] = []"
| "options_from i used (e # es) =
     (let label = option_label e; key = next_key i used label
      in \<lparr>opt_key = key, opt_label = label, opt_to = edge_to e\<rparr> # options_from (i + 1) (key # used) es)"

section \<open>The handler\<close>

definition gate_question :: "graph \<Rightarrow> node \<Rightarrow> question" where
  "gate_question g n = \<lparr>q_text = node_Attr (Some n) ''question'' (node_Label n),
     q_options = options_from 0 [] (Outgoing g (node_id n)), q_stage = node_id n\<rparr>"

definition picks :: "string \<Rightarrow> gate_option \<Rightarrow> bool" where
  "picks want p \<longleftrightarrow> equal_fold (opt_key p) want \<or> equal_fold (opt_to p) want"

definition picked :: "string \<Rightarrow> gate_option list \<Rightarrow> gate_option option" where
  "picked want ps = (if trim_space want = '''' then None else find (picks (trim_space want)) ps)"

definition chosen :: "gate_option \<Rightarrow> string \<Rightarrow> outcome" where
  "chosen p nts = zero_outcome\<lparr>Status := StatusSuccess, SuggestedNextIDs := Some [opt_to p],
     PreferredLabel := opt_label p,
     ContextUpdates := Some [''human.gate.selected'' \<mapsto> VStr (opt_to p), ''human.gate.label'' \<mapsto> VStr (opt_label p)],
     Notes := nts\<rparr>"

definition human_gate :: "graph \<Rightarrow> node \<Rightarrow> (question \<Rightarrow> answer) option \<Rightarrow> outcome" where
  "human_gate g n interviewer =
     (if Outgoing g (node_id n) = [] then
        zero_outcome\<lparr>Status := StatusFail, FailureReason := ''no outgoing edges for human gate''\<rparr>
      else (let q = gate_question g n;
                ans = (case interviewer of None \<Rightarrow> AutoApprove q | Some ask \<Rightarrow> ask q)
            in if ans_timed_out ans then
                 (case picked (node_Attr (Some n) ''human.default_choice'' '''') (q_options q) of
                    Some p \<Rightarrow> chosen p ''human gate timeout, used default choice''
                  | None \<Rightarrow> zero_outcome\<lparr>Status := StatusRetry, FailureReason := ''human gate timeout, no default''\<rparr>)
               else if ans_skipped ans then
                 zero_outcome\<lparr>Status := StatusFail, FailureReason := ''human gate skipped interaction''\<rparr>
               else chosen (case picked (ans_value ans) (q_options q) of Some p \<Rightarrow> p | None \<Rightarrow> hd (q_options q))
                      ''human gate selected''))"

section \<open>Options and keys\<close>

lemma length_options [simp]: "length (options_from i used es) = length es"
  by (induction es arbitrary: i used) (simp_all add: Let_def)

lemma option_nth:
  "k < length es \<Longrightarrow> opt_label (options_from i used es ! k) = option_label (es ! k) \<and>
    opt_to (options_from i used es ! k) = edge_to (es ! k)"
  by (induction es arbitrary: i used k) (auto simp: Let_def nth_Cons split: nat.splits)

lemma options_of_edges: "p \<in> set (options_from i used es) \<Longrightarrow>
    \<exists>e \<in> set es. opt_to p = edge_to e \<and> opt_label p = option_label e"
  by (metis in_set_conv_nth length_options option_nth)

section \<open>Keys that tell the options apart\<close>

definition plain_key :: "string \<Rightarrow> bool" where
  "plain_key k \<longleftrightarrow> length k = 1 \<and> \<not> is_digit (hd k) \<and> \<not> is_space (hd k)"

text \<open>
  Gates whose choices cannot be mistaken: no conditions, labels that differ in their words and begin with
  a character that is no digit, targets that differ and look like no key.
\<close>

definition clear_choices :: "edge list \<Rightarrow> bool" where
  "clear_choices es \<longleftrightarrow> distinct (map (\<lambda>e. normalizeLabel (option_label e)) es) \<and> distinct (map edge_to es) \<and>
     list_all (\<lambda>e. \<not> conditional_edge e \<and> plain_key (AcceleratorKey (option_label e)) \<and>
       trim_space (edge_to e) \<noteq> '''' \<and> length (edge_to e) > 1 \<and> \<not> list_all is_digit (edge_to e)) es"

definition upper_form :: "string \<Rightarrow> bool" where
  "upper_form k \<longleftrightarrow> map to_upper_char (to_lower k) = k"

lemma upper_lower_upper [simp]: "to_upper_char (to_lower_char (to_upper_char c)) = to_upper_char c"
proof (cases "97 \<le> (of_char c :: nat) \<and> of_char c \<le> (122 :: nat)")
  case True
  then have "(of_char (to_upper_char c) :: nat) = of_char c - 32"
    by (auto simp: to_upper_char_def)
  moreover have "(of_char c - 32 + 32 :: nat) = of_char c" using True by simp
  ultimately have "to_lower_char (to_upper_char c) = c" using True by (auto simp: to_lower_char_def Let_def)
  then show ?thesis by simp
next
  case False
  then have same: "to_upper_char c = c" by (auto simp: to_upper_char_def Let_def)
  show ?thesis
  proof (cases "65 \<le> (of_char c :: nat) \<and> of_char c \<le> (90 :: nat)")
    case True
    then have "(of_char (to_lower_char c) :: nat) = of_char c + 32" by (simp add: to_lower_char_def)
    with True same show ?thesis by (simp add: to_upper_char_def)
  next
    case False
    then have "to_lower_char c = c" by (auto simp: to_lower_char_def Let_def)
    with same show ?thesis by simp
  qed
qed

lemma digit_lower: "is_digit (to_lower_char c) \<longleftrightarrow> is_digit c"
proof (cases "65 \<le> (of_char c :: nat) \<and> of_char c \<le> (90 :: nat)")
  case True
  then have "(of_char (to_lower_char c) :: nat) = of_char c + 32" by (simp add: to_lower_char_def)
  with True show ?thesis by (simp add: is_digit_def)
next
  case False
  then have "to_lower_char c = c" by (auto simp: to_lower_char_def Let_def)
  then show ?thesis by simp
qed

lemma digit_upper: "is_digit c \<Longrightarrow> to_upper_char (to_lower_char c) = c"
  by (simp add: is_digit_def to_upper_char_def to_lower_char_def)

lemmas digit_case = digit_lower digit_upper

lemma equal_fold_upper_form: "upper_form k \<Longrightarrow> upper_form k' \<Longrightarrow> equal_fold k k' \<longleftrightarrow> k = k'"
  by (metis equal_fold_def upper_form_def)

lemma upper_form_key: "upper_form (AcceleratorKey label)" "upper_form (nat_to_dec n)"
proof -
  show "upper_form (AcceleratorKey label)" by (simp add: AcceleratorKey_def Let_def upper_form_def to_lower_def)
  have "list_all is_digit (nat_to_dec n)" using nat_to_dec_value by blast
  then show "upper_form (nat_to_dec n)"
    by (auto simp: upper_form_def to_lower_def list_all_iff digit_case intro: map_idI)
qed

lemma digits_not_plain: "\<not> plain_key (nat_to_dec j)"
  using nat_to_dec_value [of j] by (cases "nat_to_dec j") (auto simp: plain_key_def)

lemma next_key_cases: "next_key i used label = AcceleratorKey label \<and> AcceleratorKey label \<notin> set used \<or>
    next_key i used label = nat_to_dec (i + 1)"
  by (simp add: next_key_def Let_def)

text \<open>Keys are characters of labels or places; a place is never below those of the edges left.\<close>

definition key_form :: "nat \<Rightarrow> string \<Rightarrow> bool" where
  "key_form i k \<longleftrightarrow> plain_key k \<or> (\<exists>j > i. k = nat_to_dec j)"

lemma next_key_new:
  assumes "plain_key (AcceleratorKey label)" "\<forall>k \<in> set used. plain_key k \<or> (\<exists>j \<le> i. k = nat_to_dec j)"
  shows "next_key i used label \<notin> set used" "key_form i (next_key i used label)" "upper_form (next_key i used label)"
proof -
  have "nat_to_dec (i + 1) \<notin> set used"
  proof
    assume "nat_to_dec (i + 1) \<in> set used"
    then obtain j where "j \<le> i" "nat_to_dec (i + 1) = nat_to_dec j" using assms(2) digits_not_plain by blast
    then show False by (simp add: nat_to_dec_inj)
  qed
  then show "next_key i used label \<notin> set used" using next_key_cases [of i used label] by metis
  show "key_form i (next_key i used label)"
    using next_key_cases [of i used label] assms(1) unfolding key_form_def by (metis less_add_one)
  show "upper_form (next_key i used label)"
    using next_key_cases [of i used label] upper_form_key by metis
qed

lemma key_form_less: "key_form (Suc i) k \<Longrightarrow> key_form i k"
  using Suc_lessD unfolding key_form_def by blast

lemma options_keys:
  assumes "list_all (\<lambda>e. plain_key (AcceleratorKey (option_label e))) es"
    and "\<forall>k \<in> set used. plain_key k \<or> (\<exists>j \<le> i. k = nat_to_dec j)"
  shows "distinct (map opt_key (options_from i used es)) \<and>
    (\<forall>p \<in> set (options_from i used es). opt_key p \<notin> set used \<and> upper_form (opt_key p) \<and> key_form i (opt_key p))"
  using assms
proof (induction es arbitrary: i used)
  case Nil
  then show ?case by simp
next
  case (Cons e es)
  obtain key where key: "key = next_key i used (option_label e)" by simp
  have plain: "plain_key (AcceleratorKey (option_label e))" using Cons.prems(1) by simp
  note new = next_key_new [OF plain Cons.prems(2), folded key]
  have "\<forall>k \<in> set (key # used). plain_key k \<or> (\<exists>j \<le> i + 1. k = nat_to_dec j)"
  proof -
    have "plain_key key \<or> key = nat_to_dec (i + 1)" using next_key_cases [of i used] plain key by metis
    moreover have "j \<le> i \<Longrightarrow> j \<le> i + 1" for j by simp
    ultimately show ?thesis using Cons.prems(2) by (metis order_refl set_ConsD)
  qed
  from Cons.IH [OF _ this] Cons.prems(1) have IH:
    "distinct (map opt_key (options_from (i + 1) (key # used) es))"
    "\<forall>p \<in> set (options_from (i + 1) (key # used) es). opt_key p \<noteq> key \<and> opt_key p \<notin> set used \<and>
       upper_form (opt_key p) \<and> key_form (i + 1) (opt_key p)"
    by simp_all
  have "options_from i used (e # es) =
      \<lparr>opt_key = key, opt_label = option_label e, opt_to = edge_to e\<rparr> # options_from (i + 1) (key # used) es"
    by (simp add: Let_def key)
  with IH new show ?case by (auto dest: key_form_less)
qed

text \<open>The key of an option picks it.\<close>

lemma key_picks:
  assumes "clear_choices es" "i < length es"
  defines "ps \<equiv> options_from 0 [] es"
  shows "picked (opt_key (ps ! i)) ps = Some (ps ! i)"
proof -
  let ?key = "opt_key (ps ! i)"
  have plain: "list_all (\<lambda>e. plain_key (AcceleratorKey (option_label e))) es"
    using assms(1) by (auto simp: clear_choices_def list_all_iff)
  note keys = options_keys [OF plain, of "[]" 0, folded ps_def, simplified]
  have in_set: "ps ! j \<in> set ps" if "j < length es" for j using that by (simp add: ps_def)
  have form: "plain_key ?key \<or> list_all is_digit ?key \<and> ?key \<noteq> ''''"
    using keys in_set [OF assms(2)] nat_to_dec_value unfolding key_form_def by metis
  then have trimmed: "trim_space ?key = ?key" "?key \<noteq> ''''"
  proof -
    have "\<forall>c \<in> set ?key. \<not> is_space c"
      using form by (cases ?key) (auto simp: plain_key_def list_all_iff is_digit_def is_space_def)
    then show "trim_space ?key = ?key" by (simp add: trim_space_def trim_by_none)
    show "?key \<noteq> ''''" using form by (auto simp: plain_key_def)
  qed
  have "\<not> equal_fold (opt_to (ps ! j)) ?key" if "j < length es" for j
  proof
    assume same: "equal_fold (opt_to (ps ! j)) ?key"
    have "es ! j \<in> set es" using that by simp
    with assms(1) option_nth [OF that, of 0 "[]"] have to: "length (opt_to (ps ! j)) > 1" "\<not> list_all is_digit (opt_to (ps ! j))"
      by (simp_all add: clear_choices_def list_all_iff ps_def)
    have "length (opt_to (ps ! j)) = length ?key" using same by (metis equal_fold_def length_map to_lower_def)
    with form to(1) have "list_all is_digit ?key" by (auto simp: plain_key_def)
    then have "list_all is_digit (to_lower (opt_to (ps ! j)))"
      using same by (simp add: equal_fold_def to_lower_def list_all_iff digit_case)
    with to(2) show False by (simp add: to_lower_def list_all_iff digit_case)
  qed
  moreover have "equal_fold (opt_key (ps ! j)) ?key \<longleftrightarrow> j = i" if "j < length es" for j
    using keys in_set [OF that] in_set [OF assms(2)] that assms(2)
    by (auto simp: equal_fold_upper_form nth_eq_iff_index_eq distinct_conv_nth ps_def)
  ultimately have "find (picks ?key) ps = Some (ps ! i)"
    using assms(2) unfolding find_Some_iff picks_def by (intro exI [of _ i]) (auto simp: ps_def)
  with trimmed show ?thesis by (simp add: picked_def)
qed

section \<open>From the choice to the next edge\<close>

lemma normalizeLabel_trim: "normalizeLabel (trim_space s) = normalizeLabel s"
  by (simp add: normalizeLabel_def)

lemma option_label_words:
  "normalizeLabel (option_label e) = (if trim_space (edge_Label e) = '''' then normalizeLabel (edge_to e) else normalizeLabel (edge_Label e))"
  by (simp add: option_label_def Let_def normalizeLabel_trim)

lemma chosen_followed:
  assumes "clear_choices (Outgoing g from)" "i < length (Outgoing g from)"
    and "opt_to p = edge_to (Outgoing g from ! i)" "opt_label p = option_label (Outgoing g from ! i)"
  shows "\<exists>meta. selectNextEdgeWithMeta g from (chosen p nts) ctx = Inr (Some (Outgoing g from ! i), meta)"
proof -
  let ?es = "Outgoing g from" and ?out = "chosen p nts"
  let ?e = "?es ! i"
  have clear: "e \<in> set ?es \<Longrightarrow> \<not> conditional_edge e \<and> trim_space (edge_to e) \<noteq> ''''" for e
    using assms(1) by (simp add: clear_choices_def list_all_iff)
  have inj: "inj_on (\<lambda>e. normalizeLabel (option_label e)) (set ?es)" "inj_on edge_to (set ?es)"
    using assms(1) by (simp_all add: clear_choices_def distinct_map)
  have mem: "?e \<in> set ?es" using assms(2) by simp
  then have words: "normalizeLabel (option_label ?e) \<noteq> ''''"
    using clear by (simp add: option_label_words normalizeLabel_nonempty)
  have "?es \<noteq> []" using assms(2) by auto
  with select_total [of g "from" ?out ctx] obtain e meta where
    sel: "selectNextEdgeWithMeta g from ?out ctx = Inr (Some e, meta)" by (metis option.exhaust)
  from selected_least [OF this] mem have e: "e \<in> set ?es" "edge_rank ?out ctx e \<le> edge_rank ?out ctx ?e" by auto
  have rank: "edge_rank ?out ctx ?e < (3, x)" for x
    using clear [OF mem] assms(3) by (simp add: edge_rank_def cond_holds_def suggested_def chosen_def slice_of_nil_def)
  have "e = ?e"
  proof (rule ccontr)
    assume "e \<noteq> ?e"
    then have "edge_to e \<noteq> edge_to ?e" "normalizeLabel (option_label e) \<noteq> normalizeLabel (option_label ?e)"
      using inj e(1) mem by (auto dest: inj_onD)
    then have "\<not> suggested ?out e" "\<not> label_preferred ?out e"
      using assms(3,4) words normalizeLabel_nonempty [of "edge_Label e"]
      by (auto simp: suggested_def label_preferred_def chosen_def slice_of_nil_def option_label_words split: if_splits)
    with clear [OF e(1)] have "edge_rank ?out ctx e = (3, best_key e)"
      by (simp add: edge_rank_def cond_holds_def)
    with e(2) rank [of "best_key e"] show False by simp
  qed
  with sel show ?thesis by blast
qed

text \<open>
  C22: at a gate whose choices cannot be mistaken, the answer with the key of an option makes the
  run continue on the edge of that option.
\<close>

theorem human_choice_followed:
  assumes "clear_choices (Outgoing g (node_id n))" and "i < length (Outgoing g (node_id n))"
    and "\<not> ans_timed_out (ask (gate_question g n))" and "\<not> ans_skipped (ask (gate_question g n))"
    and "ans_value (ask (gate_question g n)) = opt_key (q_options (gate_question g n) ! i)"
  shows "Status (human_gate g n (Some ask)) = StatusSuccess \<and>
    (\<exists>meta. selectNextEdgeWithMeta g (node_id n) (human_gate g n (Some ask)) ctx =
      Inr (Some (Outgoing g (node_id n) ! i), meta))"
proof -
  let ?ps = "q_options (gate_question g n)"
  have ps: "?ps = options_from 0 [] (Outgoing g (node_id n))" by (simp add: gate_question_def)
  have "picked (ans_value (ask (gate_question g n))) ?ps = Some (?ps ! i)"
    using key_picks [OF assms(1,2)] assms(5) ps by simp
  moreover have "Outgoing g (node_id n) \<noteq> []" using assms(2) by auto
  ultimately have out: "human_gate g n (Some ask) = chosen (?ps ! i) ''human gate selected''"
    using assms(3,4) by (simp add: human_gate_def Let_def)
  with chosen_followed [OF assms(1,2), of "?ps ! i" "''human gate selected''" ctx] option_nth [OF assms(2), of 0 "[]"] ps
  show ?thesis by (simp add: chosen_def)
qed

definition gate_graph :: "(string \<times> string) list \<Rightarrow> graph" where
  "gate_graph choices = add_edges (map (\<lambda>(label, to). (NewEdge ''gate'' to)\<lparr>edge_attrs := [''label'' \<mapsto> label]\<rparr>) choices)
     (add_nodes [(NewNode ''gate'')\<lparr>node_attrs := [''shape'' \<mapsto> ''hexagon'']\<rparr>] (NewGraph ''g''))"

definition typed :: "string \<Rightarrow> question \<Rightarrow> answer" where
  "typed v q = no_answer\<lparr>ans_value := v\<rparr>"

definition release_gate :: graph where
  "release_gate = gate_graph [(''[A] Approve'', ''ship''), (''R) Reject'', ''rework''), ('''', ''archive'')]"

definition next_of :: "graph \<Rightarrow> string \<Rightarrow> string option" where
  "next_of g v = (case selectNextEdgeWithMeta g ''gate'' (human_gate g (NewNode ''gate'') (Some (typed v))) None of
      Inr (Some e, meta) \<Rightarrow> Some (edge_to e) | _ \<Rightarrow> None)"

theorem human_choice_followed_witness:
  "map opt_key (q_options (gate_question release_gate (NewNode ''gate''))) = [''A'', ''R'', ''3''] \<and>
   (\<exists>meta. selectNextEdgeWithMeta release_gate ''gate'' (human_gate release_gate (NewNode ''gate'') (Some (typed ''3''))) None =
      Inr (Some (Outgoing release_gate ''gate'' ! 2), meta)) \<and> edge_to (Outgoing release_gate ''gate'' ! 2) = ''archive''"
proof -
  have clear: "clear_choices (Outgoing release_gate ''gate'')" by code_simp
  have len: "2 < length (Outgoing release_gate ''gate'')" by code_simp
  have keys: "map opt_key (q_options (gate_question release_gate (NewNode ''gate''))) = [''A'', ''R'', ''3'']" by code_simp
  have three: "''3'' = opt_key (q_options (gate_question release_gate (NewNode ''gate'')) ! 2)" by code_simp
  have id: "node_id (NewNode ''gate'') = ''gate''" by (simp add: NewNode_def)
  have "edge_to (Outgoing release_gate ''gate'' ! 2) = ''archive''" by code_simp
  with human_choice_followed [of release_gate "NewNode ''gate''" 2 "typed ''3''" None] clear len three keys
  show ?thesis by (simp add: id typed_def no_answer_def)
qed

text \<open>
  Labels that differ in their keys only are one to the routing: the answer N goes where Y does.  Labels
  that begin with a digit can be given the key of another one, which then cannot be chosen by its key.
\<close>

lemma same_words_misroute:
  "next_of (gate_graph [(''[Y] Deploy'', ''prod''), (''[N] Deploy'', ''staging'')]) ''N'' = Some ''prod''"
  by code_simp

lemma digit_labels_collide:
  "map opt_key (q_options (gate_question (gate_graph [(''2 passes'', ''slow''), (''2 runs'', ''fast'')]) (NewNode ''gate''))) =
     [''2'', ''2'']"
  by code_simp

end
