(* ===== verification/Sse.thy ===== *)
theory Sse
  imports Prelude "HOL-Library.Sublist"
begin

text \<open>
  The stream of progress events of a run, \<^verbatim>\<open>internal/server/sse.go\<close>: a broadcaster with its
  history and the buffered channels of its clients, and the loop of WriteSSE that empties one of them into
  a response.  Every operation holds the lock of the broadcaster for its whole duration, so each is one
  step, and a run is any sequence of steps.  The result \<^verbatim>\<open>None\<close> is a panic of a channel operation.
\<close>

section \<open>Channels and the broadcaster\<close>

record 'e sse_chan =
  ch_buf :: "'e list"
  ch_cap :: nat
  ch_closed :: bool

definition try_send :: "'e \<Rightarrow> 'e sse_chan \<Rightarrow> 'e sse_chan option option" where
  "try_send ev c = (if ch_closed c then None
     else Some (if length (ch_buf c) < ch_cap c then Some (c\<lparr>ch_buf := ch_buf c @ [ev]\<rparr>) else None))"

definition close_chan :: "'e sse_chan \<Rightarrow> 'e sse_chan option" where
  "close_chan c = (if ch_closed c then None else Some (c\<lparr>ch_closed := True\<rparr>))"

text \<open>A channel is named by the id of the subscription that made it.\<close>

record 'e broadcaster =
  b_history :: "'e list"
  b_clients :: "nat list"
  b_next :: nat
  b_closed :: bool
  b_done :: bool
  b_chans :: "nat \<rightharpoonup> 'e sse_chan"

definition NewBroadcaster :: "'e broadcaster" where
  "NewBroadcaster = \<lparr>b_history = [], b_clients = [], b_next = 0, b_closed = False, b_done = False, b_chans = Map.empty\<rparr>"

definition drop_client :: "nat \<Rightarrow> 'e broadcaster \<Rightarrow> 'e broadcaster option" where
  "drop_client i b = (case b_chans b i of
      None \<Rightarrow> None
    | Some c \<Rightarrow> (case close_chan c of
        None \<Rightarrow> None
      | Some c' \<Rightarrow> Some (b\<lparr>b_chans := (b_chans b)(i \<mapsto> c'), b_clients := remove1 i (b_clients b)\<rparr>)))"

definition send_to :: "'e \<Rightarrow> nat \<Rightarrow> 'e broadcaster \<Rightarrow> 'e broadcaster option" where
  "send_to ev i b = (case b_chans b i of
      None \<Rightarrow> None
    | Some c \<Rightarrow> (case try_send ev c of
        None \<Rightarrow> None
      | Some (Some c') \<Rightarrow> Some (b\<lparr>b_chans := (b_chans b)(i \<mapsto> c')\<rparr>)
      | Some None \<Rightarrow> drop_client i b))"

fun each_client :: "(nat \<Rightarrow> 'e broadcaster \<Rightarrow> 'e broadcaster option) \<Rightarrow> nat list \<Rightarrow> 'e broadcaster \<Rightarrow> 'e broadcaster option" where
  "each_client f [] b = Some b"
| "each_client f (i # ids) b = (case f i b of None \<Rightarrow> None | Some b' \<Rightarrow> each_client f ids b')"

definition Send :: "'e \<Rightarrow> 'e broadcaster \<Rightarrow> 'e broadcaster option" where
  "Send ev b = (if b_closed b then Some b
     else each_client (send_to ev) (b_clients b) (b\<lparr>b_history := b_history b @ [ev]\<rparr>))"

definition sse_headroom :: nat where "sse_headroom = 256"

definition Subscribe :: "'e broadcaster \<Rightarrow> nat \<times> 'e broadcaster" where
  "Subscribe b =
     (let i = b_next b;
          c = \<lparr>ch_buf = b_history b, ch_cap = length (b_history b) + sse_headroom, ch_closed = b_closed b\<rparr>
      in (i, b\<lparr>b_next := i + 1, b_chans := (b_chans b)(i \<mapsto> c),
           b_clients := (if b_closed b then b_clients b else b_clients b @ [i])\<rparr>))"

definition unsub :: "nat \<Rightarrow> 'e broadcaster \<Rightarrow> 'e broadcaster option" where
  "unsub i b = (if i \<in> set (b_clients b) then drop_client i b else Some b)"

definition Close :: "'e broadcaster \<Rightarrow> 'e broadcaster option" where
  "Close b = (if b_done b then None
     else each_client drop_client (b_clients b) (b\<lparr>b_closed := True, b_done := True\<rparr>))"

definition History :: "'e broadcaster \<Rightarrow> 'e list" where
  "History b = b_history b"

section \<open>Clients\<close>

text \<open>
  The loop of WriteSSE for one response: the events it took off its channel, the frames it wrote, and how it
  ended.  An event that encoding/json cannot write is skipped.
\<close>

datatype 'e frame = DataFrame 'e | DoneFrame

datatype ending = Streaming | Finished | Disconnected

record 'e reader =
  rd_seen :: "'e list"
  rd_frames :: "'e frame list"
  rd_end :: ending

record 'e sse_state =
  s_bc :: "'e broadcaster"
  s_readers :: "nat \<rightharpoonup> 'e reader"

datatype 'e sse_op = OpSend 'e | OpClose | OpConnect | OpTake nat | OpHangup nat

definition reader_end :: "nat \<Rightarrow> 'e reader \<Rightarrow> 'e sse_state \<Rightarrow> 'e sse_state option" where
  "reader_end i r s = (case unsub i (s_bc s) of
      None \<Rightarrow> None
    | Some b \<Rightarrow> Some (s\<lparr>s_bc := b, s_readers := (s_readers s)(i \<mapsto> r)\<rparr>))"

definition take_event :: "('e \<Rightarrow> bool) \<Rightarrow> nat \<Rightarrow> 'e reader \<Rightarrow> 'e sse_chan \<Rightarrow> 'e sse_state \<Rightarrow> 'e sse_state option" where
  "take_event marshals i r c s = (case ch_buf c of
      ev # rest \<Rightarrow>
        Some (s\<lparr>s_bc := (s_bc s)\<lparr>b_chans := (b_chans (s_bc s))(i \<mapsto> c\<lparr>ch_buf := rest\<rparr>)\<rparr>,
          s_readers := (s_readers s)(i \<mapsto> r\<lparr>rd_seen := rd_seen r @ [ev],
            rd_frames := rd_frames r @ (if marshals ev then [DataFrame ev] else [])\<rparr>)\<rparr>)
    | [] \<Rightarrow>
        if \<not> ch_closed c then Some s
        else if b_done (s_bc s) then reader_end i (r\<lparr>rd_frames := rd_frames r @ [DoneFrame], rd_end := Finished\<rparr>) s
        else reader_end i (r\<lparr>rd_end := Finished\<rparr>) s)"

definition sse_step :: "('e \<Rightarrow> bool) \<Rightarrow> 'e sse_op \<Rightarrow> 'e sse_state \<Rightarrow> 'e sse_state option" where
  "sse_step marshals act s = (case act of
      OpSend ev \<Rightarrow> (case Send ev (s_bc s) of None \<Rightarrow> None | Some b \<Rightarrow> Some (s\<lparr>s_bc := b\<rparr>))
    | OpClose \<Rightarrow> (case Close (s_bc s) of None \<Rightarrow> None | Some b \<Rightarrow> Some (s\<lparr>s_bc := b\<rparr>))
    | OpConnect \<Rightarrow> (case Subscribe (s_bc s) of (i, b) \<Rightarrow>
        Some (s\<lparr>s_bc := b, s_readers := (s_readers s)(i \<mapsto> \<lparr>rd_seen = [], rd_frames = [], rd_end = Streaming\<rparr>)\<rparr>))
    | OpTake i \<Rightarrow> (case (s_readers s i, b_chans (s_bc s) i) of
        (Some r, Some c) \<Rightarrow> if rd_end r = Streaming then take_event marshals i r c s else Some s
      | _ \<Rightarrow> Some s)
    | OpHangup i \<Rightarrow> (case s_readers s i of
        Some r \<Rightarrow> if rd_end r = Streaming then reader_end i (r\<lparr>rd_end := Disconnected\<rparr>) s else Some s
      | None \<Rightarrow> Some s))"

fun sse_run :: "('e \<Rightarrow> bool) \<Rightarrow> 'e sse_op list \<Rightarrow> 'e sse_state \<Rightarrow> 'e sse_state option" where
  "sse_run marshals [] s = Some s"
| "sse_run marshals (act # acts) s = (case sse_step marshals act s of
      None \<Rightarrow> None | Some s' \<Rightarrow> sse_run marshals acts s')"

definition sse_start :: "'e sse_state" where
  "sse_start = \<lparr>s_bc = NewBroadcaster, s_readers = Map.empty\<rparr>"

section \<open>Visiting all clients\<close>

definition deliver :: "'e \<Rightarrow> 'e sse_chan \<Rightarrow> 'e sse_chan" where
  "deliver ev c = (if length (ch_buf c) < ch_cap c then c\<lparr>ch_buf := ch_buf c @ [ev]\<rparr> else c\<lparr>ch_closed := True\<rparr>)"

definition full :: "'e broadcaster \<Rightarrow> nat \<Rightarrow> bool" where
  "full b i = (case b_chans b i of None \<Rightarrow> False | Some c \<Rightarrow> ch_cap c \<le> length (ch_buf c))"

definition open_chans :: "nat list \<Rightarrow> 'e broadcaster \<Rightarrow> bool" where
  "open_chans ids b \<longleftrightarrow> (\<forall>i \<in> set ids. \<exists>c. b_chans b i = Some c \<and> \<not> ch_closed c)"

lemma open_chans_Cons: "open_chans (i # ids) b \<longleftrightarrow> (\<exists>c. b_chans b i = Some c \<and> \<not> ch_closed c) \<and> open_chans ids b"
  by (auto simp: open_chans_def)

lemma open_chans_update: "i \<notin> set ids \<Longrightarrow> open_chans ids (b\<lparr>b_chans := (b_chans b)(i \<mapsto> c), b_clients := cl\<rparr>) = open_chans ids b"
  "i \<notin> set ids \<Longrightarrow> open_chans ids (b\<lparr>b_chans := (b_chans b)(i \<mapsto> c)\<rparr>) = open_chans ids b"
  by (auto simp: open_chans_def)

lemma send_to_open:
  assumes "b_chans b i = Some c" "\<not> ch_closed c"
  shows "send_to ev i b = Some (b\<lparr>b_chans := (b_chans b)(i \<mapsto> deliver ev c),
    b_clients := (if full b i then remove1 i (b_clients b) else b_clients b)\<rparr>)"
  using assms by (simp add: send_to_def try_send_def deliver_def drop_client_def close_chan_def full_def)

lemma drop_open:
  assumes "b_chans b i = Some c" "\<not> ch_closed c"
  shows "drop_client i b = Some (b\<lparr>b_chans := (b_chans b)(i \<mapsto> c\<lparr>ch_closed := True\<rparr>), b_clients := remove1 i (b_clients b)\<rparr>)"
  using assms by (simp add: drop_client_def close_chan_def)

lemma each_send:
  assumes "distinct ids" "open_chans ids b" "distinct (b_clients b)"
  shows "each_client (send_to ev) ids b = Some (b\<lparr>
    b_chans := (\<lambda>i. if i \<in> set ids then map_option (deliver ev) (b_chans b i) else b_chans b i),
    b_clients := filter (\<lambda>i. \<not> (i \<in> set ids \<and> full b i)) (b_clients b)\<rparr>)"
  using assms
proof (induction ids arbitrary: b)
  case Nil
  then show ?case by (cases b) simp
next
  case (Cons i ids)
  obtain c where c: "b_chans b i = Some c" "\<not> ch_closed c" and rest: "open_chans ids b" "i \<notin> set ids" "distinct ids"
    using Cons.prems by (auto simp: open_chans_Cons)
  let ?b = "b\<lparr>b_chans := (b_chans b)(i \<mapsto> deliver ev c), b_clients := (if full b i then remove1 i (b_clients b) else b_clients b)\<rparr>"
  have "open_chans ids ?b" using rest by (simp add: open_chans_update)
  moreover have "distinct (b_clients ?b)" using Cons.prems(3) by (simp add: distinct_remove1)
  moreover have "full ?b j = full b j" if "j \<in> set ids" for j using that rest(2) by (auto simp: full_def)
  ultimately have step: "each_client (send_to ev) ids ?b = Some (?b\<lparr>
    b_chans := (\<lambda>j. if j \<in> set ids then map_option (deliver ev) (b_chans ?b j) else b_chans ?b j),
    b_clients := filter (\<lambda>j. \<not> (j \<in> set ids \<and> full b j)) (b_clients ?b)\<rparr>)"
    using Cons.IH [of ?b] rest(3) by (simp cong: conj_cong del: filter_filter)
  have "(\<lambda>j. if j \<in> set ids then map_option (deliver ev) (b_chans ?b j) else b_chans ?b j) =
      (\<lambda>j. if j \<in> set (i # ids) then map_option (deliver ev) (b_chans b j) else b_chans b j)"
    using rest(2) c by auto
  moreover have "filter (\<lambda>j. \<not> (j \<in> set ids \<and> full b j)) (b_clients ?b) =
      filter (\<lambda>j. \<not> (j \<in> set (i # ids) \<and> full b j)) (b_clients b)"
    using rest(2) Cons.prems(3)
    by (auto simp: distinct_remove1_removeAll removeAll_filter_not_eq intro!: filter_cong)
  ultimately show ?case using step by (simp add: send_to_open [OF c])
qed

lemma each_drop:
  assumes "distinct ids" "open_chans ids b" "distinct (b_clients b)"
  shows "each_client drop_client ids b = Some (b\<lparr>
    b_chans := (\<lambda>i. if i \<in> set ids then map_option (ch_closed_update (\<lambda>_. True)) (b_chans b i) else b_chans b i),
    b_clients := filter (\<lambda>i. i \<notin> set ids) (b_clients b)\<rparr>)"
  using assms
proof (induction ids arbitrary: b)
  case Nil
  then show ?case by (cases b) simp
next
  case (Cons i ids)
  obtain c where c: "b_chans b i = Some c" "\<not> ch_closed c" and rest: "open_chans ids b" "i \<notin> set ids" "distinct ids"
    using Cons.prems by (auto simp: open_chans_Cons)
  let ?b = "b\<lparr>b_chans := (b_chans b)(i \<mapsto> c\<lparr>ch_closed := True\<rparr>), b_clients := remove1 i (b_clients b)\<rparr>"
  have "open_chans ids ?b" using rest by (simp add: open_chans_update)
  moreover have "distinct (b_clients ?b)" using Cons.prems(3) by (simp add: distinct_remove1)
  ultimately have step: "each_client drop_client ids ?b = Some (?b\<lparr>
    b_chans := (\<lambda>j. if j \<in> set ids then map_option (ch_closed_update (\<lambda>_. True)) (b_chans ?b j) else b_chans ?b j),
    b_clients := filter (\<lambda>j. j \<notin> set ids) (b_clients ?b)\<rparr>)"
    using Cons.IH [of ?b] rest(3) by (simp del: filter_filter)
  have "(\<lambda>j. if j \<in> set ids then map_option (ch_closed_update (\<lambda>_. True)) (b_chans ?b j) else b_chans ?b j) =
      (\<lambda>j. if j \<in> set (i # ids) then map_option (ch_closed_update (\<lambda>_. True)) (b_chans b j) else b_chans b j)"
    using rest(2) c by auto
  moreover have "filter (\<lambda>j. j \<notin> set ids) (b_clients ?b) = filter (\<lambda>j. j \<notin> set (i # ids)) (b_clients b)"
    using Cons.prems(3) by (auto simp: distinct_remove1_removeAll removeAll_filter_not_eq intro!: filter_cong)
  ultimately show ?case using step by (simp add: drop_open [OF c])
qed

section \<open>The invariant of a stream\<close>

definition data_frames :: "('e \<Rightarrow> bool) \<Rightarrow> 'e list \<Rightarrow> 'e frame list" where
  "data_frames marshals evs = map DataFrame (filter marshals evs)"

definition frames_ok :: "('e \<Rightarrow> bool) \<Rightarrow> bool \<Rightarrow> 'e sse_chan \<Rightarrow> 'e reader \<Rightarrow> bool" where
  "frames_ok marshals fin c r \<longleftrightarrow>
     (rd_frames r = data_frames marshals (rd_seen r) \<or>
      rd_frames r = data_frames marshals (rd_seen r) @ [DoneFrame] \<and> rd_end r = Finished \<and> fin) \<and>
     (rd_end r = Finished \<longrightarrow> ch_buf c = []) \<and> (rd_end r \<noteq> Streaming \<longrightarrow> ch_closed c)"

definition stream_ok :: "('e \<Rightarrow> bool) \<Rightarrow> 'e broadcaster \<Rightarrow> nat \<Rightarrow> 'e sse_chan \<Rightarrow> 'e reader \<Rightarrow> bool" where
  "stream_ok marshals b i c r \<longleftrightarrow> (ch_closed c \<longleftrightarrow> i \<notin> set (b_clients b)) \<and> sse_headroom \<le> ch_cap c \<and>
     prefix (rd_seen r @ ch_buf c) (b_history b) \<and>
     (i \<in> set (b_clients b) \<longrightarrow> rd_seen r @ ch_buf c = b_history b) \<and> frames_ok marshals (b_done b) c r"

definition sse_inv :: "('e \<Rightarrow> bool) \<Rightarrow> 'e sse_state \<Rightarrow> bool" where
  "sse_inv marshals s \<longleftrightarrow> (let b = s_bc s in
     distinct (b_clients b) \<and> b_done b = b_closed b \<and> (b_closed b \<longrightarrow> b_clients b = []) \<and>
     (\<forall>i \<in> set (b_clients b). i < b_next b) \<and>
     (\<forall>i. i < b_next b \<longrightarrow> (\<exists>c r. b_chans b i = Some c \<and> s_readers s i = Some r \<and> stream_ok marshals b i c r)) \<and>
     (\<forall>i. b_next b \<le> i \<longrightarrow> b_chans b i = None \<and> s_readers s i = None))"

lemma sse_invD:
  assumes "sse_inv marshals s"
  shows "distinct (b_clients (s_bc s))" "b_done (s_bc s) = b_closed (s_bc s)"
    "b_closed (s_bc s) \<Longrightarrow> b_clients (s_bc s) = []" "i \<in> set (b_clients (s_bc s)) \<Longrightarrow> i < b_next (s_bc s)"
    "i < b_next (s_bc s) \<Longrightarrow> \<exists>c r. b_chans (s_bc s) i = Some c \<and> s_readers s i = Some r \<and> stream_ok marshals (s_bc s) i c r"
    "b_next (s_bc s) \<le> i \<Longrightarrow> b_chans (s_bc s) i = None \<and> s_readers s i = None"
  using assms by (auto simp: sse_inv_def Let_def)

lemma inv_stream:
  assumes "sse_inv marshals s" "b_chans (s_bc s) i = Some c" "s_readers s i = Some r"
  shows "stream_ok marshals (s_bc s) i c r" "i < b_next (s_bc s)"
proof -
  show "i < b_next (s_bc s)" using sse_invD(6) [OF assms(1), of i] assms(2) by (cases "i < b_next (s_bc s)") auto
  from sse_invD(5) [OF assms(1) this] assms(2,3) show "stream_ok marshals (s_bc s) i c r" by auto
qed

lemma inv_open: "sse_inv marshals s \<Longrightarrow> open_chans (b_clients (s_bc s)) (s_bc s)"
  unfolding open_chans_def using sse_invD(4,5) by (fastforce simp: stream_ok_def)

lemma sse_inv_start: "sse_inv marshals sse_start"
  by (simp add: sse_inv_def sse_start_def NewBroadcaster_def)

lemma start_simps [simp]: "\<not> b_done (s_bc sse_start)" "\<not> b_closed (s_bc sse_start)" "b_history (s_bc sse_start) = []"
  by (simp_all add: sse_start_def NewBroadcaster_def)

lemma sse_send:
  assumes inv: "sse_inv marshals s"
  shows "Send ev (s_bc s) = Some (if b_closed (s_bc s) then s_bc s else (s_bc s)\<lparr>b_history := b_history (s_bc s) @ [ev],
    b_chans := (\<lambda>i. if i \<in> set (b_clients (s_bc s)) then map_option (deliver ev) (b_chans (s_bc s) i) else b_chans (s_bc s) i),
    b_clients := filter (\<lambda>i. \<not> full (s_bc s) i) (b_clients (s_bc s))\<rparr>)"
proof -
  let ?b = "(s_bc s)\<lparr>b_history := b_history (s_bc s) @ [ev]\<rparr>"
  have "open_chans (b_clients ?b) ?b" using inv_open [OF inv] by (simp add: open_chans_def)
  from each_send [OF _ this, of ev] sse_invD(1) [OF inv]
  have "each_client (send_to ev) (b_clients ?b) ?b = Some (?b\<lparr>
    b_chans := (\<lambda>i. if i \<in> set (b_clients ?b) then map_option (deliver ev) (b_chans ?b i) else b_chans ?b i),
    b_clients := filter (\<lambda>i. \<not> (i \<in> set (b_clients ?b) \<and> full ?b i)) (b_clients ?b)\<rparr>)" by simp
  moreover have "filter (\<lambda>i. \<not> (i \<in> set (b_clients ?b) \<and> full ?b i)) (b_clients ?b) =
      filter (\<lambda>i. \<not> full (s_bc s) i) (b_clients (s_bc s))"
    by (rule filter_cong) (simp_all add: full_def)
  ultimately show ?thesis by (simp add: Send_def cong: if_cong)
qed

lemma sse_close:
  assumes inv: "sse_inv marshals s" and "\<not> b_done (s_bc s)"
  shows "Close (s_bc s) = Some ((s_bc s)\<lparr>b_closed := True, b_done := True, b_clients := [],
    b_chans := (\<lambda>i. if i \<in> set (b_clients (s_bc s)) then map_option (ch_closed_update (\<lambda>_. True)) (b_chans (s_bc s) i)
      else b_chans (s_bc s) i)\<rparr>)"
proof -
  let ?b = "(s_bc s)\<lparr>b_closed := True, b_done := True\<rparr>"
  have "open_chans (b_clients ?b) ?b" using inv_open [OF inv] by (simp add: open_chans_def)
  from each_drop [OF _ this] sse_invD(1) [OF inv] assms(2) show ?thesis by (simp add: Close_def cong: if_cong)
qed

lemma stream_send:
  assumes "stream_ok marshals b i c r" "b_chans b i = Some c" "\<not> b_closed b"
  shows "stream_ok marshals (b\<lparr>b_history := b_history b @ [ev], b_chans := ch, b_clients := filter (\<lambda>i. \<not> full b i) (b_clients b)\<rparr>)
    i (if i \<in> set (b_clients b) then deliver ev c else c) r"
proof (cases "i \<in> set (b_clients b)")
  case True
  with assms show ?thesis
    by (auto simp: stream_ok_def deliver_def full_def frames_ok_def prefix_def)
next
  case False
  with assms show ?thesis
    by (auto simp: stream_ok_def frames_ok_def prefix_def)
qed

lemma inv_send:
  assumes inv: "sse_inv marshals s"
  shows "\<exists>b. Send ev (s_bc s) = Some b \<and> sse_inv marshals (s\<lparr>s_bc := b\<rparr>) \<and> b_done b = b_done (s_bc s)"
proof (cases "b_closed (s_bc s)")
  case True
  then show ?thesis using sse_send [OF inv] inv by simp
next
  case False
  let ?b = "s_bc s"
  let ?ch = "\<lambda>i. if i \<in> set (b_clients ?b) then map_option (deliver ev) (b_chans ?b i) else b_chans ?b i"
  let ?b' = "?b\<lparr>b_history := b_history ?b @ [ev], b_chans := ?ch, b_clients := filter (\<lambda>i. \<not> full ?b i) (b_clients ?b)\<rparr>"
  have "\<exists>c r. ?ch i = Some c \<and> s_readers s i = Some r \<and> stream_ok marshals ?b' i c r" if i: "i < b_next ?b" for i
  proof -
    obtain c r where cr: "b_chans ?b i = Some c" "s_readers s i = Some r" "stream_ok marshals ?b i c r"
      using sse_invD(5) [OF inv i] by blast
    from stream_send [OF cr(3,1) False, where ev = ev and ch = ?ch] cr(1,2) show ?thesis by (cases "i \<in> set (b_clients ?b)") auto
  qed
  moreover have "?ch i = None \<and> s_readers s i = None" if "b_next ?b \<le> i" for i
    using sse_invD(6) [OF inv that] by simp
  ultimately have "sse_inv marshals (s\<lparr>s_bc := ?b'\<rparr>)"
    using sse_invD(1,2,4) [OF inv] False by (simp add: sse_inv_def Let_def)
  with sse_send [OF inv, of ev] False show ?thesis by simp
qed

lemma inv_close:
  assumes inv: "sse_inv marshals s" and "\<not> b_done (s_bc s)"
  shows "\<exists>b. Close (s_bc s) = Some b \<and> sse_inv marshals (s\<lparr>s_bc := b\<rparr>) \<and> b_done b"
proof -
  let ?b = "s_bc s"
  let ?ch = "\<lambda>i. if i \<in> set (b_clients ?b) then map_option (ch_closed_update (\<lambda>_. True)) (b_chans ?b i) else b_chans ?b i"
  let ?b' = "?b\<lparr>b_closed := True, b_done := True, b_clients := [], b_chans := ?ch\<rparr>"
  have "\<exists>c r. ?ch i = Some c \<and> s_readers s i = Some r \<and> stream_ok marshals ?b' i c r" if i: "i < b_next ?b" for i
  proof -
    obtain c r where cr: "b_chans ?b i = Some c" "s_readers s i = Some r" "stream_ok marshals ?b i c r"
      using sse_invD(5) [OF inv i] by blast
    then show ?thesis
      by (cases "i \<in> set (b_clients ?b)") (auto simp: stream_ok_def frames_ok_def)
  qed
  moreover have "?ch i = None \<and> s_readers s i = None" if "b_next ?b \<le> i" for i
    using sse_invD(6) [OF inv that] by simp
  ultimately have "sse_inv marshals (s\<lparr>s_bc := ?b'\<rparr>)" by (simp add: sse_inv_def Let_def)
  with sse_close [OF assms] show ?thesis by simp
qed

lemma inv_connect:
  assumes inv: "sse_inv marshals s" and sub: "Subscribe (s_bc s) = (i, b)"
  shows "sse_inv marshals (s\<lparr>s_bc := b, s_readers := (s_readers s)(i \<mapsto> \<lparr>rd_seen = [], rd_frames = [], rd_end = Streaming\<rparr>)\<rparr>) \<and>
    b_done b = b_done (s_bc s)"
proof -
  let ?b = "s_bc s" and ?r = "\<lparr>rd_seen = [], rd_frames = [], rd_end = Streaming\<rparr>"
  let ?c = "\<lparr>ch_buf = b_history ?b, ch_cap = length (b_history ?b) + sse_headroom, ch_closed = b_closed ?b\<rparr>"
  have i: "i = b_next ?b" and b: "b = ?b\<lparr>b_next := i + 1, b_chans := (b_chans ?b)(i \<mapsto> ?c),
      b_clients := (if b_closed ?b then b_clients ?b else b_clients ?b @ [i])\<rparr>"
    using sub by (auto simp: Subscribe_def Let_def)
  have new: "i \<notin> set (b_clients ?b)" using sse_invD(4) [OF inv, of i] i by auto
  have "\<exists>c r. b_chans b j = Some c \<and> ((s_readers s)(i \<mapsto> ?r)) j = Some r \<and> stream_ok marshals b j c r"
    if j: "j < b_next b" for j
  proof (cases "j = i")
    case True
    then show ?thesis using sse_invD(3) [OF inv] b by (auto simp: stream_ok_def frames_ok_def data_frames_def)
  next
    case False
    with j i b have "j < b_next ?b" by simp
    then obtain c r where cr: "b_chans ?b j = Some c" "s_readers s j = Some r" "stream_ok marshals ?b j c r"
      using sse_invD(5) [OF inv] by blast
    then have "stream_ok marshals b j c r" using False b by (simp add: stream_ok_def)
    with cr False b show ?thesis by simp
  qed
  moreover have "b_chans b j = None \<and> ((s_readers s)(i \<mapsto> ?r)) j = None" if "b_next b \<le> j" for j
    using sse_invD(6) [OF inv, of j] that i b by simp
  moreover have "\<forall>j \<in> set (b_clients b). j < b_next b"
    using sse_invD(4) [OF inv] i b by (auto intro: less_SucI)
  moreover have "distinct (b_clients b)" "b_closed b \<longrightarrow> b_clients b = []" "b_done b = b_closed b"
    using sse_invD(1-3) [OF inv] new b by auto
  ultimately show ?thesis using b by (simp add: sse_inv_def Let_def)
qed

lemma reader_end_step:
  assumes inv: "sse_inv marshals s" and "b_chans (s_bc s) i = Some c" "s_readers s i = Some r0"
    and r: "\<And>c'. ch_closed c' \<Longrightarrow> ch_buf c' = ch_buf c \<Longrightarrow> frames_ok marshals (b_done (s_bc s)) c' r"
      "rd_seen r = rd_seen r0"
  shows "\<exists>s'. reader_end i r s = Some s' \<and> sse_inv marshals s' \<and> b_done (s_bc s') = b_done (s_bc s)"
proof -
  let ?b = "s_bc s"
  note ok = inv_stream(1) [OF inv assms(2,3)]
  show ?thesis
  proof (cases "i \<in> set (b_clients ?b)")
    case True
    then have op: "\<not> ch_closed c" using ok by (simp add: stream_ok_def)
    let ?b' = "?b\<lparr>b_chans := (b_chans ?b)(i \<mapsto> c\<lparr>ch_closed := True\<rparr>), b_clients := remove1 i (b_clients ?b)\<rparr>"
    have "\<exists>c' r'. b_chans ?b' j = Some c' \<and> ((s_readers s)(i \<mapsto> r)) j = Some r' \<and> stream_ok marshals ?b' j c' r'"
      if j: "j < b_next ?b" for j
    proof (cases "j = i")
      case True
      have "stream_ok marshals ?b' i (c\<lparr>ch_closed := True\<rparr>) r"
        using ok r(1) [of "c\<lparr>ch_closed := True\<rparr>"] r(2) sse_invD(1) [OF inv] by (simp add: stream_ok_def)
      with True show ?thesis by simp
    next
      case False
      obtain c' r' where cr: "b_chans ?b j = Some c'" "s_readers s j = Some r'" "stream_ok marshals ?b j c' r'"
        using sse_invD(5) [OF inv j] by blast
      then have "stream_ok marshals ?b' j c' r'" using False sse_invD(1) [OF inv] by (simp add: stream_ok_def)
      with cr False show ?thesis by simp
    qed
    moreover have "b_chans ?b' j = None \<and> ((s_readers s)(i \<mapsto> r)) j = None" if "b_next ?b \<le> j" for j
      using sse_invD(6) [OF inv that] inv_stream(2) [OF inv assms(2,3)] that by simp
    ultimately have "sse_inv marshals (s\<lparr>s_bc := ?b', s_readers := (s_readers s)(i \<mapsto> r)\<rparr>)"
      using sse_invD(1-4) [OF inv] by (auto simp: sse_inv_def Let_def)
    with drop_open [OF assms(2) op] True show ?thesis by (simp add: reader_end_def unsub_def)
  next
    case False
    then have cl: "ch_closed c" using ok by (simp add: stream_ok_def)
    have "stream_ok marshals ?b i c r" using ok r(1) [OF cl] r(2) by (simp add: stream_ok_def)
    then have "sse_inv marshals (s\<lparr>s_readers := (s_readers s)(i \<mapsto> r)\<rparr>)"
      using inv assms(2,3) inv_stream(2) [OF inv assms(2,3)] by (auto simp: sse_inv_def Let_def)
    with False show ?thesis by (simp add: reader_end_def unsub_def)
  qed
qed

lemma stream_take:
  assumes "stream_ok marshals b i c r" "ch_buf c = ev # rest" "rd_end r = Streaming"
  shows "stream_ok marshals (b\<lparr>b_chans := ch\<rparr>) i (c\<lparr>ch_buf := rest\<rparr>)
    (r\<lparr>rd_seen := rd_seen r @ [ev], rd_frames := rd_frames r @ (if marshals ev then [DataFrame ev] else [])\<rparr>)"
  using assms by (auto simp: stream_ok_def frames_ok_def data_frames_def)

lemma inv_take:
  assumes inv: "sse_inv marshals s" and cr: "b_chans (s_bc s) i = Some c" "s_readers s i = Some r" "rd_end r = Streaming"
  shows "\<exists>s'. take_event marshals i r c s = Some s' \<and> sse_inv marshals s' \<and> b_done (s_bc s') = b_done (s_bc s)"
proof (cases "ch_buf c")
  case Nil
  note ok = inv_stream(1) [OF inv cr(1,2)]
  show ?thesis
  proof (cases "ch_closed c")
    case False
    with Nil inv show ?thesis by (simp add: take_event_def)
  next
    case True
    have "frames_ok marshals (b_done (s_bc s)) c' (r\<lparr>rd_frames := rd_frames r @ [DoneFrame], rd_end := Finished\<rparr>)"
      if "ch_closed c'" "ch_buf c' = ch_buf c" "b_done (s_bc s)" for c'
      using ok that Nil cr(3) by (auto simp: stream_ok_def frames_ok_def)
    moreover have "frames_ok marshals (b_done (s_bc s)) c' (r\<lparr>rd_end := Finished\<rparr>)"
      if "ch_closed c'" "ch_buf c' = ch_buf c" for c'
      using ok that Nil cr(3) by (auto simp: stream_ok_def frames_ok_def)
    ultimately show ?thesis
      using reader_end_step [OF inv cr(1,2)] Nil True by (auto simp: take_event_def)
  qed
next
  case (Cons ev rest)
  let ?r = "r\<lparr>rd_seen := rd_seen r @ [ev], rd_frames := rd_frames r @ (if marshals ev then [DataFrame ev] else [])\<rparr>"
  let ?b = "(s_bc s)\<lparr>b_chans := (b_chans (s_bc s))(i \<mapsto> c\<lparr>ch_buf := rest\<rparr>)\<rparr>"
  note i = inv_stream [OF inv cr(1,2)]
  have "\<exists>c' r'. b_chans ?b j = Some c' \<and> ((s_readers s)(i \<mapsto> ?r)) j = Some r' \<and> stream_ok marshals ?b j c' r'"
    if j: "j < b_next (s_bc s)" for j
  proof (cases "j = i")
    case True
    with stream_take [OF i(1) Cons cr(3)] show ?thesis by simp
  next
    case False
    then show ?thesis using sse_invD(5) [OF inv j] by (auto simp: stream_ok_def)
  qed
  moreover have "b_chans ?b j = None \<and> ((s_readers s)(i \<mapsto> ?r)) j = None" if "b_next (s_bc s) \<le> j" for j
    using sse_invD(6) [OF inv that] i(2) that by simp
  ultimately have "sse_inv marshals (s\<lparr>s_bc := ?b, s_readers := (s_readers s)(i \<mapsto> ?r)\<rparr>)"
    using sse_invD(1-4) [OF inv] by (auto simp: sse_inv_def Let_def)
  with Cons show ?thesis by (simp add: take_event_def)
qed

lemma inv_step:
  assumes inv: "sse_inv marshals s" and "act = OpClose \<longrightarrow> \<not> b_done (s_bc s)"
  shows "\<exists>s'. sse_step marshals act s = Some s' \<and> sse_inv marshals s' \<and>
    (b_done (s_bc s') \<longleftrightarrow> b_done (s_bc s) \<or> act = OpClose)"
proof (cases act)
  case (OpSend ev)
  with inv_send [OF inv, of ev] show ?thesis by (auto simp: sse_step_def)
next
  case OpClose
  with inv_close [OF inv] assms(2) show ?thesis by (auto simp: sse_step_def)
next
  case OpConnect
  obtain i b where "Subscribe (s_bc s) = (i, b)" by (cases "Subscribe (s_bc s)")
  with inv_connect [OF inv] OpConnect show ?thesis by (auto simp: sse_step_def)
next
  case (OpTake i)
  show ?thesis
  proof (cases "i < b_next (s_bc s)")
    case True
    then obtain c r where "b_chans (s_bc s) i = Some c" "s_readers s i = Some r" using sse_invD(5) [OF inv] by blast
    with inv_take [OF inv this] OpTake inv show ?thesis by (auto simp: sse_step_def)
  next
    case False
    with sse_invD(6) [OF inv, of i] OpTake inv show ?thesis by (simp add: sse_step_def)
  qed
next
  case (OpHangup i)
  show ?thesis
  proof (cases "i < b_next (s_bc s)")
    case True
    then obtain c r where cr: "b_chans (s_bc s) i = Some c" "s_readers s i = Some r" using sse_invD(5) [OF inv] by blast
    have "frames_ok marshals (b_done (s_bc s)) c' (r\<lparr>rd_end := Disconnected\<rparr>)" if "ch_closed c'" "rd_end r = Streaming" for c'
      using inv_stream(1) [OF inv cr] that by (auto simp: stream_ok_def frames_ok_def)
    with reader_end_step [OF inv cr, of "r\<lparr>rd_end := Disconnected\<rparr>"] cr OpHangup inv show ?thesis
      by (auto simp: sse_step_def)
  next
    case False
    with sse_invD(6) [OF inv, of i] OpHangup inv show ?thesis by (simp add: sse_step_def)
  qed
qed

lemma inv_run:
  assumes "sse_inv marshals s" "count_list acts OpClose \<le> (if b_done (s_bc s) then 0 else 1)"
  shows "\<exists>s'. sse_run marshals acts s = Some s' \<and> sse_inv marshals s'"
  using assms
proof (induction acts arbitrary: s)
  case Nil
  then show ?case by simp
next
  case (Cons act acts)
  from Cons.prems(2) have "act = OpClose \<longrightarrow> \<not> b_done (s_bc s)" by (auto split: if_splits)
  from inv_step [OF Cons.prems(1) this] obtain s' where s': "sse_step marshals act s = Some s'" "sse_inv marshals s'"
    "b_done (s_bc s') \<longleftrightarrow> b_done (s_bc s) \<or> act = OpClose" by blast
  have "count_list acts OpClose \<le> (if b_done (s_bc s') then 0 else 1)"
    using Cons.prems(2) s'(3) by (auto split: if_splits)
  from Cons.IH [OF s'(2) this] s'(1) show ?case by simp
qed

section \<open>What a response contains\<close>

text \<open>The events sent before the broadcaster is closed.\<close>

fun sent_events :: "'e sse_op list \<Rightarrow> 'e list" where
  "sent_events [] = []"
| "sent_events (OpSend ev # acts) = ev # sent_events acts"
| "sent_events (OpClose # acts) = []"
| "sent_events (act # acts) = sent_events acts"

lemma reader_end_history: "reader_end i r s = Some s' \<Longrightarrow> b_history (s_bc s') = b_history (s_bc s) \<and> b_closed (s_bc s') = b_closed (s_bc s)"
  by (auto simp: reader_end_def unsub_def drop_client_def split: option.splits if_splits)

lemma step_history:
  assumes inv: "sse_inv marshals s" and step: "sse_step marshals act s = Some s'"
  shows "b_history (s_bc s') = b_history (s_bc s) @ (case act of OpSend ev \<Rightarrow> if b_closed (s_bc s) then [] else [ev] | _ \<Rightarrow> [])"
    and "b_closed (s_bc s') \<longleftrightarrow> b_closed (s_bc s) \<or> act = OpClose"
proof -
  have "b_history (s_bc s') = b_history (s_bc s) @ (case act of OpSend ev \<Rightarrow> if b_closed (s_bc s) then [] else [ev] | _ \<Rightarrow> []) \<and>
    (b_closed (s_bc s') \<longleftrightarrow> b_closed (s_bc s) \<or> act = OpClose)"
  proof (cases act)
    case (OpSend ev)
    with step sse_send [OF inv, of ev] show ?thesis by (auto simp: sse_step_def)
  next
    case OpClose
    then have "\<not> b_done (s_bc s)" using step by (auto simp: sse_step_def Close_def split: if_splits)
    with step sse_close [OF inv] OpClose show ?thesis by (auto simp: sse_step_def)
  next
    case OpConnect
    with step show ?thesis by (auto simp: sse_step_def Subscribe_def Let_def)
  next
    case (OpTake i)
    with step show ?thesis
      by (auto simp: sse_step_def take_event_def dest: reader_end_history split: option.splits list.splits if_splits)
  next
    case (OpHangup i)
    with step show ?thesis
      by (auto simp: sse_step_def dest: reader_end_history split: option.splits if_splits)
  qed
  then show "b_history (s_bc s') = b_history (s_bc s) @ (case act of OpSend ev \<Rightarrow> if b_closed (s_bc s) then [] else [ev] | _ \<Rightarrow> [])"
    "b_closed (s_bc s') \<longleftrightarrow> b_closed (s_bc s) \<or> act = OpClose" by blast+
qed

lemma run_history:
  assumes "sse_inv marshals s" "sse_run marshals acts s = Some s'"
  shows "b_history (s_bc s') = b_history (s_bc s) @ (if b_closed (s_bc s) then [] else sent_events acts)"
  using assms
proof (induction acts arbitrary: s)
  case Nil
  then show ?case by simp
next
  case (Cons act acts)
  then obtain s1 where s1: "sse_step marshals act s = Some s1" "sse_run marshals acts s1 = Some s'"
    by (auto split: option.splits)
  have "act = OpClose \<longrightarrow> \<not> b_done (s_bc s)" using s1(1) by (auto simp: sse_step_def Close_def split: if_splits)
  with inv_step [OF Cons.prems(1) this] s1(1) have "sse_inv marshals s1" by auto
  from Cons.IH [OF this s1(2)] step_history [OF Cons.prems(1) s1(1)] show ?case by (cases act) auto
qed

lemma run_not_done:
  assumes "sse_inv marshals s" "\<not> b_done (s_bc s)" "OpClose \<notin> set acts" "sse_run marshals acts s = Some s'"
  shows "\<not> b_done (s_bc s')"
  using assms
proof (induction acts arbitrary: s)
  case Nil
  then show ?case by simp
next
  case (Cons act acts)
  then have "act \<noteq> OpClose" by auto
  with inv_step [OF Cons.prems(1), of act] Cons show ?case by (auto split: option.splits)
qed

text \<open>
  C24: with one closing, no sequence of sends, connections, reads and hang-ups makes a channel operation
  panic, and every response holds a prefix of the events sent before the closing, each once and in
  order, with the final event only after the closing.
\<close>

theorem sse_streams_history:
  assumes "count_list acts OpClose \<le> 1"
  shows "\<exists>s. sse_run marshals acts sse_start = Some s \<and> (\<forall>i r. s_readers s i = Some r \<longrightarrow>
    (\<exists>evs. prefix evs (sent_events acts) \<and> (rd_frames r = data_frames marshals evs \<or>
      rd_frames r = data_frames marshals evs @ [DoneFrame] \<and> OpClose \<in> set acts)))"
proof -
  from inv_run [OF sse_inv_start, of acts marshals] assms
  obtain s where s: "sse_run marshals acts sse_start = Some s" "sse_inv marshals s" by auto
  have hist: "b_history (s_bc s) = sent_events acts"
    using run_history [OF sse_inv_start s(1)] by simp
  have done_close: "OpClose \<in> set acts" if "b_done (s_bc s)" using run_not_done [OF sse_inv_start _ _ s(1)] that by auto
  show ?thesis
  proof (intro exI [of _ s] conjI allI impI)
    show "sse_run marshals acts sse_start = Some s" by (rule s(1))
    fix i r
    assume r: "s_readers s i = Some r"
    then have "i < b_next (s_bc s)" using sse_invD(6) [OF s(2), of i] by (cases "i < b_next (s_bc s)") auto
    then obtain c where "b_chans (s_bc s) i = Some c" using sse_invD(5) [OF s(2)] by blast
    from inv_stream(1) [OF s(2) this r]
    have "prefix (rd_seen r) (sent_events acts)" "rd_frames r = data_frames marshals (rd_seen r) \<or>
        rd_frames r = data_frames marshals (rd_seen r) @ [DoneFrame] \<and> b_done (s_bc s)"
      using hist by (auto simp: stream_ok_def frames_ok_def dest: append_prefixD)
    then show "\<exists>evs. prefix evs (sent_events acts) \<and> (rd_frames r = data_frames marshals evs \<or>
        rd_frames r = data_frames marshals evs @ [DoneFrame] \<and> OpClose \<in> set acts)"
      using done_close by blast
  qed
qed

theorem sse_streams_history_witness:
  "\<exists>s. sse_run (\<lambda>_. True) [OpSend 1, OpConnect, OpTake 0, OpSend (2 :: int), OpClose, OpTake 0, OpTake 0] sse_start = Some s \<and>
    (\<forall>i r. s_readers s i = Some r \<longrightarrow> (\<exists>evs. prefix evs (sent_events [OpSend 1, OpConnect, OpTake 0, OpSend (2 :: int),
        OpClose, OpTake 0, OpTake 0]) \<and> (rd_frames r = data_frames (\<lambda>_. True) evs \<or>
      rd_frames r = data_frames (\<lambda>_. True) evs @ [DoneFrame] \<and>
        OpClose \<in> set [OpSend 1, OpConnect, OpTake 0, OpSend (2 :: int), OpClose, OpTake 0, OpTake 0])))"
  by (rule sse_streams_history) simp

section \<open>Clients that keep up\<close>

definition unread :: "nat \<Rightarrow> 'e sse_state \<Rightarrow> nat" where
  "unread i s = (case b_chans (s_bc s) i of None \<Rightarrow> 0 | Some c \<Rightarrow> length (ch_buf c))"

fun keeps_up :: "('e \<Rightarrow> bool) \<Rightarrow> nat \<Rightarrow> 'e sse_op list \<Rightarrow> 'e sse_state \<Rightarrow> bool" where
  "keeps_up marshals i [] s = True"
| "keeps_up marshals i (act # acts) s =
     ((case act of OpSend ev \<Rightarrow> unread i s < sse_headroom | OpHangup j \<Rightarrow> j \<noteq> i | _ \<Rightarrow> True) \<and>
      (case sse_step marshals act s of None \<Rightarrow> True | Some s' \<Rightarrow> keeps_up marshals i acts s'))"

definition follows :: "nat \<Rightarrow> 'e sse_state \<Rightarrow> bool" where
  "follows i s \<longleftrightarrow> i \<in> set (b_clients (s_bc s)) \<or> b_closed (s_bc s) \<and>
     (\<exists>c r. b_chans (s_bc s) i = Some c \<and> s_readers s i = Some r \<and> rd_seen r @ ch_buf c = b_history (s_bc s))"

lemma follows_send:
  assumes inv: "sse_inv marshals s" and "follows i s" "unread i s < sse_headroom" "sse_step marshals (OpSend ev) s = Some s'"
  shows "follows i s'"
proof (cases "b_closed (s_bc s)")
  case True
  with assms sse_send [OF inv, of ev] show ?thesis by (simp add: sse_step_def)
next
  case False
  then have i: "i \<in> set (b_clients (s_bc s))" using assms(2) by (simp add: follows_def)
  obtain c r where cr: "b_chans (s_bc s) i = Some c" "stream_ok marshals (s_bc s) i c r"
    using sse_invD(5) [OF inv sse_invD(4) [OF inv i]] by blast
  then have "\<not> full (s_bc s) i" using assms(3) by (simp add: full_def unread_def stream_ok_def)
  with i False assms(4) sse_send [OF inv, of ev] show ?thesis by (auto simp: sse_step_def follows_def)
qed

lemma follows_close:
  assumes inv: "sse_inv marshals s" and "follows i s" "sse_step marshals OpClose s = Some s'"
  shows "follows i s'"
proof -
  have open_bc: "\<not> b_done (s_bc s)" using assms(3) by (auto simp: sse_step_def Close_def split: if_splits)
  with assms(2) sse_invD(2) [OF inv] have i: "i \<in> set (b_clients (s_bc s))" by (simp add: follows_def)
  obtain c r where "b_chans (s_bc s) i = Some c" "s_readers s i = Some r" "stream_ok marshals (s_bc s) i c r"
    using sse_invD(5) [OF inv sse_invD(4) [OF inv i]] by blast
  with assms(3) sse_close [OF inv open_bc] i show ?thesis by (auto simp: sse_step_def follows_def stream_ok_def)
qed

lemma follows_connect:
  assumes inv: "sse_inv marshals s" and "b_next (s_bc s) \<le> i \<or> follows i s" "sse_step marshals OpConnect s = Some s'"
  shows "b_next (s_bc s') \<le> i \<or> follows i s'"
proof -
  have old: "follows i s \<Longrightarrow> i < b_next (s_bc s)"
    using sse_invD(4,6) [OF inv, of i] by (cases "i < b_next (s_bc s)") (auto simp: follows_def)
  show ?thesis
    using assms(2,3) old by (auto simp: sse_step_def Subscribe_def Let_def follows_def split: if_splits)
qed

lemma follows_end:
  assumes inv: "sse_inv marshals s" and "follows i s" "reader_end j r s = Some s'"
    and "s_readers s j = Some r0" "rd_seen r = rd_seen r0" and "j = i \<Longrightarrow> i \<notin> set (b_clients (s_bc s))"
  shows "follows i s'"
proof (cases "j \<in> set (b_clients (s_bc s))")
  case True
  then have "j \<noteq> i" using assms(6) by auto
  moreover obtain c where "b_chans (s_bc s) j = Some c" "\<not> ch_closed c"
    using inv_open [OF inv] True by (auto simp: open_chans_def)
  ultimately show ?thesis
    using assms(2,3) True drop_open [of "s_bc s" j c] by (auto simp: reader_end_def unsub_def follows_def)
next
  case False
  with assms(2-5) show ?thesis by (cases "j = i") (auto simp: reader_end_def unsub_def follows_def)
qed

lemma follows_take:
  assumes inv: "sse_inv marshals s" and "follows i s" "sse_step marshals (OpTake j) s = Some s'"
  shows "follows i s'"
proof (cases "\<exists>r c. s_readers s j = Some r \<and> b_chans (s_bc s) j = Some c \<and> rd_end r = Streaming")
  case True
  then obtain r c where rc: "s_readers s j = Some r" "b_chans (s_bc s) j = Some c" "rd_end r = Streaming" by blast
  with assms(3) have take: "take_event marshals j r c s = Some s'" by (simp add: sse_step_def)
  show ?thesis
  proof (cases "ch_buf c")
    case Nil
    show ?thesis
    proof (cases "ch_closed c")
      case True
      then have out: "j \<notin> set (b_clients (s_bc s))" using inv_stream(1) [OF inv rc(2,1)] by (simp add: stream_ok_def)
      obtain r' where "reader_end j r' s = Some s'" "rd_seen r' = rd_seen r"
      proof (cases "b_done (s_bc s)")
        case True
        with that [of "r\<lparr>rd_frames := rd_frames r @ [DoneFrame], rd_end := Finished\<rparr>"] take Nil \<open>ch_closed c\<close>
        show ?thesis by (simp add: take_event_def)
      next
        case False
        with that [of "r\<lparr>rd_end := Finished\<rparr>"] take Nil \<open>ch_closed c\<close> show ?thesis by (simp add: take_event_def)
      qed
      with follows_end [OF inv assms(2) _ rc(1)] out show ?thesis by blast
    next
      case False
      with Nil take assms(2) show ?thesis by (simp add: take_event_def)
    qed
  next
    case (Cons ev rest)
    with take assms(2) rc show ?thesis by (auto simp: take_event_def follows_def)
  qed
next
  case False
  with assms(2,3) show ?thesis by (auto simp: sse_step_def split: option.splits if_splits)
qed

lemma follows_step:
  assumes inv: "sse_inv marshals s" and "b_next (s_bc s) \<le> i \<or> follows i s" and step: "sse_step marshals act s = Some s'"
    and "case act of OpSend ev \<Rightarrow> unread i s < sse_headroom | OpHangup j \<Rightarrow> j \<noteq> i | _ \<Rightarrow> True"
  shows "b_next (s_bc s') \<le> i \<or> follows i s'"
proof (cases "act = OpConnect")
  case True
  with follows_connect [OF inv assms(2)] step show ?thesis by simp
next
  case False
  have "reader_end j r s = Some s' \<Longrightarrow> b_next (s_bc s') = b_next (s_bc s)" for j r
    by (auto simp: reader_end_def unsub_def drop_client_def split: option.splits if_splits)
  then have "b_next (s_bc s') = b_next (s_bc s)"
    using step False sse_send [OF inv] sse_close [OF inv]
    by (cases act; cases "b_done (s_bc s)")
       (auto simp: sse_step_def take_event_def Close_def split: option.splits list.splits if_splits)
  moreover have "follows i s'" if "follows i s"
  proof (cases act)
    case (OpHangup j)
    with step assms(4) that follows_end [OF inv that] show ?thesis
      by (auto simp: sse_step_def split: option.splits if_splits)
  qed (use False step assms(4) that follows_send [OF inv that] follows_close [OF inv that] follows_take [OF inv that] in auto)
  ultimately show ?thesis using assms(2) by auto
qed

definition told :: "nat \<Rightarrow> 'e sse_state \<Rightarrow> bool" where
  "told i s \<longleftrightarrow> (\<forall>r. s_readers s i = Some r \<longrightarrow> rd_end r = Finished \<longrightarrow> DoneFrame \<in> set (rd_frames r))"

lemma told_end: "told i s \<Longrightarrow> reader_end j r s = Some s' \<Longrightarrow> (j = i \<Longrightarrow> rd_end r = Finished \<Longrightarrow> DoneFrame \<in> set (rd_frames r)) \<Longrightarrow> told i s'"
  by (auto simp: reader_end_def told_def split: option.splits if_splits)

lemma told_step:
  assumes inv: "sse_inv marshals s" and "b_next (s_bc s) \<le> i \<or> follows i s" and "told i s"
    and step: "sse_step marshals act s = Some s'"
  shows "told i s'"
proof (cases act)
  case (OpSend ev)
  with assms(3) step show ?thesis by (auto simp: sse_step_def told_def split: option.splits)
next
  case OpClose
  with assms(3) step show ?thesis by (auto simp: sse_step_def told_def split: option.splits)
next
  case OpConnect
  with assms(3) step show ?thesis by (auto simp: sse_step_def told_def Subscribe_def Let_def split: if_splits)
next
  case (OpHangup j)
  show ?thesis
  proof (cases "\<exists>r. s_readers s j = Some r \<and> rd_end r = Streaming")
    case True
    then obtain r where "s_readers s j = Some r" "rd_end r = Streaming" by blast
    with OpHangup step have "reader_end j (r\<lparr>rd_end := Disconnected\<rparr>) s = Some s'" by (simp add: sse_step_def)
    from told_end [OF assms(3) this] show ?thesis by simp
  next
    case False
    with OpHangup step assms(3) show ?thesis by (auto simp: sse_step_def split: option.splits)
  qed
next
  case (OpTake j)
  show ?thesis
  proof (cases "\<exists>r c. s_readers s j = Some r \<and> b_chans (s_bc s) j = Some c \<and> rd_end r = Streaming")
    case False
    with OpTake step assms(3) show ?thesis by (auto simp: sse_step_def split: option.splits if_splits)
  next
    case True
    then obtain r c where rc: "s_readers s j = Some r" "b_chans (s_bc s) j = Some c" "rd_end r = Streaming" by blast
    with step OpTake have take: "take_event marshals j r c s = Some s'" by (simp add: sse_step_def)
    have finished: "b_done (s_bc s)" if "j = i" "ch_closed c"
    proof -
      have "i < b_next (s_bc s)" using inv_stream(2) [OF inv rc(2,1)] that(1) by simp
      then show ?thesis using assms(2) inv_stream(1) [OF inv rc(2,1)] that sse_invD(2) [OF inv]
        by (auto simp: follows_def stream_ok_def)
    qed
    show ?thesis
    proof (cases "ch_buf c")
      case Nil
      show ?thesis
      proof (cases "ch_closed c \<and> b_done (s_bc s)")
        case True
        with Nil take have "reader_end j (r\<lparr>rd_frames := rd_frames r @ [DoneFrame], rd_end := Finished\<rparr>) s = Some s'"
          by (simp add: take_event_def)
        from told_end [OF assms(3) this] show ?thesis by simp
      next
        case False
        show ?thesis
        proof (cases "ch_closed c")
          case True
          with False finished have "j \<noteq> i" by auto
          moreover from True False Nil take have "reader_end j (r\<lparr>rd_end := Finished\<rparr>) s = Some s'"
            by (simp add: take_event_def)
          ultimately show ?thesis using told_end [OF assms(3)] by blast
        next
          case False
          with Nil take assms(3) show ?thesis by (simp add: take_event_def)
        qed
      qed
    next
      case (Cons ev rest)
      with take rc assms(3) show ?thesis by (auto simp: take_event_def told_def split: if_splits)
    qed
  qed
qed

lemma run_follows:
  assumes "sse_inv marshals s" "b_next (s_bc s) \<le> i \<or> follows i s" "told i s"
    and "sse_run marshals acts s = Some s'" "keeps_up marshals i acts s"
  shows "sse_inv marshals s' \<and> (b_next (s_bc s') \<le> i \<or> follows i s') \<and> told i s'"
  using assms
proof (induction acts arbitrary: s)
  case Nil
  then show ?case by simp
next
  case (Cons act acts)
  then obtain s1 where s1: "sse_step marshals act s = Some s1" "sse_run marshals acts s1 = Some s'"
    "keeps_up marshals i acts s1" by (auto split: option.splits)
  have "act = OpClose \<longrightarrow> \<not> b_done (s_bc s)" using s1(1) by (auto simp: sse_step_def Close_def split: if_splits)
  with inv_step [OF Cons.prems(1) this] s1(1) have "sse_inv marshals s1" by auto
  moreover have "b_next (s_bc s1) \<le> i \<or> follows i s1"
    using follows_step [OF Cons.prems(1,2) s1(1)] Cons.prems(5) by auto
  moreover have "told i s1" by (rule told_step [OF Cons.prems(1-3) s1(1)])
  ultimately show ?case using Cons.IH s1(2,3) by blast
qed

text \<open>
  C25: a client that has fewer than 256 unread events whenever one is sent, and that does not hang up,
  is never dropped: when its response ends, it holds every event that was sent, and then the final one.
\<close>

theorem sse_complete:
  assumes "sse_run marshals acts sse_start = Some s" and "keeps_up marshals i acts sse_start"
    and "s_readers s i = Some r" and "rd_end r = Finished"
  shows "rd_frames r = data_frames marshals (sent_events acts) @ [DoneFrame]"
proof -
  have "told i sse_start" "b_next (s_bc sse_start) \<le> i" by (simp_all add: told_def sse_start_def NewBroadcaster_def)
  with run_follows [OF sse_inv_start _ _ assms(1,2)] have inv: "sse_inv marshals s"
    and i: "b_next (s_bc s) \<le> i \<or> follows i s" and "told i s" by blast+
  with assms(3,4) have fin: "DoneFrame \<in> set (rd_frames r)" by (simp add: told_def)
  have "i < b_next (s_bc s)" using sse_invD(6) [OF inv, of i] assms(3) by (cases "i < b_next (s_bc s)") auto
  then obtain c where c: "b_chans (s_bc s) i = Some c" using sse_invD(5) [OF inv] by blast
  note ok = inv_stream(1) [OF inv c assms(3)]
  with assms(4) have "ch_closed c" "ch_buf c = []" by (auto simp: stream_ok_def frames_ok_def)
  with ok i \<open>i < b_next (s_bc s)\<close> c assms(3) have "rd_seen r = b_history (s_bc s)"
    by (auto simp: follows_def stream_ok_def)
  moreover have "b_history (s_bc s) = sent_events acts" using run_history [OF sse_inv_start assms(1)] by simp
  moreover have "DoneFrame \<notin> set (data_frames marshals evs)" for evs by (auto simp: data_frames_def)
  ultimately show ?thesis using ok fin by (auto simp: stream_ok_def frames_ok_def)
qed

theorem sse_complete_witness:
  "\<exists>s r. sse_run (\<lambda>_. True) [OpSend 1, OpConnect, OpTake 0, OpSend (2 :: int), OpClose, OpTake 0, OpTake 0, OpTake 0] sse_start = Some s \<and>
     s_readers s 0 = Some r \<and> rd_frames r = [DataFrame 1, DataFrame 2, DoneFrame]"
proof -
  let ?acts = "[OpSend 1, OpConnect, OpTake 0, OpSend (2 :: int), OpClose, OpTake 0, OpTake 0, OpTake 0]"
  obtain s where s: "sse_run (\<lambda>_. True) ?acts sse_start = Some s"
    using inv_run [OF sse_inv_start, of ?acts "\<lambda>_. True"] by auto
  have "case sse_run (\<lambda>_. True) ?acts sse_start of None \<Rightarrow> False
    | Some s \<Rightarrow> (case s_readers s 0 of None \<Rightarrow> False | Some r \<Rightarrow> rd_end r = Finished)" by code_simp
  with s obtain r where r: "s_readers s 0 = Some r" "rd_end r = Finished" by (auto split: option.splits)
  have "keeps_up (\<lambda>_. True) 0 ?acts sse_start" by code_simp
  from sse_complete [OF s this r] have "rd_frames r = data_frames (\<lambda>_. True) (sent_events ?acts) @ [DoneFrame]" .
  with s r show ?thesis by (simp add: data_frames_def)
qed

text \<open>
  A client that falls behind is dropped without a word, but when the run ends before it has read its
  buffer it is told that the stream is complete.
\<close>

definition backlog :: "nat \<Rightarrow> nat \<Rightarrow> bool \<Rightarrow> int sse_state" where
  "backlog k n gone = \<lparr>s_bc = \<lparr>b_history = replicate n 1, b_clients = (if gone then [] else [0]), b_next = 1,
       b_closed = False, b_done = False, b_chans = [0 \<mapsto> \<lparr>ch_buf = replicate k 1, ch_cap = 256, ch_closed = gone\<rparr>]\<rparr>,
     s_readers = [0 \<mapsto> \<lparr>rd_seen = [], rd_frames = [], rd_end = Streaming\<rparr>]\<rparr>"

lemma backlog_send: "k < 256 \<Longrightarrow> sse_step ok (OpSend 1) (backlog k k False) = Some (backlog (Suc k) (Suc k) False)"
  by (simp add: sse_step_def Send_def send_to_def try_send_def backlog_def replicate_append_same)

lemma backlog_drop: "256 \<le> k \<Longrightarrow> sse_step ok (OpSend 1) (backlog k k False) = Some (backlog k (Suc k) True)"
  by (simp add: sse_step_def Send_def send_to_def try_send_def drop_client_def close_chan_def backlog_def replicate_append_same)

lemma backlog_sends: "k + n \<le> 256 \<Longrightarrow> sse_run ok (replicate n (OpSend 1)) (backlog k k False) = Some (backlog (k + n) (k + n) False)"
  by (induction n arbitrary: k) (simp_all add: backlog_send)

text \<open>Reading the backlog of a dropped client after the end of the run.\<close>

definition leftover :: "nat \<Rightarrow> nat \<Rightarrow> nat \<Rightarrow> int sse_state" where
  "leftover k m n = \<lparr>s_bc = \<lparr>b_history = replicate n 1, b_clients = [], b_next = 1,
       b_closed = True, b_done = True, b_chans = [0 \<mapsto> \<lparr>ch_buf = replicate k 1, ch_cap = 256, ch_closed = True\<rparr>]\<rparr>,
     s_readers = [0 \<mapsto> \<lparr>rd_seen = replicate m 1, rd_frames = replicate m (DataFrame 1), rd_end = Streaming\<rparr>]\<rparr>"

lemma leftover_close: "sse_step ok OpClose (backlog k n True) = Some (leftover k 0 n)"
  by (simp add: sse_step_def Close_def backlog_def leftover_def)

lemma leftover_take: "sse_step (\<lambda>_. True) (OpTake 0) (leftover (Suc k) m n) = Some (leftover k (Suc m) n)"
  by (simp add: sse_step_def take_event_def leftover_def replicate_append_same)

lemma leftover_takes:
  "sse_run (\<lambda>_. True) (replicate k (OpTake 0)) (leftover k m n) = Some (leftover 0 (k + m) n)"
  by (induction k arbitrary: m) (simp_all add: leftover_take)

lemma sse_run_append: "sse_run ok (xs @ ys) s = (case sse_run ok xs s of None \<Rightarrow> None | Some s' \<Rightarrow> sse_run ok ys s')"
  by (induction xs arbitrary: s) (auto split: option.splits)

lemma sent_replicate [simp]: "sent_events (replicate n (OpSend e) @ acts) = replicate n e @ sent_events acts"
  by (induction n) simp_all

text \<open>
  A client that falls behind is dropped without a word, but when the run ends before it has read its
  buffer it is told that the stream is complete.
\<close>

lemma dropped_client_told_done:
  fixes acts :: "int sse_op list"
  defines "acts \<equiv> [OpConnect] @ replicate 256 (OpSend 1) @ [OpSend 1] @ [OpClose] @ replicate 256 (OpTake 0) @ [OpTake 0]"
  shows "length (sent_events acts) = 257"
    and "\<exists>s r. sse_run (\<lambda>_. True) acts sse_start = Some s \<and> s_readers s 0 = Some r \<and>
      rd_frames r = replicate 256 (DataFrame 1) @ [DoneFrame]"
proof -
  show "length (sent_events acts) = 257" by (simp add: acts_def)
  have start: "sse_step (\<lambda>_. True) OpConnect sse_start = Some (backlog 0 0 False)"
    by (simp add: sse_step_def Subscribe_def Let_def sse_start_def NewBroadcaster_def backlog_def sse_headroom_def fun_eq_iff)
  obtain s where s: "sse_step (\<lambda>_. True) (OpTake 0) (leftover 0 256 (Suc 256)) = Some s"
      "map_option rd_frames (s_readers s 0) = Some (replicate 256 (DataFrame 1) @ [DoneFrame])"
    by (simp add: sse_step_def take_event_def leftover_def reader_end_def unsub_def)
  have "sse_run (\<lambda>_. True) acts sse_start = Some s"
    unfolding acts_def sse_run_append
    using backlog_sends [of 0 256 "\<lambda>_. True"] leftover_takes [of 256 0 "Suc 256"] s(1)
    by (simp add: start backlog_drop leftover_close)
  with s(2) show "\<exists>s r. sse_run (\<lambda>_. True) acts sse_start = Some s \<and> s_readers s 0 = Some r \<and>
      rd_frames r = replicate 256 (DataFrame 1) @ [DoneFrame]" by auto
qed

end
