(* ===== verification/WebServer.thy ===== *)
theory WebServer
  imports HumanGate
begin

text \<open>
  Questions and runs of the HTTP server: the WebInterviewer of
  \<^verbatim>\<open>internal/server/interviewer.go\<close>, which parks the question of a gate until a client answers
  it, and the registry of runs of \<^verbatim>\<open>internal/server/registry.go\<close>.  The sections of Ask between its
  uses of the lock are separate steps, so that answers, timeouts and cancellations interleave with them.
\<close>

section \<open>Parked questions\<close>

text \<open>A channel is named by the number of its question; its one place is empty or holds an answer.\<close>

record pending_question =
  pq_question :: question
  pq_chan :: nat

record web_interviewer =
  wi_pending :: "string \<rightharpoonup> pending_question"
  wi_chans :: "nat \<rightharpoonup> answer option"
  wi_seq :: nat
  wi_cancelled :: bool

definition NewWebInterviewer :: web_interviewer where
  "NewWebInterviewer = \<lparr>wi_pending = Map.empty, wi_chans = Map.empty, wi_seq = 0, wi_cancelled = False\<rparr>"

definition qid_of :: "nat \<Rightarrow> string" where
  "qid_of n = ''q-'' @ nat_to_dec n"

text \<open>The start of Ask: a new number, a new channel, the question parked.\<close>

definition park :: "question \<Rightarrow> web_interviewer \<Rightarrow> nat \<times> web_interviewer" where
  "park q wi = (let n = wi_seq wi + 1 in
     (n, wi\<lparr>wi_seq := n, wi_chans := (wi_chans wi)(n \<mapsto> None),
        wi_pending := (wi_pending wi)(qid_of n \<mapsto> \<lparr>pq_question = q, pq_chan = n\<rparr>)\<rparr>))"

datatype wake = ByAnswer | ByTimer | ByCancel

definition timed_out :: answer where
  "timed_out = no_answer\<lparr>ans_timed_out := True\<rparr>"

text \<open>One ready case of the select of Ask; \<^verbatim>\<open>None\<close> when the case is not ready.\<close>

definition select_wake :: "nat \<Rightarrow> wake \<Rightarrow> web_interviewer \<Rightarrow> (answer \<times> web_interviewer) option" where
  "select_wake n w wi = (case w of
      ByAnswer \<Rightarrow> (case wi_chans wi n of
          Some (Some ans) \<Rightarrow> Some (ans, wi\<lparr>wi_chans := (wi_chans wi)(n \<mapsto> None)\<rparr>)
        | _ \<Rightarrow> None)
    | ByTimer \<Rightarrow> Some (timed_out, wi)
    | ByCancel \<Rightarrow> if wi_cancelled wi then Some (timed_out, wi) else None)"

text \<open>The deferred removal at the end of Ask.\<close>

definition unpark :: "nat \<Rightarrow> web_interviewer \<Rightarrow> web_interviewer" where
  "unpark n wi = wi\<lparr>wi_pending := (wi_pending wi)(qid_of n := None)\<rparr>"

definition Answer :: "string \<Rightarrow> answer \<Rightarrow> web_interviewer \<Rightarrow> bool \<times> web_interviewer" where
  "Answer qid ans wi = (case wi_pending wi qid of
      None \<Rightarrow> (False, wi)
    | Some pq \<Rightarrow> (case wi_chans wi (pq_chan pq) of
        Some None \<Rightarrow> (True, wi\<lparr>wi_chans := (wi_chans wi)(pq_chan pq \<mapsto> Some ans),
            wi_pending := (wi_pending wi)(qid := None)\<rparr>)
      | _ \<Rightarrow> (False, wi)))"

definition Cancel :: "web_interviewer \<Rightarrow> web_interviewer" where
  "Cancel wi = wi\<lparr>wi_cancelled := True\<rparr>"

definition Pending :: "string list \<Rightarrow> web_interviewer \<Rightarrow> (string \<times> question) list" where
  "Pending order wi = concat (map (\<lambda>qid. case wi_pending wi qid of
      None \<Rightarrow> [] | Some pq \<Rightarrow> [(qid, pq_question pq)]) order)"

section \<open>Calls of Ask and posted answers\<close>

text \<open>
  The calls of Ask by their number, and the answers for which the client was told that they were taken
  (handleAnswerQuestion of \<^verbatim>\<open>server/handlers.go\<close> passes the fields of the request on).
\<close>

datatype ask_state = Waiting | Decided answer | Returned answer

record web_system =
  ws_wi :: web_interviewer
  ws_asks :: "nat \<rightharpoonup> ask_state"
  ws_accepted :: "(string \<times> answer) list"

datatype web_op = AskBegin question | AskSelect nat wake | AskEnd nat | PostAnswer string string | CancelRun

definition posted_answer :: "string \<Rightarrow> answer" where
  "posted_answer v = no_answer\<lparr>ans_value := v\<rparr>"

definition web_step :: "web_op \<Rightarrow> web_system \<Rightarrow> web_system" where
  "web_step act s = (case act of
      AskBegin q \<Rightarrow> (case park q (ws_wi s) of (n, wi) \<Rightarrow> s\<lparr>ws_wi := wi, ws_asks := (ws_asks s)(n \<mapsto> Waiting)\<rparr>)
    | AskSelect n w \<Rightarrow>
        (if ws_asks s n \<noteq> Some Waiting then s
         else (case select_wake n w (ws_wi s) of
             None \<Rightarrow> s
           | Some (ans, wi) \<Rightarrow> s\<lparr>ws_wi := wi, ws_asks := (ws_asks s)(n \<mapsto> Decided ans)\<rparr>))
    | AskEnd n \<Rightarrow> (case ws_asks s n of
          Some (Decided ans) \<Rightarrow> s\<lparr>ws_wi := unpark n (ws_wi s), ws_asks := (ws_asks s)(n \<mapsto> Returned ans)\<rparr>
        | _ \<Rightarrow> s)
    | PostAnswer qid v \<Rightarrow> (case Answer qid (posted_answer v) (ws_wi s) of (ok, wi) \<Rightarrow>
        s\<lparr>ws_wi := wi, ws_accepted := ws_accepted s @ (if ok then [(qid, posted_answer v)] else [])\<rparr>)
    | CancelRun \<Rightarrow> s\<lparr>ws_wi := Cancel (ws_wi s)\<rparr>)"

definition web_start :: web_system where
  "web_start = \<lparr>ws_wi = NewWebInterviewer, ws_asks = Map.empty, ws_accepted = []\<rparr>"

definition web_run :: "web_op list \<Rightarrow> web_system" where
  "web_run acts = fold web_step acts web_start"

section \<open>The registry of runs\<close>

type_synonym 'p registry = "string \<rightharpoonup> 'p"

definition Register :: "string \<Rightarrow> 'p \<Rightarrow> 'p registry \<Rightarrow> 'p registry option" where
  "Register i p r = (case r i of Some q \<Rightarrow> None | None \<Rightarrow> Some (r(i \<mapsto> p)))"

text \<open>The range over the registry visits the ids in the order \<^verbatim>\<open>order\<close>.\<close>

fun prefix_match :: "string \<Rightarrow> 'p registry \<Rightarrow> string list \<Rightarrow> 'p option \<Rightarrow> 'p option" where
  "prefix_match i r [] acc = acc"
| "prefix_match i r (j # js) acc =
     (if r j \<noteq> None \<and> has_prefix i j then (if acc \<noteq> None then None else prefix_match i r js (r j))
      else prefix_match i r js acc)"

definition Get :: "string list \<Rightarrow> string \<Rightarrow> 'p registry \<Rightarrow> 'p option" where
  "Get order i r = (case r i of Some p \<Rightarrow> Some p | None \<Rightarrow> prefix_match i r order None)"

section \<open>No answer reaches another question\<close>

lemma qid_inj [simp]: "qid_of m = qid_of n \<longleftrightarrow> m = n"
  by (simp add: qid_of_def nat_to_dec_inj)

text \<open>What an accepted answer has led to, and what a call of Ask rests on.\<close>

definition settled :: "web_system \<Rightarrow> nat \<Rightarrow> answer \<Rightarrow> bool" where
  "settled s n a \<longleftrightarrow> (case ws_asks s n of
      None \<Rightarrow> False
    | Some Waiting \<Rightarrow> wi_chans (ws_wi s) n = Some (Some a)
    | Some (Decided b) \<Rightarrow> b = a \<or> b = timed_out
    | Some (Returned b) \<Rightarrow> b = a \<or> b = timed_out)"

definition grounded :: "web_system \<Rightarrow> nat \<Rightarrow> bool" where
  "grounded s n \<longleftrightarrow> (case ws_asks s n of
      None \<Rightarrow> True
    | Some Waiting \<Rightarrow> (case wi_chans (ws_wi s) n of
        None \<Rightarrow> False
      | Some None \<Rightarrow> wi_pending (ws_wi s) (qid_of n) \<noteq> None
      | Some (Some a) \<Rightarrow> (qid_of n, a) \<in> set (ws_accepted s))
    | Some (Decided b) \<Rightarrow> b = timed_out \<or> (qid_of n, b) \<in> set (ws_accepted s)
    | Some (Returned b) \<Rightarrow> b = timed_out \<or> (qid_of n, b) \<in> set (ws_accepted s))"

definition parked_ok :: "web_system \<Rightarrow> string \<Rightarrow> pending_question \<Rightarrow> bool" where
  "parked_ok s qid pq \<longleftrightarrow> qid = qid_of (pq_chan pq) \<and> wi_chans (ws_wi s) (pq_chan pq) = Some None \<and>
     qid \<notin> fst ` set (ws_accepted s) \<and> ws_asks s (pq_chan pq) \<in> {Some Waiting, Some (Decided timed_out)}"

definition web_inv :: "web_system \<Rightarrow> bool" where
  "web_inv s \<longleftrightarrow> (\<forall>n. ws_asks s n \<noteq> None \<longrightarrow> n \<le> wi_seq (ws_wi s)) \<and>
     (\<forall>qid pq. wi_pending (ws_wi s) qid = Some pq \<longrightarrow> parked_ok s qid pq) \<and>
     distinct (map fst (ws_accepted s)) \<and> (\<forall>n. grounded s n) \<and>
     (\<forall>(qid, a) \<in> set (ws_accepted s). \<exists>n. qid = qid_of n \<and> settled s n a)"

lemma web_invD:
  assumes "web_inv s"
  shows "ws_asks s n \<noteq> None \<Longrightarrow> n \<le> wi_seq (ws_wi s)"
    and "wi_pending (ws_wi s) qid = Some pq \<Longrightarrow> parked_ok s qid pq"
    and "distinct (map fst (ws_accepted s))" "grounded s n"
    and "(qid_of n, a) \<in> set (ws_accepted s) \<Longrightarrow> settled s n a"
  using assms unfolding web_inv_def by fastforce+

lemma web_invI:
  assumes "\<And>n. ws_asks s n \<noteq> None \<Longrightarrow> n \<le> wi_seq (ws_wi s)"
    and "\<And>qid pq. wi_pending (ws_wi s) qid = Some pq \<Longrightarrow> parked_ok s qid pq"
    and "distinct (map fst (ws_accepted s))" "\<And>n. grounded s n"
    and "\<And>qid a. (qid, a) \<in> set (ws_accepted s) \<Longrightarrow> \<exists>n. qid = qid_of n \<and> settled s n a"
  shows "web_inv s"
  using assms unfolding web_inv_def by blast

lemma accepted_number: "web_inv s \<Longrightarrow> (qid, a) \<in> set (ws_accepted s) \<Longrightarrow> \<exists>n. qid = qid_of n \<and> settled s n a"
  unfolding web_inv_def by blast

lemma web_begin:
  assumes inv: "web_inv s"
  shows "web_inv (web_step (AskBegin q) s)"
proof -
  let ?n = "wi_seq (ws_wi s) + 1" and ?s = "web_step (AskBegin q) s"
  have new: "ws_asks s ?n = None" using web_invD(1) [OF inv, of ?n] by fastforce
  have other: "ws_asks s m \<noteq> None \<Longrightarrow> m \<noteq> ?n" for m using new by auto
  have settled: "settled s m a \<Longrightarrow> m \<noteq> ?n \<and> settled ?s m a" for m a
    using new by (auto simp: settled_def web_step_def park_def Let_def split: option.splits ask_state.splits)
  show ?thesis
  proof (rule web_invI)
    show "n \<le> wi_seq (ws_wi ?s)" if "ws_asks ?s n \<noteq> None" for n
      using that web_invD(1) [OF inv, of n] by (auto simp: web_step_def park_def Let_def split: if_splits)
    show "parked_ok ?s qid pq" if "wi_pending (ws_wi ?s) qid = Some pq" for qid pq
    proof (cases "qid = qid_of ?n")
      case True
      have "qid_of ?n \<notin> fst ` set (ws_accepted s)"
        using accepted_number [OF inv] settled by fastforce
      with True that show ?thesis by (auto simp: parked_ok_def web_step_def park_def Let_def)
    next
      case False
      with that have "wi_pending (ws_wi s) qid = Some pq" by (simp add: web_step_def park_def Let_def)
      from web_invD(2) [OF inv this] False show ?thesis
        by (auto simp: parked_ok_def web_step_def park_def Let_def)
    qed
    show "distinct (map fst (ws_accepted ?s))" using web_invD(3) [OF inv] by (simp add: web_step_def park_def Let_def)
    show "grounded ?s n" for n
      using web_invD(4) [OF inv, of n] by (auto simp: grounded_def web_step_def park_def Let_def split: option.splits ask_state.splits)
    show "\<exists>n. qid = qid_of n \<and> settled ?s n a" if "(qid, a) \<in> set (ws_accepted ?s)" for qid a
    proof -
      have "(qid, a) \<in> set (ws_accepted s)" using that by (simp add: web_step_def park_def Let_def)
      with accepted_number [OF inv] settled show ?thesis by blast
    qed
  qed
qed

lemma web_decide:
  assumes inv: "web_inv s" and waiting: "ws_asks s n = Some Waiting"
    and ans: "ans = timed_out \<and> wi = ws_wi s \<or>
      wi_chans (ws_wi s) n = Some (Some ans) \<and> wi = (ws_wi s)\<lparr>wi_chans := (wi_chans (ws_wi s))(n \<mapsto> None)\<rparr>"
  shows "web_inv (s\<lparr>ws_wi := wi, ws_asks := (ws_asks s)(n \<mapsto> Decided ans)\<rparr>)" (is "web_inv ?s")
proof (rule web_invI)
  show "k \<le> wi_seq (ws_wi ?s)" if "ws_asks ?s k \<noteq> None" for k
    using that ans waiting web_invD(1) [OF inv, of k] by (auto split: if_splits)
  show "parked_ok ?s qid pq" if "wi_pending (ws_wi ?s) qid = Some pq" for qid pq
  proof -
    have "wi_pending (ws_wi s) qid = Some pq" using that ans by auto
    from web_invD(2) [OF inv this] show ?thesis using ans by (auto simp: parked_ok_def)
  qed
  show "distinct (map fst (ws_accepted ?s))" using web_invD(3) [OF inv] by simp
  show "grounded ?s k" for k
    using web_invD(4) [OF inv, of k] web_invD(4) [OF inv, of n] ans waiting
    by (auto simp: grounded_def split: option.splits ask_state.splits if_splits)
  show "\<exists>k. qid = qid_of k \<and> settled ?s k a" if "(qid, a) \<in> set (ws_accepted ?s)" for qid a
  proof -
    have "(qid, a) \<in> set (ws_accepted s)" using that by simp
    then obtain k where "qid = qid_of k" "settled s k a" using accepted_number [OF inv] by blast
    then show ?thesis
      using ans waiting by (intro exI [of _ k]) (auto simp: settled_def split: option.splits ask_state.splits)
  qed
qed

lemma web_select: "web_inv s \<Longrightarrow> web_inv (web_step (AskSelect n w) s)"
proof (cases "ws_asks s n = Some Waiting \<and> select_wake n w (ws_wi s) \<noteq> None")
  case True
  assume inv: "web_inv s"
  obtain ans wi where sel: "select_wake n w (ws_wi s) = Some (ans, wi)" using True by auto
  then have "ans = timed_out \<and> wi = ws_wi s \<or>
      wi_chans (ws_wi s) n = Some (Some ans) \<and> wi = (ws_wi s)\<lparr>wi_chans := (wi_chans (ws_wi s))(n \<mapsto> None)\<rparr>"
    by (auto simp: select_wake_def split: wake.splits option.splits if_splits)
  from web_decide [OF inv _ this] True sel show ?thesis by (simp add: web_step_def)
next
  case False
  assume "web_inv s"
  with False show ?thesis by (cases "select_wake n w (ws_wi s)") (auto simp: web_step_def)
qed

lemma web_end:
  assumes inv: "web_inv s"
  shows "web_inv (web_step (AskEnd n) s)"
proof (cases "\<exists>ans. ws_asks s n = Some (Decided ans)")
  case True
  then obtain ans where ans: "ws_asks s n = Some (Decided ans)" by blast
  let ?s = "s\<lparr>ws_wi := unpark n (ws_wi s), ws_asks := (ws_asks s)(n \<mapsto> Returned ans)\<rparr>"
  have "web_inv ?s"
  proof (rule web_invI)
    show "k \<le> wi_seq (ws_wi ?s)" if "ws_asks ?s k \<noteq> None" for k
      using that ans web_invD(1) [OF inv, of k] by (auto simp: unpark_def split: if_splits)
    show "parked_ok ?s qid pq" if "wi_pending (ws_wi ?s) qid = Some pq" for qid pq
    proof -
      have "wi_pending (ws_wi s) qid = Some pq" "qid \<noteq> qid_of n" using that by (auto simp: unpark_def split: if_splits)
      with web_invD(2) [OF inv this(1)] show ?thesis by (auto simp: parked_ok_def unpark_def)
    qed
    show "distinct (map fst (ws_accepted ?s))" using web_invD(3) [OF inv] by simp
    show "grounded ?s k" for k
      using web_invD(4) [OF inv, of k] ans by (auto simp: grounded_def unpark_def split: option.splits ask_state.splits)
    show "\<exists>k. qid = qid_of k \<and> settled ?s k a" if "(qid, a) \<in> set (ws_accepted ?s)" for qid a
    proof -
      have "(qid, a) \<in> set (ws_accepted s)" using that by simp
      then obtain k where "qid = qid_of k" "settled s k a" using accepted_number [OF inv] by blast
      then show ?thesis
        using ans by (intro exI [of _ k]) (auto simp: settled_def unpark_def split: option.splits ask_state.splits)
    qed
  qed
  with ans show ?thesis by (simp add: web_step_def)
next
  case False
  with inv show ?thesis by (auto simp: web_step_def split: option.splits ask_state.splits)
qed

lemma web_post:
  assumes inv: "web_inv s"
  shows "web_inv (web_step (PostAnswer qid v) s)"
proof (cases "wi_pending (ws_wi s) qid")
  case None
  with inv show ?thesis by (simp add: web_step_def Answer_def)
next
  case (Some pq)
  let ?n = "pq_chan pq" and ?a = "posted_answer v"
  note ok = web_invD(2) [OF inv Some]
  then have n: "qid = qid_of ?n" "wi_chans (ws_wi s) ?n = Some None" "qid \<notin> fst ` set (ws_accepted s)"
      "ws_asks s ?n \<in> {Some Waiting, Some (Decided timed_out)}"
    unfolding parked_ok_def by blast+
  let ?wi = "(ws_wi s)\<lparr>wi_chans := (wi_chans (ws_wi s))(?n \<mapsto> Some ?a), wi_pending := (wi_pending (ws_wi s))(qid := None)\<rparr>"
  let ?s = "s\<lparr>ws_wi := ?wi, ws_accepted := ws_accepted s @ [(qid, ?a)]\<rparr>"
  have "web_inv ?s"
  proof (rule web_invI)
    show "k \<le> wi_seq (ws_wi ?s)" if "ws_asks ?s k \<noteq> None" for k using that web_invD(1) [OF inv, of k] by simp
    show "parked_ok ?s qid' pq'" if "wi_pending (ws_wi ?s) qid' = Some pq'" for qid' pq'
    proof -
      have "wi_pending (ws_wi s) qid' = Some pq'" "qid' \<noteq> qid" using that by (auto split: if_splits)
      with web_invD(2) [OF inv this(1)] n(1) show ?thesis by (auto simp: parked_ok_def)
    qed
    show "distinct (map fst (ws_accepted ?s))" using web_invD(3) [OF inv] n(3) by simp
    show "grounded ?s k" for k
      using web_invD(4) [OF inv, of k] n(1,4) by (auto simp: grounded_def split: option.splits ask_state.splits)
    show "\<exists>k. q = qid_of k \<and> settled ?s k a" if "(q, a) \<in> set (ws_accepted ?s)" for q a
    proof (cases "q = qid")
      case True
      with that n(3) have "a = ?a" by force
      then show ?thesis using True n by (intro exI [of _ ?n]) (auto simp: settled_def)
    next
      case False
      with that have "(q, a) \<in> set (ws_accepted s)" by auto
      then obtain k where "q = qid_of k" "settled s k a" using accepted_number [OF inv] by blast
      moreover from this False n(1) have "k \<noteq> ?n" by auto
      ultimately show ?thesis
        by (intro exI [of _ k]) (auto simp: settled_def split: option.splits ask_state.splits)
    qed
  qed
  with Some n(2) show ?thesis by (simp add: web_step_def Answer_def)
qed

lemma web_cancel: "web_inv s \<Longrightarrow> web_inv (web_step CancelRun s)"
proof (rule web_invI)
  assume inv: "web_inv s"
  let ?s = "web_step CancelRun s"
  show "n \<le> wi_seq (ws_wi ?s)" if "ws_asks ?s n \<noteq> None" for n using that web_invD(1) [OF inv, of n] by (simp add: web_step_def Cancel_def)
  show "parked_ok ?s qid pq" if "wi_pending (ws_wi ?s) qid = Some pq" for qid pq
    using that web_invD(2) [OF inv, of qid pq] by (auto simp: parked_ok_def web_step_def Cancel_def)
  show "distinct (map fst (ws_accepted ?s))" using web_invD(3) [OF inv] by (simp add: web_step_def)
  show "grounded ?s n" for n
    using web_invD(4) [OF inv, of n] by (simp add: grounded_def web_step_def Cancel_def split: option.splits ask_state.splits)
  show "\<exists>n. qid = qid_of n \<and> settled ?s n a" if "(qid, a) \<in> set (ws_accepted ?s)" for qid a
  proof -
    have "(qid, a) \<in> set (ws_accepted s)" using that by (simp add: web_step_def)
    moreover have "settled s n a \<Longrightarrow> settled ?s n a" for n
      by (auto simp: settled_def web_step_def Cancel_def split: option.splits ask_state.splits)
    ultimately show ?thesis using accepted_number [OF inv] by blast
  qed
qed

lemma web_inv_run: "web_inv s \<Longrightarrow> web_inv (fold web_step acts s)"
proof (induction acts arbitrary: s)
  case (Cons act acts)
  have "web_inv (web_step act s)"
    using web_begin web_select web_end web_post web_cancel Cons.prems by (cases act) blast+
  with Cons.IH show ?case by simp
qed simp

section \<open>Properties\<close>

lemma web_inv_start: "web_inv web_start"
  by (simp add: web_inv_def web_start_def NewWebInterviewer_def grounded_def)

text \<open>
  C23: whatever the order of questions, answers, timeouts and cancellations, a call of Ask returns a
  timeout or an answer that was posted for its own question, no question takes two answers, and an
  answer that was taken is returned unless the call had already timed out.
\<close>

theorem web_answers_own_question:
  "distinct (map fst (ws_accepted (web_run acts))) \<and>
   (\<forall>n ans. ws_asks (web_run acts) n = Some (Returned ans) \<longrightarrow>
      ans = timed_out \<or> (qid_of n, ans) \<in> set (ws_accepted (web_run acts))) \<and>
   (\<forall>n ans ans'. (qid_of n, ans) \<in> set (ws_accepted (web_run acts)) \<longrightarrow>
      ws_asks (web_run acts) n = Some (Returned ans') \<longrightarrow> ans' \<in> {ans, timed_out})"
proof -
  let ?s = "web_run acts"
  have inv: "web_inv ?s" unfolding web_run_def by (rule web_inv_run [OF web_inv_start])
  have "ans = timed_out \<or> (qid_of n, ans) \<in> set (ws_accepted ?s)" if "ws_asks ?s n = Some (Returned ans)" for n ans
    using web_invD(4) [OF inv, of n] that by (simp add: grounded_def)
  moreover have "ans' \<in> {ans, timed_out}"
    if "(qid_of n, ans) \<in> set (ws_accepted ?s)" "ws_asks ?s n = Some (Returned ans')" for n ans ans'
    using web_invD(5) [OF inv that(1)] that(2) by (auto simp: settled_def)
  ultimately show ?thesis using web_invD(3) [OF inv] by blast
qed

definition demo_question :: question where
  "demo_question = \<lparr>q_text = ''Ship it?'', q_options = [], q_stage = ''gate''\<rparr>"

theorem web_answers_own_question_witness:
  "ws_asks (web_run [AskBegin demo_question, PostAnswer ''q-1'' ''Y'', AskSelect 1 ByAnswer, AskEnd 1]) 1 = Some (Returned (posted_answer ''Y'')) \<and>
   (qid_of 1, posted_answer ''Y'') \<in> set (ws_accepted (web_run [AskBegin demo_question, PostAnswer ''q-1'' ''Y'', AskSelect 1 ByAnswer, AskEnd 1]))"
proof -
  let ?acts = "[AskBegin demo_question, PostAnswer ''q-1'' ''Y'', AskSelect 1 ByAnswer, AskEnd 1]"
  have "qid_of 1 = ''q-1''" by code_simp
  then have "ws_asks (web_run ?acts) 1 = Some (Returned (posted_answer ''Y''))"
    by (simp add: web_run_def web_start_def web_step_def park_def Let_def NewWebInterviewer_def select_wake_def Answer_def)
  moreover have "posted_answer ''Y'' \<noteq> timed_out" by (simp add: posted_answer_def timed_out_def no_answer_def)
  ultimately show ?thesis using web_answers_own_question [of ?acts] by blast
qed

text \<open>The client is told that its answer was taken although the call of Ask has already timed out.\<close>

lemma taken_answer_lost:
  "ws_accepted (web_run [AskBegin q, AskSelect 1 ByTimer, PostAnswer ''q-1'' ''Y'', AskEnd 1]) = [(''q-1'', posted_answer ''Y'')] \<and>
   ws_asks (web_run [AskBegin q, AskSelect 1 ByTimer, PostAnswer ''q-1'' ''Y'', AskEnd 1]) 1 = Some (Returned timed_out)"
proof -
  have "qid_of 1 = ''q-1''" by code_simp
  then show ?thesis
    by (simp add: web_run_def web_start_def web_step_def park_def Let_def NewWebInterviewer_def select_wake_def Answer_def)
qed

lemma prefix_match_None: "prefix_match i r js (Some p) = (if \<exists>j \<in> set js. r j \<noteq> None \<and> has_prefix i j then None else Some p)"
  by (induction js) auto

lemma prefix_match_exact:
  assumes "distinct js"
  shows "prefix_match i r js None = (case filter (\<lambda>j. r j \<noteq> None \<and> has_prefix i j) js of [j] \<Rightarrow> r j | _ \<Rightarrow> None)"
  using assms
proof (induction js)
  case Nil
  then show ?case by simp
next
  case (Cons j js)
  show ?case
  proof (cases "r j \<noteq> None \<and> has_prefix i j")
    case True
    then obtain p where p: "r j = Some p" by auto
    show ?thesis
      using True p by (auto simp: prefix_match_None filter_empty_conv split: list.splits)
  next
    case False
    then show ?thesis using Cons by auto
  qed
qed

text \<open>
  a run is found by its exact id, or by a prefix that no other registered run has, in whatever
  order the registry is searched.
\<close>

theorem registry_lookup_unique:
  assumes "distinct order" and "set order = dom r"
  shows "Get order i r = Some p \<longleftrightarrow>
    r i = Some p \<or> r i = None \<and> (\<exists>j. r j = Some p \<and> has_prefix i j \<and> (\<forall>k \<in> dom r. has_prefix i k \<longrightarrow> k = j))"
proof (cases "r i")
  case (Some q)
  then show ?thesis by (simp add: Get_def)
next
  case None
  let ?js = "filter (\<lambda>j. r j \<noteq> None \<and> has_prefix i j) order"
  have set: "set ?js = {j \<in> dom r. has_prefix i j}" using assms(2) by auto
  have dist: "distinct ?js" using assms(1) by simp
  have one: "(\<exists>j. js = [j] \<and> r j = Some p) \<longleftrightarrow> (\<exists>j. set js = {j} \<and> r j = Some p)" if "distinct js" for js
  proof -
    have "js = [j]" if j: "set js = {j}" for j
    proof -
      have "length js = 1" using \<open>distinct js\<close> j distinct_card [of js] by simp
      then show ?thesis using j by (cases js) auto
    qed
    then show ?thesis by auto
  qed
  have "prefix_match i r order None = (case ?js of [j] \<Rightarrow> r j | _ \<Rightarrow> None)"
    by (rule prefix_match_exact [OF assms(1)])
  then have "prefix_match i r order None = Some p \<longleftrightarrow> (\<exists>j. ?js = [j] \<and> r j = Some p)"
    by (cases ?js rule: remdups_adj.cases) (simp_all del: filter.simps)
  also note one [OF dist]
  finally have sel: "prefix_match i r order None = Some p \<longleftrightarrow> (\<exists>j. set ?js = {j} \<and> r j = Some p)" .
  have "(set ?js = {j} \<and> r j = Some p) \<longleftrightarrow>
      r j = Some p \<and> has_prefix i j \<and> (\<forall>k \<in> dom r. has_prefix i k \<longrightarrow> k = j)" for j
  proof -
    have "set ?js = {j} \<longleftrightarrow> j \<in> set ?js \<and> (\<forall>k \<in> set ?js. k = j)" by blast
    then show ?thesis unfolding set by auto
  qed
  with sel None show ?thesis by (simp add: Get_def)
qed

theorem registry_lookup_unique_witness:
  "Get [''01-b'', ''01-a'', ''02''] ''02'' [''01-a'' \<mapsto> (1 :: int), ''01-b'' \<mapsto> 2, ''02'' \<mapsto> 3] = Some 3 \<and>
   (Get [''01-b'', ''01-a'', ''02''] ''0'' [''01-a'' \<mapsto> (1 :: int), ''01-b'' \<mapsto> 2, ''02'' \<mapsto> 3] = Some 3 \<longleftrightarrow> False)"
proof -
  let ?r = "[''01-a'' \<mapsto> (1 :: int), ''01-b'' \<mapsto> 2, ''02'' \<mapsto> 3]"
  have "distinct [''01-b'', ''01-a'', ''02'']" "set [''01-b'', ''01-a'', ''02''] = dom ?r" by auto
  from registry_lookup_unique [OF this, of "''02''" 3] registry_lookup_unique [OF this, of "''0''" 3]
  show ?thesis by auto
qed

end
