(* ===== verification/Handlers.thy ===== *)
theory Handlers
  imports RunLoop OutcomeJson
begin

text \<open>
  Handlers of \<^verbatim>\<open>internal/attractor/engine/handlers.go\<close> that the engine brings along: the nodes that
  only pass the run on, the conditional node, and the end of an agent stage, where the status that the
  agent left in a file is taken over.  The backend that runs the agent, the file system and the
  texts of errors are answers of an environment; prompts and progress events are left out.
\<close>

section \<open>Nodes that pass the run on\<close>

definition marker_outcome :: "string \<Rightarrow> outcome" where
  "marker_outcome nts = zero_outcome\<lparr>Status := StatusSuccess, Notes := nts\<rparr>"

definition ConditionalHandler :: "run_context \<Rightarrow> outcome" where
  "ConditionalHandler ctx =
     (let prevStatus = (case ParseStageStatus (ctx_GetString ctx ''outcome'' '''') of
            Inr st \<Rightarrow> if st \<noteq> '''' then st else StatusSuccess
          | Inl err \<Rightarrow> StatusSuccess);
          cls = trim_space (ctx_GetString ctx ''failure_class'' '''')
      in zero_outcome\<lparr>Status := prevStatus, PreferredLabel := ctx_GetString ctx ''preferred_label'' '''',
           FailureReason := ctx_GetString ctx ''failure_reason'' '''', Notes := ''conditional pass-through'',
           ContextUpdates := (if cls \<noteq> '''' \<and> cls \<noteq> ''<nil>'' then Some [''failure_class'' \<mapsto> VStr cls] else None)\<rparr>)"

section \<open>The status an agent leaves in a file\<close>

datatype status_source = SourceNone | SourceCanonical | SourceWorktree | SourceDotAI

fun source_name :: "status_source \<Rightarrow> string" where
  "source_name SourceNone = ''''"
| "source_name SourceCanonical = ''canonical''"
| "source_name SourceWorktree = ''worktree''"
| "source_name SourceDotAI = ''dot_ai''"

datatype fallback_mode = ModeNone | ModeMissing | ModeUnreadable | ModeCorrupt | ModeInvalidPayload

text \<open>Reading a file: absent, an error (whether it is an unexpected end, and its text), or a document.\<close>

datatype read_result = ReadMissing string | ReadError bool string | ReadDoc "json option"

definition fallbackStatusDecodeMaxAttempts :: nat where "fallbackStatusDecodeMaxAttempts = 3"

definition classifyFallbackDecodeError :: "decode_error \<Rightarrow> fallback_mode" where
  "classifyFallbackDecodeError err = (if err = SyntaxError then ModeCorrupt else ModeInvalidPayload)"

fun read_and_decode ::
  "(decode_error \<Rightarrow> string) \<Rightarrow> (nat \<Rightarrow> read_result) \<Rightarrow> nat \<Rightarrow> nat \<Rightarrow> (fallback_mode \<times> string) + json option" where
  "read_and_decode err_text rd attempt 0 = Inl (ModeMissing, '''')"
| "read_and_decode err_text rd attempt (Suc left) = (case rd attempt of
      ReadMissing err \<Rightarrow> Inl (ModeMissing, err)
    | ReadError eof err \<Rightarrow>
        if left > 0 \<and> eof then read_and_decode err_text rd (attempt + 1) left else Inl (ModeUnreadable, err)
    | ReadDoc doc \<Rightarrow> (case DecodeOutcomeJSON doc of
        Inr out \<Rightarrow> Inr doc
      | Inl err \<Rightarrow>
          if left > 0 \<and> classifyFallbackDecodeError err = ModeCorrupt then read_and_decode err_text rd (attempt + 1) left
          else Inl (classifyFallbackDecodeError err, err_text err)))"

definition readAndDecodeFallbackStatusWithRetry ::
  "(decode_error \<Rightarrow> string) \<Rightarrow> (nat \<Rightarrow> read_result) \<Rightarrow> (fallback_mode \<times> string) + json option" where
  "readAndDecodeFallbackStatusWithRetry err_text rd = read_and_decode err_text rd 1 fallbackStatusDecodeMaxAttempts"

definition formatFallbackStatusIssue :: "string \<times> status_source \<Rightarrow> fallback_mode \<times> string \<Rightarrow> string" where
  "formatFallbackStatusIssue fb issue =
     (let (path, source) = fb; (mode, err) = issue; head = ''fallback['' @ source_name source @ '']'';
          tail = '': '' @ path in
      case mode of
        ModeMissing \<Rightarrow> head @ '' missing status artifact'' @ tail
      | ModeUnreadable \<Rightarrow> head @ '' unreadable status artifact'' @ tail @ '' ('' @ err @ '')''
      | ModeCorrupt \<Rightarrow> head @ '' corrupt status artifact'' @ tail @ '' ('' @ err @ '')''
      | ModeInvalidPayload \<Rightarrow> head @ '' invalid status payload'' @ tail @ '' ('' @ err @ '')''
      | ModeNone \<Rightarrow> head @ '' status ingestion error'' @ tail @ '' ('' @ err @ '')'')"

record agent_env =
  ag_prompt_error :: "string option"
  ag_written :: "json option option"
  ag_fallbacks :: "(string \<times> status_source) list"
  ag_reads :: "string \<Rightarrow> nat \<Rightarrow> read_result"
  ag_decode_text :: "decode_error \<Rightarrow> string"
  ag_write_error :: "string option"

text \<open>The source, the diagnostic, an error of the copy, and the status.json of the stage afterwards.\<close>

record ingestion =
  in_source :: status_source
  in_diagnostic :: string
  in_error :: "string option"
  in_status :: "json option option"

fun copy_first :: "agent_env \<Rightarrow> (string \<times> status_source) list \<Rightarrow> string list \<Rightarrow> ingestion" where
  "copy_first ag [] issues = \<lparr>in_source = SourceNone, in_diagnostic = join_with ''; '' issues, in_error = None, in_status = None\<rparr>"
| "copy_first ag (fb # fbs) issues =
     (case readAndDecodeFallbackStatusWithRetry (ag_decode_text ag) (ag_reads ag (fst fb)) of
        Inl issue \<Rightarrow> copy_first ag fbs (issues @ [formatFallbackStatusIssue fb issue])
      | Inr doc \<Rightarrow> (case ag_write_error ag of
          Some err \<Rightarrow> \<lparr>in_source = SourceNone, in_diagnostic = join_with ''; '' issues, in_error = Some err, in_status = None\<rparr>
        | None \<Rightarrow> \<lparr>in_source = snd fb, in_diagnostic = '''', in_error = None, in_status = Some doc\<rparr>))"

definition CopyFirstValidFallbackStatus :: "agent_env \<Rightarrow> ingestion" where
  "CopyFirstValidFallbackStatus ag = (if ag_written ag \<noteq> None
     then \<lparr>in_source = SourceCanonical, in_diagnostic = '''', in_error = None, in_status = ag_written ag\<rparr>
     else copy_first ag (ag_fallbacks ag) [])"

section \<open>The end of an agent stage\<close>

text \<open>
  An error of the backend: an aborted call of a provider, a typed error with its provider, whether it may
  be retried and its HTTP status, or any other; each with its text.
\<close>

datatype api_error = ApiAbort string string | ApiTyped string bool int string | ApiOther string

fun api_text :: "api_error \<Rightarrow> string" where
  "api_text (ApiAbort provider err) = err"
| "api_text (ApiTyped provider retryable code err) = err"
| "api_text (ApiOther err) = err"

definition provider_or_api :: "string \<Rightarrow> string" where
  "provider_or_api provider = (let p = trim_space provider in if p = '''' then ''api'' else p)"

definition retryable_detail :: "int \<Rightarrow> string" where
  "retryable_detail code = (if code = 429 then ''rate_limited'' else if code = 408 then ''timeout''
     else if code \<in> {500, 502, 503, 504} then ''server_error'' else ''transient'')"

definition final_detail :: "int \<Rightarrow> string" where
  "final_detail code = (if code \<in> {400, 422} then ''invalid_request'' else if code = 401 then ''authentication''
     else if code = 403 then ''access_denied'' else if code = 404 then ''not_found''
     else if code = 413 then ''context_length'' else ''deterministic'')"

fun ClassifyAPIError :: "api_error \<Rightarrow> failure_class \<times> string" where
  "ClassifyAPIError (ApiAbort provider err) = (failureClassCanceled, ''api_canceled|'' @ provider_or_api provider @ ''|abort'')"
| "ClassifyAPIError (ApiTyped provider retryable code err) =
     (if retryable then (failureClassTransientInfra, ''api_transient|'' @ provider_or_api provider @ ''|'' @ retryable_detail code)
      else (failureClassDeterministic, ''api_deterministic|'' @ provider_or_api provider @ ''|'' @ final_detail code))"
| "ClassifyAPIError (ApiOther err) =
     (let reason = to_lower (trim_space err) in
      if contains_sub ''repeated failing tool calls detected'' reason then (failureClassDeterministic, ''repeated_tool_failure_loop'')
      else if contains_sub ''repeated malformed tool calls detected'' reason then
        (failureClassDeterministic, ''repeated_malformed_tool_loop'')
      else if \<exists>hint \<in> set transientInfraReasonHints. contains_sub hint reason then
        (failureClassTransientInfra, ''api_transient|api|heuristic'')
      else (failureClassDeterministic, ''api_deterministic|api|unknown''))"

text \<open>What the backend returns: an error, or the response with an outcome, if it gives one.\<close>

datatype backend_reply = BackendError api_error | BackendReply string "outcome option"

definition Truncate :: "string \<Rightarrow> nat \<Rightarrow> string" where
  "Truncate s n = (if n = 0 then s else take n s)"

definition stage_updates :: "node \<Rightarrow> string \<Rightarrow> (string \<rightharpoonup> goval)" where
  "stage_updates n resp = [''last_stage'' \<mapsto> VStr (node_id n), ''last_response'' \<mapsto> VStr (Truncate resp 200)]"

definition backend_failure :: "api_error \<Rightarrow> outcome" where
  "backend_failure err = (case ClassifyAPIError err of (fc, sig) \<Rightarrow> zero_outcome\<lparr>
     Status := (if fc = failureClassTransientInfra then StatusRetry else StatusFail), FailureReason := api_text err,
     Meta := Some [''failure_class'' \<mapsto> VStr fc, ''failure_signature'' \<mapsto> VStr sig],
     ContextUpdates := Some [''failure_class'' \<mapsto> VStr fc]\<rparr>)"

text \<open>After the status has been taken over: the outcome of the backend, of the file, or of its absence.\<close>

definition agent_outcome :: "node \<Rightarrow> string \<Rightarrow> outcome option \<Rightarrow> ingestion \<Rightarrow> outcome" where
  "agent_outcome n resp reply ing = (case reply of
      Some out \<Rightarrow> out\<lparr>ContextUpdates := Some (stage_updates n resp ++ map_of_nil (ContextUpdates out))\<rparr>
    | None \<Rightarrow>
        if in_status ing \<noteq> None then zero_outcome\<lparr>Status := StatusSuccess,
          Notes := ''agent completed (status.json written)'', ContextUpdates := Some (stage_updates n resp)\<rparr>
        else if equal_fold (node_Attr (Some n) ''auto_status'' ''false'') ''true'' then zero_outcome\<lparr>Status := StatusSuccess,
          Notes := ''auto-status: handler completed without writing status'', ContextUpdates := Some (stage_updates n resp)\<rparr>
        else zero_outcome\<lparr>Status := StatusFail,
          FailureReason := (if trim_space (in_diagnostic ing) = '''' then ''missing status.json (auto_status=false)''
            else ''missing status.json (auto_status=false); '' @ trim_space (in_diagnostic ing)),
          Notes := ''agent completed without an outcome or status.json'', ContextUpdates := Some (stage_updates n resp)\<rparr>)"

text \<open>The handler: its result, and the status.json of the stage directory when it returns.\<close>

definition CodergenHandler :: "agent_env \<Rightarrow> node \<Rightarrow> backend_reply \<Rightarrow> handler_result \<times> json option option" where
  "CodergenHandler ag n reply = (case ag_prompt_error ag of
      Some err \<Rightarrow> (Returned (fail_outcome err) (Some err), None)
    | None \<Rightarrow> (case reply of
        BackendError err \<Rightarrow> (Returned (backend_failure err) None, ag_written ag)
      | BackendReply resp out \<Rightarrow>
          (let ing = (if ag_fallbacks ag \<noteq> [] then CopyFirstValidFallbackStatus ag
                 else \<lparr>in_source = SourceNone, in_diagnostic = '''', in_error = None, in_status = ag_written ag\<rparr>)
           in case in_error ing of
             Some err \<Rightarrow> (Returned (fail_outcome (if trim_space (in_diagnostic ing) = '''' then err
                 else err @ ''; '' @ trim_space (in_diagnostic ing))) None, None)
           | None \<Rightarrow> (Returned (agent_outcome n resp out ing) None, in_status ing))))"

text \<open>What executeNode reads: a status.json that does not decode is ignored.\<close>

definition agent_run :: "agent_env \<Rightarrow> node \<Rightarrow> backend_reply \<Rightarrow> node_run" where
  "agent_run ag n reply = (case CodergenHandler ag n reply of (res, file) \<Rightarrow>
     \<lparr>nr_mkdir_error = None, nr_input_failure = None, nr_handler = res,
      nr_status_json = (case file of None \<Rightarrow> None
        | Some doc \<Rightarrow> (case DecodeOutcomeJSON doc of Inl err \<Rightarrow> None | Inr out \<Rightarrow> Some out)),
      nr_ctx = Live, nr_timeout_seconds = None, nr_partial = None, nr_lineage_error = None\<rparr>)"

section \<open>The conditional node is transparent\<close>

definition conditional_run :: "run_context \<Rightarrow> node_run" where
  "conditional_run ctx = \<lparr>nr_mkdir_error = None, nr_input_failure = None, nr_handler = Returned (ConditionalHandler ctx) None,
     nr_status_json = None, nr_ctx = Live, nr_timeout_seconds = None, nr_partial = None, nr_lineage_error = None\<rparr>"

text \<open>The keys of the context that describe the last stage.\<close>

definition carries :: "run_context \<Rightarrow> outcome \<Rightarrow> bool" where
  "carries ctx out \<longleftrightarrow> ctx_Get ctx ''outcome'' = Some (VStr (Status out)) \<and>
     ctx_Get ctx ''preferred_label'' = Some (VStr (PreferredLabel out)) \<and>
     ctx_Get ctx ''failure_reason'' = Some (VStr (FailureReason out)) \<and>
     ctx_Get ctx ''failure_class'' = Some (VStr (classifyFailureClass out))"

lemma ctx_Get_fold_other:
  "key \<notin> fst ` set kvs \<Longrightarrow> ctx_Get (fold (\<lambda>(k, v) c. ctx_Set c k v) kvs c) key = ctx_Get c key"
  by (induction kvs arbitrary: c) auto

lemma dossier_keys_other: "key \<notin> set dossier_keys \<Longrightarrow> key \<notin> fst ` set (zip dossier_keys vals)"
  using set_zip_leftD by fastforce

lemma record_stage_carries: "carries (r_context (record_stage ev n out st)) out"
proof -
  have keys: "''outcome'' \<notin> set dossier_keys" "''preferred_label'' \<notin> set dossier_keys"
      "''failure_reason'' \<notin> set dossier_keys" "''failure_class'' \<notin> set dossier_keys"
    by (simp_all add: dossier_keys_def)
  note kept = keys [THEN dossier_keys_other, THEN ctx_Get_fold_other]
  show ?thesis unfolding carries_def record_stage_def Let_def by (simp add: kept)
qed

lemma prepare_context_carries: "carries (r_context st) out \<Longrightarrow> carries (prepare_context st) out"
  by (simp add: carries_def prepare_context_def Let_def)

lemma ConditionalHandler_carries:
  assumes "carries ctx prev" "canonical_status (Status prev)"
  shows "ConditionalHandler ctx = zero_outcome\<lparr>Status := Status prev, PreferredLabel := PreferredLabel prev,
    FailureReason := FailureReason prev, Notes := ''conditional pass-through'',
    ContextUpdates := (let cls = trim_space (classifyFailureClass prev) in
      if cls \<noteq> '''' \<and> cls \<noteq> ''<nil>'' then Some [''failure_class'' \<mapsto> VStr cls] else None)\<rparr>"
proof -
  have "ctx_GetString ctx ''outcome'' '''' = Status prev" "ctx_GetString ctx ''preferred_label'' '''' = PreferredLabel prev"
    "ctx_GetString ctx ''failure_reason'' '''' = FailureReason prev"
    "ctx_GetString ctx ''failure_class'' '''' = classifyFailureClass prev"
    using assms(1) by (simp_all add: carries_def ctx_GetString_def)
  moreover have "Status prev \<noteq> ''''"
    using assms(2) by (auto simp: canonical_status_def ParseStageStatus_def trim_space_eq_Nil status_defs)
  ultimately show ?thesis using assms(2) by (simp add: ConditionalHandler_def canonical_status_def Let_def)
qed

lemma class_names: "cls \<in> set failure_classes \<Longrightarrow>
    trim_space cls = cls \<and> cls \<noteq> '''' \<and> cls \<noteq> ''<nil>'' \<and> normalizedFailureClass cls = cls"
proof -
  have "list_all (\<lambda>cls. trim_space cls = cls \<and> cls \<noteq> '''' \<and> cls \<noteq> ''<nil>'' \<and> normalizedFailureClass cls = cls) failure_classes"
    by code_simp
  then show "cls \<in> set failure_classes \<Longrightarrow> ?thesis" by (simp add: list_all_iff)
qed

lemma class_kept:
  assumes "Status out = Status prev" "map_of_nil (Meta out) = Map.empty"
    and "map_of_nil (ContextUpdates out) = (let cls = trim_space (classifyFailureClass prev) in
      if cls \<noteq> '''' \<and> cls \<noteq> ''<nil>'' then [''failure_class'' \<mapsto> VStr cls] else Map.empty)"
  shows "classifyFailureClass out = classifyFailureClass prev"
proof (cases "is_failing (Status prev)")
  case False
  with assms(1) show ?thesis by (simp add: classifyFailureClass_def failing_iff)
next
  case True
  let ?cls = "classifyFailureClass prev"
  have "isFailureLoopRestartOutcome prev" using True by (simp add: failing_iff)
  note cls = class_names [OF classify_in [OF this]]
  then have "readFailureClassHint out = ?cls"
    using assms(2,3) by (simp add: readFailureClassHint_def read_hint_def hint_of_def map_of_nil_def)
  with cls True assms(1) show ?thesis by (simp add: classifyFailureClass_def [of out] failing_iff)
qed

text \<open>The outcome of the engine for a conditional node.\<close>

lemma conditional_outcome:
  assumes "carries ctx prev" "sound_outcome prev"
  shows "Status (fst (executeNode (conditional_run ctx) pj)) = Status prev \<and>
    PreferredLabel (fst (executeNode (conditional_run ctx) pj)) = PreferredLabel prev \<and>
    FailureReason (fst (executeNode (conditional_run ctx) pj)) = FailureReason prev \<and>
    classifyFailureClass (fst (executeNode (conditional_run ctx) pj)) = classifyFailureClass prev"
proof -
  have canon: "canonical_status (Status prev)" using assms(2) by (simp add: sound_outcome_def)
  note cond = ConditionalHandler_carries [OF assms(1) canon]
  let ?o = "fst (executeNode (conditional_run ctx) pj)"
  have out: "Status ?o = Status prev" "PreferredLabel ?o = PreferredLabel prev" "FailureReason ?o = FailureReason prev"
    "map_of_nil (Meta ?o) = Map.empty" "map_of_nil (ContextUpdates ?o) = (let cls = trim_space (classifyFailureClass prev) in
      if cls \<noteq> '''' \<and> cls \<noteq> ''<nil>'' then [''failure_class'' \<mapsto> VStr cls] else Map.empty)"
    using canon assms(2)
    by (auto simp: executeNode_def conditional_run_def handler_outcome_def cond Canonicalize_canonical
        finish_outcome_def Validate_canonical sound_outcome_def zero_outcome_def map_of_nil_def Let_def)
  from out(1-3) class_kept [OF out(1,4,5)] show ?thesis by blast
qed

text \<open>
  C16: a conditional node hands on the outcome of the stage before it: the same status, label,
  reason and class of failure reach the choice of the next edge and stay in the context.
\<close>

theorem conditional_transparent:
  assumes "Resolve (rc_registered cfg) (Some n) = Some ''conditional''"
    and "carries (r_context st) prev" and "sound_outcome prev"
    and "ae_handler (se_attempts ev 1) n (r_context st) = (conditional_run (r_context st), r_context st)"
    and "run_stage cfg ev n st = (out, st')"
  shows "Status out = Status prev \<and> PreferredLabel out = PreferredLabel prev \<and> FailureReason out = FailureReason prev \<and>
    classifyFailureClass out = classifyFailureClass prev \<and> carries (r_context (record_stage ev n out st')) prev"
proof -
  have "out = fst (executeNode (conditional_run (r_context st)) (se_prior_json ev))"
    using assms(1,4,5)
    by (auto simp: run_stage_def executeWithRetry_def SkipRetry_def run_attempt_def Let_def split: prod.splits)
  with conditional_outcome [OF assms(2,3), of "se_prior_json ev"]
  have same: "Status out = Status prev" "PreferredLabel out = PreferredLabel prev" "FailureReason out = FailureReason prev"
    "classifyFailureClass out = classifyFailureClass prev" by auto
  moreover have "carries (r_context (record_stage ev n out st')) prev"
    using record_stage_carries [of ev n out st'] same by (simp add: carries_def)
  ultimately show ?thesis by blast
qed

text \<open>A failed stage in front of a conditional node.\<close>

definition failed_tests :: outcome where
  "failed_tests = zero_outcome\<lparr>Status := StatusFail, PreferredLabel := ''fix'', FailureReason := ''tests failed''\<rparr>"

definition cond_node :: node where
  "cond_node = (NewNode ''check'')\<lparr>node_attrs := [''shape'' \<mapsto> ''diamond'']\<rparr>"

definition cond_cfg :: run_cfg where
  "cond_cfg = \<lparr>rc_run_graph = add_nodes [cond_node] (NewGraph ''g''), rc_registered = core_types,
     rc_base_logs_root = ''logs'', rc_base_sha = ''0''\<rparr>"

definition cond_env :: step_env where
  "cond_env = \<lparr>se_cancel = None,
     se_attempts = (\<lambda>_. \<lparr>ae_handler = (\<lambda>n ctx. (conditional_run ctx, ctx)), ae_cancel = None, ae_files = (\<lambda>_. True), ae_sleep = None\<rparr>),
     se_prior_json = None, se_exit_run = panicking_run, se_cancel_after = None, se_dossier = [],
     se_checkpoint_error = None, se_region = \<lparr>rg_completed = [], rg_retries = (\<lambda>_. 0),
       rg_outcomes = Map.empty, rg_context = NewContext, rg_error = None\<rparr>,
     se_branches = Inl ''no branches'', se_completed_error = None, se_restart_error = None,
     se_order = [''check''], se_files = (\<lambda>_. None)\<rparr>"

definition cond_state :: run_state where
  "cond_state = record_stage cond_env (NewNode ''test'') failed_tests (initial_state ''check'' NewContext)"

theorem conditional_transparent_witness:
  "FailureReason (fst (run_stage cond_cfg cond_env cond_node cond_state)) = ''tests failed'' \<and>
   classifyFailureClass (fst (run_stage cond_cfg cond_env cond_node cond_state)) = classifyFailureClass failed_tests"
proof -
  obtain out st' where run: "run_stage cond_cfg cond_env cond_node cond_state = (out, st')"
    by (cases "run_stage cond_cfg cond_env cond_node cond_state")
  have "Resolve (rc_registered cond_cfg) (Some cond_node) = Some ''conditional''" by code_simp
  moreover have "carries (r_context cond_state) failed_tests" by (simp add: cond_state_def record_stage_carries)
  moreover have "sound_outcome failed_tests" by (rule sound_failI) (simp add: failed_tests_def, code_simp)
  moreover have "ae_handler (se_attempts cond_env 1) cond_node (r_context cond_state) =
      (conditional_run (r_context cond_state), r_context cond_state)" by (simp add: cond_env_def)
  ultimately have "FailureReason out = FailureReason failed_tests \<and> classifyFailureClass out = classifyFailureClass failed_tests"
    using conditional_transparent [OF _ _ _ _ run] by blast
  with run show ?thesis by (simp add: failed_tests_def)
qed

section \<open>What decides an agent stage\<close>

lemma read_decodes: "read_and_decode t rd attempt left = Inr doc \<Longrightarrow> \<exists>out. DecodeOutcomeJSON doc = Inr out"
  by (induction t rd attempt left rule: read_and_decode.induct) (auto split: read_result.splits sum.splits if_splits)

lemma canonical_outcome_status: "canonical_outcome o' = Inr out \<Longrightarrow> canonical_status (Status out)"
  by (auto simp: canonical_outcome_def split: sum.splits intro: Canonicalize_status)

lemma decoded_canonical: "DecodeOutcomeJSON doc = Inr out \<Longrightarrow> canonical_status (Status out)"
  by (auto simp: DecodeOutcomeJSON_def split: option.splits prod.splits if_splits intro: canonical_outcome_status)

text \<open>The documents of the fallback files that can be decoded, in the order of the files.\<close>

definition decodable :: "agent_env \<Rightarrow> (string \<times> status_source) list \<Rightarrow> json option list" where
  "decodable ag fbs = concat (map (\<lambda>fb. case readAndDecodeFallbackStatusWithRetry (ag_decode_text ag) (ag_reads ag (fst fb)) of
     Inl issue \<Rightarrow> [] | Inr doc \<Rightarrow> [doc]) fbs)"

lemma copy_first_decodable:
  assumes "ag_write_error ag = None"
  shows "in_error (copy_first ag fbs issues) = None \<and>
    in_status (copy_first ag fbs issues) = (case decodable ag fbs of [] \<Rightarrow> None | doc # _ \<Rightarrow> Some doc)"
  using assms by (induction ag fbs issues rule: copy_first.induct) (auto simp: decodable_def split: sum.splits)

lemma decodable_decodes: "doc \<in> set (decodable ag fbs) \<Longrightarrow> \<exists>out. DecodeOutcomeJSON doc = Inr out"
  by (auto simp: decodable_def readAndDecodeFallbackStatusWithRetry_def dest: read_decodes [OF sym] split: sum.splits)

lemma agent_run_simps [simp]:
  "nr_mkdir_error (agent_run ag n reply) = None" "nr_input_failure (agent_run ag n reply) = None"
  "nr_ctx (agent_run ag n reply) = Live" "nr_lineage_error (agent_run ag n reply) = None"
  by (simp_all add: agent_run_def split: prod.splits)

lemma executed_status:
  assumes "nr_mkdir_error nr = None" "nr_input_failure nr = None" "nr_lineage_error nr = None"
    and "canonical_status (Status (case nr_status_json nr of Some parsed \<Rightarrow> parsed | None \<Rightarrow> handler_outcome nr))"
  shows "Status (fst (executeNode nr pj)) = Status (case nr_status_json nr of Some parsed \<Rightarrow> parsed | None \<Rightarrow> handler_outcome nr)"
  using assms by (simp add: executeNode_def Canonicalize_canonical Let_def split: option.splits)


text \<open>The file of the worktree is cut short at the first read and whole at the second.\<close>

definition late_env :: agent_env where
  "late_env = \<lparr>ag_prompt_error = None, ag_written = None,
     ag_fallbacks = [(''wt/status.json'', SourceWorktree), (''ai/status.json'', SourceDotAI)],
     ag_reads = (\<lambda>path k. if path = ''wt/status.json'' then
         (if k = 1 then ReadDoc None else ReadDoc (Some (JObject [(''status'', JString ''partial-success'')])))
       else ReadMissing ''no such file''),
     ag_decode_text = (\<lambda>_. ''bad json''), ag_write_error = None\<rparr>"


text \<open>
  A status.json in the stage directory that cannot be decoded counts as a success of the stage, while a
  missing one is a failure.
\<close>

lemma corrupt_status_succeeds:
  "Status (fst (executeNode (agent_run (late_env\<lparr>ag_written := Some None\<rparr>) cond_node (BackendReply ''done'' None)) None)) = StatusSuccess"
  "Status (fst (executeNode (agent_run (late_env\<lparr>ag_fallbacks := []\<rparr>) cond_node (BackendReply ''done'' None)) None)) = StatusFail"
  by code_simp+

section \<open>Errors of the backend\<close>

lemma ClassifyAPIError_classes:
  "fst (ClassifyAPIError err) \<in> {failureClassCanceled, failureClassTransientInfra, failureClassDeterministic}"
  by (cases err) (simp_all add: Let_def)

lemma api_class_names:
  assumes "fc \<in> {failureClassCanceled, failureClassTransientInfra, failureClassDeterministic}"
  shows "trim_space fc = fc \<and> fc \<noteq> '''' \<and> fc \<noteq> ''<nil>'' \<and> normalizedFailureClass fc = fc"
    and "normalizedFailureClassOrDefault fc \<in> set retryableFailureClasses \<longleftrightarrow> fc = failureClassTransientInfra"
proof -
  show "trim_space fc = fc \<and> fc \<noteq> '''' \<and> fc \<noteq> ''<nil>'' \<and> normalizedFailureClass fc = fc"
    using assms by (intro class_names) (auto simp: failure_classes_def)
  have "list_all (\<lambda>fc. normalizedFailureClassOrDefault fc \<in> set retryableFailureClasses \<longleftrightarrow> fc = failureClassTransientInfra)
    [failureClassCanceled, failureClassTransientInfra, failureClassDeterministic]" by code_simp
  with assms show "normalizedFailureClassOrDefault fc \<in> set retryableFailureClasses \<longleftrightarrow> fc = failureClassTransientInfra"
    by (auto simp: list_all_iff)
qed

lemma backend_failure_fields:
  "Status (backend_failure err) = (if fst (ClassifyAPIError err) = failureClassTransientInfra then StatusRetry else StatusFail)"
  "map_of_nil (Meta (backend_failure err)) ''failure_class'' = Some (VStr (fst (ClassifyAPIError err)))"
  by (cases "ClassifyAPIError err"; simp add: backend_failure_def map_of_nil_def)+

text \<open>
  an error of the backend keeps its class through the engine, unless the agent has left a status in
  the stage directory: the stage is retried exactly when the error is transient.
\<close>

theorem api_error_class_kept:
  assumes "ag_prompt_error ag = None" and "ag_written ag = None"
    and "out = fst (executeNode (agent_run ag n (BackendError err)) pj)"
  shows "classifyFailureClass out = fst (ClassifyAPIError err) \<and>
    (shouldRetryOutcome out (classifyFailureClass out) \<longleftrightarrow> fst (ClassifyAPIError err) = failureClassTransientInfra)"
proof -
  let ?fc = "fst (ClassifyAPIError err)"
  note cls = api_class_names [OF ClassifyAPIError_classes [of err]]
  have nr: "nr_handler (agent_run ag n (BackendError err)) = Returned (backend_failure err) None"
    "nr_status_json (agent_run ag n (BackendError err)) = None"
    using assms(1,2) by (simp_all add: agent_run_def CodergenHandler_def)
  have status: "Status (backend_failure err) = (if ?fc = failureClassTransientInfra then StatusRetry else StatusFail)"
    by (rule backend_failure_fields)
  then have canon: "canonical_status (Status (backend_failure err))" by simp
  have "Status out = Status (backend_failure err)" "map_of_nil (Meta out) ''failure_class'' = Some (VStr ?fc)"
    using nr canon backend_failure_fields(2) [of err]
    by (auto simp: assms(3) executeNode_def handler_outcome_def Canonicalize_canonical finish_outcome_def map_of_nil_def
        Let_def split: option.splits)
  moreover from this have failing: "is_failing (Status out)" using status by (simp add: is_failing_def)
  ultimately have "classifyFailureClass out = ?fc"
    using cls(1) by (simp add: classifyFailureClass_def failing_iff readFailureClassHint_def read_hint_def hint_of_def Let_def)
  with failing cls(2) show ?thesis by (simp add: shouldRetryOutcome_def is_failing_def)
qed

theorem api_error_class_kept_witness:
  "classifyFailureClass (fst (executeNode (agent_run late_env cond_node (BackendError (ApiTyped ''openai'' True 529 ''overloaded''))) None)) =
     failureClassTransientInfra \<and>
   classifyFailureClass (fst (executeNode (agent_run late_env cond_node (BackendError (ApiAbort ''openai'' ''stopped''))) None)) =
     failureClassCanceled"
  using api_error_class_kept [of late_env _ cond_node "ApiTyped ''openai'' True 529 ''overloaded''" None]
    api_error_class_kept [of late_env _ cond_node "ApiAbort ''openai'' ''stopped''" None]
  by (simp add: late_env_def)

text \<open>A status in the stage directory hides an error of the backend.\<close>

lemma written_status_hides_error:
  "Status (fst (executeNode (agent_run (late_env\<lparr>ag_written := Some (Some (JObject [(''status'', JString ''success'')]))\<rparr>)
     cond_node (BackendError (ApiAbort ''openai'' ''stopped''))) None)) = StatusSuccess"
  by code_simp

end
