(* ===== verification/Durations.thy ===== *)
theory Durations
  imports GraphModel
begin

text \<open>
  Times: parseDuration and parseIntPrefix of \<^verbatim>\<open>internal/attractor/engine/handlers.go\<close>,
  effectiveStageTimeout and minPositiveDuration of \<^verbatim>\<open>engine/engine.go\<close>.  A time.Duration is
  its number of nanoseconds, an int64 whose products wrap around.  The fraction of a component in
  time.ParseDuration is computed exactly, which agrees with its float64 for fractions that are whole
  numbers of nanoseconds.
\<close>

section \<open>time.ParseDuration\<close>

definition duration_units :: "(string \<times> int) list" where
  "duration_units = [(''ns'', 1), (''us'', 10 ^ 3), ([CHR 0xC2, CHR 0xB5, CHR ''s''], 10 ^ 3),
     ([CHR 0xCE, CHR 0xBC, CHR ''s''], 10 ^ 3), (''ms'', 10 ^ 6), (''s'', 10 ^ 9), (''m'', 60 * 10 ^ 9), (''h'', 3600 * 10 ^ 9)]"

text \<open>The digits of a fraction that still fit, and the power of ten they stand for.\<close>

fun leading_fraction :: "int \<Rightarrow> nat \<Rightarrow> string \<Rightarrow> int \<times> nat" where
  "leading_fraction f k [] = (f, k)"
| "leading_fraction f k (c # cs) =
     (if f > int64_max div 10 \<or> f * 10 + int (of_char c - 48) > 2 ^ 63 then (f, k)
      else leading_fraction (f * 10 + int (of_char c - 48)) (Suc k) cs)"

text \<open>One component: its nanoseconds and what is left of the text.\<close>

definition duration_part :: "string \<Rightarrow> (int \<times> string) option" where
  "duration_part s =
     (let ds = takeWhile is_digit s; s1 = dropWhile is_digit s; v = digits_value 0 ds;
          (fs, s2) = (case s1 of c # cs \<Rightarrow> if c = CHR ''.'' then (takeWhile is_digit cs, dropWhile is_digit cs) else ('''', s1)
             | [] \<Rightarrow> ('''', []));
          (f, k) = leading_fraction 0 0 fs;
          u = takeWhile (\<lambda>c. c \<noteq> CHR ''.'' \<and> \<not> is_digit c) s2; s3 = dropWhile (\<lambda>c. c \<noteq> CHR ''.'' \<and> \<not> is_digit c) s2
      in if s = '''' \<or> (hd s \<noteq> CHR ''.'' \<and> \<not> is_digit (hd s)) \<or> v > 2 ^ 63 \<or> (ds = '''' \<and> fs = '''') then None
         else (case map_of duration_units u of
             None \<Rightarrow> None
           | Some unit \<Rightarrow>
               if v > 2 ^ 63 div unit then None
               else (let w = v * unit + f * unit div 10 ^ k in if f > 0 \<and> w > 2 ^ 63 then None else Some (w, s3))))"

lemma duration_part_shorter: "duration_part s = Some (w, s') \<Longrightarrow> length s' < length s"
proof -
  assume part: "duration_part s = Some (w, s')"
  let ?P = "\<lambda>c. c \<noteq> CHR ''.'' \<and> \<not> is_digit c"
  obtain s2 where s2: "length s2 \<le> length s" "map_of duration_units (takeWhile ?P s2) \<noteq> None" "s' = dropWhile ?P s2"
  proof -
    let ?s1 = "dropWhile is_digit s"
    have "length ?s1 \<le> length s" by (simp add: length_dropWhile_le)
    moreover have "length (dropWhile is_digit (tl ?s1)) \<le> length ?s1"
      using length_dropWhile_le [of is_digit "tl ?s1"] by simp
    ultimately show thesis
      using part that [of ?s1] that [of "dropWhile is_digit (tl ?s1)"]
      by (auto simp: duration_part_def Let_def split: list.splits if_splits option.splits prod.splits)
  qed
  then have "takeWhile ?P s2 \<noteq> ''''" by (auto simp: duration_units_def)
  then have "length (takeWhile ?P s2) > 0" by simp
  moreover have "length s2 = length (takeWhile ?P s2) + length (dropWhile ?P s2)"
    by (metis length_append takeWhile_dropWhile_id)
  moreover have "length s' = length (dropWhile ?P s2)" using s2(3) by simp
  ultimately show "length s' < length s" using s2(1) by linarith
qed

function duration_sum :: "int \<Rightarrow> string \<Rightarrow> int option" where
  "duration_sum d s = (if s = '''' then Some d
     else (case duration_part s of
         None \<Rightarrow> None
       | Some (w, s') \<Rightarrow> if d + w > 2 ^ 63 then None else duration_sum (d + w) s'))"
  by pat_completeness auto
termination
  by (relation "measure (\<lambda>(d, s). length s)") (auto simp: duration_part_shorter)

declare duration_sum.simps [simp del]

definition ParseDuration :: "string \<Rightarrow> int option" where
  "ParseDuration s =
     (let (neg, u) = (case s of c # cs \<Rightarrow> if c = CHR ''-'' then (True, cs) else if c = CHR ''+'' then (False, cs) else (False, s)
          | [] \<Rightarrow> (False, []))
      in if u = ''0'' then Some 0
         else if u = '''' then None
         else (case duration_sum 0 u of
             None \<Rightarrow> None
           | Some d \<Rightarrow> if neg then Some (wrap64 (- d)) else if d > int64_max then None else Some d))"

section \<open>Durations of the graph\<close>

definition nanos_per_second :: int where "nanos_per_second = 10 ^ 9"

definition parseIntPrefix :: "string \<Rightarrow> int option" where
  "parseIntPrefix s = scan_int s"

definition trim_suffix_d :: "string \<Rightarrow> string option" where
  "trim_suffix_d s = (if s \<noteq> '''' \<and> last s = CHR ''d'' then Some (butlast s) else None)"

definition parseDuration :: "string \<Rightarrow> int \<Rightarrow> int" where
  "parseDuration str def =
     (let s = trim_space str;
          days = (case trim_suffix_d s of None \<Rightarrow> None | Some u \<Rightarrow> parseIntPrefix u)
      in if s = '''' then def
         else (case days of
             Some base \<Rightarrow> wrap64 (wrap64 (base * 24) * (3600 * nanos_per_second))
           | None \<Rightarrow> (case parseIntPrefix s of
               Some base \<Rightarrow> wrap64 (base * nanos_per_second)
             | None \<Rightarrow> (case ParseDuration s of Some d \<Rightarrow> d | None \<Rightarrow> def))))"

definition minPositiveDuration :: "int \<Rightarrow> int \<Rightarrow> int" where
  "minPositiveDuration a b =
     (if a > 0 \<and> b > 0 then (if a < b then a else b) else if a > 0 then a else if b > 0 then b else 0)"

definition effectiveStageTimeout :: "node option \<Rightarrow> int \<Rightarrow> int" where
  "effectiveStageTimeout nd global =
     minPositiveDuration (case nd of None \<Rightarrow> 0 | Some n \<Rightarrow> parseDuration (node_Attr (Some n) ''timeout'' '''') 0) global"

section \<open>The unit that is read\<close>

lemma scan_int_digits:
  assumes "ds \<noteq> ''''" "list_all is_digit ds" "digits_value 0 ds \<le> int64_max" "rest = '''' \<or> \<not> is_digit (hd rest)"
  shows "scan_int (ds @ rest) = Some (digits_value 0 ds)"
proof -
  obtain c cs where ds: "ds = c # cs" using assms(1) by (cases ds) auto
  then have c: "c \<noteq> CHR ''-''" "c \<noteq> CHR ''+''" using assms(2) by (auto simp: is_digit_def)
  have all: "takeWhile is_digit ds = ds" using assms(2) by (simp add: takeWhile_eq_all_conv list_all_iff)
  have "takeWhile is_digit (ds @ rest) = ds"
    using assms(2,4) by (cases rest) (simp_all add: takeWhile_append2 list_all_iff all)
  moreover have "0 \<le> digits_value a xs" if "0 \<le> a" "list_all is_digit xs" for a xs
    using that by (induction a xs rule: digits_value.induct) (simp_all add: is_digit_def)
  then have "0 \<le> digits_value 0 ds" using assms(2) by simp
  ultimately show ?thesis
    using assms(1,3) c ds by (auto simp: scan_int_def Let_def int64_min_def)
qed



text \<open>A text that begins with a point is not a number for Sscanf, and time.ParseDuration reads its unit.\<close>

lemma duration_with_fraction: "parseDuration ''.5m'' 0 = 30 * 10 ^ 9"
  by code_simp

lemma effective_timeout_least:
  "effectiveStageTimeout nd global \<le> 0 \<longleftrightarrow> effectiveStageTimeout nd global = 0"
  "0 < global \<Longrightarrow> effectiveStageTimeout nd global \<le> global \<and> 0 < effectiveStageTimeout nd global"
  by (auto simp: effectiveStageTimeout_def minPositiveDuration_def)

end
