(* ===== verification/ManagerLoop.thy ===== *)
theory ManagerLoop
  imports Preparation PreparationFacts ValidateFacts Subgraph Durations
begin

text \<open>
  The handler stack.manager_loop of \<^verbatim>\<open>internal/attractor/engine/manager_loop.go\<close>: it prepares and
  runs a child pipeline beside the run, and looks at it once in every cycle.  The environment of a
  cycle says whether the run is cancelled, whether the child has ended, what the context holds and
  whether the wait comes to its end; the child itself is the branch loop on the prepared child graph.
\<close>

section \<open>The child pipeline\<close>

definition findExitNodeID :: "string list \<Rightarrow> graph \<Rightarrow> string" where
  "findExitNodeID order g = (case find (\<lambda>i. g_nodes g i \<noteq> None \<and> isTerminal (g_nodes g i)) order of
     Some i \<Rightarrow> i | None \<Rightarrow> '''')"

text \<open>
  The file of the child as it is read, the preparation and the orders of ranges over maps, the passes of
  the child engine with their fuel, and the texts of errors.
\<close>

record child_env =
  ce_file :: "string + string"
  ce_repo :: string
  ce_prepare :: prepare_env
  ce_order :: "string list"
  ce_registered :: "string list"
  ce_passes :: "nat \<Rightarrow> sub_env"
  ce_fuel :: nat
  ce_context :: run_context
  ce_head :: string
  ce_prepare_text :: "prepare_error \<Rightarrow> string"
  ce_sub_text :: "sub_error \<Rightarrow> string"

definition child_options :: "child_env \<Rightarrow> prepare_options" where
  "child_options ce = \<lparr>po_transforms = [], po_repo_path = ce_repo ce, po_graph_dir = '''', po_known_types = []\<rparr>"

definition child_cfg :: "child_env \<Rightarrow> graph \<Rightarrow> sub_cfg" where
  "child_cfg ce g = \<lparr>sc_graph = g, sc_registered = ce_registered ce, sc_stop = findExitNodeID (ce_order ce) g\<rparr>"

text \<open>The outcome of childResult, or None while the passes have not come to an end.\<close>

definition runChildPipeline :: "child_env \<Rightarrow> outcome option" where
  "runChildPipeline ce = (case ce_file ce of
      Inl err \<Rightarrow> Some (fail_outcome (''read child dotfile: '' @ err))
    | Inr src \<Rightarrow> (case PrepareWithOptions (ce_prepare ce) (child_options ce) src of
        Inl err \<Rightarrow> Some (fail_outcome (''prepare child graph: '' @ ce_prepare_text ce err))
      | Inr (g, diags) \<Rightarrow>
          (let startID = findStartNodeID (ce_order ce) g in
           if startID = '''' then Some (fail_outcome ''child graph has no start node'')
           else (case runSubgraphUntil (child_cfg ce g) (ce_passes ce) (ce_fuel ce) startID (ce_context ce) (ce_head ce) of
               None \<Rightarrow> None
             | Some (r, Some err) \<Rightarrow> Some (fail_outcome (ce_sub_text ce err))
             | Some (r, None) \<Rightarrow> Some (Outcome r)))))"

section \<open>The cycles\<close>

definition parseManagerActions :: "string \<Rightarrow> string list" where
  "parseManagerActions s = filter (\<lambda>a. a \<noteq> '''') (map (\<lambda>a. to_lower (trim_space a)) (split_on '','' s))"

record cycle_env =
  cy_cancelled :: bool
  cy_child :: "outcome option"
  cy_context :: run_context
  cy_error_text :: "string \<Rightarrow> cond_error \<Rightarrow> string"
  cy_sleep :: "int \<Rightarrow> bool"

record manager_cfg =
  mg_poll :: int
  mg_max :: int
  mg_stop :: string
  mg_actions :: "string list"

definition child_ended :: "int \<Rightarrow> outcome \<Rightarrow> outcome" where
  "child_ended k res =
     (if Status res = StatusSuccess \<or> Status res = StatusPartialSuccess then zero_outcome\<lparr>Status := StatusSuccess,
        Notes := ''child pipeline completed successfully at cycle '' @ int_to_dec k,
        ContextUpdates := Some [''stack.child.status'' \<mapsto> VStr ''completed'', ''stack.child.outcome'' \<mapsto> VStr (Status res)]\<rparr>
      else (fail_outcome (''child pipeline failed: '' @ FailureReason res))
        \<lparr>ContextUpdates := Some [''stack.child.status'' \<mapsto> VStr ''failed'', ''stack.child.outcome'' \<mapsto> VStr (Status res)]\<rparr>)"

definition observe_child :: "manager_cfg \<Rightarrow> cycle_env \<Rightarrow> int \<Rightarrow> outcome option" where
  "observe_child mg cy k = (if ''observe'' \<in> set (mg_actions mg) then map_option (child_ended k) (cy_child cy) else None)"

definition check_stop :: "manager_cfg \<Rightarrow> cycle_env \<Rightarrow> int \<Rightarrow> outcome option" where
  "check_stop mg cy k =
     (if mg_stop mg = '''' then None
      else (case Evaluate (mg_stop mg) (zero_outcome\<lparr>Status := StatusSuccess\<rparr>) (Some (cy_context cy)) of
          Inl err \<Rightarrow> Some (fail_outcome (cy_error_text cy (mg_stop mg) err))
        | Inr ok \<Rightarrow> if ok then Some (zero_outcome\<lparr>Status := StatusSuccess,
              Notes := ''stop condition satisfied at cycle '' @ int_to_dec k\<rparr>) else None))"

text \<open>One cycle: cancellation, the child, the stop condition, the wait.\<close>

definition manager_cycle :: "manager_cfg \<Rightarrow> cycle_env \<Rightarrow> int \<Rightarrow> outcome option" where
  "manager_cycle mg cy k =
     (if cy_cancelled cy then Some (fail_outcome ''manager loop canceled'')
      else (case observe_child mg cy k of
          Some out \<Rightarrow> Some out
        | None \<Rightarrow> (case check_stop mg cy k of
            Some out \<Rightarrow> Some out
          | None \<Rightarrow> if ''wait'' \<in> set (mg_actions mg) \<and> k < mg_max mg \<and> \<not> cy_sleep cy (mg_poll mg)
              then Some (fail_outcome ''manager loop canceled during wait'') else None)))"

function manager_cycles :: "manager_cfg \<Rightarrow> (int \<Rightarrow> cycle_env) \<Rightarrow> int \<Rightarrow> outcome" where
  "manager_cycles mg env k =
     (if k > mg_max mg then fail_outcome (''manager loop max cycles exceeded ('' @ int_to_dec (mg_max mg) @ '')'')
      else (case manager_cycle mg (env k) k of Some out \<Rightarrow> out | None \<Rightarrow> manager_cycles mg env (k + 1)))"
  by pat_completeness auto
termination
  by (relation "measure (\<lambda>(mg, env, k). nat (mg_max mg + 1 - k))") auto

declare manager_cycles.simps [simp del]

section \<open>The handler\<close>

definition manager_setup :: "node \<Rightarrow> manager_cfg" where
  "manager_setup n =
     (let mx = parseInt (node_Attr (Some n) ''manager.max_cycles'' ''1000'') 1000 in
      \<lparr>mg_poll = parseDuration (node_Attr (Some n) ''manager.poll_interval'' ''45s'') (45 * nanos_per_second),
       mg_max = (if mx \<le> 0 then 1000 else mx),
       mg_stop = trim_space (node_Attr (Some n) ''manager.stop_condition'' ''''),
       mg_actions = parseManagerActions (trim_space (node_Attr (Some n) ''manager.actions'' ''observe,wait''))\<rparr>)"

definition child_dotfile :: "graph \<Rightarrow> node \<Rightarrow> string" where
  "child_dotfile g n =
     (let f = trim_space (graph_attr g ''stack.child_dotfile'') in
      if f = '''' then trim_space (node_Attr (Some n) ''stack.child_dotfile'' '''') else f)"

definition child_autostart :: "node \<Rightarrow> bool" where
  "child_autostart n \<longleftrightarrow> equal_fold (trim_space (node_Attr (Some n) ''stack.child_autostart'' ''true'')) ''true''"

text \<open>
  The answers of the channel: the child's result from the cycle on in which its goroutine has sent it,
  and nothing when no child was started.
\<close>

definition child_answers :: "bool \<Rightarrow> outcome option \<Rightarrow> (int \<Rightarrow> bool) \<Rightarrow> (int \<Rightarrow> cycle_env) \<Rightarrow> int \<Rightarrow> cycle_env" where
  "child_answers started res sent env k = (env k)\<lparr>cy_child := (if started \<and> sent k then res else None)\<rparr>"

definition ManagerLoopHandler ::
  "(string \<Rightarrow> child_env) \<Rightarrow> (int \<Rightarrow> bool) \<Rightarrow> (int \<Rightarrow> cycle_env) \<Rightarrow> graph \<Rightarrow> node \<Rightarrow> outcome" where
  "ManagerLoopHandler child sent env g n =
     (let f = child_dotfile g n; auto = child_autostart n in
      if auto \<and> f = '''' then fail_outcome ''stack.child_autostart is true but stack.child_dotfile is not configured''
      else manager_cycles (manager_setup n)
        (child_answers (auto \<and> f \<noteq> '''') (runChildPipeline (child f)) sent env) 1)"

section \<open>Which cycle decides\<close>

text \<open>The result is that of the first cycle with one; without any the cycles run out.\<close>

lemma manager_cycles_first:
  assumes "k \<le> j" "j \<le> mg_max mg" "\<forall>i. k \<le> i \<and> i < j \<longrightarrow> manager_cycle mg (env i) i = None" "manager_cycle mg (env j) j = Some out"
  shows "manager_cycles mg env k = out"
  using assms
proof (induction mg env k rule: manager_cycles.induct)
  case (1 mg env k)
  show ?case
  proof (cases "k = j")
    case True
    with 1(3,5) show ?thesis by (simp add: manager_cycles.simps [of mg env j])
  next
    case False
    with 1(2,4) have none: "manager_cycle mg (env k) k = None" by auto
    have "manager_cycles mg env (k + 1) = out"
      using False 1(2-5) none by (intro 1(1)) auto
    with none False 1(2,3) show ?thesis by (simp add: manager_cycles.simps [of mg env k])
  qed
qed

lemma manager_cycles_none:
  assumes "\<forall>i. k \<le> i \<and> i \<le> mg_max mg \<longrightarrow> manager_cycle mg (env i) i = None"
  shows "manager_cycles mg env k = fail_outcome (''manager loop max cycles exceeded ('' @ int_to_dec (mg_max mg) @ '')'')"
  using assms
proof (induction mg env k rule: manager_cycles.induct)
  case (1 mg env k)
  show ?case
  proof (cases "k > mg_max mg")
    case True
    then show ?thesis by (simp add: manager_cycles.simps [of mg env k])
  next
    case False
    with 1 show ?thesis by (simp add: manager_cycles.simps [of mg env k])
  qed
qed

lemma manager_cycles_cases:
  obtains (decided) j where "k \<le> j" "j \<le> mg_max mg" "\<forall>i. k \<le> i \<and> i < j \<longrightarrow> manager_cycle mg (env i) i = None"
      "manager_cycle mg (env j) j = Some (manager_cycles mg env k)"
  | (exceeded) "\<forall>i. k \<le> i \<and> i \<le> mg_max mg \<longrightarrow> manager_cycle mg (env i) i = None"
      "manager_cycles mg env k = fail_outcome (''manager loop max cycles exceeded ('' @ int_to_dec (mg_max mg) @ '')'')"
proof (induction mg env k arbitrary: thesis rule: manager_cycles.induct)
  case (1 mg env k)
  show ?case
  proof (cases "k > mg_max mg")
    case True
    then show ?thesis by (intro 1(3)) (auto simp: manager_cycles.simps [of mg env k])
  next
    case False
    show ?thesis
    proof (cases "manager_cycle mg (env k) k")
      case (Some out)
      with False show ?thesis by (intro 1(2) [of k]) (auto simp: manager_cycles.simps [of mg env k])
    next
      case None
      have step: "manager_cycles mg env k = manager_cycles mg env (k + 1)"
        using False None by (simp add: manager_cycles.simps [of mg env k])
      have here: "\<And>i. k \<le> i \<Longrightarrow> i = k \<or> k + 1 \<le> i" by auto
      show ?thesis
      proof (rule 1(1) [OF False None])
        fix j assume "k + 1 \<le> j" "j \<le> mg_max mg" "\<forall>i. k + 1 \<le> i \<and> i < j \<longrightarrow> manager_cycle mg (env i) i = None"
          "manager_cycle mg (env j) j = Some (manager_cycles mg env (k + 1))"
        then show thesis using None here step by (intro 1(2) [of j]) auto
      next
        assume "\<forall>i. k + 1 \<le> i \<and> i \<le> mg_max mg \<longrightarrow> manager_cycle mg (env i) i = None"
          "manager_cycles mg env (k + 1) = fail_outcome (''manager loop max cycles exceeded ('' @ int_to_dec (mg_max mg) @ '')'')"
        then show thesis using None here step by (intro 1(3)) auto
      qed
    qed
  qed
qed

text \<open>A stop condition has no error: the branch that reports one is never taken.\<close>

lemma check_stop_success:
  "check_stop mg cy k = Some out \<Longrightarrow> mg_stop mg \<noteq> '''' \<and> Status out = StatusSuccess \<and>
     Evaluate (mg_stop mg) (zero_outcome\<lparr>Status := StatusSuccess\<rparr>) (Some (cy_context cy)) = Inr True"
  using Evaluate_total [of "mg_stop mg" "zero_outcome\<lparr>Status := StatusSuccess\<rparr>" "Some (cy_context cy)"]
  by (auto simp: check_stop_def split: if_splits)

lemma manager_cycle_success:
  assumes "manager_cycle mg cy k = Some out" "Status out = StatusSuccess"
  shows "\<not> cy_cancelled cy \<and>
    ((\<exists>res. cy_child cy = Some res \<and> (Status res = StatusSuccess \<or> Status res = StatusPartialSuccess)) \<or>
     (mg_stop mg \<noteq> '''' \<and> Evaluate (mg_stop mg) (zero_outcome\<lparr>Status := StatusSuccess\<rparr>) (Some (cy_context cy)) = Inr True))"
  using assms check_stop_success [of mg cy k]
  by (auto simp: manager_cycle_def observe_child_def child_ended_def fail_outcome_def status_defs
    split: if_splits option.splits)

section \<open>What a success rests on\<close>

text \<open>A child that ends without an error has left its last stage at an end of the child graph.\<close>

lemma sub_loop_end:
  assumes "sub_loop cfg env t fuel st = Some (r, None)" "trim_space (sc_stop cfg) \<noteq> '''' \<longrightarrow> sb_current st \<noteq> sc_stop cfg"
  shows "branch_end cfg r"
proof (cases "trim_space (sc_stop cfg) = ''''")
  case False
  with sub_loop_Done assms show ?thesis by blast
next
  case True
  from assms(1) show ?thesis
  proof (induction fuel arbitrary: t st)
    case (Suc fuel)
    show ?case
    proof (cases "sub_step cfg (env t) st")
      case (SubNext st1)
      with Suc show ?thesis by simp
    next
      case (SubDone r' err)
      with Suc.prems have "sub_step cfg (env t) st = SubDone r None" by simp
      then show ?thesis
        using True by (auto simp: sub_step_def Let_def split: option.splits if_splits dest: sub_stage_Done)
    qed
  qed simp
qed

lemma subgraph_success_end:
  assumes "runSubgraphUntil cfg env fuel start ctx head = Some (r, None)" "Status (Outcome r) \<noteq> ''''"
  shows "branch_end cfg r"
proof -
  have run: "sub_loop cfg env 0 fuel (sub_start start ctx head) = Some (r, None)"
    using assms(1) by (auto simp: runSubgraphUntil_def split: if_splits)
  show ?thesis
  proof (cases "trim_space (sc_stop cfg) \<noteq> '''' \<and> start = sc_stop cfg")
    case True
    have "Outcome r = zero_outcome"
      using run True by (cases fuel) (auto simp: sub_step_def sub_start_def build_result_def split: option.splits)
    with assms(2) show ?thesis by (simp add: zero_outcome_def)
  next
    case False
    then have "trim_space (sc_stop cfg) \<noteq> '''' \<longrightarrow> sb_current (sub_start start ctx head) \<noteq> sc_stop cfg"
      by (auto simp: sub_start_def)
    with run show ?thesis by (rule sub_loop_end)
  qed
qed

text \<open>A child that ended well: a prepared graph without error diagnostics, run to an end.\<close>

definition child_ran :: "child_env \<Rightarrow> outcome \<Rightarrow> bool" where
  "child_ran ce out \<longleftrightarrow> (\<exists>src g diags r. ce_file ce = Inr src \<and>
     PrepareWithOptions (ce_prepare ce) (child_options ce) src = Inr (g, diags) \<and> (\<forall>d \<in> set diags. \<not> is_error d) \<and>
     runSubgraphUntil (child_cfg ce g) (ce_passes ce) (ce_fuel ce) (findStartNodeID (ce_order ce) g)
       (ce_context ce) (ce_head ce) = Some (r, None) \<and> Outcome r = out \<and> branch_end (child_cfg ce g) r)"

lemma good_child_options: "good_transforms (child_options ce)"
  by (simp add: good_transforms_def child_options_def)

lemma runChildPipeline_success:
  assumes "runChildPipeline ce = Some out" "Status out = StatusSuccess \<or> Status out = StatusPartialSuccess"
  shows "child_ran ce out"
proof -
  have no_fail: "out \<noteq> fail_outcome err" for err using assms(2) by (auto simp: fail_outcome_def status_defs)
  obtain src g diags where src: "ce_file ce = Inr src"
    and prep: "PrepareWithOptions (ce_prepare ce) (child_options ce) src = Inr (g, diags)"
    using assms(1) no_fail by (auto simp: runChildPipeline_def split: sum.splits)
  let ?run = "runSubgraphUntil (child_cfg ce g) (ce_passes ce) (ce_fuel ce) (findStartNodeID (ce_order ce) g)
    (ce_context ce) (ce_head ce)"
  have "(\<exists>r. ?run = Some (r, None) \<and> Outcome r = out) \<or> (\<exists>err. out = fail_outcome err)"
    using assms(1) src prep by (auto simp: runChildPipeline_def Let_def split: if_splits option.splits)
  then obtain r where run: "?run = Some (r, None)" "Outcome r = out" using no_fail by blast
  have "Status out \<noteq> ''''" using assms(2) by (auto simp: status_defs)
  with subgraph_success_end [OF run(1)] run PrepareWithOptions_Inr(2) [OF prep good_child_options] src prep
  show ?thesis unfolding child_ran_def by blast
qed

text \<open>A child of degraded success is reported as a failed one.\<close>

lemma degraded_child_fails:
  "Status (child_ended k (zero_outcome\<lparr>Status := StatusDegradedSuccess\<rparr>)) = StatusFail"
  by (simp add: child_ended_def fail_outcome_def status_defs)

end
