(* ===== verification/Tools.thy ===== *)
theory Tools
  imports Handlers Durations
begin

text \<open>
  The tool node, ToolHandler of \<^verbatim>\<open>internal/attractor/engine/handlers.go\<close>: a shell command with a
  timeout.  The environment says how the command ended and what it wrote; the logs, timings, patches,
  browser artifacts and database events that the handler leaves behind are left out.  Runes are
  counted as bytes, which is the same for ASCII.
\<close>

section \<open>The line that explains a failure\<close>

definition toolActionableLineHints :: "string list" where
  "toolActionableLineHints = [''error'', ''fail'', ''failed'', ''failure'', ''exception'', ''panic'', ''fatal'',
     ''timeout'', ''timed out'', ''net::'', ''err_'', ''missing'', ''not found'', ''cannot'', ''can'' @ [CHR 0x27] @ ''t'',
     ''refused'', ''disconnected'', ''assert'']"

definition looksActionableToolOutputLine :: "string \<Rightarrow> bool" where
  "looksActionableToolOutputLine line0 \<longleftrightarrow>
     (let line = to_lower (trim_space line0) in line \<noteq> '''' \<and> (\<exists>hint \<in> set toolActionableLineHints. contains_sub hint line))"

definition trimToRunes :: "string \<Rightarrow> nat \<Rightarrow> string" where
  "trimToRunes s n = take n s"

fun actionable_line :: "string list \<Rightarrow> string \<Rightarrow> string" where
  "actionable_line [] first = first"
| "actionable_line (line # lines) first =
     (let trimmed_line = trim_space line;
          first' = (if first = '''' then trimToRunes trimmed_line 4000 else first) in
      if trimmed_line = '''' then actionable_line lines first
      else if looksActionableToolOutputLine trimmed_line then trimToRunes trimmed_line 4000
      else actionable_line lines first')"

definition firstActionableToolOutputLine :: "string \<Rightarrow> string" where
  "firstActionableToolOutputLine data = (if data = '''' then '''' else actionable_line (split_on [CHR 0x0A] data) '''')"

section \<open>The hint about a missing file\<close>

definition unquote :: "string \<Rightarrow> string" where
  "unquote cmd = (if length cmd \<ge> 2 \<and> (hd cmd = CHR 0x27 \<or> hd cmd = CHR 0x22) \<and> last cmd = hd cmd
     then butlast (tl cmd) else cmd)"

definition strip_shell :: "string \<Rightarrow> string" where
  "strip_shell cmd = (if has_prefix ''bash -c '' cmd then unquote (trim_space (drop 8 cmd))
     else if has_prefix ''sh -c '' cmd then unquote (trim_space (drop 6 cmd)) else cmd)"

definition extractLeadingPath :: "string \<Rightarrow> string" where
  "extractLeadingPath cmd =
     (let candidate = takeWhile (\<lambda>c. \<not> is_space c) (dropWhile is_space (strip_shell (trim_space cmd))) in
      if candidate = '''' \<or> \<not> contains_sub ''/'' candidate \<and> \<not> contains_sub ''.'' candidate then '''' else candidate)"

text \<open>The dash in the texts is three bytes long.\<close>

definition em_dash :: string where "em_dash = [CHR 0x20, CHR 0xE2, CHR 0x80, CHR 0x94, CHR 0x20]"

record tool_env =
  te_create_error :: "string option"
  te_browser :: bool
  te_timed_out :: bool
  te_run_error :: "string option"
  te_stdout :: string
  te_stderr :: string
  te_worktree :: string
  te_repo :: string
  te_exists :: "string \<Rightarrow> string \<Rightarrow> bool"
  te_quote :: "string \<Rightarrow> string"
  te_duration_text :: "int \<Rightarrow> string"

definition worktreeNotFoundHint :: "tool_env \<Rightarrow> string \<Rightarrow> string" where
  "worktreeNotFoundHint te cmd =
     (let stderr = to_lower (te_stderr te) in
      if \<not> contains_sub ''not found'' stderr \<and> \<not> contains_sub ''no such file'' stderr then ''''
      else (let scriptPath = extractLeadingPath cmd;
                inWorktree = (te_worktree te \<noteq> '''' \<and> te_exists te (te_worktree te) scriptPath);
                inRepo = (te_repo te \<noteq> '''' \<and> te_exists te (te_repo te) scriptPath) in
            if scriptPath = '''' then ''file not found'' @ em_dash @ ''if this script is not committed to git, run '' @
              [CHR 0x27] @ ''git add <file> && git commit'' @ [CHR 0x27] @ '' in the source repo''
            else if \<not> inWorktree \<and> inRepo then ''file '' @ te_quote te scriptPath @
              '' exists in the source repo but not in the worktree'' @ em_dash @ ''it may not be committed to git; run '' @
              [CHR 0x27] @ ''git add '' @ scriptPath @ '' && git commit'' @ [CHR 0x27]
            else if \<not> inWorktree \<and> \<not> inRepo then ''file '' @ te_quote te scriptPath @
              '' not found in worktree or source repo'' @ em_dash @ ''check the path in tool_command''
            else ''''))"

section \<open>The handler\<close>

definition tool_timeout :: "node \<Rightarrow> int" where
  "tool_timeout n = (let t = parseDuration (node_Attr (Some n) ''timeout'' '''') 0 in
     if t \<le> 0 then 600 * nanos_per_second else t)"

definition tool_failure_reason :: "tool_env \<Rightarrow> string \<Rightarrow> string \<Rightarrow> string" where
  "tool_failure_reason te cmd rawExitStatus =
     (let line = firstActionableToolOutputLine (te_stderr te); line' = firstActionableToolOutputLine (te_stdout te);
          r1 = (if te_browser te then (if line \<noteq> '''' then line else if line' \<noteq> '''' then line' else rawExitStatus)
                else rawExitStatus);
          r2 = (if r1 = '''' then ''tool command failed'' else r1);
          hint = worktreeNotFoundHint te cmd
      in if hint \<noteq> '''' then r2 @ [CHR 0x0A] @ ''  hint: '' @ hint else r2)"

definition ToolHandler :: "tool_env \<Rightarrow> node \<Rightarrow> outcome" where
  "ToolHandler te n =
     (let cmd = trim_space (node_Attr (Some n) ''tool_command'' '''');
          combined = Truncate (te_stdout te @ te_stderr te) 8000 in
      if cmd = '''' then fail_outcome ''no tool_command specified''
      else (case te_create_error te of
          Some err \<Rightarrow> fail_outcome err
        | None \<Rightarrow>
            if te_timed_out te then fail_outcome (''tool_command timed out after '' @ te_duration_text te (tool_timeout n))
            else (case te_run_error te of
                Some err \<Rightarrow> (let rawExitStatus = trim_space err in
                  (fail_outcome (tool_failure_reason te cmd rawExitStatus))\<lparr>ContextUpdates :=
                     Some [''tool.output'' \<mapsto> VStr combined, ''tool.exit_status'' \<mapsto> VStr rawExitStatus]\<rparr>)
              | None \<Rightarrow> zero_outcome\<lparr>Status := StatusSuccess, Notes := ''tool completed'',
                  ContextUpdates := Some [''tool.output'' \<mapsto> VStr combined]\<rparr>)))"

definition tool_run :: "tool_env \<Rightarrow> node \<Rightarrow> node_run" where
  "tool_run te n = \<lparr>nr_mkdir_error = None, nr_input_failure = None, nr_handler = Returned (ToolHandler te n) None,
     nr_status_json = None, nr_ctx = Live, nr_timeout_seconds = None, nr_partial = None, nr_lineage_error = None\<rparr>"

section \<open>What the engine makes of a tool\<close>

lemma ToolHandler_status:
  "Status (ToolHandler te n) = (if trim_space (node_Attr (Some n) ''tool_command'' '''') \<noteq> '''' \<and> te_create_error te = None \<and>
     \<not> te_timed_out te \<and> te_run_error te = None then StatusSuccess else StatusFail)"
  by (auto simp: ToolHandler_def Let_def fail_outcome_def split: option.splits)

lemma ToolHandler_updates:
  assumes "trim_space (node_Attr (Some n) ''tool_command'' '''') \<noteq> ''''" "te_create_error te = None"
  shows "map_of_nil (ContextUpdates (ToolHandler te n)) =
    (if te_timed_out te then Map.empty
     else (case te_run_error te of
         None \<Rightarrow> [''tool.output'' \<mapsto> VStr (take 8000 (te_stdout te @ te_stderr te))]
       | Some err \<Rightarrow> [''tool.output'' \<mapsto> VStr (take 8000 (te_stdout te @ te_stderr te)), ''tool.exit_status'' \<mapsto> VStr (trim_space err)]))"
  using assms
  by (simp add: ToolHandler_def Let_def fail_outcome_def zero_outcome_def Truncate_def map_of_nil_def split: option.splits)

lemma map_of_nil_Some: "map_of_nil (Some f) = f"
  by (simp add: map_of_nil_def)

lemma finish_outcome_updates: "map_of_nil (ContextUpdates (finish_outcome nr out)) = map_of_nil (ContextUpdates out)"
  by (simp add: finish_outcome_def Let_def map_of_nil_def split: ctx_state.splits option.splits)

definition tool_node_run :: "tool_env \<Rightarrow> node \<Rightarrow> node_run \<Rightarrow> bool" where
  "tool_node_run te n nr \<longleftrightarrow> nr_handler nr = Returned (ToolHandler te n) None \<and> nr_mkdir_error nr = None \<and>
     nr_input_failure nr = None \<and> nr_status_json nr = None \<and> nr_lineage_error nr = None"

lemma tool_executed:
  assumes "tool_node_run te n nr"
  shows "Status (fst (executeNode nr pj)) = Status (ToolHandler te n)"
    and "map_of_nil (ContextUpdates (fst (executeNode nr pj))) = map_of_nil (ContextUpdates (ToolHandler te n))"
proof -
  have "canonical_status (Status (ToolHandler te n))" by (simp add: ToolHandler_status)
  then show "Status (fst (executeNode nr pj)) = Status (ToolHandler te n)"
    "map_of_nil (ContextUpdates (fst (executeNode nr pj))) = map_of_nil (ContextUpdates (ToolHandler te n))"
    using assms
    by (simp_all add: tool_node_run_def executeNode_def handler_outcome_def Canonicalize_canonical finish_outcome_updates
        map_of_nil_Some Let_def)
qed


text \<open>Failing tests, then the same command when they pass.\<close>

definition test_env :: tool_env where
  "test_env = \<lparr>te_create_error = None, te_browser = False, te_timed_out = False, te_run_error = Some ''exit status 1'',
     te_stdout = ''1 failed'', te_stderr = '''', te_worktree = ''wt'', te_repo = ''repo'', te_exists = (\<lambda>d p. True),
     te_quote = (\<lambda>s. s), te_duration_text = (\<lambda>d. ''10m0s'')\<rparr>"

definition test_node :: node where
  "test_node = (NewNode ''test'')\<lparr>node_attrs := [''shape'' \<mapsto> ''parallelogram'', ''tool_command'' \<mapsto> ''make test'']\<rparr>"


text \<open>A tool that is not given its time is given seconds for minutes.\<close>

lemma tool_timeout_units:
  "tool_timeout (test_node\<lparr>node_attrs := [''timeout'' \<mapsto> ''15m'']\<rparr>) = 15 * 10 ^ 9"
  "tool_timeout (test_node\<lparr>node_attrs := Map.empty\<rparr>) = 600 * 10 ^ 9"
  by code_simp+

end
