(* ===== verification/Fidelity.thy ===== *)
theory Fidelity
  imports Validate
begin

text \<open>
  How much of the conversation an agent stage is given, \<^verbatim>\<open>internal/attractor/engine/fidelity.go\<close>, and
  the state the engine keeps of it between stages, in checkpoints and after a resume
  (\<^verbatim>\<open>engine/engine.go\<close>, \<^verbatim>\<open>engine/resume.go\<close>).
\<close>

section \<open>Mode and thread of a stage\<close>

text \<open>The first of some texts that is not blank, without its blanks.\<close>

fun first_named :: "string list \<Rightarrow> string option" where
  "first_named [] = None"
| "first_named (s # ss) = (if trim_space s \<noteq> '''' then Some (trim_space s) else first_named ss)"

definition fidelity_candidates :: "graph \<Rightarrow> edge option \<Rightarrow> node \<Rightarrow> string list" where
  "fidelity_candidates g incoming n = [edge_Attr incoming ''fidelity'' '''', node_Attr (Some n) ''fidelity'' '''',
     graph_attr g ''default_fidelity'', graph_attr g ''context_fidelity_default'']"

definition resolveFidelityMode :: "graph \<Rightarrow> edge option \<Rightarrow> node \<Rightarrow> string" where
  "resolveFidelityMode g incoming n =
     (let c1 = trim_space (edge_Attr incoming ''fidelity'' '''');
          c2 = (if c1 = '''' then trim_space (node_Attr (Some n) ''fidelity'' '''') else c1);
          c3 = (if c2 = '''' then (let d = trim_space (graph_attr g ''default_fidelity'') in
                  if d = '''' then trim_space (graph_attr g ''context_fidelity_default'') else d) else c2);
          c4 = (if c3 = '''' then ''compact'' else c3);
          candidate = to_lower c4
      in if candidate \<in> set fidelities then candidate else ''compact'')"

definition resolveThreadKey :: "graph \<Rightarrow> edge option \<Rightarrow> node \<Rightarrow> string" where
  "resolveThreadKey g incoming n =
     (case first_named [node_Attr (Some n) ''thread_id'' '''', edge_Attr incoming ''thread_id'' '''',
         graph_attr g ''thread_id'', graph_attr g ''context_thread_default''] of
        Some v \<Rightarrow> v
      | None \<Rightarrow> (let classes = node_ClassList n in
          if classes \<noteq> [] \<and> trim_space (hd classes) \<noteq> '''' then trim_space (hd classes)
          else (case incoming of
              Some e \<Rightarrow> if trim_space (edge_from e) \<noteq> '''' then trim_space (edge_from e) else node_id n
            | None \<Rightarrow> node_id n)))"

definition resolveFidelityAndThread :: "graph \<Rightarrow> edge option \<Rightarrow> node \<Rightarrow> string \<times> string" where
  "resolveFidelityAndThread g incoming n =
     (let mode = resolveFidelityMode g incoming n in
      (mode, if mode = ''full'' then resolveThreadKey g incoming n else ''''))"

section \<open>The state of the engine\<close>

record fidelity_state =
  fi_force :: string
  fi_force_used :: bool
  fi_last :: string
  fi_thread :: string

definition fidelity_start :: fidelity_state where
  "fidelity_start = \<lparr>fi_force = '''', fi_force_used = False, fi_last = '''', fi_thread = ''''\<rparr>"

text \<open>In front of a stage, whose handler uses fidelity or not.\<close>

definition resolve_stage :: "graph \<Rightarrow> bool \<times> edge option \<times> node \<Rightarrow> fidelity_state \<Rightarrow> fidelity_state" where
  "resolve_stage g stage st = (case stage of (uses, incoming, n) \<Rightarrow>
     if \<not> uses then st\<lparr>fi_last := '''', fi_thread := ''''\<rparr>
     else (case resolveFidelityAndThread g incoming n of (mode, threadKey) \<Rightarrow>
       if trim_space (fi_force st) \<noteq> '''' \<and> \<not> fi_force_used st then
         (let forced = trim_space (fi_force st) in
          st\<lparr>fi_force_used := True, fi_last := forced,
             fi_thread := (if forced = ''full'' then resolveThreadKey g incoming n else '''')\<rparr>)
       else st\<lparr>fi_last := mode, fi_thread := threadKey\<rparr>))"

text \<open>What a checkpoint keeps, and what a resume makes of it.\<close>

definition checkpoint_fidelity :: "fidelity_state \<Rightarrow> string option" where
  "checkpoint_fidelity st = (if trim_space (fi_last st) \<noteq> '''' then Some (fi_last st) else None)"

definition resume_fidelity :: "string option \<Rightarrow> fidelity_state" where
  "resume_fidelity extra = fidelity_start\<lparr>fi_force :=
     (case extra of Some s \<Rightarrow> if equal_fold (trim_space s) ''full'' then ''summary:high'' else '''' | None \<Rightarrow> '''')\<rparr>"

definition run_fidelity :: "graph \<Rightarrow> (bool \<times> edge option \<times> node) list \<Rightarrow> fidelity_state \<Rightarrow> fidelity_state" where
  "run_fidelity g stages st = fold (resolve_stage g) stages st"

section \<open>Modes\<close>

lemma fidelity_mode_valid: "resolveFidelityMode g incoming n \<in> set fidelities"
  by (simp add: resolveFidelityMode_def Let_def fidelities_def)

text \<open>Edge before node before graph; the first name decides, and a name that is no mode is compact.\<close>

lemma fidelity_mode_first:
  "resolveFidelityMode g incoming n =
    (case first_named (fidelity_candidates g incoming n) of
       None \<Rightarrow> ''compact''
     | Some s \<Rightarrow> if to_lower s \<in> set fidelities then to_lower s else ''compact'')"
proof -
  have "to_lower ''compact'' = ''compact''" by code_simp
  then show ?thesis by (simp add: resolveFidelityMode_def fidelity_candidates_def Let_def)
qed

lemma fidelity_names: "m \<in> set fidelities \<Longrightarrow> trim_space m = m \<and> m \<noteq> '''' \<and> (equal_fold m ''full'' \<longleftrightarrow> m = ''full'')"
proof -
  have "list_all (\<lambda>m. trim_space m = m \<and> m \<noteq> '''' \<and> (equal_fold m ''full'' \<longleftrightarrow> m = ''full'')) fidelities" by code_simp
  then show "m \<in> set fidelities \<Longrightarrow> ?thesis" by (simp add: list_all_iff)
qed

lemma run_fidelity_last:
  "fi_force st = '''' \<Longrightarrow> fi_force (run_fidelity g stages st) = '''' \<and>
    (stages \<noteq> [] \<longrightarrow> fi_last (run_fidelity g stages st) =
      (case last stages of (uses, incoming, n) \<Rightarrow> if uses then resolveFidelityMode g incoming n else ''''))"
proof (induction stages rule: rev_induct)
  case (snoc stage stages)
  obtain uses incoming n where "stage = (uses, incoming, n)" by (cases stage)
  with snoc show ?case
    by (auto simp: run_fidelity_def resolve_stage_def resolveFidelityAndThread_def Let_def)
qed (simp add: run_fidelity_def)

lemma mode_texts: "trim_space ''summary:high'' = ''summary:high''" "trim_space ''full'' = ''full''" "equal_fold ''full'' ''full''"
  by code_simp+


text \<open>An agent with full fidelity, a tool behind it, and the next agent after a resume.\<close>

definition full_graph :: graph where
  "full_graph = (NewGraph ''g'')\<lparr>g_attrs := [''default_fidelity'' \<mapsto> ''full'']\<rparr>"


text \<open>The check of a graph reports a mode in capitals that the engine takes.\<close>

lemma capital_mode_reported:
  "resolveFidelityMode (NewGraph ''g'') None ((NewNode ''a'')\<lparr>node_attrs := [''fidelity'' \<mapsto> ''FULL'']\<rparr>) = ''full''"
  "lintFidelityValid [''a''] (add_nodes [(NewNode ''a'')\<lparr>node_attrs := [''fidelity'' \<mapsto> ''FULL'']\<rparr>] (NewGraph ''g'')) \<noteq> []"
  by code_simp+

end
