(* ===== verification/Ownership.thy ===== *)
theory Ownership
  imports Prelude
begin

text \<open>
  The lock file of a run directory, \<^verbatim>\<open>internal/attractor/engine/run_ownership_lock.go\<close>: calls of
  acquireRunOwnership and releaseRunOwnership on one logs_root, cut where they touch the file.  A file
  is its content together with the call that created it, so that a write reaches the file of its own
  open and not a later one of the same name.  Pauses between attempts and texts of errors are left out.
\<close>

section \<open>Records and processes\<close>

record ownership_record =
  or_pid :: int
  or_start :: nat
  or_run :: string

text \<open>A file that is there: nothing written yet, or a record.\<close>

datatype lock_content = Blank | Written ownership_record

record process_table =
  pt_alive :: "int \<Rightarrow> bool"
  pt_start :: "int \<Rightarrow> nat option"

definition readRunOwnership :: "(nat \<times> lock_content) option \<Rightarrow> ownership_record option" where
  "readRunOwnership f = (case f of
      None \<Rightarrow> None
    | Some (c, Blank) \<Rightarrow> None
    | Some (c, Written r) \<Rightarrow> if or_pid r \<le> 0 then None else Some r)"

definition runOwnershipMatchesLiveProcess :: "process_table \<Rightarrow> ownership_record \<Rightarrow> bool" where
  "runOwnershipMatchesLiveProcess pt r =
     (if or_pid r \<le> 0 \<or> \<not> pt_alive pt (or_pid r) then False
      else if or_start r = 0 then True
      else (case pt_start pt (or_pid r) of
          None \<Rightarrow> True
        | Some start \<Rightarrow> if start = 0 then True else start = or_start r))"

section \<open>The steps of a call\<close>

definition runOwnershipAcquireAttempts :: nat where "runOwnershipAcquireAttempts = 20"

datatype acquire_error =
    OwnedBy int string
  | Unreadable
  | Exhausted
  | CreateError
  | WriteError
  | RemoveError

text \<open>
  Attempts made and whether a read has failed; then the open that found a file, the record found to be
  stale, the file created, the lock held, the release that has found its own record.
\<close>

datatype lock_phase =
    Trying nat bool
  | Looking nat bool
  | Removing nat bool
  | Writing
  | Owning
  | Releasing
  | Refused acquire_error
  | Released

record lock_state =
  lk_file :: "(nat \<times> lock_content) option"
  lk_phase :: "nat \<Rightarrow> lock_phase"

abbreviation enter :: "nat \<Rightarrow> lock_phase \<Rightarrow> lock_state \<Rightarrow> lock_state" where
  "enter c p st \<equiv> st\<lparr>lk_phase := (lk_phase st)(c := p)\<rparr>"

text \<open>The open of a lock file that must not exist yet.\<close>

definition try_create :: "bool \<Rightarrow> nat \<Rightarrow> nat \<Rightarrow> bool \<Rightarrow> lock_state \<Rightarrow> lock_state" where
  "try_create io_error c k unread st =
     (if k \<ge> runOwnershipAcquireAttempts then enter c (Refused (if unread then Unreadable else Exhausted)) st
      else if io_error then enter c (Refused CreateError) st
      else (case lk_file st of
          None \<Rightarrow> (enter c Writing st)\<lparr>lk_file := Some (c, Blank)\<rparr>
        | Some f \<Rightarrow> enter c (Looking k unread) st))"

definition write_record :: "bool \<Rightarrow> nat \<Rightarrow> ownership_record \<Rightarrow> lock_state \<Rightarrow> lock_state" where
  "write_record io_error c r st =
     (if io_error then (enter c (Refused WriteError) st)\<lparr>lk_file := None\<rparr>
      else (enter c Owning st)\<lparr>lk_file := (case lk_file st of
          None \<Rightarrow> None
        | Some (c', ct) \<Rightarrow> if c' = c then Some (c, Written r) else Some (c', ct))\<rparr>)"

definition inspect_lock :: "process_table \<Rightarrow> nat \<Rightarrow> nat \<Rightarrow> bool \<Rightarrow> lock_state \<Rightarrow> lock_state" where
  "inspect_lock pt c k unread st = (case readRunOwnership (lk_file st) of
      None \<Rightarrow> enter c (Trying (k + 1) True) st
    | Some r \<Rightarrow> if runOwnershipMatchesLiveProcess pt r then enter c (Refused (OwnedBy (or_pid r) (trim_space (or_run r)))) st
        else enter c (Removing k unread) st)"

definition remove_stale :: "bool \<Rightarrow> nat \<Rightarrow> nat \<Rightarrow> bool \<Rightarrow> lock_state \<Rightarrow> lock_state" where
  "remove_stale io_error c k unread st =
     (if io_error \<and> lk_file st \<noteq> None then enter c (Refused RemoveError) st
      else (enter c (Trying (k + 1) unread) st)\<lparr>lk_file := None\<rparr>)"

definition releaseRunOwnership :: "nat \<Rightarrow> ownership_record \<Rightarrow> lock_state \<Rightarrow> lock_state" where
  "releaseRunOwnership c own st = (case readRunOwnership (lk_file st) of
      None \<Rightarrow> enter c Released st
    | Some r \<Rightarrow>
        if or_pid r \<noteq> or_pid own \<or> (or_start own > 0 \<and> or_start r > 0 \<and> or_start r \<noteq> or_start own)
        then enter c Released st else enter c Releasing st)"

definition remove_own :: "bool \<Rightarrow> nat \<Rightarrow> lock_state \<Rightarrow> lock_state" where
  "remove_own io_error c st =
     (if io_error then enter c Released st else (enter c Released st)\<lparr>lk_file := None\<rparr>)"

definition acquireRunOwnership ::
  "process_table \<Rightarrow> (nat \<Rightarrow> ownership_record) \<Rightarrow> bool \<Rightarrow> nat \<Rightarrow> lock_state \<Rightarrow> lock_state" where
  "acquireRunOwnership pt own io_error c st = (case lk_phase st c of
      Trying k unread \<Rightarrow> try_create io_error c k unread st
    | Looking k unread \<Rightarrow> inspect_lock pt c k unread st
    | Removing k unread \<Rightarrow> remove_stale io_error c k unread st
    | Writing \<Rightarrow> write_record io_error c (own c) st
    | Owning \<Rightarrow> releaseRunOwnership c (own c) st
    | Releasing \<Rightarrow> remove_own io_error c st
    | Refused err \<Rightarrow> st
    | Released \<Rightarrow> st)"

text \<open>Any call may move next, and any of its accesses may fail.\<close>

inductive lock_step :: "process_table \<Rightarrow> (nat \<Rightarrow> ownership_record) \<Rightarrow> lock_state \<Rightarrow> lock_state \<Rightarrow> bool"
  for pt own where
  "lock_step pt own st (acquireRunOwnership pt own io_error c st)"

fun lock_run :: "process_table \<Rightarrow> (nat \<Rightarrow> ownership_record) \<Rightarrow> nat list \<Rightarrow> lock_state \<Rightarrow> lock_state" where
  "lock_run pt own [] st = st"
| "lock_run pt own (c # cs) st = lock_run pt own cs (acquireRunOwnership pt own False c st)"

definition lock_start :: "(nat \<times> lock_content) option \<Rightarrow> lock_state" where
  "lock_start f = \<lparr>lk_file = f, lk_phase = (\<lambda>c. Trying 0 False)\<rparr>"

lemma lock_run_steps: "(lock_step pt own)\<^sup>*\<^sup>* st (lock_run pt own cs st)"
  by (induction cs arbitrary: st) (auto intro: converse_rtranclp_into_rtranclp lock_step.intros)

section \<open>One owner\<close>

definition holding :: "lock_state \<Rightarrow> nat \<Rightarrow> bool" where
  "holding st c \<longleftrightarrow> lk_phase st c \<in> {Writing, Owning, Releasing}"

text \<open>The record in the file, if it has one, is not stale.\<close>

definition fresh_file :: "process_table \<Rightarrow> (nat \<times> lock_content) option \<Rightarrow> bool" where
  "fresh_file pt f \<longleftrightarrow> (\<forall>r. readRunOwnership f = Some r \<longrightarrow> runOwnershipMatchesLiveProcess pt r)"

definition lock_inv :: "process_table \<Rightarrow> lock_state \<Rightarrow> bool" where
  "lock_inv pt st \<longleftrightarrow> fresh_file pt (lk_file st) \<and> (\<forall>c k unread. lk_phase st c \<noteq> Removing k unread) \<and>
     (\<forall>c. holding st c \<longrightarrow> (\<exists>ct. lk_file st = Some (c, ct)))"

lemma fresh_simps [simp]: "fresh_file pt None" "fresh_file pt (Some (c, Blank))"
  by (simp_all add: fresh_file_def readRunOwnership_def)

lemma lock_inv_step:
  assumes "lock_inv pt st" "\<forall>c. runOwnershipMatchesLiveProcess pt (own c)"
  shows "lock_inv pt (acquireRunOwnership pt own io_error c st)"
proof (cases "lk_phase st c")
  case (Trying k unread)
  with assms show ?thesis
    by (auto simp: acquireRunOwnership_def try_create_def lock_inv_def holding_def split: option.splits)
next
  case (Looking k unread)
  with assms show ?thesis
    by (auto simp: acquireRunOwnership_def inspect_lock_def lock_inv_def holding_def fresh_file_def split: option.splits)
next
  case (Removing k unread)
  with assms show ?thesis by (auto simp: lock_inv_def)
next
  case Writing
  with assms(1) obtain ct where f: "lk_file st = Some (c, ct)" by (auto simp: lock_inv_def holding_def)
  have others: "holding st c' \<Longrightarrow> c' = c" for c' using assms(1) f by (auto simp: lock_inv_def)
  show ?thesis
    using assms Writing f others
    by (auto simp: acquireRunOwnership_def write_record_def lock_inv_def holding_def fresh_file_def readRunOwnership_def)
next
  case Owning
  with assms show ?thesis
    by (auto simp: acquireRunOwnership_def releaseRunOwnership_def lock_inv_def holding_def split: option.splits)
next
  case Releasing
  with assms(1) obtain ct where f: "lk_file st = Some (c, ct)" by (auto simp: lock_inv_def holding_def)
  have others: "holding st c' \<Longrightarrow> c' = c" for c' using assms(1) f by (auto simp: lock_inv_def)
  show ?thesis
    using assms Releasing f others
    by (auto simp: acquireRunOwnership_def remove_own_def lock_inv_def holding_def)
qed (use assms in \<open>auto simp: acquireRunOwnership_def\<close>)

lemma lock_inv_steps:
  assumes "(lock_step pt own)\<^sup>*\<^sup>* st st'" "lock_inv pt st" "\<forall>c. runOwnershipMatchesLiveProcess pt (own c)"
  shows "lock_inv pt st'"
  using assms by (induction rule: rtranclp_induct) (auto elim!: lock_step.cases intro: lock_inv_step)

text \<open>
  C14: as long as no process dies and no stale record lies in the directory at first, at most one call
  holds the lock at a time, however the calls are interleaved and whichever accesses fail.
\<close>

theorem ownership_exclusive:
  assumes "\<forall>c. runOwnershipMatchesLiveProcess pt (own c)" and "fresh_file pt f"
    and "(lock_step pt own)\<^sup>*\<^sup>* (lock_start f) st" and "holding st c" and "holding st c'"
  shows "c = c' \<and> (\<exists>ct. lk_file st = Some (c, ct))"
proof -
  have "lock_inv pt (lock_start f)" using assms(2) by (simp add: lock_inv_def lock_start_def holding_def)
  from lock_inv_steps [OF assms(3) this assms(1)] assms(4,5) show ?thesis
    unfolding lock_inv_def by (metis option.inject prod.inject)
qed

text \<open>Two processes of which the second comes while the first writes, and then when it owns the lock.\<close>

definition two_procs :: process_table where
  "two_procs = \<lparr>pt_alive = (\<lambda>p. p \<in> {101, 102}), pt_start = (\<lambda>p. Some (nat p * 10))\<rparr>"

definition two_owners :: "nat \<Rightarrow> ownership_record" where
  "two_owners c = (if c = 1 then \<lparr>or_pid = 101, or_start = 1010, or_run = ''r1''\<rparr>
     else \<lparr>or_pid = 102, or_start = 1020, or_run = ''r2''\<rparr>)"

theorem ownership_exclusive_witness:
  "holding (lock_run two_procs two_owners [1, 2, 2, 1, 2, 2] (lock_start None)) 1 \<and>
   \<not> holding (lock_run two_procs two_owners [1, 2, 2, 1, 2, 2] (lock_start None)) 2"
proof -
  let ?st = "lock_run two_procs two_owners [1, 2, 2, 1, 2, 2] (lock_start None)"
  have "\<forall>c. runOwnershipMatchesLiveProcess two_procs (two_owners c)"
    by (simp add: runOwnershipMatchesLiveProcess_def two_procs_def two_owners_def)
  moreover have one: "holding ?st 1" by code_simp
  ultimately have "holding ?st 2 \<Longrightarrow> (1::nat) = 2"
    using ownership_exclusive [OF _ _ lock_run_steps, of two_procs two_owners None "[1, 2, 2, 1, 2, 2]" 1 2] by simp
  with one show ?thesis by auto
qed

section \<open>Locks left behind\<close>

text \<open>A stale record alone is taken over.\<close>

lemma stale_lock_taken_over:
  assumes "or_pid r > 0" "\<not> runOwnershipMatchesLiveProcess pt r"
  shows "lk_phase (lock_run pt own [c, c, c, c, c] (lock_start (Some (d, Written r)))) c = Owning"
  using assms by (simp add: lock_start_def acquireRunOwnership_def try_create_def inspect_lock_def remove_stale_def
      write_record_def readRunOwnership_def runOwnershipAcquireAttempts_def)

text \<open>
  Two calls that both read it are not told apart: the one that comes later removes the lock that the
  other has just taken, and both own the directory.
\<close>

lemma stale_lock_two_owners:
  "let st = lock_run two_procs two_owners [1, 1, 2, 2, 1, 1, 1, 2, 2, 2]
       (lock_start (Some (9, Written \<lparr>or_pid = 99, or_start = 990, or_run = ''r0''\<rparr>)))
   in lk_phase st 1 = Owning \<and> lk_phase st 2 = Owning"
  by code_simp

text \<open>A lock whose creator died before it wrote is never cleared: no later call gets the directory.\<close>

inductive later_step :: "nat \<Rightarrow> process_table \<Rightarrow> (nat \<Rightarrow> ownership_record) \<Rightarrow> lock_state \<Rightarrow> lock_state \<Rightarrow> bool"
  for d pt own where
  "c \<noteq> d \<Longrightarrow> later_step d pt own st (acquireRunOwnership pt own io_error c st)"

lemma blank_lock_blocks:
  assumes "(later_step d pt own)\<^sup>*\<^sup>* (lock_start (Some (d, Blank))) st"
  shows "lk_file st = Some (d, Blank) \<and> (\<forall>c. \<not> holding st c)"
proof -
  let ?I = "\<lambda>st. lk_file st = Some (d, Blank) \<and> (\<forall>c. \<not> holding st c \<and> (\<forall>k u. lk_phase st c \<noteq> Removing k u))"
  have "?I st"
    using assms
  proof (induction rule: rtranclp_induct)
    case base
    show ?case by (simp add: lock_start_def holding_def)
  next
    case (step st st')
    then obtain io_error c where "st' = acquireRunOwnership pt own io_error c st" by (auto elim: later_step.cases)
    with step.IH show ?case
      by (auto simp: acquireRunOwnership_def try_create_def inspect_lock_def readRunOwnership_def holding_def split: lock_phase.splits)
  qed
  then show ?thesis by blast
qed

end
