(* ===== verification/ArtifactStore.thy ===== *)
theory ArtifactStore
  imports GoStrings
begin

text \<open>
  The store for the outputs of stages, \<^verbatim>\<open>internal/attractor/engine/artifact_store.go\<close>: small artifacts
  in memory, larger ones in files of the run's directory.  The file system is a map from paths to
  contents; what a call of it answers and the time are an environment, and the hash of contents is a
  parameter.  The lock that makes the operations atomic is left out.
\<close>

section \<open>Names and state\<close>

text \<open>filepath.Base of a Unix path.\<close>

definition path_base :: "string \<Rightarrow> string" where
  "path_base p = (if p = '''' then ''.''
     else (let q = rev (dropWhile (\<lambda>c. c = CHR ''/'') (rev p)); r = rev (takeWhile (\<lambda>c. c \<noteq> CHR ''/'') (rev q)) in
       if r = '''' then ''/'' else r))"

datatype artifact_error = InvalidID | NotFound | ReadFailed | MkdirFailed string | WriteFailed string

definition sanitizeArtifactID :: "string \<Rightarrow> artifact_error + string" where
  "sanitizeArtifactID i =
     (if i = '''' then Inl InvalidID
      else if contains_sub ''/'' i \<or> contains_sub [CHR 0x5C] i then Inl InvalidID
      else if contains_sub ''..'' i then Inl InvalidID
      else (let safe = path_base i in if safe \<noteq> i \<or> safe = ''.'' \<or> safe = ''..'' then Inl InvalidID else Inr safe))"

definition DefaultFileBackingThreshold :: int where "DefaultFileBackingThreshold = 100 * 1024"

record artifact_info =
  ai_id :: string
  ai_name :: string
  ai_size :: int
  ai_stored_at :: nat
  ai_file_backed :: bool
  ai_hash :: string

record artifact_entry =
  ent_info :: artifact_info
  ent_data :: string
  ent_path :: string

record artifact_store =
  as_artifacts :: "string \<rightharpoonup> artifact_entry"
  as_base :: string
  as_threshold :: int
  as_files :: "string \<rightharpoonup> string"

definition NewArtifactStore :: "string \<Rightarrow> int \<Rightarrow> (string \<rightharpoonup> string) \<Rightarrow> artifact_store" where
  "NewArtifactStore base threshold files =
     \<lparr>as_artifacts = Map.empty, as_base = base, as_threshold = threshold, as_files = files\<rparr>"

definition artifact_path :: "string \<Rightarrow> string \<Rightarrow> string" where
  "artifact_path base i = base @ ''/artifacts/'' @ i @ ''.json''"

section \<open>Operations\<close>

text \<open>Errors of the directory and of the file, with what a failed write leaves of it; the clock.\<close>

record store_io =
  si_mkdir :: "string option"
  si_write :: "(string \<times> string option) option"
  si_now :: nat

definition artifact_entry_of :: "(string \<Rightarrow> string) \<Rightarrow> store_io \<Rightarrow> string \<Rightarrow> string \<Rightarrow> string \<Rightarrow> artifact_store \<Rightarrow> artifact_entry" where
  "artifact_entry_of hsh io i nm data st =
     (let backed = (int (length data) > as_threshold st \<and> as_base st \<noteq> '''') in
      \<lparr>ent_info = \<lparr>ai_id = i, ai_name = nm, ai_size = int (length data), ai_stored_at = si_now io,
         ai_file_backed = backed, ai_hash = ''sha256:'' @ hsh data\<rparr>,
       ent_data = (if backed then '''' else data), ent_path = (if backed then artifact_path (as_base st) i else '''')\<rparr>)"

definition remove_file :: "artifact_entry \<Rightarrow> (string \<rightharpoonup> string) \<Rightarrow> (string \<rightharpoonup> string)" where
  "remove_file e files = (if ai_file_backed (ent_info e) \<and> ent_path e \<noteq> '''' then files(ent_path e := None) else files)"

text \<open>The entry takes its place in the map after the file of the one it replaces has been removed.\<close>

definition put_entry :: "string \<Rightarrow> artifact_entry \<Rightarrow> artifact_store \<Rightarrow> artifact_store" where
  "put_entry i e st = st\<lparr>as_artifacts := (as_artifacts st)(i \<mapsto> e),
     as_files := (case as_artifacts st i of None \<Rightarrow> as_files st | Some old \<Rightarrow> remove_file old (as_files st))\<rparr>"

definition Store ::
  "(string \<Rightarrow> string) \<Rightarrow> store_io \<Rightarrow> string \<Rightarrow> string \<Rightarrow> string \<Rightarrow> artifact_store \<Rightarrow> (artifact_error + artifact_info) \<times> artifact_store" where
  "Store hsh io i0 nm data st = (case sanitizeArtifactID i0 of
      Inl err \<Rightarrow> (Inl err, st)
    | Inr i \<Rightarrow>
        (let e = artifact_entry_of hsh io i nm data st; info = ent_info e in
         if \<not> ai_file_backed info then (Inr info, put_entry i e st)
         else (case si_mkdir io of
             Some err \<Rightarrow> (Inl (MkdirFailed err), st)
           | None \<Rightarrow> (case si_write io of
               Some (err, left) \<Rightarrow> (Inl (WriteFailed err), st\<lparr>as_files := (as_files st)(ent_path e := left)\<rparr>)
             | None \<Rightarrow> (Inr info, put_entry i e (st\<lparr>as_files := (as_files st)(ent_path e \<mapsto> data)\<rparr>))))))"

definition Retrieve :: "string \<Rightarrow> artifact_store \<Rightarrow> artifact_error + string" where
  "Retrieve i st = (case sanitizeArtifactID i of
      Inl err \<Rightarrow> Inl err
    | Inr safe \<Rightarrow> (case as_artifacts st i of
        None \<Rightarrow> Inl NotFound
      | Some e \<Rightarrow>
          if ai_file_backed (ent_info e) then
            (case as_files st (ent_path e) of None \<Rightarrow> Inl ReadFailed | Some data \<Rightarrow> Inr data)
          else Inr (ent_data e)))"

definition Has :: "string \<Rightarrow> artifact_store \<Rightarrow> bool" where
  "Has i st = (case sanitizeArtifactID i of Inl err \<Rightarrow> False | Inr safe \<Rightarrow> as_artifacts st i \<noteq> None)"

text \<open>The infos of a range over the map, sorted by identifier.\<close>

definition ListArtifacts :: "string list \<Rightarrow> artifact_store \<Rightarrow> artifact_info list" where
  "ListArtifacts order st = sort_key ai_id (map (\<lambda>i. ent_info (the (as_artifacts st i))) (filter (\<lambda>i. as_artifacts st i \<noteq> None) order))"

definition Remove :: "string \<Rightarrow> artifact_store \<Rightarrow> bool \<times> artifact_store" where
  "Remove i st = (case sanitizeArtifactID i of
      Inl err \<Rightarrow> (False, st)
    | Inr safe \<Rightarrow> (case as_artifacts st i of
        None \<Rightarrow> (False, st)
      | Some e \<Rightarrow> (True, st\<lparr>as_files := remove_file e (as_files st), as_artifacts := (as_artifacts st)(i := None)\<rparr>)))"

definition Clear :: "string list \<Rightarrow> artifact_store \<Rightarrow> nat \<times> artifact_store" where
  "Clear order st =
     (let ids = filter (\<lambda>i. as_artifacts st i \<noteq> None) order in
      (length ids, st\<lparr>as_files := fold (\<lambda>i. remove_file (the (as_artifacts st i))) ids (as_files st), as_artifacts := Map.empty\<rparr>))"

definition Info :: "string \<Rightarrow> artifact_store \<Rightarrow> artifact_info option" where
  "Info i st = (case sanitizeArtifactID i of Inl err \<Rightarrow> None | Inr safe \<Rightarrow> map_option ent_info (as_artifacts st i))"

section \<open>Invariant\<close>

lemma sanitize_same: "sanitizeArtifactID i = Inr j \<Longrightarrow> j = i"
  by (auto simp: sanitizeArtifactID_def Let_def split: if_splits)

lemma artifact_path_inj [simp]: "artifact_path base i = artifact_path base j \<longleftrightarrow> i = j"
  by (simp add: artifact_path_def)

lemma artifact_path_not_empty [simp]: "artifact_path base i \<noteq> ''''"
  by (simp add: artifact_path_def)

definition store_inv :: "artifact_store \<Rightarrow> bool" where
  "store_inv st \<longleftrightarrow> (\<forall>i e. as_artifacts st i = Some e \<longrightarrow> sanitizeArtifactID i = Inr i \<and> ai_id (ent_info e) = i \<and>
     (ai_file_backed (ent_info e) \<longrightarrow> ent_path e = artifact_path (as_base st) i))"

lemma store_inv_new [simp]: "store_inv (NewArtifactStore base threshold files)"
  by (simp add: store_inv_def NewArtifactStore_def)

lemma entry_of_simps [simp]:
  "ai_id (ent_info (artifact_entry_of hsh io i nm data st)) = i"
  "ai_file_backed (ent_info (artifact_entry_of hsh io i nm data st)) \<longleftrightarrow> int (length data) > as_threshold st \<and> as_base st \<noteq> ''''"
  "ai_file_backed (ent_info (artifact_entry_of hsh io i nm data st)) \<Longrightarrow>
     ent_path (artifact_entry_of hsh io i nm data st) = artifact_path (as_base st) i"
  "\<not> ai_file_backed (ent_info (artifact_entry_of hsh io i nm data st)) \<Longrightarrow> ent_data (artifact_entry_of hsh io i nm data st) = data"
  by (auto simp: artifact_entry_of_def Let_def)

lemma store_inv_put:
  assumes "store_inv st" "sanitizeArtifactID i = Inr i" "ai_id (ent_info e) = i"
    "ai_file_backed (ent_info e) \<longrightarrow> ent_path e = artifact_path (as_base st) i"
  shows "store_inv (put_entry i e st)"
  using assms by (auto simp: store_inv_def put_entry_def)

lemma store_inv_files: "store_inv (st\<lparr>as_files := files\<rparr>) = store_inv st"
  by (simp add: store_inv_def)

lemma store_inv_Store: "store_inv st \<Longrightarrow> store_inv (snd (Store hsh io i nm data st))"
  by (auto simp: Store_def Let_def store_inv_files dest: sanitize_same intro!: store_inv_put split: sum.splits option.splits)

lemma store_inv_Remove: "store_inv st \<Longrightarrow> store_inv (snd (Remove i st))"
  by (auto simp: Remove_def store_inv_def split: sum.splits option.splits)

lemma store_inv_Clear: "store_inv (snd (Clear order st))"
  by (simp add: Clear_def store_inv_def Let_def)

section \<open>What is stored is found\<close>

definition backed :: "artifact_store \<Rightarrow> string \<Rightarrow> bool" where
  "backed st i \<longleftrightarrow> (\<exists>e. as_artifacts st i = Some e \<and> ai_file_backed (ent_info e))"

text \<open>Removing the file of one artifact leaves the others.\<close>

lemma Retrieve_put_other:
  assumes "store_inv st" "k \<noteq> i"
  shows "Retrieve k (put_entry i e st) = Retrieve k st"
  using assms by (auto simp: Retrieve_def put_entry_def remove_file_def store_inv_def split: sum.splits option.splits)

lemma Retrieve_write_other:
  assumes "store_inv st" "k \<noteq> i"
  shows "Retrieve k (st\<lparr>as_files := (as_files st)(artifact_path (as_base st) i := c)\<rparr>) = Retrieve k st"
  using assms by (auto simp: Retrieve_def store_inv_def split: sum.splits option.splits)

lemma Store_other:
  assumes "store_inv st" "k \<noteq> i"
  shows "Retrieve k (snd (Store hsh io i nm data st)) = Retrieve k st"
  using assms
  by (auto simp: Store_def Let_def Retrieve_put_other Retrieve_write_other store_inv_files
      dest!: sanitize_same split: sum.splits option.splits)

lemma Store_same:
  assumes "store_inv st" "Store hsh io i nm data st = (Inr info, st')"
  shows "Retrieve i st' = (if ai_file_backed info \<and> backed st i then Inl ReadFailed else Inr data)"
  using assms
  by (auto simp: Store_def Let_def Retrieve_def put_entry_def remove_file_def backed_def store_inv_def
      dest!: sanitize_same split: sum.splits option.splits if_splits)

text \<open>
  C15: after an artifact has been stored it is retrieved as it was given and the others are as before,
  whatever lies in memory or in files; except that storing over an artifact that was in a file one that
  goes to a file again loses both, since the file of the old one is removed after the new one is written.
\<close>

theorem stored_artifact_retrieved:
  assumes "store_inv st" and "Store hsh io i nm data st = (Inr info, st')"
  shows "store_inv st' \<and> Info i st' = Some info \<and>
    Retrieve i st' = (if ai_file_backed info \<and> backed st i then Inl ReadFailed else Inr data) \<and>
    (\<forall>k. k \<noteq> i \<longrightarrow> Retrieve k st' = Retrieve k st)"
proof -
  have "st' = snd (Store hsh io i nm data st)" using assms(2) by simp
  then have "store_inv st'" "\<forall>k. k \<noteq> i \<longrightarrow> Retrieve k st' = Retrieve k st"
    using store_inv_Store [OF assms(1)] Store_other [OF assms(1)] by auto
  moreover have "Info i st' = Some info"
    using assms(2) by (auto simp: Store_def Info_def Let_def put_entry_def dest: sanitize_same split: sum.splits option.splits if_splits)
  ultimately show ?thesis using Store_same [OF assms] by blast
qed

definition calm_io :: store_io where "calm_io = \<lparr>si_mkdir = None, si_write = None, si_now = 0\<rparr>"

definition small_store :: artifact_store where
  "small_store = NewArtifactStore ''logs'' 3 Map.empty"

lemma plan_id: "sanitizeArtifactID ''plan'' = Inr ''plan''"
  by code_simp

theorem stored_artifact_retrieved_witness:
  "Retrieve ''plan'' (snd (Store id calm_io ''plan'' ''Plan'' ''a long plan'' small_store)) = Inr ''a long plan''"
proof -
  have "Store id calm_io ''plan'' ''Plan'' ''a long plan'' small_store =
      (Inr (ent_info (artifact_entry_of id calm_io ''plan'' ''Plan'' ''a long plan'' small_store)),
       snd (Store id calm_io ''plan'' ''Plan'' ''a long plan'' small_store))"
    by (simp add: Store_def Let_def calm_io_def plan_id)
  moreover have "\<not> backed small_store ''plan''" by (simp add: backed_def small_store_def NewArtifactStore_def)
  moreover have "store_inv small_store" by (simp add: small_store_def)
  ultimately show ?thesis using stored_artifact_retrieved [of small_store id calm_io "''plan''" "''Plan''" "''a long plan''"]
    by (auto split: if_splits)
qed

text \<open>The file of the artifact that has just been replaced by a large one is gone.\<close>

lemma large_over_large_lost:
  "let st = snd (Store id calm_io ''plan'' ''Plan'' ''a long plan'' small_store);
       st' = snd (Store id calm_io ''plan'' ''Plan'' ''another plan'' st)
   in Has ''plan'' st' \<and> Retrieve ''plan'' st' = Inl ReadFailed"
  by code_simp

section \<open>The store as a map\<close>

text \<open>
  What stages rely on: a value that is put where it fits is got back until its key is put again or
  dropped.
\<close>

locale keyed_store =
  fixes invar :: "'s \<Rightarrow> bool"
    and put :: "'k \<Rightarrow> 'v \<Rightarrow> 's \<Rightarrow> 's"
    and get :: "'k \<Rightarrow> 's \<Rightarrow> 'v option"
    and drop_key :: "'k \<Rightarrow> 's \<Rightarrow> 's"
    and fits :: "'k \<Rightarrow> 'v \<Rightarrow> 's \<Rightarrow> bool"
  assumes invar_put: "invar s \<Longrightarrow> invar (put k v s)"
    and invar_drop: "invar s \<Longrightarrow> invar (drop_key k s)"
    and get_put: "invar s \<Longrightarrow> fits k v s \<Longrightarrow> get k (put k v s) = Some v"
    and get_put_other: "invar s \<Longrightarrow> k' \<noteq> k \<Longrightarrow> get k' (put k v s) = get k' s"
    and get_drop: "invar s \<Longrightarrow> get k (drop_key k s) = None"
    and get_drop_other: "invar s \<Longrightarrow> k' \<noteq> k \<Longrightarrow> get k' (drop_key k s) = get k' s"
begin

fun put_all :: "('k \<times> 'v) list \<Rightarrow> 's \<Rightarrow> 's" where
  "put_all [] s = s"
| "put_all ((k, v) # kvs) s = put_all kvs (put k v s)"

fun all_fit :: "('k \<times> 'v) list \<Rightarrow> 's \<Rightarrow> bool" where
  "all_fit [] s \<longleftrightarrow> True"
| "all_fit ((k, v) # kvs) s \<longleftrightarrow> fits k v s \<and> all_fit kvs (put k v s)"

lemma invar_put_all: "invar s \<Longrightarrow> invar (put_all kvs s)"
  by (induction kvs s rule: put_all.induct) (simp_all add: invar_put)

text \<open>The last value of a key wins.\<close>

lemma get_put_all:
  "invar s \<Longrightarrow> all_fit kvs s \<Longrightarrow> get k (put_all kvs s) = (case map_of (rev kvs) k of None \<Rightarrow> get k s | Some v \<Rightarrow> Some v)"
proof (induction kvs s rule: put_all.induct)
  case (2 k' v kvs s)
  then have "get k (put_all kvs (put k' v s)) = (case map_of (rev kvs) k of None \<Rightarrow> get k (put k' v s) | Some v \<Rightarrow> Some v)"
    by (simp add: invar_put)
  moreover have "get k (put k' v s) = (if k = k' then Some v else get k s)"
    using 2 by (simp add: get_put get_put_other)
  ultimately show ?case by (auto simp: map_add_def split: option.splits)
qed simp

lemma get_drop_put:
  assumes "invar s" "k \<noteq> k'" "fits k v s"
  shows "get k (drop_key k' (put k v s)) = Some v"
  using assms by (simp add: get_drop_other get_put invar_put)

end

definition ok_value :: "artifact_error + string \<Rightarrow> string option" where
  "ok_value r = (case r of Inl err \<Rightarrow> None | Inr v \<Rightarrow> Some v)"

definition artifact_fits :: "string \<Rightarrow> string \<Rightarrow> artifact_store \<Rightarrow> bool" where
  "artifact_fits i data st \<longleftrightarrow> sanitizeArtifactID i = Inr i \<and>
     \<not> (int (length data) > as_threshold st \<and> as_base st \<noteq> '''' \<and> backed st i)"

lemma Store_calm:
  assumes "sanitizeArtifactID i = Inr i"
  shows "Store hsh calm_io i nm data st = (Inr (ent_info (artifact_entry_of hsh calm_io i nm data st)), snd (Store hsh calm_io i nm data st))"
  using assms by (simp add: Store_def Let_def calm_io_def)

lemma Retrieve_Remove:
  assumes "store_inv st"
  shows "ok_value (Retrieve i (snd (Remove i st))) = None" "k \<noteq> i \<Longrightarrow> Retrieve k (snd (Remove i st)) = Retrieve k st"
  using assms
  by (auto simp: ok_value_def Retrieve_def Remove_def remove_file_def store_inv_def split: sum.splits option.splits)

interpretation artifacts: keyed_store store_inv "\<lambda>i data st. snd (Store hsh calm_io i nm data st)"
  "\<lambda>i st. ok_value (Retrieve i st)" "\<lambda>i st. snd (Remove i st)" artifact_fits
proof unfold_locales
  fix st i data
  assume inv: "store_inv st"
  then show "store_inv (snd (Store hsh calm_io i nm data st))" "store_inv (snd (Remove i st))"
    by (simp_all add: store_inv_Store store_inv_Remove)
  show "ok_value (Retrieve i (snd (Remove i st))) = None" by (rule Retrieve_Remove [OF inv])
  show "ok_value (Retrieve i (snd (Store hsh calm_io i nm data st))) = Some data" if fits: "artifact_fits i data st"
  proof -
    have i: "sanitizeArtifactID i = Inr i" using fits by (simp add: artifact_fits_def)
    from Store_same [OF inv Store_calm [OF i]] fits show ?thesis by (auto simp: artifact_fits_def ok_value_def)
  qed
  fix k assume "k \<noteq> i"
  then show "ok_value (Retrieve k (snd (Store hsh calm_io i nm data st))) = ok_value (Retrieve k st)"
    "ok_value (Retrieve k (snd (Remove i st))) = ok_value (Retrieve k st)"
    using Store_other [OF inv] Retrieve_Remove(2) [OF inv] by simp_all
qed

text \<open>In a store without a directory everything fits, and a sequence of artifacts is a map.\<close>

lemma memory_fits: "as_base st = '''' \<Longrightarrow> list_all (\<lambda>(i, data). sanitizeArtifactID i = Inr i) kvs \<Longrightarrow> artifacts.all_fit hsh nm kvs st"
proof (induction kvs arbitrary: st)
  case (Cons kv kvs)
  obtain i data where kv: "kv = (i, data)" by (cases kv)
  have "as_base (snd (Store hsh calm_io i nm data st)) = ''''"
    using Cons.prems(1) by (auto simp: Store_def Let_def put_entry_def split: sum.splits option.splits)
  moreover have "artifact_fits i data st" using Cons.prems kv by (simp add: artifact_fits_def)
  ultimately show ?case using Cons by (simp add: kv)
qed simp

lemma memory_store_is_map:
  assumes "list_all (\<lambda>(i, data). sanitizeArtifactID i = Inr i) kvs"
  shows "ok_value (Retrieve k (artifacts.put_all hsh nm kvs (NewArtifactStore '''' n files))) = map_of (rev kvs) k"
proof -
  have "artifacts.all_fit hsh nm kvs (NewArtifactStore '''' n files)"
    by (rule memory_fits [OF _ assms]) (simp add: NewArtifactStore_def)
  from artifacts.get_put_all [OF store_inv_new this] show ?thesis
    by (auto simp: ok_value_def Retrieve_def NewArtifactStore_def split: option.splits sum.splits)
qed

end
