(* ===== verification/WorkerPool.thy ===== *)
theory WorkerPool
  imports ParallelPolicy
begin

text \<open>
  The goroutines of dispatchParallelBranchesStreaming in \<^verbatim>\<open>internal/attractor/engine/parallel_policy.go\<close>:
  one that hands out jobs, a number of workers that run branches, and the reader of the results, which may
  cancel the rest.  Their steps are interleaved freely; the branches themselves are relations between the
  place of a branch, whether the dispatch has been cancelled, and a result.
\<close>

section \<open>The pool\<close>

definition pool_workers :: "node \<Rightarrow> nat \<Rightarrow> nat" where
  "pool_workers n len =
     (let m = parseInt (node_Attr (Some n) ''max_parallel'' '''') 4; maxParallel = (if m \<le> 0 then 4 else m) in
      if maxParallel > int len then len else nat maxParallel)"

text \<open>
  The next job, whether the jobs channel is closed, the jobs in the hands of workers, the results in
  the channel, those that have been read, the reader's variables, and the state of the context.
\<close>

record pool =
  wp_next :: nat
  wp_closed :: bool
  wp_running :: "nat list"
  wp_buffer :: "(nat \<times> branch_result) list"
  wp_received :: "(nat \<times> branch_result) list"
  wp_stream :: stream_state
  wp_cancelled :: bool

definition pool_start :: "nat \<Rightarrow> pool" where
  "pool_start len = \<lparr>wp_next = 0, wp_closed = False, wp_running = [], wp_buffer = [], wp_received = [],
     wp_stream = \<lparr>ss_slots = replicate len zero_branch_result, ss_success = 0, ss_fail = 0, ss_received = 0, ss_terminated = False\<rparr>,
     wp_cancelled = False\<rparr>"

text \<open>The channel of results is closed once the workers are done, which ends the reader.\<close>

definition pool_finished :: "pool \<Rightarrow> bool" where
  "pool_finished st \<longleftrightarrow> wp_closed st \<and> wp_running st = [] \<and> wp_buffer st = []"

text \<open>An idle worker takes the job that the feeder offers.\<close>

definition hand_out :: "pool \<Rightarrow> pool" where
  "hand_out st = st\<lparr>wp_next := Suc (wp_next st), wp_running := wp_next st # wp_running st\<rparr>"

definition branch_done :: "nat \<Rightarrow> branch_result \<Rightarrow> pool \<Rightarrow> pool" where
  "branch_done i r st = st\<lparr>wp_running := remove1 i (wp_running st), wp_buffer := wp_buffer st @ [(i, r)]\<rparr>"

definition read_result :: "join_policy \<Rightarrow> error_policy \<Rightarrow> node \<Rightarrow> pool \<Rightarrow> pool" where
  "read_result jp ep n st = (case wp_buffer st of
      [] \<Rightarrow> st
    | ir # irs \<Rightarrow> (let s = stream_step jp ep n ir (wp_stream st) in
        st\<lparr>wp_buffer := irs, wp_received := wp_received st @ [ir], wp_stream := s,
           wp_cancelled := (wp_cancelled st \<or> ss_terminated s)\<rparr>))"

inductive pool_step ::
  "(nat \<Rightarrow> bool \<Rightarrow> branch_result \<Rightarrow> bool) \<Rightarrow> join_policy \<Rightarrow> error_policy \<Rightarrow> node \<Rightarrow> nat \<Rightarrow> nat \<Rightarrow> pool \<Rightarrow> pool \<Rightarrow> bool"
  for may jp ep n len workers where
  pool_feed: "\<not> wp_closed st \<Longrightarrow> wp_next st < len \<Longrightarrow> length (wp_running st) < workers \<Longrightarrow>
     pool_step may jp ep n len workers st (hand_out st)"
| pool_close: "\<not> wp_closed st \<Longrightarrow> wp_next st = len \<Longrightarrow> pool_step may jp ep n len workers st (st\<lparr>wp_closed := True\<rparr>)"
| pool_give_up: "\<not> wp_closed st \<Longrightarrow> wp_cancelled st \<Longrightarrow> pool_step may jp ep n len workers st (st\<lparr>wp_closed := True\<rparr>)"
| pool_done: "i \<in> set (wp_running st) \<Longrightarrow> may i (wp_cancelled st) r \<Longrightarrow> pool_step may jp ep n len workers st (branch_done i r st)"
| pool_read: "wp_buffer st \<noteq> [] \<Longrightarrow> pool_step may jp ep n len workers st (read_result jp ep n st)"
| pool_cancel: "\<not> wp_cancelled st \<Longrightarrow> \<not> pool_finished st \<Longrightarrow>
     pool_step may jp ep n len workers st (st\<lparr>wp_cancelled := True\<rparr>)"

section \<open>Invariant\<close>

text \<open>Every job that was handed out is at one place, and the reader has seen what it has received.\<close>

definition pool_places :: "pool \<Rightarrow> nat list" where
  "pool_places st = wp_running st @ map fst (wp_buffer st) @ map fst (wp_received st)"

definition pool_inv :: "(nat \<Rightarrow> bool \<Rightarrow> branch_result \<Rightarrow> bool) \<Rightarrow> join_policy \<Rightarrow> error_policy \<Rightarrow> node \<Rightarrow> nat \<Rightarrow> nat \<Rightarrow> pool \<Rightarrow> bool" where
  "pool_inv may jp ep n len workers st \<longleftrightarrow>
     distinct (pool_places st) \<and> set (pool_places st) = {0..<wp_next st} \<and> wp_next st \<le> len \<and>
     length (wp_running st) \<le> workers \<and> wp_stream st = stream_all jp ep n len (wp_received st) \<and>
     (\<forall>(i, r) \<in> set (wp_buffer st @ wp_received st). \<exists>c. may i c r) \<and>
     (wp_closed st \<longrightarrow> wp_next st = len \<or> wp_cancelled st)"

lemma pool_inv_start [simp]: "pool_inv may jp ep n len workers (pool_start len)"
  by (simp add: pool_inv_def pool_start_def pool_places_def stream_all_def)

lemma pool_inv_step:
  assumes "pool_step may jp ep n len workers st st'" "pool_inv may jp ep n len workers st"
  shows "pool_inv may jp ep n len workers st'"
  using assms
proof cases
  case pool_feed
  then show ?thesis
    using assms(2) by (auto simp: pool_inv_def pool_places_def hand_out_def)
next
  case (pool_done i r)
  have "distinct (pool_places (branch_done i r st))" "set (pool_places (branch_done i r st)) = set (pool_places st)"
    using assms(2) pool_done(2) by (auto simp: pool_inv_def pool_places_def branch_done_def distinct_remove1 dest: in_set_remove1)
  moreover have "length (remove1 i (wp_running st)) \<le> length (wp_running st)" by (simp add: length_remove1)
  ultimately show ?thesis
    using assms(2) pool_done by (auto simp: pool_inv_def branch_done_def)
next
  case pool_read
  then obtain ir irs where "wp_buffer st = ir # irs" by (cases "wp_buffer st") auto
  then show ?thesis
    using assms(2) pool_read by (auto simp: pool_inv_def pool_places_def read_result_def Let_def stream_all_def)
qed (use assms(2) in \<open>auto simp: pool_inv_def pool_places_def\<close>)

text \<open>The steps that are left.\<close>

definition pool_work :: "nat \<Rightarrow> pool \<Rightarrow> nat" where
  "pool_work len st = 3 * (len - wp_next st) + 2 * length (wp_running st) + length (wp_buffer st) +
     (if wp_closed st then 0 else 1) + (if wp_cancelled st then 0 else 1)"

lemma pool_work_step:
  assumes "pool_step may jp ep n len workers st st'"
  shows "pool_work len st' < pool_work len st"
  using assms
proof cases
  case (pool_done i r)
  then obtain k where "length (wp_running st) = Suc k" by (cases "wp_running st") auto
  with pool_done show ?thesis by (simp add: pool_work_def branch_done_def length_remove1)
next
  case pool_read
  then obtain ir irs where "wp_buffer st = ir # irs" by (cases "wp_buffer st") auto
  then show ?thesis using pool_read by (simp add: pool_work_def read_result_def Let_def)
qed (auto simp: pool_work_def hand_out_def)

lemma pool_steps:
  assumes "(pool_step may jp ep n len workers ^^ m) (pool_start len) st"
  shows "pool_inv may jp ep n len workers st" and "m + pool_work len st \<le> 3 * len + 2"
proof -
  have "pool_inv may jp ep n len workers st \<and> m + pool_work len st \<le> 3 * len + 2"
    using assms
  proof (induction m arbitrary: st)
    case 0
    then have "st = pool_start len" by simp
    then show ?case by (simp, simp add: pool_work_def pool_start_def)
  next
    case (Suc m)
    then obtain st1 where "(pool_step may jp ep n len workers ^^ m) (pool_start len) st1" "pool_step may jp ep n len workers st1 st"
      by auto
    with Suc.IH [of st1] pool_inv_step [of may jp ep n len workers st1 st] pool_work_step [of may jp ep n len workers st1 st]
    show ?case by fastforce
  qed
  then show "pool_inv may jp ep n len workers st" "m + pool_work len st \<le> 3 * len + 2" by auto
qed

lemma pool_progress:
  assumes "pool_inv may jp ep n len workers st" "\<not> pool_finished st" "0 < workers" "\<forall>i < len. \<forall>c. \<exists>r. may i c r"
  shows "\<exists>st'. pool_step may jp ep n len workers st st'"
proof (cases "wp_buffer st \<noteq> []")
  case True
  then show ?thesis using pool_read by blast
next
  case False
  show ?thesis
  proof (cases "wp_running st")
    case (Cons i js)
    then have i: "i \<in> set (wp_running st)" by simp
    then have "i \<in> set (pool_places st)" by (simp add: pool_places_def)
    then have "i < len" using assms(1) by (auto simp: pool_inv_def)
    then obtain r where "may i (wp_cancelled st) r" using assms(4) by blast
    with i show ?thesis using pool_done by blast
  next
    case Nil
    with False assms(2) have "\<not> wp_closed st" by (simp add: pool_finished_def)
    show ?thesis
    proof (cases "wp_next st = len")
      case True
      with pool_close [OF \<open>\<not> wp_closed st\<close>] show ?thesis by blast
    next
      case False
      then have "wp_next st < len" using assms(1) by (simp add: pool_inv_def)
      moreover have "length (wp_running st) < workers" using Nil assms(3) by simp
      ultimately show ?thesis using pool_feed [OF \<open>\<not> wp_closed st\<close>] by blast
    qed
  qed
qed

lemma pool_finished_stuck: "pool_finished st \<Longrightarrow> \<not> pool_step may jp ep n len workers st st'"
  by (auto simp: pool_finished_def elim: pool_step.cases)

section \<open>Every schedule delivers\<close>

text \<open>
  C12: however the workers are interleaved, a dispatch of some branches comes to an end in at most three
  steps for each and two more, runs no more branches at once than max_parallel allows, and when it can
  go no further every branch has been read exactly once, unless it was cancelled.
\<close>

theorem pool_delivers:
  assumes "(pool_step may jp ep n len (pool_workers src len) ^^ m) (pool_start len) st" and "0 < len"
    and "\<forall>i < len. \<forall>c. \<exists>r. may i c r" and "\<forall>i c r. may i c r \<longrightarrow> BranchKey r \<noteq> ''''"
  shows "m \<le> 3 * len + 2 \<and> length (wp_running st) \<le> pool_workers src len \<and> valid_arrivals len (wp_received st) \<and>
    ((\<nexists>st'. pool_step may jp ep n len (pool_workers src len) st st') \<longrightarrow>
       pool_finished st \<and> (wp_cancelled st \<or> set (map fst (wp_received st)) = {0..<len}))"
proof -
  note inv = pool_steps [OF assms(1)]
  have "0 < pool_workers src len" using assms(2) by (simp add: pool_workers_def Let_def)
  then have stuck: "(\<nexists>st'. pool_step may jp ep n len (pool_workers src len) st st') \<longrightarrow> pool_finished st"
    using pool_progress [OF inv(1)] assms(3) by blast
  have "distinct (map fst (wp_received st))" using inv(1) by (simp add: pool_inv_def pool_places_def)
  moreover have "i < len \<and> BranchKey r \<noteq> ''''" if "(i, r) \<in> set (wp_received st)" for i r
  proof -
    have "i \<in> set (pool_places st)" using that by (force simp: pool_places_def)
    moreover have "\<exists>c. may i c r" using inv(1) that by (fastforce simp: pool_inv_def)
    ultimately show ?thesis using inv(1) assms(4) by (auto simp: pool_inv_def)
  qed
  ultimately have "valid_arrivals len (wp_received st)" by (auto simp: valid_arrivals_def)
  moreover have "pool_finished st \<longrightarrow> wp_cancelled st \<or> set (map fst (wp_received st)) = {0..<len}"
    using inv(1) by (auto simp: pool_finished_def pool_inv_def pool_places_def)
  ultimately show ?thesis using inv stuck by (auto simp: pool_inv_def)
qed

section \<open>Without cancellation the schedule does not matter\<close>

lemma slots_updates:
  "ss_slots (fold (stream_step jp ep n) arrivals st) = fold (\<lambda>(i, r) xs. xs[i := r]) arrivals (ss_slots st)"
  by (induction arrivals arbitrary: st) auto

lemma nth_updates:
  assumes "\<forall>(i, r) \<in> set arrivals. r = f i" "k < length xs"
  shows "fold (\<lambda>(i, r) xs. xs[i := r]) arrivals xs ! k = (if k \<in> fst ` set arrivals then f k else xs ! k)"
  using assms
proof (induction arrivals arbitrary: xs)
  case (Cons ir arrivals)
  obtain i r where ir: "ir = (i, r)" by (cases ir)
  have "fold (\<lambda>(i, r) xs. xs[i := r]) arrivals (xs[i := r]) ! k = (if k \<in> fst ` set arrivals then f k else xs[i := r] ! k)"
    using Cons.prems by (intro Cons.IH) auto
  with Cons.prems show ?case by (auto simp: ir nth_list_update)
qed simp

lemma length_updates: "length (fold (\<lambda>(i, r) xs. xs[i := r]) arrivals xs) = length xs"
  by (induction arrivals arbitrary: xs) auto

text \<open>
  C13: a dispatch that has ended without having been cancelled has the results of the plain one, which
  waits for all branches: the same list, whatever the schedule and the number of workers.
\<close>

theorem pool_schedule_irrelevant:
  assumes "(pool_step (\<lambda>i c r. i < length branches \<and> r = run i (branches ! i)) jp ep n (length branches) workers ^^ m)
      (pool_start (length branches)) st"
    and "pool_finished st" and "\<not> wp_cancelled st" and "\<forall>i < length branches. BranchKey (run i (branches ! i)) \<noteq> ''''"
  shows "dispatchParallelBranchesStreaming jp ep n (length branches) (wp_received st) = dispatchParallelBranches run branches"
proof -
  let ?n = "length branches" and ?f = "\<lambda>i. run i (branches ! i)"
  note inv = pool_steps(1) [OF assms(1)]
  have all: "fst ` set (wp_received st) = {0..<?n}"
    using inv assms(2,3) by (auto simp: pool_inv_def pool_finished_def pool_places_def)
  have own: "\<forall>(i, r) \<in> set (wp_received st). r = ?f i" using inv by (fastforce simp: pool_inv_def)
  have "ss_slots (stream_all jp ep n ?n (wp_received st)) = map ?f [0..<?n]"
  proof (rule nth_equalityI)
    show "length (ss_slots (stream_all jp ep n ?n (wp_received st))) = length (map ?f [0..<?n])"
      by (simp add: stream_all_def slots_updates length_updates)
    fix k assume "k < length (ss_slots (stream_all jp ep n ?n (wp_received st)))"
    then have "k < ?n" by (simp add: stream_all_def slots_updates length_updates)
    then show "ss_slots (stream_all jp ep n ?n (wp_received st)) ! k = map ?f [0..<?n] ! k"
      using nth_updates [OF own, of k "replicate ?n zero_branch_result"] all by (simp add: stream_all_def slots_updates)
  qed
  moreover have "filter (\<lambda>r. BranchKey r \<noteq> '''') (map ?f [0..<?n]) = map ?f [0..<?n]"
    using assms(4) by (simp add: filter_id_conv)
  moreover have "map (\<lambda>(i, e). run i e) (zip [0..<?n] branches) = map ?f [0..<?n]"
    by (rule nth_equalityI) simp_all
  ultimately show ?thesis by (simp add: dispatchParallelBranchesStreaming_def dispatchParallelBranches_def)
qed

section \<open>Schedules that can be played\<close>

datatype pool_move = Feed | Close | Done nat | Read

fun pool_play ::
  "(nat \<Rightarrow> branch_result) \<Rightarrow> join_policy \<Rightarrow> error_policy \<Rightarrow> node \<Rightarrow> nat \<Rightarrow> nat \<Rightarrow> pool_move list \<Rightarrow> pool \<Rightarrow> pool option" where
  "pool_play f jp ep n len workers [] st = Some st"
| "pool_play f jp ep n len workers (Feed # ms) st = (if \<not> wp_closed st \<and> wp_next st < len \<and> length (wp_running st) < workers
     then pool_play f jp ep n len workers ms (hand_out st) else None)"
| "pool_play f jp ep n len workers (Close # ms) st = (if \<not> wp_closed st \<and> wp_next st = len
     then pool_play f jp ep n len workers ms (st\<lparr>wp_closed := True\<rparr>) else None)"
| "pool_play f jp ep n len workers (Done i # ms) st = (if i \<in> set (wp_running st) \<and> i < len
     then pool_play f jp ep n len workers ms (branch_done i (f i) st) else None)"
| "pool_play f jp ep n len workers (Read # ms) st = (if wp_buffer st \<noteq> []
     then pool_play f jp ep n len workers ms (read_result jp ep n st) else None)"

lemma pool_play_steps:
  assumes "pool_play f jp ep n len workers ms st = Some st'" "\<forall>i c. i < len \<longrightarrow> may i c (f i)"
  shows "(pool_step may jp ep n len workers ^^ length ms) st st'"
  using assms(1)
proof (induction ms arbitrary: st)
  case (Cons mv ms)
  obtain st1 where "pool_step may jp ep n len workers st st1" "pool_play f jp ep n len workers ms st1 = Some st'"
  proof (cases mv)
    case Feed
    with Cons.prems that [of "hand_out st"] pool_feed [of st len workers may jp ep n] show ?thesis by (simp split: if_splits)
  next
    case Close
    with Cons.prems that [of "st\<lparr>wp_closed := True\<rparr>"] pool_close [of st len may jp ep n workers] show ?thesis
      by (simp split: if_splits)
  next
    case (Done i)
    with Cons.prems that [of "branch_done i (f i) st"] pool_done [of i st may "f i" jp ep n len workers] assms(2)
    show ?thesis by (simp split: if_splits)
  next
    case Read
    with Cons.prems that [of "read_result jp ep n st"] pool_read [of st may jp ep n len workers] show ?thesis
      by (simp split: if_splits)
  qed
  with Cons.IH [of st1] show ?case by (simp add: relpowp_Suc_I2 del: relpowp.simps)
qed simp

text \<open>Three branches on two workers, of which the second is slow.\<close>

definition pool_edges :: "edge list" where
  "pool_edges = [NewEdge ''fan'' ''a'', NewEdge ''fan'' ''b'', NewEdge ''fan'' ''c'']"

definition pool_src :: node where
  "pool_src = (NewNode ''fan'')\<lparr>node_attrs := [''max_parallel'' \<mapsto> ''2'']\<rparr>"

definition pool_result :: "nat \<Rightarrow> edge \<Rightarrow> branch_result" where
  "pool_result i e = ended (edge_to e) (if i = 1 then ''fail'' else ''success'')"

definition pool_schedule :: "pool_move list" where
  "pool_schedule = [Feed, Feed, Done 0, Feed, Read, Close, Done 2, Done 1, Read, Read]"

abbreviation pool_may :: "nat \<Rightarrow> bool \<Rightarrow> branch_result \<Rightarrow> bool" where
  "pool_may \<equiv> \<lambda>i c r. i < length pool_edges \<and> r = pool_result i (pool_edges ! i)"

lemma pool_played: "case pool_play (\<lambda>i. pool_result i (pool_edges ! i)) JoinWaitAll ErrContinue pool_src 3 2 pool_schedule (pool_start 3) of
    None \<Rightarrow> False | Some st \<Rightarrow> pool_finished st \<and> \<not> wp_cancelled st \<and> map fst (wp_received st) = [0, 2, 1]"
  by code_simp

lemma pool_played_steps:
  obtains st where "(pool_step pool_may JoinWaitAll ErrContinue pool_src (length pool_edges) 2 ^^ 10) (pool_start (length pool_edges)) st"
    "pool_finished st" "\<not> wp_cancelled st" "map fst (wp_received st) = [0, 2, 1]"
proof -
  have len: "length pool_edges = 3" by (simp add: pool_edges_def)
  obtain st where st: "pool_play (\<lambda>i. pool_result i (pool_edges ! i)) JoinWaitAll ErrContinue pool_src 3 2 pool_schedule (pool_start 3) = Some st"
    "pool_finished st" "\<not> wp_cancelled st" "map fst (wp_received st) = [0, 2, 1]"
    using pool_played by (auto split: option.splits)
  have "length pool_schedule = 10" by (simp add: pool_schedule_def)
  with pool_play_steps [OF st(1), of pool_may] len that [of st] st(2-4) show ?thesis by simp
qed

lemma pool_result_key: "i < length pool_edges \<Longrightarrow> BranchKey (pool_result i (pool_edges ! i)) \<noteq> ''''"
  by (auto simp: pool_edges_def pool_result_def ended_def NewEdge_def less_Suc_eq nth_Cons')

theorem pool_delivers_witness:
  "\<exists>st. (pool_step pool_may JoinWaitAll ErrContinue pool_src (length pool_edges) 2 ^^ 10) (pool_start (length pool_edges)) st \<and>
     length (wp_running st) \<le> 2 \<and> valid_arrivals 3 (wp_received st) \<and> set (map fst (wp_received st)) = {0..<3}"
proof -
  have two: "pool_workers pool_src 3 = 2" by code_simp
  have len: "length pool_edges = 3" by (simp add: pool_edges_def)
  obtain st where st: "(pool_step pool_may JoinWaitAll ErrContinue pool_src (length pool_edges) 2 ^^ 10) (pool_start (length pool_edges)) st"
    "pool_finished st" "\<not> wp_cancelled st" "map fst (wp_received st) = [0, 2, 1]"
    by (rule pool_played_steps)
  have "\<nexists>st'. pool_step pool_may JoinWaitAll ErrContinue pool_src (length pool_edges) 2 st st'"
    using pool_finished_stuck [OF st(2)] by blast
  moreover have "\<forall>i c r. pool_may i c r \<longrightarrow> BranchKey r \<noteq> ''''" using pool_result_key by blast
  ultimately show ?thesis
    using pool_delivers [where may = pool_may and src = pool_src and len = "length pool_edges" and m = 10 and st = st
        and jp = JoinWaitAll and ep = ErrContinue and n = pool_src] st(1,3)
    unfolding len two by auto
qed

theorem pool_schedule_irrelevant_witness:
  "\<exists>st :: pool. map fst (wp_received st) = [0, 2, 1] \<and>
     dispatchParallelBranchesStreaming JoinWaitAll ErrContinue pool_src (length pool_edges) (wp_received st) =
     dispatchParallelBranches pool_result pool_edges"
proof -
  obtain st where st: "(pool_step pool_may JoinWaitAll ErrContinue pool_src (length pool_edges) 2 ^^ 10) (pool_start (length pool_edges)) st"
    "pool_finished st" "\<not> wp_cancelled st" "map fst (wp_received st) = [0, 2, 1]"
    by (rule pool_played_steps)
  have "\<forall>i < length pool_edges. BranchKey (pool_result i (pool_edges ! i)) \<noteq> ''''" using pool_result_key by blast
  with pool_schedule_irrelevant [where branches = pool_edges and run = pool_result and m = 10 and workers = 2 and st = st
      and jp = JoinWaitAll and ep = ErrContinue and n = pool_src, OF st(1-3)] st(4)
  show ?thesis by (intro exI [of _ st]) simp
qed

end
