(* ===== verification/Spec2Isabelle.thy ===== *)
theory Spec2Isabelle
  imports Prelude VizOptions VizImage VizWrapper Cond GraphModel EdgeSelection StageExec StageRetry
    LoopPrimitive JoinSearch RunLoop RunSafety
    ParallelPolicy Subgraph DotFacts DotRoundtrip BranchNames Stylesheet Concurrent
    Validate PromptRules ValidateFacts Preparation PreparationFacts ValidatedRuns VizPage ResumeFacts OutcomeJson
    HumanGate Sse WebServer Handlers Durations ManagerLoop Tools Fidelity Ownership ArtifactStore WorkerPool
begin

text \<open>
  Kilroy, a runner of pipelines of agents: a verification development.

  \<^bold>\<open>The program.\<close>  Kilroy reads a pipeline written in a dialect of DOT, prepares and validates the graph,
  and walks it: each node is a stage that a handler runs, its outcome selects the next edge, and the
  run ends at an exit node, at a stage that fails for good, or at one of several breakers.  Stages may
  fan out into parallel branches or into concurrent regions that meet again at a join.  A dashboard in
  the browser draws the graph with viz.js.  The engine is Go
  (\<^verbatim>\<open>src/internal/attractor\<close>), the drawing is JavaScript (\<^verbatim>\<open>src/internal/server/ui\<close>).

  \<^bold>\<open>Parts and how they meet.\<close>  Paths of Go files are below \<^verbatim>\<open>src/internal/attractor\<close>.
  \<^item> Source to graph: DotLexer and DotParser (\<^verbatim>\<open>dot/comments.go\<close>, \<^verbatim>\<open>dot/lexer.go\<close>,
    \<^verbatim>\<open>dot/parser.go\<close>) build the graph of GraphModel (\<^verbatim>\<open>model/model.go\<close>), a record with the
    nodes by name, the edges in their order and the two indexes that AddEdge keeps.
  \<^item> Preparation: Preparation (PrepareWithOptions and the head of \<^verbatim>\<open>run\<close> in \<^verbatim>\<open>engine/engine.go\<close>,
    \<^verbatim>\<open>engine/transforms.go\<close>, \<^verbatim>\<open>engine/input_contract.go\<close>) resolves prompt files, applies the
    stylesheet of Stylesheet (\<^verbatim>\<open>style/stylesheet.go\<close>), expands placeholders and calls the rules of
    Validate and PromptRules (\<^verbatim>\<open>validate/*.go\<close>).
  \<^item> The main loop: RunLoop (\<^verbatim>\<open>runLoop\<close>, \<^verbatim>\<open>loopRestart\<close>, \<^verbatim>\<open>checkGoalGates\<close>).  Its state
    \<^verbatim>\<open>run_state\<close> holds the local variables of runLoop (current node, completed stages, retries,
    outcomes, visits), the context and the counters of the breakers that the Go engine keeps in the Engine
    struct.  One pass of the loop is \<^verbatim>\<open>run_step\<close>, in the order of the code: cancellation, missing
    node, visit limit, exit node or stage, cycle breaker, checkpoint, then \<^verbatim>\<open>after_stage\<close>.
  \<^item> A stage: StageRetry (executeWithRetry) over StageExec (executeNode, the output contract,
    \<^verbatim>\<open>engine/escalation.go\<close>) with the classes of failures of FailurePolicy
    (\<^verbatim>\<open>engine/loop_restart_policy.go\<close>, \<^verbatim>\<open>engine/failure_policy.go\<close>).  Outcomes and dynamic values
    are those of StageStatus (\<^verbatim>\<open>runtime/status.go\<close>), which OutcomeJson writes to a status.json and
    decodes over the JSON trees of Json; the context is RunContext (\<^verbatim>\<open>runtime/context.go\<close>).
  \<^item> Handlers: Handlers (the nodes that pass a run on, the conditional node, the end of an agent stage with
    the status files it may leave, and \<^verbatim>\<open>engine/provider_error_classification.go\<close>), Tools (shell
    commands), ManagerLoop (\<^verbatim>\<open>engine/manager_loop.go\<close>, whose child is prepared by Preparation and run by
    Subgraph), HumanGate (\<^verbatim>\<open>workflows/human_gate.go\<close>, the same code as WaitHumanHandler, and the
    interviewers of \<^verbatim>\<open>engine/interviewer_impls.go\<close>), Durations (parseDuration and the timeouts).  Each
    gives the outcome that executeNode takes over; \<^verbatim>\<open>conditional_run\<close>, \<^verbatim>\<open>agent_run\<close> and
    \<^verbatim>\<open>tool_run\<close> put one into the environment of a stage.
  \<^item> Beside the stages: Fidelity (\<^verbatim>\<open>engine/fidelity.go\<close> and the state it has in the engine, in
    checkpoints and after a resume), Ownership (\<^verbatim>\<open>engine/run_ownership_lock.go\<close>, one run in a
    directory), ArtifactStore (\<^verbatim>\<open>engine/artifact_store.go\<close>, memory and files).
  \<^item> What follows a stage: EdgeSelection (edge choice of \<^verbatim>\<open>engine.go\<close>, \<^verbatim>\<open>engine/next_hop.go\<close>)
    with the conditions of Cond (\<^verbatim>\<open>cond/cond.go\<close>), LoopPrimitive (\<^verbatim>\<open>engine/loop.go\<close>),
    JoinSearch (findJoinNode of \<^verbatim>\<open>engine/parallel_handlers.go\<close>), Concurrent
    (\<^verbatim>\<open>engine/concurrent.go\<close>).
  \<^item> Parallel branches: ParallelPolicy (policies, early termination, the handlers of parallel and fan-in
    nodes), Subgraph (runSubgraphUntil, one branch), WorkerPool (the goroutines
    of a fan-out), BranchNames (\<^verbatim>\<open>engine/branch_names.go\<close>).
  \<^item> Resumption: Resume (checkpoint of \<^verbatim>\<open>engine.go\<close>, \<^verbatim>\<open>runtime/checkpoint.go\<close>,
    \<^verbatim>\<open>engine/resume.go\<close>) writes the state behind a stage to a file, reads it back through JSON and
    finds the next node.
  \<^item> The server, below \<^verbatim>\<open>src/internal/server\<close>: Sse (the event streams of \<^verbatim>\<open>sse.go\<close>, channels with
    buffers), WebServer (questions that wait for an answer, \<^verbatim>\<open>interviewer.go\<close>, and the runs by name,
    \<^verbatim>\<open>registry.go\<close>).
  \<^item> The dashboard: VizOptions, VizImage, VizBase64, VizWrapper (the class Viz, the image code and the two
    wrappers of \<^verbatim>\<open>ui/viz.js\<close>) over the objects of JsObject, and VizRender (the worker side of
    \<^verbatim>\<open>ui/viz-render.js\<close>), and VizPage, the class helpers and the way both scripts register in
    a page.  A request travels from renderString through a wrapper to \<^verbatim>\<open>render\<close>
    and back as a message; VizWrapper shows that both wrappers provide the same service.
  Prelude and GoStrings hold what the components share: the string functions of the two standard
  libraries and the collections of simplification rules.

  \<^bold>\<open>How code is represented.\<close>  Structs are records, enumerations are datatypes, errors are sums with one
  constructor for each place that makes one; texts of messages are left out where nothing reads them.
  Strings are lists of bytes for Go and of UTF-16 units for JavaScript; the letter classes are those of
  ASCII.  Go maps are maps; where a range over a map can be observed, the order is an argument
  (\<^verbatim>\<open>order\<close>), and the theorems hold for every order.  Handlers, the clock, the file system, git and
  cancellation are records of answers (\<^verbatim>\<open>step_env\<close>, \<^verbatim>\<open>attempt_env\<close>,
  \<^verbatim>\<open>conc_env\<close>), universally quantified in the theorems.  Goroutines are schedules: a list that says
  which branch makes its next pass, and every theorem on them holds for all schedules, or for the fair
  ones where it says so.  Where several parties share a channel, a table or a file (Sse, WebServer,
  Ownership), they are step relations over the shared state, cut at the places where the code touches it.

  \<^bold>\<open>What the lemmas show.\<close>
  \<^item> Runs (RunSafety, this theory): a run ends within a bound; success needs all goal gates; counters stay
    below their limits in every reachable state; a restart keeps and drops what it says; a run of an
    accepted source meets no missing node but in the two cases the rules leave open.
  \<^item> Routing (EdgeSelection, Cond, JoinSearch): the chosen edge is the least one of a ranking, the join is
    the closest common node, the evaluator decides the grammar of conditions.
  \<^item> Stages (StageRetry, StageExec, FailurePolicy): outcomes are final and well-formed, the attempts
    follow the escalation chain, the signature of a failure identifies it; an outcome
    survives its status.json.
  \<^item> Handlers (Handlers, Tools, ManagerLoop, HumanGate): which outcome each gives on every branch and what
    becomes of it in executeNode; a success of a manager loop rests on a prepared child that ran to its end,
    which is stated in this theory.
  \<^item> The server and the files (Sse, WebServer, Ownership, ArtifactStore): invariants of all interleavings,
    and the traces in which the code breaks the promise of a comment.
  \<^item> Branches (ParallelPolicy, WorkerPool, Subgraph, Concurrent): early termination never changes a decision,
    every schedule of the workers delivers all results, branches
    end, a region succeeds exactly when its branches do.
  \<^item> Texts (DotFacts, DotRoundtrip, Stylesheet, PreparationFacts): the parsers are total, keep the
    invariant of the graph and invert the printers; placeholders are filled as by a template.
  \<^item> Rules (ValidateFacts, ValidatedRuns): reachability and the inside of a region are what the rules
    compute; what an accepted graph rules out at run time.
  \<^item> Resumption (ResumeFacts): a resumed run goes on as the run would have, but for loops, regions and
    restarting edges, and forgets visits and loop counters.
  \<^item> The dashboard (the Viz theories): a promise is settled once and by the answer to its own request, all
    buffers are freed, the base64 text decodes to the UTF-8 bytes.
  The interfaces are three locales: \<^verbatim>\<open>ranked_choice\<close>, a selection that returns a least element, which
  edge selection, join search, fan-in and stylesheets provide; \<^verbatim>\<open>render_service\<close>, the contract
  of a wrapper, which the worker and the in-page module provide; and \<^verbatim>\<open>keyed_store\<close>, a map with values that
  fit, which the artifact store provides.

  \<^bold>\<open>Bounds and fuel.\<close>  \<^verbatim>\<open>run_bound\<close> counts the visits max_node_visits leaves to each node over all
  restarts; RunSafety shows that so many passes end every run when the limit is set, and that a run without it
  may go on for ever.  The searches bfs, reach_loop and target_loop take one step for each edge and
  one more, which JoinSearch and ValidateFacts show to be enough.  The DOT parser takes the length of the source and
  one more; DotFacts shows that no source uses it up.  Branches of a region and of a fan-out make
  the passes their schedule gives them; region_terminates and branch_terminates state how many are enough.

  \<^bold>\<open>Not modelled.\<close>
  \<^item> What handlers call: agents and language models, the shell, people at a console, git worktrees, the
    databases, the HTTP handlers and the command line: input and output, parameters of the model.
  \<^item> Prompts, failure dossiers, input files of a run and provider preflight: texts and files outside the
    control flow modelled here.  Backoff delays are floating-point numbers with a jitter taken from a
    hash; whether a pause is cut short is an answer of the environment.
  \<^item> lintStylesheetModelIDs and the catalog of models: validation runs without a catalog.
  \<^item> The lexical level of JSON: a document is a tree, or a syntax error.
  \<^item> The compiled Graphviz module in \<^verbatim>\<open>viz-render.js\<close>, reached as a parameter through ccall, and
    the pages of the dashboard.
  \<^item> Letters beyond ASCII in case folding, and lengths that overflow a 64-bit integer.
\<close>

section \<open>From source text to the end of a run\<close>


text \<open>A source of three nodes, from its text to its run.\<close>

definition demo_stmts :: "stmt list" where
  "demo_stmts = [NodeStmt ''start'' [([''shape''], ''Mdiamond'')], NodeStmt ''check'' [([''shape''], ''diamond'')],
     NodeStmt ''exit'' [([''shape''], ''Msquare'')], EdgeStmt ''start'' ''check'' [''exit''] []]"

definition demo_graph :: graph where
  "demo_graph = fst (exec_stmts demo_stmts (NewGraph ''g'', [newScope []]))"

definition demo_env :: prepare_env where
  "demo_env = \<lparr>pe_read = (\<lambda>b p. None), pe_file_order = [], pe_rule_order = (\<lambda>r. [''exit'', ''start'', ''check''])\<rparr>"

definition demo_opts :: prepare_options where
  "demo_opts = \<lparr>po_transforms = [], po_repo_path = '''', po_graph_dir = '''', po_known_types = []\<rparr>"

lemma demo_parse: "Parse (print_graph ''g'' demo_stmts) = Inr demo_graph"
  unfolding demo_graph_def
proof (rule Parse_run)
  show "is_ident ''g''" by code_simp
  show "list_all good_stmt demo_stmts" by code_simp
qed

lemma demo_valid: "case ValidateWithOptions (pe_rule_order demo_env) [] (Some demo_graph) of
    None \<Rightarrow> False | Some ds \<Rightarrow> list_all (\<lambda>d. \<not> is_error d \<and> d_rule d \<noteq> ''retry_target_exists'') ds"
  by code_simp

lemma demo_attrs: "trim_space (graph_attr demo_graph ''model_stylesheet'') = ''''" "graph_attr demo_graph ''goal'' = ''''"
  by code_simp+

lemma demo_dom: "dom (g_nodes demo_graph) = {''start'', ''check'', ''exit''}"
  by (auto simp: demo_graph_def demo_stmts_def dom_add_nodes NewNode_def NewGraph_def)

lemma demo_prepared:
  "\<exists>diags. PrepareWithOptions demo_env demo_opts (print_graph ''g'' demo_stmts) = Inr (demo_graph, diags) \<and>
     (\<forall>d \<in> set diags. d_rule d \<noteq> ''retry_target_exists'')"
proof -
  obtain diags where diags: "ValidateWithOptions (pe_rule_order demo_env) [] (Some demo_graph) = Some diags"
      "list_all (\<lambda>d. \<not> is_error d \<and> d_rule d \<noteq> ''retry_target_exists'') diags"
    using demo_valid by (cases "ValidateWithOptions (pe_rule_order demo_env) [] (Some demo_graph)") auto
  have "transform_graph demo_env demo_opts demo_graph = Inr demo_graph"
    by (simp add: transform_graph_def demo_opts_def apply_model_stylesheet_def expandGoal_def demo_attrs Let_def)
  moreover have "validate_prepared demo_env (po_known_types demo_opts) demo_graph = Inr (demo_graph, diags)"
    using diags by (auto simp: validate_prepared_def demo_opts_def list_all_iff list_ex_iff)
  ultimately have "PrepareWithOptions demo_env demo_opts (print_graph ''g'' demo_stmts) = Inr (demo_graph, diags)"
    by (simp add: PrepareWithOptions_def demo_parse)
  with diags(2) show ?thesis by (auto simp: list_all_iff)
qed

definition demo_cfg :: run_cfg where
  "demo_cfg = \<lparr>rc_run_graph = run_graph (\<lambda>i k. []) [] ''0'' demo_graph, rc_registered = core_types,
     rc_base_logs_root = ''logs'', rc_base_sha = ''0''\<rparr>"


text \<open>
  C11: a manager loop succeeds only in a cycle up to max_cycles that the run reached uncancelled, and
  there because the stop condition holds or because the child it started was prepared without error
  diagnostics and has ended a run of its graph with a success or a partial success.
\<close>

theorem manager_success_justified:
  assumes "Status (ManagerLoopHandler child sent env g n) = StatusSuccess"
  shows "\<exists>k. 1 \<le> k \<and> k \<le> mg_max (manager_setup n) \<and> (\<forall>i. 1 \<le> i \<and> i \<le> k \<longrightarrow> \<not> cy_cancelled (env i)) \<and>
    ((child_autostart n \<and> sent k \<and> (\<exists>out. child_ran (child (child_dotfile g n)) out \<and>
        (Status out = StatusSuccess \<or> Status out = StatusPartialSuccess))) \<or>
     (mg_stop (manager_setup n) \<noteq> '''' \<and>
      Evaluate (mg_stop (manager_setup n)) (zero_outcome\<lparr>Status := StatusSuccess\<rparr>) (Some (cy_context (env k))) = Inr True))"
proof -
  let ?mg = "manager_setup n" and ?f = "child_dotfile g n"
  let ?env = "child_answers (child_autostart n \<and> ?f \<noteq> '''') (runChildPipeline (child ?f)) sent env"
  have run: "Status (manager_cycles ?mg ?env 1) = StatusSuccess"
    using assms by (auto simp: ManagerLoopHandler_def Let_def fail_outcome_def status_defs split: if_splits)
  obtain k where k: "1 \<le> k" "k \<le> mg_max ?mg" "\<forall>i. 1 \<le> i \<and> i < k \<longrightarrow> manager_cycle ?mg (?env i) i = None"
      "manager_cycle ?mg (?env k) k = Some (manager_cycles ?mg ?env 1)"
    using run by (cases rule: manager_cycles_cases [of 1 ?mg ?env]) (auto simp: fail_outcome_def status_defs)
  have same: "cy_cancelled (?env i) = cy_cancelled (env i)" "cy_context (?env i) = cy_context (env i)" for i
    by (simp_all add: child_answers_def)
  have "\<not> cy_cancelled (env i)" if "1 \<le> i" "i \<le> k" for i
    using that k(3) manager_cycle_success [OF k(4) run] same(1) [of i]
    by (cases "i = k") (auto simp: manager_cycle_def)
  moreover have "(\<exists>res. cy_child (?env k) = Some res \<and> (Status res = StatusSuccess \<or> Status res = StatusPartialSuccess)) \<longrightarrow>
      child_autostart n \<and> sent k \<and> (\<exists>out. child_ran (child ?f) out \<and> (Status out = StatusSuccess \<or> Status out = StatusPartialSuccess))"
    by (auto simp: child_answers_def split: if_splits intro: runChildPipeline_success)
  ultimately show ?thesis
    using manager_cycle_success [OF k(4) run] k(1,2) same(2) [of k] by metis
qed

text \<open>A manager node with that source as its child, which has ended when the second cycle looks.\<close>

definition manager_node :: node where
  "manager_node = (NewNode ''manager'')\<lparr>node_attrs := [''stack.child_dotfile'' \<mapsto> ''child.dot'']\<rparr>"

definition demo_child :: child_env where
  "demo_child = \<lparr>ce_file = Inr (print_graph ''g'' demo_stmts), ce_repo = '''', ce_prepare = demo_env,
     ce_order = [''exit'', ''start'', ''check''], ce_registered = core_types, ce_passes = (\<lambda>t. calm_env), ce_fuel = 5,
     ce_context = NewContext, ce_head = ''c0'', ce_prepare_text = (\<lambda>err. ''not prepared''), ce_sub_text = (\<lambda>err. ''not run'')\<rparr>"

definition calm_cycle :: cycle_env where
  "calm_cycle = \<lparr>cy_cancelled = False, cy_child = None, cy_context = NewContext,
     cy_error_text = (\<lambda>c err. ''bad condition''), cy_sleep = (\<lambda>d. True)\<rparr>"

lemma demo_child_runs: "\<exists>out. runChildPipeline demo_child = Some out \<and> Status out = StatusSuccess"
proof -
  have "child_options demo_child = demo_opts" by (simp add: child_options_def demo_child_def demo_opts_def)
  then obtain diags where prep: "PrepareWithOptions demo_env (child_options demo_child) (print_graph ''g'' demo_stmts) = Inr (demo_graph, diags)"
    using demo_prepared by auto
  let ?run = "runSubgraphUntil (child_cfg demo_child demo_graph) (ce_passes demo_child)
      (ce_fuel demo_child) ''start'' (ce_context demo_child) (ce_head demo_child)"
  have start: "findStartNodeID (ce_order demo_child) demo_graph = ''start''" by code_simp
  have "case ?run of Some (r, None) \<Rightarrow> Status (Outcome r) = StatusSuccess | _ \<Rightarrow> False" by code_simp
  then obtain r where "?run = Some (r, None)" "Status (Outcome r) = StatusSuccess"
    by (auto split: option.splits)
  moreover have "ce_file demo_child = Inr (print_graph ''g'' demo_stmts)" "ce_prepare demo_child = demo_env"
    by (simp_all add: demo_child_def)
  ultimately show ?thesis using prep start by (simp add: runChildPipeline_def Let_def)
qed

lemma manager_node_setup:
  "mg_max (manager_setup manager_node) = 1000" "mg_stop (manager_setup manager_node) = ''''"
  "''observe'' \<in> set (mg_actions (manager_setup manager_node))"
  "child_autostart manager_node" "child_dotfile demo_graph manager_node = ''child.dot''"
  by code_simp+

theorem manager_success_justified_witness:
  "\<exists>k out. 1 \<le> k \<and> k \<le> 1000 \<and> (2::int) \<le> k \<and> child_ran demo_child out"
proof -
  obtain out where out: "runChildPipeline demo_child = Some out" "Status out = StatusSuccess" using demo_child_runs by blast
  let ?env = "child_answers True (Some out) (\<lambda>k. 2 \<le> k) (\<lambda>k. calm_cycle)"
  have first: "manager_cycle (manager_setup manager_node) (?env 1) 1 = None"
    by (simp add: manager_cycle_def observe_child_def check_stop_def child_answers_def calm_cycle_def manager_node_setup)
  have second: "manager_cycle (manager_setup manager_node) (?env 2) 2 = Some (child_ended 2 out)"
    by (simp add: manager_cycle_def observe_child_def child_answers_def calm_cycle_def manager_node_setup)
  have "manager_cycle (manager_setup manager_node) (?env i) i = None" if "1 \<le> i" "i < 2" for i
  proof -
    have "i = 1" using that by simp
    with first show ?thesis by simp
  qed
  with second have "manager_cycles (manager_setup manager_node) ?env 1 = child_ended 2 out"
    by (intro manager_cycles_first [of 1 2]) (simp_all add: manager_node_setup)
  moreover have "ManagerLoopHandler (\<lambda>f. demo_child) (\<lambda>k. 2 \<le> k) (\<lambda>k. calm_cycle) demo_graph manager_node =
      manager_cycles (manager_setup manager_node) ?env 1"
    by (simp add: ManagerLoopHandler_def manager_node_setup out(1) Let_def)
  ultimately have "Status (ManagerLoopHandler (\<lambda>f. demo_child) (\<lambda>k. 2 \<le> k) (\<lambda>k. calm_cycle) demo_graph manager_node) = StatusSuccess"
    by (simp add: child_ended_def out(2))
  from manager_success_justified [OF this] show ?thesis by (auto simp: manager_node_setup)
qed

text \<open>A retry target of the graph that names no node passes validation and ends the run.\<close>

definition stray_graph :: graph where
  "stray_graph = (add_edges [NewEdge ''start'' ''check'', cond_edge ''check'' ''exit'' ''outcome=success'']
     (add_nodes [(NewNode ''start'')\<lparr>node_attrs := [''shape'' \<mapsto> ''Mdiamond'']\<rparr>,
        (NewNode ''check'')\<lparr>node_attrs := [''shape'' \<mapsto> ''diamond'', ''goal_gate'' \<mapsto> ''true'']\<rparr>,
        (NewNode ''exit'')\<lparr>node_attrs := [''shape'' \<mapsto> ''Msquare'']\<rparr>] (NewGraph ''g'')))
     \<lparr>g_attrs := [''retry_target'' \<mapsto> ''nowhere'']\<rparr>"

definition stray_cfg :: run_cfg where
  "stray_cfg = \<lparr>rc_run_graph = stray_graph, rc_registered = core_types, rc_base_logs_root = ''logs'', rc_base_sha = ''0''\<rparr>"

definition three_nodes :: "string \<Rightarrow> string list" where
  "three_nodes r = [''exit'', ''start'', ''check'']"

definition stray_state :: run_state where
  "stray_state = (initial_state ''exit'' NewContext)\<lparr>r_completed := [''start'', ''check''],
     r_outcomes := [''check'' \<mapsto> zero_outcome\<lparr>Status := ''fail'', FailureReason := ''wrong''\<rparr>]\<rparr>"

lemma stray_valid: "case ValidateWithOptions three_nodes [] (Some stray_graph) of
    None \<Rightarrow> False | Some ds \<Rightarrow> list_all (\<lambda>d. \<not> is_error d \<and> d_rule d \<noteq> ''retry_target_exists'') ds"
  by code_simp

lemma stray_run: "case run_step stray_cfg ((quiet_env zero_outcome)\<lparr>se_order := three_nodes ''''\<rparr>) stray_state of
    Stop r st \<Rightarrow> False
  | Goto st \<Rightarrow> (case run_step stray_cfg (quiet_env zero_outcome) st of
      Stop (RunFailed (MissingNode i)) st' \<Rightarrow> i = ''nowhere'' | _ \<Rightarrow> False)"
  by code_simp

section \<open>Concurrent regions of accepted graphs\<close>

text \<open>
  in a graph that passes the rules on nested regions and loops, no branch of a region fails on a
  loop node, and one fails on a nested region only by coming back to its own split or to a stray
  join, which the rules do not look at.
\<close>

theorem linted_region_errors:
  assumes "wf_graph g" "plain_ids g"
    and "lintNoNestedConcurrentRegions order g = []" "lintNoLoopsInConcurrentRegions order g = []"
    and "g_nodes g a = Some split" "isConcurrentSplit (node_Shape split)" "a \<in> set order"
    and "runConcurrentRegion registered g order' split schedule retries outcomes ctx = Some (j, Some st, err)"
    and "findPairedConcurrentJoinID order g a = j" "j \<noteq> ''''" "b \<in> set (cs_branches st)"
  shows "case Err (cb_result b) of
      Some (NestedLoop i) \<Rightarrow> False
    | Some (NestedRegion i) \<Rightarrow> i = a \<or> (\<exists>m. g_nodes g i = Some m \<and> isConcurrentJoin (node_Shape m))
    | _ \<Rightarrow> True"
proof -
  have a: "node_id split = a" by (rule wf_node_id [OF assms(1,5)])
  obtain spec es where run: "st = region_run registered g spec schedule (region_start es retries outcomes ctx)"
      "JoinNode spec = j" "es = filter (\<lambda>e. edge_from e = a) (g_edges g)"
    using assms(8) a by (auto simp: runConcurrentRegion_def parseConcurrentSpecFromNode_def Let_def split: option.splits if_splits)
  have "\<forall>e \<in> set es. edge_from e = a \<and> e \<in> set (g_edges g)" using run(3) by simp
  from inside_run [OF assms(1,2) this, where spec = spec] have inside: "inside_branch g a j b" using run(1,2) assms(11) by metis
  note plain = region_inside_plain [OF assms(3,4,7,5,6,9,10)]
  have split: "shapeToType (node_Shape split) = ''concurrent.split''"
    using assms(6) by (simp add: isConcurrentSplit_def shapeToType_def)
  have join: "isConcurrentJoin s" if "shapeToType s = ''concurrent.join''" for s
    using that by (auto simp: isConcurrentJoin_def shapeToType_def split: if_splits)
  have loop: False if e: "Err (cb_result b) = Some (NestedLoop i)" for i
  proof -
    obtain m where m: "between g a j i" "g_nodes g i = Some m" "shapeToType (node_Shape m) \<in> {''loop.begin'', ''loop.end''}"
      using inside e unfolding inside_branch_def by blast
    have "i \<noteq> a" using m(2,3) assms(5) split by auto
    from plain [OF m(1) this m(2)] m(3) show False by auto
  qed
  have region: "i = a \<or> (\<exists>m. g_nodes g i = Some m \<and> isConcurrentJoin (node_Shape m))"
    if e: "Err (cb_result b) = Some (NestedRegion i)" for i
  proof -
    obtain m where m: "between g a j i" "g_nodes g i = Some m" "shapeToType (node_Shape m) \<in> {''concurrent.split'', ''concurrent.join''}"
      using inside e unfolding inside_branch_def by blast
    from plain [OF m(1) _ m(2)] m(2,3) join show ?thesis by auto
  qed
  show ?thesis using loop region by (auto split: option.split conc_error.split)
qed

theorem linted_region_errors_witness:
  "case runConcurrentRegion core_types (fork_graph [NewEdge ''a'' ''j'']) [''j'', ''s''] split_node fork_schedule
     (\<lambda>i. 0) Map.empty NewContext of
     Some (j, Some st, err) \<Rightarrow> (\<forall>b \<in> set (cs_branches st). case Err (cb_result b) of
        Some (NestedLoop i) \<Rightarrow> False
      | Some (NestedRegion i) \<Rightarrow> i = ''s'' \<or>
          (\<exists>m. g_nodes (fork_graph [NewEdge ''a'' ''j'']) i = Some m \<and> isConcurrentJoin (node_Shape m))
      | _ \<Rightarrow> True)
   | _ \<Rightarrow> False"
proof -
  let ?g = "fork_graph [NewEdge ''a'' ''j'']"
  let ?r = "runConcurrentRegion core_types ?g [''j'', ''s''] split_node fork_schedule (\<lambda>i. 0) Map.empty NewContext"
  have "case ?r of Some (j, Some st, err) \<Rightarrow> j = ''j'' | _ \<Rightarrow> False" by code_simp
  then obtain st err where r: "?r = Some (''j'', Some st, err)" by (auto split: option.splits)
  have lints: "length (lintNoNestedConcurrentRegions [''j'', ''s''] ?g) = 0"
    "length (lintNoLoopsInConcurrentRegions [''j'', ''s''] ?g) = 0"
    "findPairedConcurrentJoinID [''j'', ''s''] ?g ''s'' = ''j''" by code_simp+
  have ids: "list_all (\<lambda>i. trim_space i = i \<and> \<not> isFanInFailureLike ?g i StatusRetry) [''s'', ''a'', ''b'', ''j'']" by code_simp
  have shape: "isConcurrentSplit (node_Shape split_node)" by code_simp
  have node: "g_nodes ?g ''s'' = Some split_node"
    by (simp add: fork_graph_def split_node_def add_nodes_def AddNode_def NewNode_def NewGraph_def)
  show ?thesis
    unfolding r option.case prod.case
  proof (intro ballI linted_region_errors [OF wf_fork _ _ _ node shape _ r])
    show "plain_ids ?g" using ids by (auto simp: plain_ids_def fork_nodes list_all_iff)
  qed (use lints in simp_all)
qed

section \<open>Conditions of which none holds\<close>

lemma unmatched_eligible:
  assumes "Outgoing g i \<noteq> []"
    and "\<forall>e \<in> set (Outgoing g i). conditional_edge e \<and> \<not> cond_holds out ctx e \<and> \<not> label_preferred out e \<and> \<not> suggested out e"
  shows "selectAllEligibleEdgesWithMeta g i out ctx =
    Inr (Outgoing g i, no_meta\<lparr>CandidatesEvaluated := length (Outgoing g i), Method := Fallback\<rparr>)"
proof -
  have "filter (cond_holds out ctx) (Outgoing g i) = []" "filter (\<lambda>e. \<not> conditional_edge e) (Outgoing g i) = []"
    using assms(2) by (simp_all add: filter_empty_conv)
  moreover have "preferred_edge out (Outgoing g i) = None"
    using assms(2) by (auto simp: preferred_edge_find find_sort_None)
  moreover have "suggested_edge out (Outgoing g i) = None"
    using assms(2) by (auto simp: suggested_edge_def sort_declared_def first_suggested_None suggested_def)
  ultimately show ?thesis
    using assms(1) by (simp add: selectAllEligibleEdgesWithMeta_def matchedEdges_filter Let_def)
qed

text \<open>
  a stage all of whose edges carry conditions of which none holds does not end the run: its edges
  are run in parallel where they converge, and otherwise the best of them is followed although its
  condition fails.
\<close>

theorem unmatched_conditions_followed:
  assumes "trim_space (node_id n) = node_id n" "node_id n \<noteq> ''''" "\<not> isFanInFailureLike (rc_run_graph cfg) (node_id n) (Status out)"
    and es: "es = Outgoing (rc_run_graph cfg) (node_id n)" "es \<noteq> []"
    and none: "\<forall>e \<in> set es. conditional_edge e \<and> \<not> cond_holds out (Some (r_context st)) e \<and>
      \<not> label_preferred out e \<and> \<not> suggested out e \<and> \<not> equal_fold (edge_Attr (Some e) ''loop_restart'' ''false'') ''true''"
  shows "fan_out cfg ev n out cls st =
    (case (1 < length es, findJoinNode (rc_run_graph cfg) es, se_branches ev) of
       (True, Inr (c # cs), Inr results) \<Rightarrow>
         goto_node (c # cs) None (st\<lparr>r_context := ctx_ApplyUpdates (r_context st)
           (Some [''parallel.join_node'' \<mapsto> VStr (c # cs),
                  ''parallel.merge_mode'' \<mapsto> VStr (classifyJoinMergeMode (rc_run_graph cfg) (c # cs)),
                  ''parallel.results'' \<mapsto> results])\<rparr>)
     | (True, Inr (c # cs), Inl err) \<Rightarrow> Stop (RunFailed (BranchesFailed err)) st
     | _ \<Rightarrow> goto_node (edge_to (bestEdge es)) (Some (bestEdge es)) st)"
proof -
  let ?g = "rc_run_graph cfg" and ?ctx = "Some (r_context st)"
  have "\<forall>e \<in> set es. conditional_edge e \<and> \<not> cond_holds out ?ctx e \<and> \<not> label_preferred out e \<and> \<not> suggested out e"
    using none by blast
  note sel = unmatched_eligible [OF es(2) [unfolded es(1)] this [unfolded es(1)], folded es(1)]
  have "bestEdge es \<in> set es" by (rule bestEdge_least(1) [OF es(2)])
  then have plain: "\<not> equal_fold (edge_Attr (Some (bestEdge es)) ''loop_restart'' ''false'') ''true''" using none by blast
  have "selectNextEdgeWithMeta ?g (node_id n) out ?ctx =
      Inr (Some (bestEdge es), no_meta\<lparr>CandidatesEvaluated := length es, Method := Fallback\<rparr>)"
    using es(2) by (simp add: selectNextEdgeWithMeta_def sel)
  then have route: "route cfg ev n out cls st = goto_node (edge_to (bestEdge es)) (Some (bestEdge es)) st"
    using assms(1-3) plain by (simp add: route_def resolveNextHop_def Let_def)
  show ?thesis
    by (simp add: fan_out_def sel route Let_def split: sum.split list.split bool.split)
qed

text \<open>A failed check whose only edge asks for success is followed to the exit.\<close>

definition gate_only_graph :: graph where
  "gate_only_graph = add_edges [NewEdge ''start'' ''check'', cond_edge ''check'' ''exit'' ''outcome=success'']
     (add_nodes [(NewNode ''start'')\<lparr>node_attrs := [''shape'' \<mapsto> ''Mdiamond'']\<rparr>,
        (NewNode ''check'')\<lparr>node_attrs := [''shape'' \<mapsto> ''box'', ''prompt'' \<mapsto> ''check'', ''llm_provider'' \<mapsto> ''openai'', ''llm_model'' \<mapsto> ''m'']\<rparr>,
        (NewNode ''exit'')\<lparr>node_attrs := [''shape'' \<mapsto> ''Msquare'']\<rparr>] (NewGraph ''g''))"

definition gate_only_cfg :: run_cfg where
  "gate_only_cfg = \<lparr>rc_run_graph = gate_only_graph, rc_registered = core_types, rc_base_logs_root = ''logs'', rc_base_sha = ''0''\<rparr>"

definition failed_check :: outcome where
  "failed_check = zero_outcome\<lparr>Status := ''fail'', FailureReason := ''wrong''\<rparr>"

theorem unmatched_conditions_followed_witness:
  "\<exists>e. fan_out gate_only_cfg (quiet_env zero_outcome) (NewNode ''check'') failed_check ''deterministic''
      (initial_state ''check'' NewContext) = goto_node ''exit'' (Some e) (initial_state ''check'' NewContext)"
proof -
  let ?es = "Outgoing gate_only_graph ''check''" and ?st = "initial_state ''check'' NewContext"
  have es: "length ?es = 1" "edge_to (bestEdge ?es) = ''exit''"
    "list_all (\<lambda>e. conditional_edge e \<and> \<not> cond_holds failed_check (Some (r_context ?st)) e \<and>
      \<not> label_preferred failed_check e \<and> \<not> suggested failed_check e \<and>
      \<not> equal_fold (edge_Attr (Some e) ''loop_restart'' ''false'') ''true'') ?es"
    by code_simp+
  have plain: "\<not> isFanInFailureLike gate_only_graph ''check'' (Status failed_check)" "trim_space ''check'' = ''check''" by code_simp+
  have "?es \<noteq> []" using es(1) by (cases ?es) auto
  then have "fan_out gate_only_cfg (quiet_env zero_outcome) (NewNode ''check'') failed_check ''deterministic'' ?st =
      goto_node ''exit'' (Some (bestEdge ?es)) ?st"
    using unmatched_conditions_followed [of "NewNode ''check''" gate_only_cfg failed_check ?es ?st
        "quiet_env zero_outcome" "''deterministic''"] es plain
    by (simp add: gate_only_cfg_def NewNode_def list_all_iff)
  then show ?thesis by blast
qed

text \<open>The validator accepts that graph, although the edge to the exit is there to keep failures from it.\<close>

lemma gate_only_accepted: "case ValidateWithOptions (\<lambda>r. [''exit'', ''start'', ''check'']) [] (Some gate_only_graph) of
    None \<Rightarrow> False | Some ds \<Rightarrow> list_all (\<lambda>d. \<not> is_error d) ds"
  by code_simp

end
